(* ===== verification/Sparkx_Prelude.thy ===== *)
theory Sparkx_Prelude
  imports Main "HOL-Library.Word" "HOL-Library.Char_ord" "HOL-Library.List_Lexorder"
    "HOL-Library.Product_Lexorder"
begin

text \<open>
  Shared vocabulary of the development.

  \<^item> Machine integers: \<open>u8\<close>, \<open>u16\<close>, \<open>u32\<close>, \<open>u64\<close> and \<open>i64\<close> are words of their width;
    the checked and saturating operations the Rust sources call are defined on them.  A
    \<open>usize\<close> is a \<open>nat\<close>: the sources are read for a 64-bit target, and the places where a
    \<open>usize\<close> is narrowed say so.
  \<^item> Strings are UTF-8 byte lists (\<open>string\<close>), ordered bytewise as Rust orders \<open>str\<close>;
    \<open>trim\<close> and \<open>char::is_whitespace\<close> are modelled on the UTF-8 encodings of the Unicode
    white-space characters.
  \<^item> \<open>src/error.rs\<close>: the error type.  A constructor that carries a message carries the
    format string of the source; interpolated arguments are not spliced in.
  \<^item> \<open>Result\<close> and the question-mark operator: \<open>rbind\<close>, \<open>rmap\<close> (\<open>collect\<close> into a
    \<open>Result\<close> of a vector) and \<open>rall\<close> (a loop of fallible checks).
  \<^item> \<open>BTreeMap\<close> as a strictly sorted association list, with its interface as the locale
    \<open>ordered_map\<close>.
  \<^item> The locale \<open>transition_system\<close>: invariants of reachable states, used by every state
    machine of the development.
\<close>

section \<open>Collections of facts\<close>

named_theorems result_simps \<open>unfolding of the result combinators\<close>
named_theorems btree_simps \<open>lookups after updates of ordered maps\<close>

section \<open>Machine integers\<close>

type_synonym u8 = "8 word"
type_synonym u16 = "16 word"
type_synonym u32 = "32 word"
type_synonym u64 = "64 word"
type_synonym i64 = "64 word"
type_synonym bytes = "u8 list"

definition checked_add :: "'a::len word \<Rightarrow> 'a word \<Rightarrow> 'a word option" where
  "checked_add a b = (if unat a + unat b < 2 ^ LENGTH('a) then Some (a + b) else None)"

definition saturating_add :: "'a::len word \<Rightarrow> 'a word \<Rightarrow> 'a word" where
  "saturating_add a b = (if unat a + unat b < 2 ^ LENGTH('a) then a + b else - 1)"

definition saturating_sub :: "'a::len word \<Rightarrow> 'a word \<Rightarrow> 'a word" where
  "saturating_sub a b = (if b \<le> a then a - b else 0)"

definition saturating_mul :: "'a::len word \<Rightarrow> 'a word \<Rightarrow> 'a word" where
  "saturating_mul a b = (if unat a * unat b < 2 ^ LENGTH('a) then a * b else - 1)"

lemma checked_add_Some_iff:
  "checked_add a b = Some (c :: 'a::len word) \<longleftrightarrow>
     unat a + unat b < 2 ^ LENGTH('a) \<and> unat c = unat a + unat b"
  by (auto simp: checked_add_def unat_add_lem word_unat_eq_iff)

lemma checked_add_None_iff:
  "checked_add a (b :: 'a::len word) = None \<longleftrightarrow> 2 ^ LENGTH('a) \<le> unat a + unat b"
  by (auto simp: checked_add_def)

lemma unat_minus_one_word_max: "unat (- 1 :: 'a::len word) = 2 ^ LENGTH('a) - 1"
  by (simp add: unsigned_minus_1_eq_mask mask_eq_exp_minus_1)

lemma unat_saturating_add:
  "unat (saturating_add a (b :: 'a::len word)) = min (unat a + unat b) (2 ^ LENGTH('a) - 1)"
proof (cases "unat a + unat b < 2 ^ LENGTH('a)")
  case True
  then have "unat (a + b) = unat a + unat b" by (simp add: unat_add_lem)
  with True show ?thesis by (simp add: saturating_add_def)
next
  case False
  then show ?thesis by (simp add: saturating_add_def unat_minus_one_word_max)
qed

lemma unat_saturating_sub: "unat (saturating_sub a (b :: 'a::len word)) = unat a - unat b"
proof (cases "b \<le> a")
  case True
  then show ?thesis by (simp add: saturating_sub_def unat_sub)
next
  case False
  then show ?thesis by (simp add: saturating_sub_def word_le_nat_alt)
qed

lemma unat_word_pred: "0 < (a :: 'a::len word) \<Longrightarrow> unat (a - 1) = unat a - 1"
  by (simp add: unat_minus_one word_neq_0_conv)

lemma unat_of_nat_small: "n < 2 ^ LENGTH('a) \<Longrightarrow> unat (of_nat n :: 'a::len word) = n"
  by (simp add: unsigned_of_nat take_bit_nat_eq_self)

lemma unat_pos_iff: "0 < unat (a :: 'a::len word) \<longleftrightarrow> a \<noteq> 0"
  by (simp add: unat_gt_0)

section \<open>Strings\<close>

text \<open>
  The Unicode characters with the White\_Space property are U+0009 to U+000D, U+0020, U+0085,
  U+00A0, U+1680, U+2000 to U+200A, U+2028, U+2029, U+202F, U+205F and U+3000.
  \<open>strip_space\<close> drops one of their UTF-8 encodings from the front of a byte list.
\<close>

definition byte_of :: "char \<Rightarrow> nat" where
  "byte_of c = of_char c"

fun strip_space :: "string \<Rightarrow> string option" where
  "strip_space [] = None"
| "strip_space (a # s) =
     (if 9 \<le> byte_of a \<and> byte_of a \<le> 13 \<or> byte_of a = 32 then Some s
      else (case s of
          [] \<Rightarrow> None
        | b # t \<Rightarrow>
            if byte_of a = 194 \<and> (byte_of b = 133 \<or> byte_of b = 160) then Some t
            else (case t of
                [] \<Rightarrow> None
              | c # u \<Rightarrow>
                  if byte_of a = 225 \<and> byte_of b = 154 \<and> byte_of c = 128
                   \<or> byte_of a = 226 \<and> byte_of b = 128 \<and>
                       (128 \<le> byte_of c \<and> byte_of c \<le> 138
                        \<or> byte_of c = 168 \<or> byte_of c = 169 \<or> byte_of c = 175)
                   \<or> byte_of a = 226 \<and> byte_of b = 129 \<and> byte_of c = 159
                   \<or> byte_of a = 227 \<and> byte_of b = 128 \<and> byte_of c = 128
                  then Some u else None)))"

lemma strip_space_shorter [simp]: "strip_space s = Some t \<Longrightarrow> length t < length s"
  by (induction s rule: strip_space.induct) (auto split: if_splits list.splits)

text \<open>\<open>blank s\<close> is \<open>s.trim().is_empty()\<close>: nothing but white space.\<close>

function blank :: "string \<Rightarrow> bool" where
  "blank s = (s = [] \<or> (case strip_space s of None \<Rightarrow> False | Some t \<Rightarrow> blank t))"
  by pat_completeness auto
termination
  by (relation "measure length") auto

declare blank.simps [simp del]

text \<open>\<open>has_whitespace s\<close> is \<open>s.chars().any(char::is_whitespace)\<close>.\<close>

fun has_whitespace :: "string \<Rightarrow> bool" where
  "has_whitespace [] = False"
| "has_whitespace (a # s) = (strip_space (a # s) \<noteq> None \<or> has_whitespace s)"

definition strip_prefix :: "string \<Rightarrow> string \<Rightarrow> string option" where
  "strip_prefix p s = (if take (length p) s = p then Some (drop (length p) s) else None)"

lemma blank_Nil [simp]: "blank []"
  by (subst blank.simps) simp

lemma blank_letter:
  assumes "32 < byte_of c" and "byte_of c < 128"
  shows "\<not> blank (c # s)"
proof -
  have "strip_space (c # s) = None"
    using assms by (auto split: list.splits)
  then show ?thesis by (subst blank.simps) simp
qed

text \<open>Decimal rendering of unsigned and signed integers, as \<open>Display\<close> prints them.\<close>

fun show_nat :: "nat \<Rightarrow> string" where
  "show_nat n = (if n < 10 then [char_of (n + 48)]
                 else show_nat (n div 10) @ [char_of (n mod 10 + 48)])"

declare show_nat.simps [simp del]

definition show_int :: "int \<Rightarrow> string" where
  "show_int i = (if i < 0 then ''-'' @ show_nat (nat (- i)) else show_nat (nat i))"

section \<open>Errors and results\<close>

text \<open>
  The error type of \<open>src/error.rs\<close>.  The last constructor is not one of its variants: \<open>EPanic\<close>
  stands for a Rust panic (\<open>unreachable!\<close>, an index out of bounds, a failed \<open>unwrap\<close>), so that a
  panicking branch of the source is a value of the model.
\<close>

datatype sparkx_error =
    EArrow string
  | EParquet string
  | EIo string
  | ESql string
  | EPlanning string
  | EExecution string
  | EUnsupported string
  | EProtocol string
  | ETransport string
  | ENotFound string
  | EResourceExhausted string
  | ETaskSuperseded
  | ECancelled
  | EChannelClosed
  | EPanic string

type_synonym 'a result = "sparkx_error + 'a"

definition rbind :: "'a result \<Rightarrow> ('a \<Rightarrow> 'b result) \<Rightarrow> 'b result" where
  "rbind r f = (case r of Inl e \<Rightarrow> Inl e | Inr x \<Rightarrow> f x)"

definition ok_or :: "'a option \<Rightarrow> sparkx_error \<Rightarrow> 'a result" where
  "ok_or x e = (case x of None \<Rightarrow> Inl e | Some y \<Rightarrow> Inr y)"

definition require :: "bool \<Rightarrow> sparkx_error \<Rightarrow> unit result" where
  "require b e = (if b then Inr () else Inl e)"

fun rmap :: "('a \<Rightarrow> 'b result) \<Rightarrow> 'a list \<Rightarrow> 'b list result" where
  "rmap f [] = Inr []"
| "rmap f (x # xs) = rbind (f x) (\<lambda>y. rbind (rmap f xs) (\<lambda>ys. Inr (y # ys)))"

fun rall :: "('a \<Rightarrow> unit result) \<Rightarrow> 'a list \<Rightarrow> unit result" where
  "rall f [] = Inr ()"
| "rall f (x # xs) = rbind (f x) (\<lambda>_. rall f xs)"

fun roption :: "('a \<Rightarrow> 'b result) \<Rightarrow> 'a option \<Rightarrow> 'b option result" where
  "roption f None = Inr None"
| "roption f (Some x) = rbind (f x) (\<lambda>y. Inr (Some y))"

definition is_ok :: "'a result \<Rightarrow> bool" where
  "is_ok r = (case r of Inl _ \<Rightarrow> False | Inr _ \<Rightarrow> True)"

lemma rbind_cong [fundef_cong]:
  "r = r' \<Longrightarrow> (\<And>x. r' = Inr x \<Longrightarrow> f x = f' x) \<Longrightarrow> rbind r f = rbind r' f'"
  by (cases r') (auto simp: rbind_def)

lemma rmap_cong [fundef_cong]:
  "xs = ys \<Longrightarrow> (\<And>x. x \<in> set ys \<Longrightarrow> f x = g x) \<Longrightarrow> rmap f xs = rmap g ys"
  by (induction ys arbitrary: xs) auto

lemma rall_cong [fundef_cong]:
  "xs = ys \<Longrightarrow> (\<And>x. x \<in> set ys \<Longrightarrow> f x = g x) \<Longrightarrow> rall f xs = rall g ys"
  by (induction ys arbitrary: xs) auto

lemma rbind_Inr [simp, result_simps]: "rbind (Inr x) f = f x"
  by (simp add: rbind_def)

lemma rbind_Inl [simp, result_simps]: "rbind (Inl e) f = Inl e"
  by (simp add: rbind_def)

lemma rbind_eq_Inr [result_simps]: "rbind r f = Inr y \<longleftrightarrow> (\<exists>x. r = Inr x \<and> f x = Inr y)"
  by (cases r) auto

lemma rbind_eq_Inl [result_simps]:
  "rbind r f = Inl e \<longleftrightarrow> r = Inl e \<or> (\<exists>x. r = Inr x \<and> f x = Inl e)"
  by (cases r) auto

lemma ok_or_eq_Inr [simp, result_simps]: "ok_or x e = Inr y \<longleftrightarrow> x = Some y"
  by (cases x) (auto simp: ok_or_def)

lemma ok_or_eq_Inl [simp, result_simps]: "ok_or x e = Inl d \<longleftrightarrow> x = None \<and> d = e"
  by (cases x) (auto simp: ok_or_def)

lemma ok_or_Some [simp]: "ok_or (Some y) e = Inr y"
  by simp

lemma ok_or_None [simp]: "ok_or None e = Inl e"
  by simp

lemma require_eq_Inr [simp, result_simps]: "require b e = Inr u \<longleftrightarrow> b"
  by (auto simp: require_def)

lemma require_eq_Inl [simp, result_simps]: "require b e = Inl d \<longleftrightarrow> \<not> b \<and> d = e"
  by (auto simp: require_def)

lemma require_True [simp]: "require True e = Inr ()"
  by (simp add: require_def)

lemma require_False [simp]: "require False e = Inl e"
  by (simp add: require_def)

lemma is_ok_simps [simp]: "is_ok (Inr x)" "\<not> is_ok (Inl e)"
  by (simp_all add: is_ok_def)

lemma is_ok_iff: "is_ok r \<longleftrightarrow> (\<exists>x. r = Inr x)"
  by (cases r) auto

lemma rall_eq_Inr: "rall f xs = Inr u \<longleftrightarrow> (\<forall>x\<in>set xs. f x = Inr ())"
  by (induction xs) (auto simp: rbind_eq_Inr)

lemma rmap_eq_Inr: "rmap f xs = Inr ys \<longleftrightarrow> list_all2 (\<lambda>x y. f x = Inr y) xs ys"
  by (induction xs arbitrary: ys) (auto simp: rbind_eq_Inr list_all2_Cons1)

lemma rmap_length: "rmap f xs = Inr ys \<Longrightarrow> length ys = length xs"
  by (auto simp: rmap_eq_Inr dest: list_all2_lengthD)

lemma rmap_nth: "rmap f xs = Inr ys \<Longrightarrow> i < length xs \<Longrightarrow> f (xs ! i) = Inr (ys ! i)"
  by (auto simp: rmap_eq_Inr dest: list_all2_nthD)

lemma rmap_Inr_map: "(\<And>x. x \<in> set xs \<Longrightarrow> f x = Inr (g x)) \<Longrightarrow> rmap f xs = Inr (map g xs)"
  by (induction xs) auto

lemma roption_eq_Inr:
  "roption f x = Inr y \<longleftrightarrow>
     (case x of None \<Rightarrow> y = None | Some a \<Rightarrow> (\<exists>b. f a = Inr b \<and> y = Some b))"
  by (cases x) (auto simp: rbind_eq_Inr)

end
