(* ===== verification/Btree_Map.thy ===== *)
theory Btree_Map
  imports Sparkx_Prelude
begin

text \<open>
  The standard library's \<open>BTreeMap\<close> and the interface its users rely on.

  A \<open>BTreeMap\<close> is a strictly sorted association list: iteration order is list order, and
  \<open>get\<close>, \<open>insert\<close>, \<open>get_mut\<close> followed by an in-place update, and \<open>remove\<close> are \<open>map_of\<close>,
  \<open>bt_insert\<close>, \<open>bt_update\<close> and \<open>bt_remove\<close>.  The locale \<open>ordered_map\<close> states what a client
  may assume of such a map; the coordinator, the control plane and the block stores use the
  facts of its interpretation \<open>bt\<close>.  The locale \<open>transition_system\<close> and its extension
  \<open>progress_system\<close> carry the induction over runs of a state machine.
\<close>

type_synonym ('k, 'v) btree = "('k \<times> 'v) list"

section \<open>Operations\<close>

fun bt_insert :: "'k::linorder \<Rightarrow> 'v \<Rightarrow> ('k, 'v) btree \<Rightarrow> ('k, 'v) btree" where
  "bt_insert k v [] = [(k, v)]"
| "bt_insert k v ((k', v') # m) =
     (if k < k' then (k, v) # (k', v') # m
      else if k = k' then (k, v) # m
      else (k', v') # bt_insert k v m)"

definition bt_update :: "'k \<Rightarrow> ('v \<Rightarrow> 'v) \<Rightarrow> ('k, 'v) btree \<Rightarrow> ('k, 'v) btree" where
  "bt_update k f m = map (\<lambda>(k', v). if k' = k then (k', f v) else (k', v)) m"

definition bt_remove :: "'k \<Rightarrow> ('k, 'v) btree \<Rightarrow> ('k, 'v) btree" where
  "bt_remove k m = filter (\<lambda>(k', v). k' \<noteq> k) m"

definition bt_keys :: "('k, 'v) btree \<Rightarrow> 'k list" where
  "bt_keys m = map fst m"

definition bt_ok :: "('k::linorder, 'v) btree \<Rightarrow> bool" where
  "bt_ok m = sorted_wrt (<) (map fst m)"

section \<open>Interface\<close>

locale ordered_map =
  fixes ok :: "'m \<Rightarrow> bool"
    and emp :: 'm
    and get :: "'m \<Rightarrow> 'k \<Rightarrow> 'v option"
    and ins :: "'k \<Rightarrow> 'v \<Rightarrow> 'm \<Rightarrow> 'm"
    and upd :: "'k \<Rightarrow> ('v \<Rightarrow> 'v) \<Rightarrow> 'm \<Rightarrow> 'm"
    and del :: "'k \<Rightarrow> 'm \<Rightarrow> 'm"
  assumes ok_emp: "ok emp"
    and get_emp: "get emp k = None"
    and ok_ins: "ok m \<Longrightarrow> ok (ins k v m)"
    and get_ins: "ok m \<Longrightarrow> get (ins k v m) = (get m)(k \<mapsto> v)"
    and ok_upd: "ok m \<Longrightarrow> ok (upd k f m)"
    and get_upd: "ok m \<Longrightarrow> get (upd k f m) = (get m)(k := map_option f (get m k))"
    and ok_del: "ok m \<Longrightarrow> ok (del k m)"
    and get_del: "ok m \<Longrightarrow> get (del k m) = (get m)(k := None)"
begin

text \<open>A property of all entries survives the three updates.\<close>

lemma entries_ins:
  assumes "ok m" and "\<And>j w. get m j = Some w \<Longrightarrow> P j w" and "P k v"
    and "get (ins k v m) j = Some w"
  shows "P j w"
  using assms by (auto simp: get_ins split: if_splits)

lemma entries_upd:
  assumes "ok m" and "\<And>j w. get m j = Some w \<Longrightarrow> P j w"
    and "\<And>w. get m k = Some w \<Longrightarrow> P k (f w)"
    and "get (upd k f m) j = Some w"
  shows "P j w"
  using assms by (auto simp: get_upd split: if_splits)

lemma entries_del:
  assumes "ok m" and "\<And>j w. get m j = Some w \<Longrightarrow> P j w" and "get (del k m) j = Some w"
  shows "P j w"
  using assms by (auto simp: get_del split: if_splits)

lemma dom_upd: "ok m \<Longrightarrow> dom (get (upd k f m)) = dom (get m)"
  by (auto simp: get_upd split: if_splits)

lemma ins_after_del: "ok m \<Longrightarrow> get (ins k v (del k m)) = get (ins k v m)"
  by (simp add: get_ins get_del ok_del)

end

section \<open>The sorted association list implements the interface\<close>

lemma bt_keys_insert: "fst ` set (bt_insert k v m) = insert k (fst ` set m)"
  by (induction m rule: bt_insert.induct) (simp_all add: insert_commute)

lemma bt_ok_insert [simp]: "bt_ok m \<Longrightarrow> bt_ok (bt_insert k v m)"
proof (induction m)
  case Nil
  then show ?case by (simp add: bt_ok_def)
next
  case (Cons e m)
  obtain k' v' where e: "e = (k', v')" by force
  have "fst x = k \<or> fst x \<in> fst ` set m" if "x \<in> set (bt_insert k v m)" for x
    using that bt_keys_insert [of k v m] by (metis imageI insertE)
  then have "k' < fst x" if "x \<in> set (bt_insert k v m)" "k' < k" for x
    using that Cons.prems e by (fastforce simp: bt_ok_def)
  with Cons e show ?case by (auto simp: bt_ok_def)
qed

lemma map_of_bt_insert: "map_of (bt_insert k v m) = (map_of m)(k \<mapsto> v)"
  by (induction m) auto

lemma bt_ok_distinct: "bt_ok m \<Longrightarrow> distinct (map fst m)"
  by (simp add: bt_ok_def strict_sorted_iff)

lemma map_fst_bt_update [simp]: "map fst (bt_update k f m) = map fst m"
  by (simp add: bt_update_def comp_def case_prod_unfold if_distrib cong: if_cong)

lemma bt_ok_update [simp]: "bt_ok (bt_update k f m) = bt_ok m"
  by (simp add: bt_ok_def)

lemma map_of_bt_update: "map_of (bt_update k f m) = (map_of m)(k := map_option f (map_of m k))"
  by (induction m) (auto simp: bt_update_def)

lemma bt_ok_remove [simp]: "bt_ok m \<Longrightarrow> bt_ok (bt_remove k m)"
  by (induction m) (auto simp: bt_ok_def bt_remove_def)

lemma map_of_bt_remove: "map_of (bt_remove k m) = (map_of m)(k := None)"
  by (induction m) (auto simp: bt_remove_def)

interpretation bt: ordered_map bt_ok "[]" map_of bt_insert bt_update bt_remove
  by unfold_locales
    (simp_all add: map_of_bt_insert map_of_bt_update map_of_bt_remove, simp add: bt_ok_def)

lemmas bt_lookup [simp, btree_simps] =
  map_of_bt_insert map_of_bt_update map_of_bt_remove

lemma bt_ok_Nil [simp]: "bt_ok []"
  by (rule bt.ok_emp)

lemma bt_in_set_iff: "bt_ok m \<Longrightarrow> (k, v) \<in> set m \<longleftrightarrow> map_of m k = Some v"
  by (simp add: bt_ok_distinct)

lemma bt_keys_dom: "set (bt_keys m) = dom (map_of m)"
  by (simp add: bt_keys_def dom_map_of_conv_image_fst)

lemma bt_ok_map_snd [simp]: "bt_ok (map (\<lambda>(k, v). (k, f k v)) m) = bt_ok m"
  by (simp add: bt_ok_def comp_def case_prod_unfold)

lemma map_of_map_snd: "map_of (map (\<lambda>(k, v). (k, f k v)) m) k = map_option (f k) (map_of m k)"
  by (induction m) auto

section \<open>Sums over the entries\<close>

lemma sum_list_bt_update:
  fixes h :: "'v \<Rightarrow> nat"
  assumes "bt_ok m" and "map_of m k = Some v"
  shows "(\<Sum>(_, x)\<leftarrow>bt_update k f m. h x) + h v = (\<Sum>(_, x)\<leftarrow>m. h x) + h (f v)"
  using assms
proof (induction m)
  case (Cons e m)
  obtain k' v' where e: "e = (k', v')" by force
  from Cons.prems have ok: "bt_ok m" and fresh: "k' = k \<Longrightarrow> k \<notin> fst ` set m"
    by (auto simp: bt_ok_def e)
  show ?case
  proof (cases "k' = k")
    case True
    have "bt_update k f m = m"
      using fresh [OF True] by (force simp: bt_update_def intro!: map_idI)
    then have "bt_update k f ((k', v') # m) = (k', f v') # m"
      using True by (simp add: bt_update_def)
    then show ?thesis using True Cons.prems(2) e by simp
  next
    case False
    then have "bt_update k f ((k', v') # m) = (k', v') # bt_update k f m"
      by (simp add: bt_update_def)
    then show ?thesis using False Cons.IH [OF ok] Cons.prems(2) e by simp
  qed
qed simp

lemma sum_list_bt_insert_fresh:
  fixes h :: "'v \<Rightarrow> nat"
  shows "map_of m k = None \<Longrightarrow>
    (\<Sum>(_, x)\<leftarrow>bt_insert k v m. h x) = h v + (\<Sum>(_, x)\<leftarrow>m. h x)"
  by (induction m) (auto split: if_splits)

lemma length_filter_update:
  "i < length xs \<Longrightarrow>
   length (filter P (xs[i := y])) + of_bool (P (xs ! i)) = length (filter P xs) + of_bool (P y)"
proof (induction xs arbitrary: i)
  case (Cons x xs)
  then show ?case by (cases i) auto
qed simp

text \<open>A map is determined by its lookups.\<close>

lemma bt_insert_twice [simp]: "bt_insert k v (bt_insert k w m) = bt_insert k v m"
  by (induction m rule: bt_insert.induct) auto

lemma bt_insert_same: "bt_ok m \<Longrightarrow> map_of m k = Some v \<Longrightarrow> bt_insert k v m = m"
proof (induction m)
  case (Cons e m)
  obtain k' v' where e: "e = (k', v')" by force
  have "k' \<noteq> k \<Longrightarrow> k' < k"
    using Cons.prems e by (auto simp: bt_ok_def dest!: map_of_SomeD)
  with Cons e show ?case by (auto simp: bt_ok_def)
qed simp

lemma bt_sorted_keys: "bt_ok m \<Longrightarrow> map fst m = sorted_list_of_set (dom (map_of m))"
  by (simp add: bt_ok_def strict_sorted_iff dom_map_of_conv_image_fst
      sorted_list_of_set.idem_if_sorted_distinct flip: set_map)

lemma bt_closed_form: "bt_ok m \<Longrightarrow> m = map (\<lambda>k. (k, the (map_of m k))) (sorted_list_of_set (dom (map_of m)))"
  by (auto simp: bt_in_set_iff comp_def simp flip: bt_sorted_keys intro!: map_idI [symmetric])

lemma bt_ext:
  assumes "bt_ok m" and "bt_ok m'" and "map_of m = map_of m'"
  shows "m = m'"
proof -
  have "m = map (\<lambda>k. (k, the (map_of m k))) (sorted_list_of_set (dom (map_of m)))"
    by (rule bt_closed_form [OF assms(1)])
  also have "\<dots> = m'"
    unfolding assms(3) by (rule bt_closed_form [OF assms(2), symmetric])
  finally show ?thesis .
qed

section \<open>State machines\<close>

locale transition_system =
  fixes init :: "'s \<Rightarrow> bool"
    and step :: "'s \<Rightarrow> 's \<Rightarrow> bool"
    and inv :: "'s \<Rightarrow> bool"
  assumes init_inv: "init s \<Longrightarrow> inv s"
    and step_inv: "inv s \<Longrightarrow> step s t \<Longrightarrow> inv t"
begin

lemma run_inv: "inv s \<Longrightarrow> step\<^sup>*\<^sup>* s t \<Longrightarrow> inv t"
  by (rotate_tac, induction rule: rtranclp_induct) (auto intro: step_inv)

lemma reachable_inv: "init s \<Longrightarrow> step\<^sup>*\<^sup>* s t \<Longrightarrow> inv t"
  by (blast intro: run_inv init_inv)

end

text \<open>A preorder every step of a run respects, for monotone facts of the history.\<close>

locale progress_system = transition_system +
  fixes ahead :: "'s \<Rightarrow> 's \<Rightarrow> bool"
  assumes ahead_refl: "ahead s s"
    and ahead_trans: "ahead s t \<Longrightarrow> ahead t u \<Longrightarrow> ahead s u"
    and ahead_step: "inv s \<Longrightarrow> step s t \<Longrightarrow> ahead s t"
begin

lemma run_ahead: "step\<^sup>*\<^sup>* s t \<Longrightarrow> inv s \<Longrightarrow> ahead s t"
proof (induction rule: rtranclp_induct)
  case base
  then show ?case by (simp add: ahead_refl)
next
  case (step t u)
  then show ?case by (blast intro: ahead_trans ahead_step run_inv)
qed

end

end
