(* ===== verification/Expr.thy ===== *)
theory Expr
  imports Btree_Map
begin

text \<open>
  \<open>src/query/expr.rs\<close>: scalar values, expressions, name resolution, type inference,
  simplification and row-wise evaluation.

  Arrow's data types, schemas, arrays and record batches are data of this theory: an array is
  its type and its cells, and \<open>TOther\<close> stands for every Arrow type the engine does not handle.
  A 64-bit float is its bit pattern.  Arrow's compute kernels, the \<open>Display\<close> text of a data type
  and of a float, and the float conversions are the fields of the record \<open>externs\<close>, an argument
  of every definition that uses them.
\<close>

section \<open>Arrow data\<close>

datatype data_type =
    TNull | TBoolean | TInt32 | TInt64 | TUInt32 | TUInt64 | TFloat32 | TFloat64 | TUtf8
  | TOther nat

record field =
  field_name :: string
  field_type :: data_type
  field_nullable :: bool
  field_metadata :: "(string, string) btree"

record schema =
  schema_fields :: "field list"
  schema_metadata :: "(string, string) btree"

datatype cell =
    CNull | CBool bool | CI32 u32 | CI64 i64 | CU32 u32 | CU64 u64 | CF32 u32 | CF64 u64
  | CUtf8 string | COther nat

record array =
  arr_type :: data_type
  arr_cells :: "cell list"

record batch =
  rb_schema :: schema
  rb_columns :: "array list"
  rb_num_rows :: nat

definition field_new :: "string \<Rightarrow> data_type \<Rightarrow> bool \<Rightarrow> field" where
  "field_new n t nullable =
     \<lparr>field_name = n, field_type = t, field_nullable = nullable, field_metadata = []\<rparr>"

definition schema_new :: "field list \<Rightarrow> schema" where
  "schema_new fs = \<lparr>schema_fields = fs, schema_metadata = []\<rparr>"

section \<open>Expressions\<close>

datatype scalar_value =
    SNull | SBoolean bool | SInt64 i64 | SUInt64 u64 | SFloat64 u64 | SUtf8 string

datatype operator =
    OpEq | OpNotEq | OpLt | OpLtEq | OpGt | OpGtEq | OpAnd | OpOr
  | OpAdd | OpSubtract | OpMultiply | OpDivide

datatype aggregate_function = AggCount | AggSum | AggSumUInt64 | AggMin | AggMax | AggAvg

datatype expr =
    Column string
  | Literal scalar_value
  | Binary expr operator expr
  | IsNull expr bool
  | Cast expr data_type
  | Alias expr string
  | Aggregate aggregate_function expr bool
  | Wildcard

record externs =
  x_type_name :: "data_type \<Rightarrow> string"
  x_f64_display :: "u64 \<Rightarrow> string"
  x_f32_to_f64 :: "u32 \<Rightarrow> u64"
  x_f64_to_f32 :: "u64 \<Rightarrow> u32"
  x_i64_to_f32 :: "i64 \<Rightarrow> u32"
  x_u64_to_f32 :: "u64 \<Rightarrow> u32"
  x_i64_to_f64 :: "i64 \<Rightarrow> u64"
  x_u64_to_f64 :: "u64 \<Rightarrow> u64"
  x_cast :: "array \<Rightarrow> data_type \<Rightarrow> array result"
  x_cmp :: "operator \<Rightarrow> array \<Rightarrow> array \<Rightarrow> array result"
  x_and_kleene :: "array \<Rightarrow> array \<Rightarrow> array result"
  x_or_kleene :: "array \<Rightarrow> array \<Rightarrow> array result"
  x_arith :: "operator \<Rightarrow> array \<Rightarrow> array \<Rightarrow> array result"
  x_is_null :: "array \<Rightarrow> array result"
  x_is_not_null :: "array \<Rightarrow> array result"
  x_batch_project :: "batch \<Rightarrow> nat list \<Rightarrow> batch result"
  x_batch_bytes :: "batch \<Rightarrow> nat"

section \<open>Scalar values\<close>

fun scalar_eq :: "scalar_value \<Rightarrow> scalar_value \<Rightarrow> bool" where
  "scalar_eq SNull SNull = True"
| "scalar_eq (SBoolean a) (SBoolean b) = (a = b)"
| "scalar_eq (SInt64 a) (SInt64 b) = (a = b)"
| "scalar_eq (SUInt64 a) (SUInt64 b) = (a = b)"
| "scalar_eq (SFloat64 a) (SFloat64 b) = (a = b)"
| "scalar_eq (SUtf8 a) (SUtf8 b) = (a = b)"
| "scalar_eq _ _ = False"

fun scalar_data_type :: "scalar_value \<Rightarrow> data_type" where
  "scalar_data_type SNull = TNull"
| "scalar_data_type (SBoolean _) = TBoolean"
| "scalar_data_type (SInt64 _) = TInt64"
| "scalar_data_type (SUInt64 _) = TUInt64"
| "scalar_data_type (SFloat64 _) = TFloat64"
| "scalar_data_type (SUtf8 _) = TUtf8"

datatype ordering = Less | Equal | Greater

definition compare_lin :: "'a::linorder \<Rightarrow> 'a \<Rightarrow> ordering" where
  "compare_lin a b = (if a < b then Less else if a = b then Equal else Greater)"

text \<open>
  IEEE 754 comparison of two bit patterns: NaN is unordered, the two zeros are equal, and
  otherwise the sign and the magnitude decide.
\<close>

definition f64_is_nan :: "u64 \<Rightarrow> bool" where
  "f64_is_nan b = (0x7FF0000000000000 < unat b mod 2 ^ 63)"

definition f64_key :: "u64 \<Rightarrow> int" where
  "f64_key b = (if unat b < 2 ^ 63 then int (unat b) else - int (unat b mod 2 ^ 63))"

definition f64_partial_cmp :: "u64 \<Rightarrow> u64 \<Rightarrow> ordering option" where
  "f64_partial_cmp a b =
     (if f64_is_nan a \<or> f64_is_nan b then None else Some (compare_lin (f64_key a) (f64_key b)))"

fun partial_compare :: "scalar_value \<Rightarrow> scalar_value \<Rightarrow> ordering option" where
  "partial_compare SNull SNull = Some Equal"
| "partial_compare SNull _ = Some Less"
| "partial_compare _ SNull = Some Greater"
| "partial_compare (SBoolean a) (SBoolean b) = Some (compare_lin a b)"
| "partial_compare (SInt64 a) (SInt64 b) = Some (compare_lin (sint a) (sint b))"
| "partial_compare (SUInt64 a) (SUInt64 b) = Some (compare_lin a b)"
| "partial_compare (SFloat64 a) (SFloat64 b) = f64_partial_cmp a b"
| "partial_compare (SUtf8 a) (SUtf8 b) = Some (compare_lin a b)"
| "partial_compare _ _ = None"

fun scalar_to_string :: "externs \<Rightarrow> scalar_value \<Rightarrow> string" where
  "scalar_to_string x SNull = ''NULL''"
| "scalar_to_string x (SBoolean b) = (if b then ''true'' else ''false'')"
| "scalar_to_string x (SInt64 i) = show_int (sint i)"
| "scalar_to_string x (SUInt64 u) = show_nat (unat u)"
| "scalar_to_string x (SFloat64 f) = x_f64_display x f"
| "scalar_to_string x (SUtf8 s) = CHR 0x27 # s @ [CHR 0x27]"

fun operator_to_string :: "operator \<Rightarrow> string" where
  "operator_to_string OpEq = ''=''"
| "operator_to_string OpNotEq = ''!=''"
| "operator_to_string OpLt = ''<''"
| "operator_to_string OpLtEq = ''<=''"
| "operator_to_string OpGt = ''>''"
| "operator_to_string OpGtEq = ''>=''"
| "operator_to_string OpAnd = ''AND''"
| "operator_to_string OpOr = ''OR''"
| "operator_to_string OpAdd = ''+''"
| "operator_to_string OpSubtract = ''-''"
| "operator_to_string OpMultiply = ''*''"
| "operator_to_string OpDivide = ''/''"

fun aggregate_upper :: "aggregate_function \<Rightarrow> string" where
  "aggregate_upper AggCount = ''COUNT''"
| "aggregate_upper AggSum = ''SUM''"
| "aggregate_upper AggSumUInt64 = ''SUMUINT64''"
| "aggregate_upper AggMin = ''MIN''"
| "aggregate_upper AggMax = ''MAX''"
| "aggregate_upper AggAvg = ''AVG''"

section \<open>Names and columns\<close>

text \<open>The text after the last dot: \<open>rsplit('.').next()\<close>.\<close>

definition unqualified :: "string \<Rightarrow> string" where
  "unqualified n = rev (takeWhile (\<lambda>c. c \<noteq> CHR ''.'') (rev n))"

fun expr_to_string :: "externs \<Rightarrow> expr \<Rightarrow> string" where
  "expr_to_string x (Column n) = ''#'' @ n"
| "expr_to_string x (Literal v) = scalar_to_string x v"
| "expr_to_string x (Binary l op r) =
     ''('' @ expr_to_string x l @ '' '' @ operator_to_string op @ '' '' @ expr_to_string x r @ '')''"
| "expr_to_string x (IsNull e negated) =
     ''('' @ expr_to_string x e @ '' IS '' @ (if negated then ''NOT '' else []) @ ''NULL)''"
| "expr_to_string x (Cast e t) =
     ''CAST('' @ expr_to_string x e @ '' AS '' @ x_type_name x t @ '')''"
| "expr_to_string x (Alias e a) = expr_to_string x e @ '' AS '' @ a"
| "expr_to_string x (Aggregate f e dist) =
     aggregate_upper f @ ''('' @ (if dist then ''DISTINCT '' else []) @ expr_to_string x e @ '')''"
| "expr_to_string x Wildcard = ''*''"

fun expr_name :: "externs \<Rightarrow> expr \<Rightarrow> string" where
  "expr_name x (Column n) = unqualified n"
| "expr_name x (Literal v) = scalar_to_string x v"
| "expr_name x (Binary l op r) = expr_to_string x (Binary l op r)"
| "expr_name x (IsNull e negated) = expr_to_string x (IsNull e negated)"
| "expr_name x (Cast e t) = expr_to_string x (Cast e t)"
| "expr_name x (Alias e a) = a"
| "expr_name x (Aggregate f e dist) = aggregate_upper f @ ''('' @ expr_to_string x e @ '')''"
| "expr_name x Wildcard = ''*''"

fun unalias :: "expr \<Rightarrow> expr" where
  "unalias (Alias e _) = e"
| "unalias e = e"

text \<open>A \<open>BTreeSet\<close> of names is a strictly sorted list.\<close>

fun collect_columns :: "expr \<Rightarrow> string list \<Rightarrow> string list" where
  "collect_columns (Column n) cs = insort_insert (unqualified n) cs"
| "collect_columns (Binary l op r) cs = collect_columns r (collect_columns l cs)"
| "collect_columns (IsNull e _) cs = collect_columns e cs"
| "collect_columns (Cast e _) cs = collect_columns e cs"
| "collect_columns (Alias e _) cs = collect_columns e cs"
| "collect_columns (Aggregate _ e _) cs = collect_columns e cs"
| "collect_columns (Literal _) cs = cs"
| "collect_columns Wildcard cs = cs"

definition columns :: "expr \<Rightarrow> string list" where
  "columns e = collect_columns e []"

fun contains_aggregate :: "expr \<Rightarrow> bool" where
  "contains_aggregate (Aggregate _ _ _) = True"
| "contains_aggregate (Binary l _ r) = (contains_aggregate l \<or> contains_aggregate r)"
| "contains_aggregate (IsNull e _) = contains_aggregate e"
| "contains_aggregate (Cast e _) = contains_aggregate e"
| "contains_aggregate (Alias e _) = contains_aggregate e"
| "contains_aggregate _ = False"

section \<open>Name resolution\<close>

definition positions :: "('a \<Rightarrow> bool) \<Rightarrow> 'a list \<Rightarrow> nat list" where
  "positions p xs = filter (\<lambda>i. p (xs ! i)) [0..<length xs]"

definition ambiguous_column :: sparkx_error where
  "ambiguous_column =
     EPlanning ''column {name} is ambiguous; qualify it with a table name or alias''"

definition column_missing :: sparkx_error where
  "column_missing = EPlanning ''column {name} does not exist''"

definition resolve_field_index :: "schema \<Rightarrow> string \<Rightarrow> nat result" where
  "resolve_field_index s n =
     (case positions (\<lambda>f. field_name f = n) (schema_fields s) of
        [i] \<Rightarrow> Inr i
      | _ # _ # _ \<Rightarrow> Inl ambiguous_column
      | [] \<Rightarrow>
          if CHR ''.'' \<in> set n \<and> list_ex (\<lambda>f. CHR ''.'' \<in> set (field_name f)) (schema_fields s)
          then Inl column_missing
          else (case positions (\<lambda>f. unqualified (field_name f) = unqualified n) (schema_fields s) of
              [i] \<Rightarrow> Inr i
            | _ # _ # _ \<Rightarrow> Inl ambiguous_column
            | [] \<Rightarrow> Inl column_missing))"

definition find_column :: "schema \<Rightarrow> string \<Rightarrow> nat result" where
  "find_column s n = resolve_field_index s n"

text \<open>Arrow's \<open>Schema::field\<close> and \<open>RecordBatch::column\<close> panic out of range.\<close>

definition schema_field :: "schema \<Rightarrow> nat \<Rightarrow> field result" where
  "schema_field s i =
     (if i < length (schema_fields s) then Inr (schema_fields s ! i)
      else Inl (EPanic ''index out of bounds''))"

definition batch_column :: "batch \<Rightarrow> nat \<Rightarrow> array result" where
  "batch_column b i =
     (if i < length (rb_columns b) then Inr (rb_columns b ! i)
      else Inl (EPanic ''index out of bounds''))"

definition find_field :: "schema \<Rightarrow> string \<Rightarrow> field result" where
  "find_field s n = rbind (resolve_field_index s n) (schema_field s)"

section \<open>Types\<close>

definition is_numeric :: "data_type \<Rightarrow> bool" where
  "is_numeric t \<longleftrightarrow> t \<in> {TInt32, TInt64, TUInt32, TUInt64, TFloat32, TFloat64}"

definition is_boolean_or_null :: "data_type \<Rightarrow> bool" where
  "is_boolean_or_null t \<longleftrightarrow> t \<in> {TBoolean, TNull}"

fun normalized_numeric_type :: "data_type \<Rightarrow> data_type option" where
  "normalized_numeric_type TInt32 = Some TInt64"
| "normalized_numeric_type TInt64 = Some TInt64"
| "normalized_numeric_type TUInt32 = Some TUInt64"
| "normalized_numeric_type TUInt64 = Some TUInt64"
| "normalized_numeric_type TFloat32 = Some TFloat64"
| "normalized_numeric_type TFloat64 = Some TFloat64"
| "normalized_numeric_type _ = None"

definition common_numeric_type :: "data_type \<Rightarrow> data_type \<Rightarrow> data_type option" where
  "common_numeric_type l r =
     (if l = TNull \<and> is_numeric r then normalized_numeric_type r
      else if r = TNull \<and> is_numeric l then normalized_numeric_type l
      else if \<not> is_numeric l \<or> \<not> is_numeric r then None
      else if l = TFloat64 \<or> r = TFloat64 \<or> l = TFloat32 \<or> r = TFloat32 then Some TFloat64
      else if l \<in> {TInt64, TInt32} \<and> r \<in> {TInt64, TInt32} then Some TInt64
      else if l \<in> {TUInt64, TUInt32} \<and> r \<in> {TUInt64, TUInt32} then Some TUInt64
      else None)"

abbreviation comparison :: "operator \<Rightarrow> bool" where
  "comparison op \<equiv> op \<in> {OpEq, OpNotEq, OpLt, OpLtEq, OpGt, OpGtEq}"

abbreviation arithmetic :: "operator \<Rightarrow> bool" where
  "arithmetic op \<equiv> op \<in> {OpAdd, OpSubtract, OpMultiply, OpDivide}"

definition binary_data_type :: "operator \<Rightarrow> data_type \<Rightarrow> data_type \<Rightarrow> data_type result" where
  "binary_data_type op l r =
     (if op \<in> {OpAnd, OpOr} then
        if is_boolean_or_null l \<and> is_boolean_or_null r then Inr TBoolean
        else Inl (EPlanning ''{op} requires Boolean operands, got {left_type} and {right_type}'')
      else if comparison op then
        if l = r \<or> l = TNull \<or> r = TNull \<or> common_numeric_type l r \<noteq> None then Inr TBoolean
        else Inl (EPlanning ''cannot compare {left_type} and {right_type}'')
      else ok_or (common_numeric_type l r)
        (EPlanning ''{op} requires numeric operands, got {left_type} and {right_type}''))"

fun expr_data_type :: "schema \<Rightarrow> expr \<Rightarrow> data_type result" where
  "expr_data_type s (Column n) = rbind (find_field s n) (\<lambda>f. Inr (field_type f))"
| "expr_data_type s (Literal v) = Inr (scalar_data_type v)"
| "expr_data_type s (Binary l op r) =
     rbind (expr_data_type s l) (\<lambda>lt.
     rbind (expr_data_type s r) (\<lambda>rt.
       binary_data_type op lt rt))"
| "expr_data_type s (IsNull e negated) = Inr TBoolean"
| "expr_data_type s (Cast e t) = Inr t"
| "expr_data_type s (Aggregate f e dist) =
     (case f of
        AggCount \<Rightarrow> Inr TUInt64
      | AggSumUInt64 \<Rightarrow> rbind (expr_data_type s e) (\<lambda>t.
          if t = TUInt64 then Inr TUInt64
          else Inl (EPlanning ''internal unsigned sum requires UInt64, got {input_type}''))
      | AggSum \<Rightarrow> rbind (expr_data_type s e) (\<lambda>t.
          if is_numeric t then Inr TFloat64
          else Inl (EPlanning ''{function} requires a numeric argument, got {input_type}''))
      | AggAvg \<Rightarrow> rbind (expr_data_type s e) (\<lambda>t.
          if is_numeric t then Inr TFloat64
          else Inl (EPlanning ''{function} requires a numeric argument, got {input_type}''))
      | AggMin \<Rightarrow> expr_data_type s e
      | AggMax \<Rightarrow> expr_data_type s e)"
| "expr_data_type s Wildcard =
     Inl (EPlanning ''wildcard must be expanded before type inference'')"
| "expr_data_type s (Alias e a) =
     (case e of Alias _ _ \<Rightarrow> Inl (EPanic ''unreachable'') | _ \<Rightarrow> expr_data_type s e)"

definition expr_field :: "externs \<Rightarrow> schema \<Rightarrow> expr \<Rightarrow> field result" where
  "expr_field x s e = rbind (expr_data_type s e) (\<lambda>t. Inr (field_new (expr_name x e) t True))"

section \<open>Arrays and scalars\<close>

definition array_of :: "data_type \<Rightarrow> cell list \<Rightarrow> array" where
  "array_of t cs = \<lparr>arr_type = t, arr_cells = cs\<rparr>"

fun scalar_array :: "scalar_value \<Rightarrow> nat \<Rightarrow> array result" where
  "scalar_array SNull n = Inr (array_of TNull (replicate n CNull))"
| "scalar_array (SBoolean v) n = Inr (array_of TBoolean (replicate n (CBool v)))"
| "scalar_array (SInt64 v) n = Inr (array_of TInt64 (replicate n (CI64 v)))"
| "scalar_array (SUInt64 v) n = Inr (array_of TUInt64 (replicate n (CU64 v)))"
| "scalar_array (SFloat64 v) n = Inr (array_of TFloat64 (replicate n (CF64 v)))"
| "scalar_array (SUtf8 v) n = Inr (array_of TUtf8 (replicate n (CUtf8 v)))"

text \<open>
  A cell is null or holds a value of the array's type: what Arrow's typed arrays guarantee.
  \<open>value_at\<close> on any other array is a failed downcast.
\<close>

fun cell_fits :: "data_type \<Rightarrow> cell \<Rightarrow> bool" where
  "cell_fits t CNull = True"
| "cell_fits t (CBool _) = (t = TBoolean)"
| "cell_fits t (CI32 _) = (t = TInt32)"
| "cell_fits t (CI64 _) = (t = TInt64)"
| "cell_fits t (CU32 _) = (t = TUInt32)"
| "cell_fits t (CU64 _) = (t = TUInt64)"
| "cell_fits t (CF32 _) = (t = TFloat32)"
| "cell_fits t (CF64 _) = (t = TFloat64)"
| "cell_fits t (CUtf8 _) = (t = TUtf8)"
| "cell_fits t (COther _) = (case t of TOther _ \<Rightarrow> True | _ \<Rightarrow> False)"

definition array_ok :: "array \<Rightarrow> bool" where
  "array_ok a \<longleftrightarrow> list_all (cell_fits (arr_type a)) (arr_cells a)
     \<and> (arr_type a = TNull \<longrightarrow> list_all (\<lambda>c. c = CNull) (arr_cells a))"

definition value_of_cell :: "externs \<Rightarrow> data_type \<Rightarrow> cell \<Rightarrow> scalar_value result" where
  "value_of_cell x t c =
     (case c of
        CNull \<Rightarrow> Inr SNull
      | CBool v \<Rightarrow> if t = TBoolean then Inr (SBoolean v) else Inl (EPanic ''unwrap'')
      | CI32 v \<Rightarrow> if t = TInt32 then Inr (SInt64 (scast v)) else Inl (EPanic ''unwrap'')
      | CI64 v \<Rightarrow> if t = TInt64 then Inr (SInt64 v) else Inl (EPanic ''unwrap'')
      | CU32 v \<Rightarrow> if t = TUInt32 then Inr (SUInt64 (ucast v)) else Inl (EPanic ''unwrap'')
      | CU64 v \<Rightarrow> if t = TUInt64 then Inr (SUInt64 v) else Inl (EPanic ''unwrap'')
      | CF32 v \<Rightarrow> if t = TFloat32 then Inr (SFloat64 (x_f32_to_f64 x v)) else Inl (EPanic ''unwrap'')
      | CF64 v \<Rightarrow> if t = TFloat64 then Inr (SFloat64 v) else Inl (EPanic ''unwrap'')
      | CUtf8 v \<Rightarrow> if t = TUtf8 then Inr (SUtf8 v) else Inl (EPanic ''unwrap'')
      | COther _ \<Rightarrow> Inl (EUnsupported ''scalar extraction for {other}''))"

definition value_at :: "externs \<Rightarrow> array \<Rightarrow> nat \<Rightarrow> scalar_value result" where
  "value_at x a row =
     (if row < length (arr_cells a) then value_of_cell x (arr_type a) (arr_cells a ! row)
      else Inl (EPanic ''index out of bounds''))"

definition cell_of_scalar :: "externs \<Rightarrow> data_type \<Rightarrow> scalar_value \<Rightarrow> cell" where
  "cell_of_scalar x t v =
     (case t of
        TBoolean \<Rightarrow> (case v of SBoolean b \<Rightarrow> CBool b | _ \<Rightarrow> CNull)
      | TInt32 \<Rightarrow> (case v of SInt64 i \<Rightarrow> CI32 (ucast i) | _ \<Rightarrow> CNull)
      | TInt64 \<Rightarrow> (case v of SInt64 i \<Rightarrow> CI64 i | _ \<Rightarrow> CNull)
      | TUInt32 \<Rightarrow> (case v of SUInt64 i \<Rightarrow> CU32 (ucast i) | _ \<Rightarrow> CNull)
      | TUInt64 \<Rightarrow> (case v of SUInt64 i \<Rightarrow> CU64 i | _ \<Rightarrow> CNull)
      | TFloat32 \<Rightarrow> (case v of
            SFloat64 f \<Rightarrow> CF32 (x_f64_to_f32 x f)
          | SInt64 i \<Rightarrow> CF32 (x_i64_to_f32 x i)
          | SUInt64 i \<Rightarrow> CF32 (x_u64_to_f32 x i)
          | _ \<Rightarrow> CNull)
      | TFloat64 \<Rightarrow> (case v of
            SFloat64 f \<Rightarrow> CF64 f
          | SInt64 i \<Rightarrow> CF64 (x_i64_to_f64 x i)
          | SUInt64 i \<Rightarrow> CF64 (x_u64_to_f64 x i)
          | _ \<Rightarrow> CNull)
      | TUtf8 \<Rightarrow> (case v of SUtf8 s \<Rightarrow> CUtf8 s | _ \<Rightarrow> CNull)
      | _ \<Rightarrow> CNull)"

definition scalars_to_array ::
  "externs \<Rightarrow> scalar_value list \<Rightarrow> data_type \<Rightarrow> array result" where
  "scalars_to_array x vs t =
     (case t of
        TNull \<Rightarrow> Inl (EUnsupported ''building output arrays for {other}'')
      | TOther _ \<Rightarrow> Inl (EUnsupported ''building output arrays for {other}'')
      | _ \<Rightarrow> Inr (array_of t (map (cell_of_scalar x t) vs)))"

section \<open>Evaluation\<close>

definition as_boolean :: "array \<Rightarrow> array result" where
  "as_boolean a =
     (if arr_type a = TBoolean then Inr a else Inl (EExecution ''boolean expression expected''))"

definition coercion_target :: "operator \<Rightarrow> data_type \<Rightarrow> data_type \<Rightarrow> data_type option" where
  "coercion_target op l r =
     (if arithmetic op then common_numeric_type l r
      else if l = TNull then Some r
      else if r = TNull then Some l
      else common_numeric_type l r)"

definition apply_operator :: "externs \<Rightarrow> operator \<Rightarrow> array \<Rightarrow> array \<Rightarrow> array result" where
  "apply_operator x op l r =
     (case op of
        OpAnd \<Rightarrow> rbind (as_boolean l) (\<lambda>lb. rbind (as_boolean r) (\<lambda>rb. x_and_kleene x lb rb))
      | OpOr \<Rightarrow> rbind (as_boolean l) (\<lambda>lb. rbind (as_boolean r) (\<lambda>rb. x_or_kleene x lb rb))
      | _ \<Rightarrow> if comparison op then x_cmp x op l r else x_arith x op l r)"

definition evaluate_binary ::
  "externs \<Rightarrow> nat \<Rightarrow> operator \<Rightarrow> array \<Rightarrow> array \<Rightarrow> array result" where
  "evaluate_binary x rows op l r =
     (if arr_type l = TNull \<and> arr_type r = TNull then
        if arithmetic op
        then Inl (EExecution ''cannot infer the type of arithmetic on NULL values'')
        else Inr (array_of TBoolean (replicate rows CNull))
      else if arr_type l \<noteq> arr_type r then
        rbind (ok_or (coercion_target op (arr_type l) (arr_type r))
                 (EExecution ''cannot apply {op} to {} and {}'')) (\<lambda>target.
        rbind (x_cast x l target) (\<lambda>l'.
        rbind (x_cast x r target) (\<lambda>r'.
          apply_operator x op l' r')))
      else apply_operator x op l r)"

fun evaluate :: "externs \<Rightarrow> batch \<Rightarrow> expr \<Rightarrow> array result" where
  "evaluate x b (Column n) = rbind (find_column (rb_schema b) n) (batch_column b)"
| "evaluate x b (Literal v) = scalar_array v (rb_num_rows b)"
| "evaluate x b (Binary l op r) =
     rbind (evaluate x b l) (\<lambda>la.
     rbind (evaluate x b r) (\<lambda>ra.
       evaluate_binary x (rb_num_rows b) op la ra))"
| "evaluate x b (Cast e t) = rbind (evaluate x b e) (\<lambda>a. x_cast x a t)"
| "evaluate x b (IsNull e negated) =
     rbind (evaluate x b e) (\<lambda>a. if negated then x_is_not_null x a else x_is_null x a)"
| "evaluate x b (Aggregate f e dist) =
     Inl (EExecution ''aggregate expression cannot be evaluated row-wise'')"
| "evaluate x b Wildcard = Inl (EExecution ''wildcard must be expanded before execution'')"
| "evaluate x b (Alias e a) =
     (case e of Alias _ _ \<Rightarrow> Inl (EPanic ''unreachable'') | _ \<Rightarrow> evaluate x b e)"

section \<open>Simplification\<close>

definition typed_literal :: "scalar_value \<Rightarrow> data_type \<Rightarrow> expr" where
  "typed_literal v t =
     (if scalar_data_type v = t then Literal v else Cast (Literal v) t)"

fun is_null_expression :: "expr \<Rightarrow> bool" where
  "is_null_expression (Literal v) = (v = SNull)"
| "is_null_expression (Cast e _) = is_null_expression e"
| "is_null_expression (Alias e _) = (case e of Alias _ _ \<Rightarrow> False | _ \<Rightarrow> is_null_expression e)"
| "is_null_expression _ = False"

definition boolean_literal :: "expr \<Rightarrow> bool option" where
  "boolean_literal e = (case unalias e of Literal (SBoolean b) \<Rightarrow> Some b | _ \<Rightarrow> None)"

text \<open>The one-row batch without columns on which constant expressions are folded.\<close>

definition constant_batch :: batch where
  "constant_batch = \<lparr>rb_schema = schema_new [], rb_columns = [], rb_num_rows = 1\<rparr>"

definition simplify_logic :: "expr \<Rightarrow> operator \<Rightarrow> expr \<Rightarrow> expr" where
  "simplify_logic l op r =
     (let bl = boolean_literal l; br = boolean_literal r in
      if op = OpAnd \<and> bl = Some True \<or> op = OpOr \<and> bl = Some False then r
      else if op = OpAnd \<and> br = Some True \<or> op = OpOr \<and> br = Some False then l
      else if op = OpAnd \<and> bl = Some False \<or> op = OpAnd \<and> br = Some False
            \<or> op = OpOr \<and> bl = Some True \<or> op = OpOr \<and> br = Some True
      then Literal (SBoolean (op = OpOr))
      else Binary l op r)"

definition simplify_node :: "externs \<Rightarrow> schema \<Rightarrow> expr \<Rightarrow> expr result" where
  "simplify_node x s e =
     rbind (expr_data_type s e) (\<lambda>output_type.
       if columns e = [] \<and> \<not> contains_aggregate e then
         rbind (evaluate x constant_batch e) (\<lambda>a.
         rbind (value_at x a 0) (\<lambda>v.
           Inr (typed_literal v (arr_type a))))
       else (case e of
           Binary l op r \<Rightarrow>
             if (comparison op \<or> arithmetic op) \<and> (is_null_expression l \<or> is_null_expression r)
             then Inr (typed_literal SNull output_type)
             else Inr (simplify_logic l op r)
         | _ \<Rightarrow> Inr e))"

fun simplify :: "externs \<Rightarrow> schema \<Rightarrow> expr \<Rightarrow> expr result" where
  "simplify x s (Binary l op r) =
     rbind (simplify x s l) (\<lambda>l'.
     rbind (simplify x s r) (\<lambda>r'.
       simplify_node x s (Binary l' op r')))"
| "simplify x s (IsNull e negated) =
     rbind (simplify x s e) (\<lambda>e'. simplify_node x s (IsNull e' negated))"
| "simplify x s (Cast e t) = rbind (simplify x s e) (\<lambda>e'. simplify_node x s (Cast e' t))"
| "simplify x s (Alias e a) = rbind (simplify x s e) (\<lambda>e'. Inr (Alias e' a))"
| "simplify x s (Aggregate f e dist) =
     rbind (simplify x s e) (\<lambda>e'. Inr (Aggregate f e' dist))"
| "simplify x s Wildcard = Inr Wildcard"
| "simplify x s (Column n) = simplify_node x s (Column n)"
| "simplify x s (Literal v) = simplify_node x s (Literal v)"

end
