(* ===== verification/Catalog.thy ===== *)
theory Catalog
  imports Expr
begin

text \<open>
  \<open>src/storage/catalog.rs\<close>: table providers, the catalog and the in-memory table.

  A \<open>TableRef\<close> is the record of the operations of the trait \<open>TableProvider\<close> at one object.
  The catalog's \<open>HashMap\<close> is an ordered map: the only operation that lists it sorts the names.
\<close>

record table_provider =
  tp_schema :: schema
  tp_partition_count :: nat
  tp_estimated_bytes :: u64
  tp_partition_may_match :: "nat \<Rightarrow> expr list \<Rightarrow> bool result"
  tp_scan_partition :: "nat \<Rightarrow> nat list option \<Rightarrow> nat \<Rightarrow> batch list result"

type_synonym catalog = "(string, table_provider) btree"

definition ascii_lower :: "char \<Rightarrow> char" where
  "ascii_lower c = (if 65 \<le> byte_of c \<and> byte_of c \<le> 90 then char_of (byte_of c + 32) else c)"

definition to_ascii_lowercase :: "string \<Rightarrow> string" where
  "to_ascii_lowercase s = map ascii_lower s"

definition catalog_register :: "string \<Rightarrow> table_provider \<Rightarrow> catalog \<Rightarrow> catalog" where
  "catalog_register name p c = bt_insert (to_ascii_lowercase name) p c"

definition catalog_table :: "catalog \<Rightarrow> string \<Rightarrow> table_provider result" where
  "catalog_table c name =
     ok_or (map_of c (to_ascii_lowercase name)) (ENotFound ''table {name}'')"

definition catalog_table_names :: "catalog \<Rightarrow> string list" where
  "catalog_table_names c = sort (bt_keys c)"

record memory_table =
  mt_schema :: schema
  mt_partitions :: "batch list list"
  mt_estimated_bytes :: u64

definition memory_table_new ::
  "externs \<Rightarrow> schema \<Rightarrow> batch list list \<Rightarrow> memory_table result" where
  "memory_table_new x s ps =
     (if list_ex (\<lambda>b. rb_schema b \<noteq> s) (concat ps)
      then Inl (EPlanning ''all in-memory batches must use the table schema'')
      else Inr \<lparr>mt_schema = s, mt_partitions = (if ps = [] then [[]] else ps),
                mt_estimated_bytes = sum_list (map (\<lambda>b. of_nat (x_batch_bytes x b)) (concat ps))\<rparr>)"

text \<open>Round-robin distribution of the batches over the partitions.\<close>

fun deal :: "nat \<Rightarrow> batch list \<Rightarrow> batch list list \<Rightarrow> batch list list" where
  "deal i [] out = out"
| "deal i (b # bs) out =
     (let t = i mod length out in deal (i + 1) bs (out[t := out ! t @ [b]]))"

definition memory_table_from_batches ::
  "externs \<Rightarrow> batch list \<Rightarrow> nat \<Rightarrow> memory_table result" where
  "memory_table_from_batches x bs n =
     (case bs of
        [] \<Rightarrow> Inl (EPlanning ''at least one batch is required'')
      | b # _ \<Rightarrow> memory_table_new x (rb_schema b) (deal 0 bs (replicate (max n 1) [])))"

definition memory_scan_partition ::
  "externs \<Rightarrow> memory_table \<Rightarrow> nat \<Rightarrow> nat list option \<Rightarrow> nat \<Rightarrow> batch list result" where
  "memory_scan_partition x t p projection batch_size =
     (if p < length (mt_partitions t) then
        rmap (\<lambda>b. case projection of Some ix \<Rightarrow> x_batch_project x b ix | None \<Rightarrow> Inr b)
          (mt_partitions t ! p)
      else Inl (EExecution ''invalid partition {partition}''))"

definition memory_provider :: "externs \<Rightarrow> memory_table \<Rightarrow> table_provider" where
  "memory_provider x t =
     \<lparr>tp_schema = mt_schema t, tp_partition_count = length (mt_partitions t),
      tp_estimated_bytes = mt_estimated_bytes t,
      tp_partition_may_match = (\<lambda>_ _. Inr True),
      tp_scan_partition = memory_scan_partition x t\<rparr>"

definition projected_schema :: "schema \<Rightarrow> nat list option \<Rightarrow> schema result" where
  "projected_schema s projection =
     (case projection of
        None \<Rightarrow> Inr s
      | Some ix \<Rightarrow> rbind (rmap (schema_field s) ix) (\<lambda>fs. Inr (schema_new fs)))"

section \<open>Lookup after registration\<close>

lemma catalog_table_register:
  "catalog_table (catalog_register n p c) m =
     (if to_ascii_lowercase m = to_ascii_lowercase n then Inr p else catalog_table c m)"
  by (simp add: catalog_table_def catalog_register_def)

lemma ascii_lower_idem [simp]: "ascii_lower (ascii_lower c) = ascii_lower c"
proof (cases "65 \<le> byte_of c \<and> byte_of c \<le> 90")
  case True
  then have "byte_of (char_of (byte_of c + 32)) = byte_of c + 32"
    by (simp add: byte_of_def)
  with True show ?thesis by (simp add: ascii_lower_def)
next
  case False
  then show ?thesis by (auto simp: ascii_lower_def)
qed

lemma to_ascii_lowercase_idem [simp]:
  "to_ascii_lowercase (to_ascii_lowercase s) = to_ascii_lowercase s"
  by (simp add: to_ascii_lowercase_def)

end
