(* ===== verification/Logical.thy ===== *)
theory Logical
  imports Catalog
begin

text \<open>
  \<open>src/query/logical.rs\<close>: logical plans and the constructors that type-check them and compute
  their schemas.  The \<open>explain\<close> text is not modelled.
\<close>

datatype join_type = InnerJoin | LeftJoin

record sort_expr =
  sort_on :: expr
  sort_ascending :: bool
  sort_nulls_first :: bool

datatype logical_plan =
    LScan string "string list option" "expr list" schema
  | LProjection logical_plan "expr list" schema
  | LFilter logical_plan expr schema
  | LAggregate logical_plan "expr list" "expr list" schema
  | LSort logical_plan "sort_expr list" schema
  | LLimit logical_plan nat schema
  | LJoin logical_plan logical_plan join_type "expr list" "expr list" schema

fun logical_schema :: "logical_plan \<Rightarrow> schema" where
  "logical_schema (LScan _ _ _ s) = s"
| "logical_schema (LProjection _ _ s) = s"
| "logical_schema (LFilter _ _ s) = s"
| "logical_schema (LAggregate _ _ _ s) = s"
| "logical_schema (LSort _ _ s) = s"
| "logical_schema (LLimit _ _ s) = s"
| "logical_schema (LJoin _ _ _ _ _ s) = s"

definition logical_scan :: "string \<Rightarrow> schema \<Rightarrow> logical_plan" where
  "logical_scan t s = LScan t None [] s"

fun expand_projection :: "expr list \<Rightarrow> schema \<Rightarrow> expr list" where
  "expand_projection [] s = []"
| "expand_projection (e # es) s =
     (if e = Wildcard then map (\<lambda>f. Column (field_name f)) (schema_fields s) else [e])
     @ expand_projection es s"

definition project :: "externs \<Rightarrow> logical_plan \<Rightarrow> expr list \<Rightarrow> logical_plan result" where
  "project x input exprs =
     (let expanded = expand_projection exprs (logical_schema input) in
      rbind (rmap (expr_field x (logical_schema input)) expanded) (\<lambda>fs.
        Inr (LProjection input expanded (schema_new fs))))"

definition filter_plan :: "logical_plan \<Rightarrow> expr \<Rightarrow> logical_plan result" where
  "filter_plan input predicate =
     rbind (expr_data_type (logical_schema input) predicate) (\<lambda>t.
       if t \<noteq> TBoolean then Inl (EPlanning ''filter predicate must be Boolean, got {data_type}'')
       else Inr (LFilter input predicate (logical_schema input)))"

definition aggregate_plan ::
  "externs \<Rightarrow> logical_plan \<Rightarrow> expr list \<Rightarrow> expr list \<Rightarrow> logical_plan result" where
  "aggregate_plan x input group_exprs aggregate_exprs =
     rbind (rmap (expr_field x (logical_schema input)) (group_exprs @ aggregate_exprs)) (\<lambda>fs.
       Inr (LAggregate input group_exprs aggregate_exprs (schema_new fs)))"

definition sort_plan :: "logical_plan \<Rightarrow> sort_expr list \<Rightarrow> logical_plan result" where
  "sort_plan input exprs =
     rbind (rmap (\<lambda>k. expr_data_type (logical_schema input) (sort_on k)) exprs) (\<lambda>_.
       Inr (LSort input exprs (logical_schema input)))"

definition limit_plan :: "logical_plan \<Rightarrow> nat \<Rightarrow> logical_plan" where
  "limit_plan input n = LLimit input n (logical_schema input)"

definition join_output_field :: "join_type \<Rightarrow> field list \<Rightarrow> field \<Rightarrow> field" where
  "join_output_field jt acc f =
     (let g = (if jt = LeftJoin then f\<lparr>field_nullable := True\<rparr> else f) in
      if list_ex (\<lambda>e. field_name e = field_name g) acc
      then g\<lparr>field_name := ''right.'' @ field_name g\<rparr> else g)"

definition join_fields :: "join_type \<Rightarrow> field list \<Rightarrow> field list \<Rightarrow> field list" where
  "join_fields jt left right = foldl (\<lambda>acc f. acc @ [join_output_field jt acc f]) left right"

definition check_join_keys :: "schema \<Rightarrow> schema \<Rightarrow> expr \<times> expr \<Rightarrow> unit result" where
  "check_join_keys ls rs k =
     rbind (expr_data_type ls (fst k)) (\<lambda>lt.
     rbind (expr_data_type rs (snd k)) (\<lambda>rt.
       require (lt = rt) (EPlanning ''join key types differ: {left_type} versus {right_type}'')))"

definition join_plan ::
  "logical_plan \<Rightarrow> logical_plan \<Rightarrow> join_type \<Rightarrow> expr list \<Rightarrow> expr list \<Rightarrow> logical_plan result" where
  "join_plan left right jt left_on right_on =
     (if length left_on \<noteq> length right_on \<or> left_on = []
      then Inl (EPlanning ''joins require the same non-zero number of left and right keys'')
      else
        rbind (rall (check_join_keys (logical_schema left) (logical_schema right))
                 (zip left_on right_on)) (\<lambda>_.
          Inr (LJoin left right jt left_on right_on
            (schema_new (join_fields jt (schema_fields (logical_schema left))
                           (schema_fields (logical_schema right)))))))"

end
