(* ===== verification/Optimizer.thy ===== *)
theory Optimizer
  imports Logical
begin

text \<open>
  \<open>src/query/optimizer.rs\<close>: the rewrite passes over logical plans, composed bottom-up as the
  source composes them.
\<close>

definition simplify_sort :: "externs \<Rightarrow> schema \<Rightarrow> sort_expr \<Rightarrow> sort_expr result" where
  "simplify_sort x s k = rbind (simplify x s (sort_on k)) (\<lambda>e. Inr (k\<lparr>sort_on := e\<rparr>))"

fun simplify_expressions :: "externs \<Rightarrow> logical_plan \<Rightarrow> logical_plan result" where
  "simplify_expressions x (LScan table projection filters s) =
     rbind (rmap (simplify x s) filters) (\<lambda>fs. Inr (LScan table projection fs s))"
| "simplify_expressions x (LProjection input exprs _) =
     rbind (rmap (simplify x (logical_schema input)) exprs) (\<lambda>es. project x input es)"
| "simplify_expressions x (LFilter input predicate _) =
     rbind (simplify x (logical_schema input) predicate) (\<lambda>p. filter_plan input p)"
| "simplify_expressions x (LAggregate input group_exprs aggregate_exprs _) =
     rbind (rmap (simplify x (logical_schema input)) group_exprs) (\<lambda>gs.
     rbind (rmap (simplify x (logical_schema input)) aggregate_exprs) (\<lambda>as.
       aggregate_plan x input gs as))"
| "simplify_expressions x (LSort input exprs _) =
     rbind (rmap (simplify_sort x (logical_schema input)) exprs) (\<lambda>ks. sort_plan input ks)"
| "simplify_expressions x (LLimit input n _) = Inr (limit_plan input n)"
| "simplify_expressions x (LJoin left right jt left_on right_on _) =
     rbind (rmap (simplify x (logical_schema left)) left_on) (\<lambda>ls.
     rbind (rmap (simplify x (logical_schema right)) right_on) (\<lambda>rs.
       join_plan left right jt ls rs))"

definition identity_column :: "externs \<Rightarrow> expr \<times> field \<Rightarrow> bool" where
  "identity_column x p =
     (case unalias (fst p) of
        Column n \<Rightarrow> expr_name x (fst p) = field_name (snd p) \<and> unqualified n = field_name (snd p)
      | _ \<Rightarrow> False)"

definition identity_projection :: "externs \<Rightarrow> expr list \<Rightarrow> schema \<Rightarrow> bool" where
  "identity_projection x exprs s \<longleftrightarrow>
     length exprs = length (schema_fields s)
     \<and> list_all (identity_column x) (zip exprs (schema_fields s))"

fun eliminate_identity_projection :: "externs \<Rightarrow> logical_plan \<Rightarrow> logical_plan result" where
  "eliminate_identity_projection x (LProjection input exprs s) =
     (if identity_projection x exprs (logical_schema input) then Inr input
      else project x input exprs)"
| "eliminate_identity_projection x p = Inr p"

fun push_filter_into_scan :: "logical_plan \<Rightarrow> logical_plan result" where
  "push_filter_into_scan (LFilter input predicate s) =
     (case input of
        LScan table projection filters sc \<Rightarrow>
          Inr (LScan table projection (filters @ [predicate]) sc)
      | _ \<Rightarrow> filter_plan input predicate)"
| "push_filter_into_scan p = Inr p"

definition required_columns :: "expr list \<Rightarrow> string list" where
  "required_columns es = fold (\<lambda>e req. fold insort_insert (columns e) req) es []"

definition projection_indices :: "schema \<Rightarrow> string list \<Rightarrow> nat list result" where
  "projection_indices s required = rmap (find_column s) required"

fun push_projection_into_scan :: "externs \<Rightarrow> logical_plan \<Rightarrow> logical_plan result" where
  "push_projection_into_scan x (LProjection input exprs s) =
     (case input of
        LScan table projection filters sc \<Rightarrow>
          (let required = required_columns (exprs @ filters) in
           if required = [] then project x input exprs
           else
             rbind (projection_indices sc required) (\<lambda>indices.
             rbind (rmap (schema_field sc) indices) (\<lambda>projected_fields.
               project x
                 (LScan table (Some (map field_name projected_fields)) filters
                    (schema_new projected_fields))
                 exprs)))
      | _ \<Rightarrow> project x input exprs)"
| "push_projection_into_scan x p = Inr p"

function optimize :: "externs \<Rightarrow> logical_plan \<Rightarrow> logical_plan result"
  and optimize_children :: "externs \<Rightarrow> logical_plan \<Rightarrow> logical_plan result" where
  "optimize x p =
     rbind (optimize_children x p) (\<lambda>p.
     rbind (simplify_expressions x p) (\<lambda>p.
     rbind (push_filter_into_scan p) (\<lambda>p.
     rbind (push_projection_into_scan x p) (\<lambda>p.
       eliminate_identity_projection x p))))"
| "optimize_children x (LScan table projection filters s) = Inr (LScan table projection filters s)"
| "optimize_children x (LProjection input exprs s) =
     rbind (optimize x input) (\<lambda>i. project x i exprs)"
| "optimize_children x (LFilter input predicate s) =
     rbind (optimize x input) (\<lambda>i. filter_plan i predicate)"
| "optimize_children x (LAggregate input group_exprs aggregate_exprs s) =
     rbind (optimize x input) (\<lambda>i. aggregate_plan x i group_exprs aggregate_exprs)"
| "optimize_children x (LSort input exprs s) =
     rbind (optimize x input) (\<lambda>i. sort_plan i exprs)"
| "optimize_children x (LLimit input n s) =
     rbind (optimize x input) (\<lambda>i. Inr (limit_plan i n))"
| "optimize_children x (LJoin left right jt left_on right_on s) =
     rbind (optimize x left) (\<lambda>l.
     rbind (optimize x right) (\<lambda>r.
       join_plan l r jt left_on right_on))"
  by pat_completeness auto
termination
  by (relation "measure (\<lambda>c. case c of Inl (x, p) \<Rightarrow> 2 * size p + 1 | Inr (x, p) \<Rightarrow> 2 * size p)")
    auto

declare optimize.simps [simp del]

end
