(* ===== verification/Planner.thy ===== *)
theory Planner
  imports Optimizer
begin

text \<open>
  \<open>src/query/planner.rs\<close> and the plan type of \<open>src/runtime/execution.rs\<close>: lowering a logical
  plan to a physical plan, with operator ids handed out in pre-order.
\<close>

type_synonym operator_id = u32

datatype physical_plan =
    PScan operator_id string table_provider "nat list option" "expr list" schema
  | PProjection operator_id physical_plan "expr list" schema
  | PFilter operator_id physical_plan expr schema
  | PHashAggregate operator_id physical_plan "expr list" "expr list" schema
  | PSort operator_id physical_plan "sort_expr list" schema
  | PTopK operator_id physical_plan "sort_expr list" nat schema
  | PLimit operator_id physical_plan nat schema
  | PHashJoin operator_id physical_plan physical_plan join_type "expr list" "expr list" schema

fun physical_id :: "physical_plan \<Rightarrow> operator_id" where
  "physical_id (PScan i _ _ _ _ _) = i"
| "physical_id (PProjection i _ _ _) = i"
| "physical_id (PFilter i _ _ _) = i"
| "physical_id (PHashAggregate i _ _ _ _) = i"
| "physical_id (PSort i _ _ _) = i"
| "physical_id (PTopK i _ _ _ _) = i"
| "physical_id (PLimit i _ _ _) = i"
| "physical_id (PHashJoin i _ _ _ _ _ _) = i"

fun physical_name :: "physical_plan \<Rightarrow> string" where
  "physical_name (PScan _ _ _ _ _ _) = ''Scan''"
| "physical_name (PProjection _ _ _ _) = ''Projection''"
| "physical_name (PFilter _ _ _ _) = ''Filter''"
| "physical_name (PHashAggregate _ _ _ _ _) = ''HashAggregate''"
| "physical_name (PSort _ _ _ _) = ''Sort''"
| "physical_name (PTopK _ _ _ _ _) = ''TopK''"
| "physical_name (PLimit _ _ _ _) = ''Limit''"
| "physical_name (PHashJoin _ _ _ _ _ _ _) = ''HashJoin''"

fun physical_schema :: "physical_plan \<Rightarrow> schema" where
  "physical_schema (PScan _ _ _ _ _ s) = s"
| "physical_schema (PProjection _ _ _ s) = s"
| "physical_schema (PFilter _ _ _ s) = s"
| "physical_schema (PHashAggregate _ _ _ _ s) = s"
| "physical_schema (PSort _ _ _ s) = s"
| "physical_schema (PTopK _ _ _ _ s) = s"
| "physical_schema (PLimit _ _ _ s) = s"
| "physical_schema (PHashJoin _ _ _ _ _ _ s) = s"

text \<open>
  \<open>build\<close> returns the plan with the advanced counter.  The counter is a \<open>u32\<close>; its increment
  wraps as in a release build.
\<close>

fun build :: "catalog \<Rightarrow> logical_plan \<Rightarrow> operator_id \<Rightarrow> (physical_plan \<times> operator_id) result" where
  "build c (LScan table projection filters s) i =
     rbind (catalog_table c table) (\<lambda>provider.
     rbind (roption (rmap (find_column (tp_schema provider))) projection) (\<lambda>ix.
       Inr (PScan i table provider ix filters s, i + 1)))"
| "build c (LProjection input exprs s) i =
     rbind (build c input (i + 1)) (\<lambda>(p, n). Inr (PProjection i p exprs s, n))"
| "build c (LFilter input predicate s) i =
     rbind (build c input (i + 1)) (\<lambda>(p, n). Inr (PFilter i p predicate s, n))"
| "build c (LAggregate input group_exprs aggregate_exprs s) i =
     rbind (build c input (i + 1)) (\<lambda>(p, n).
       Inr (PHashAggregate i p group_exprs aggregate_exprs s, n))"
| "build c (LSort input exprs s) i =
     rbind (build c input (i + 1)) (\<lambda>(p, n). Inr (PSort i p exprs s, n))"
| "build c (LLimit (LSort sort_input exprs _) limit s) i =
     rbind (build c sort_input (i + 1)) (\<lambda>(p, n). Inr (PTopK i p exprs limit s, n))"
| "build c (LLimit input limit s) i =
     rbind (build c input (i + 1)) (\<lambda>(p, n). Inr (PLimit i p limit s, n))"
| "build c (LJoin left right jt left_on right_on s) i =
     rbind (build c left (i + 1)) (\<lambda>(l, n).
     rbind (build c right n) (\<lambda>(r, m).
       Inr (PHashJoin i l r jt left_on right_on s, m)))"

definition create_physical_plan :: "logical_plan \<Rightarrow> catalog \<Rightarrow> physical_plan result" where
  "create_physical_plan p c = rbind (build c p 0) (\<lambda>(q, _). Inr q)"

end
