(* ===== verification/Sample_Data.thy ===== *)
theory Sample_Data
  imports Planner
begin

text \<open>
  One concrete instance of the kernels in \<open>externs\<close> and a small catalog, on which the hypotheses
  of the properties are discharged.  The logical kernels follow Kleene's three-valued logic; a
  cast gives an array of the target type.
\<close>

definition kleene_and :: "cell \<Rightarrow> cell \<Rightarrow> cell" where
  "kleene_and a b =
     (if a = CBool False \<or> b = CBool False then CBool False
      else if a = CBool True \<and> b = CBool True then CBool True else CNull)"

definition kleene_or :: "cell \<Rightarrow> cell \<Rightarrow> cell" where
  "kleene_or a b =
     (if a = CBool True \<or> b = CBool True then CBool True
      else if a = CBool False \<and> b = CBool False then CBool False else CNull)"

definition sample_externs :: externs where
  "sample_externs =
     \<lparr>x_type_name = (\<lambda>_. ''T''), x_f64_display = (\<lambda>_. ''0''),
      x_f32_to_f64 = ucast, x_f64_to_f32 = ucast, x_i64_to_f32 = ucast, x_u64_to_f32 = ucast,
      x_i64_to_f64 = id, x_u64_to_f64 = id,
      x_cast = (\<lambda>a t. Inr (array_of t (map (\<lambda>c. if cell_fits t c then c else CNull) (arr_cells a)))),
      x_cmp = (\<lambda>op l r. Inr (array_of TBoolean (map (\<lambda>_. CNull) (arr_cells l)))),
      x_and_kleene = (\<lambda>l r. Inr (array_of TBoolean (map2 kleene_and (arr_cells l) (arr_cells r)))),
      x_or_kleene = (\<lambda>l r. Inr (array_of TBoolean (map2 kleene_or (arr_cells l) (arr_cells r)))),
      x_arith = (\<lambda>op l r. Inr (array_of (arr_type l) (map (\<lambda>_. CNull) (arr_cells l)))),
      x_is_null = (\<lambda>a. Inr (array_of TBoolean (map (\<lambda>c. CBool (c = CNull)) (arr_cells a)))),
      x_is_not_null = (\<lambda>a. Inr (array_of TBoolean (map (\<lambda>c. CBool (c \<noteq> CNull)) (arr_cells a)))),
      x_batch_project = (\<lambda>b ix. Inr b), x_batch_bytes = (\<lambda>b. rb_num_rows b)\<rparr>"

definition sample_schema :: schema where
  "sample_schema = schema_new [field_new ''id'' TInt64 False, field_new ''flag'' TBoolean True]"

definition sample_table :: memory_table where
  "sample_table = \<lparr>mt_schema = sample_schema, mt_partitions = [[]], mt_estimated_bytes = 0\<rparr>"

definition sample_provider :: table_provider where
  "sample_provider = memory_provider sample_externs sample_table"

definition sample_catalog :: catalog where
  "sample_catalog = catalog_register ''t'' sample_provider []"

lemma sample_lookup [simp]: "catalog_table sample_catalog ''t'' = Inr sample_provider"
  by (simp add: sample_catalog_def catalog_table_register)

lemma sample_provider_schema [simp]: "tp_schema sample_provider = sample_schema"
  by (simp add: sample_provider_def memory_provider_def sample_table_def)

end
