(* ===== verification/Expr_Props.thy ===== *)
theory Expr_Props
  imports Sample_Data
begin

text \<open>
  Name resolution, scalar comparison and the conversion between scalars and arrays: the contracts
  of \<open>src/query/expr.rs\<close> that the planner, the optimizer and the codec rely on.
\<close>

section \<open>Name resolution\<close>

text \<open>\<open>i\<close> is the only index of the list at which \<open>P\<close> holds.\<close>

definition only_at :: "('a \<Rightarrow> bool) \<Rightarrow> 'a list \<Rightarrow> nat \<Rightarrow> bool" where
  "only_at P xs i \<longleftrightarrow> i < length xs \<and> P (xs ! i) \<and> (\<forall>j<length xs. P (xs ! j) \<longrightarrow> j = i)"

definition dotted :: "string \<Rightarrow> bool" where
  "dotted n \<longleftrightarrow> CHR ''.'' \<in> set n"

lemma set_positions: "set (positions P xs) = {i. i < length xs \<and> P (xs ! i)}"
  by (auto simp: positions_def)

lemma distinct_positions: "distinct (positions P xs)"
  by (simp add: positions_def)

lemma positions_Nil_iff: "positions P xs = [] \<longleftrightarrow> \<not> list_ex P xs"
proof -
  have "positions P xs = [] \<longleftrightarrow> set (positions P xs) = {}" by simp
  also have "\<dots> \<longleftrightarrow> \<not> list_ex P xs" by (auto simp: set_positions list_ex_length)
  finally show ?thesis .
qed

lemma positions_single_iff: "positions P xs = [i] \<longleftrightarrow> only_at P xs i"
proof
  assume "positions P xs = [i]"
  then have "{j. j < length xs \<and> P (xs ! j)} = {i}" using set_positions [of P xs] by simp
  then show "only_at P xs i" unfolding only_at_def by blast
next
  assume *: "only_at P xs i"
  then have "set (positions P xs) = {i}" by (auto simp: set_positions only_at_def)
  moreover have "length (positions P xs) = 1"
    using distinct_card [OF distinct_positions, of P xs] calculation by simp
  ultimately show "positions P xs = [i]" by (cases "positions P xs") auto
qed

lemma only_at_ex: "only_at P xs i \<Longrightarrow> list_ex P xs"
  by (auto simp: only_at_def list_ex_length)

text \<open>\<open>P\<close> holds at two indices of the list.\<close>

definition several :: "('a \<Rightarrow> bool) \<Rightarrow> 'a list \<Rightarrow> bool" where
  "several P xs \<longleftrightarrow> (\<exists>j<length xs. \<exists>k<length xs. j \<noteq> k \<and> P (xs ! j) \<and> P (xs ! k))"

lemma positions_many:
  assumes "positions P xs = i # j # ks"
  shows "several P xs"
proof -
  have "i \<in> set (positions P xs)" "j \<in> set (positions P xs)" using assms by simp_all
  moreover have "i \<noteq> j" using distinct_positions [of P xs] assms by auto
  ultimately show ?thesis unfolding several_def set_positions by blast
qed

lemma only_at_not_several: "only_at P xs i \<Longrightarrow> \<not> several P xs"
  by (auto simp: only_at_def several_def)

lemma several_ex: "several P xs \<Longrightarrow> list_ex P xs"
  by (auto simp: several_def list_ex_length)

lemma positions_case:
  "(case positions P xs of [] \<Rightarrow> a | [i] \<Rightarrow> f i | _ # _ # _ \<Rightarrow> b) =
     (if several P xs then b else if list_ex P xs then f (hd (positions P xs)) else a)"
proof (cases "positions P xs" rule: remdups_adj.cases)
  case 1
  then show ?thesis using positions_Nil_iff [of P xs] several_ex [of P xs] by auto
next
  case (2 i)
  then have "only_at P xs i" by (simp add: positions_single_iff)
  with 2 show ?thesis using only_at_not_several only_at_ex by fastforce
next
  case (3 i j ks)
  then show ?thesis using positions_many [OF 3] by simp
qed

definition exact_name :: "string \<Rightarrow> field \<Rightarrow> bool" where
  "exact_name n f \<longleftrightarrow> field_name f = n"

definition loose_name :: "string \<Rightarrow> field \<Rightarrow> bool" where
  "loose_name n f \<longleftrightarrow> unqualified (field_name f) = unqualified n"

definition falls_back :: "field list \<Rightarrow> string \<Rightarrow> bool" where
  "falls_back fs n \<longleftrightarrow> \<not> list_ex (exact_name n) fs
     \<and> \<not> (dotted n \<and> list_ex (\<lambda>f. dotted (field_name f)) fs)"

lemma resolve_unfold:
  "resolve_field_index s n =
     (let fs = schema_fields s in
      if several (exact_name n) fs then Inl ambiguous_column
      else if list_ex (exact_name n) fs then Inr (hd (positions (exact_name n) fs))
      else if \<not> falls_back fs n then Inl column_missing
      else if several (loose_name n) fs then Inl ambiguous_column
      else if list_ex (loose_name n) fs then Inr (hd (positions (loose_name n) fs))
      else Inl column_missing)"
  unfolding resolve_field_index_def positions_case
  by (auto simp: falls_back_def dotted_def exact_name_def [abs_def] loose_name_def [abs_def])

lemma hd_positions:
  "\<not> several P xs \<Longrightarrow> list_ex P xs \<Longrightarrow> hd (positions P xs) = i \<longleftrightarrow> only_at P xs i"
proof (cases "positions P xs" rule: remdups_adj.cases)
  case 1
  then show "list_ex P xs \<Longrightarrow> ?thesis" by (simp add: positions_Nil_iff)
next
  case (2 j)
  then show ?thesis using positions_single_iff [of P xs j] by (auto simp: only_at_def)
next
  case (3 j k ks)
  then show "\<not> several P xs \<Longrightarrow> ?thesis" using positions_many by blast
qed

lemma resolve_iff:
  "resolve_field_index s n = Inr i \<longleftrightarrow>
     only_at (exact_name n) (schema_fields s) i
     \<or> falls_back (schema_fields s) n \<and> only_at (loose_name n) (schema_fields s) i"
  using only_at_not_several [of "exact_name n" "schema_fields s" i]
    only_at_not_several [of "loose_name n" "schema_fields s" i]
    only_at_ex [of "exact_name n" "schema_fields s" i]
    only_at_ex [of "loose_name n" "schema_fields s" i] several_ex [of "exact_name n" "schema_fields s"]
  by (auto simp: resolve_unfold Let_def hd_positions falls_back_def)

text \<open>
  A column name resolves to a field in one of two ways: the field is the only one with exactly
  that name, or no field has it, the name and the schema are not both qualified, and the field is
  the only one whose name agrees after its qualifier is dropped.  Several candidates at either
  stage are reported as an ambiguity, and everything else as a missing column: a column is never
  guessed.
\<close>

theorem resolve_field_index_spec:
  "(resolve_field_index s n = Inr i \<longleftrightarrow>
      only_at (exact_name n) (schema_fields s) i
      \<or> falls_back (schema_fields s) n \<and> only_at (loose_name n) (schema_fields s) i)
   \<and> (resolve_field_index s n = Inl ambiguous_column \<longleftrightarrow>
      several (exact_name n) (schema_fields s)
      \<or> falls_back (schema_fields s) n \<and> several (loose_name n) (schema_fields s))
   \<and> resolve_field_index s n \<in> {Inl ambiguous_column, Inl column_missing} \<union> range Inr"
proof -
  have "ambiguous_column \<noteq> column_missing" by (simp add: ambiguous_column_def column_missing_def)
  then have "resolve_field_index s n = Inl ambiguous_column \<longleftrightarrow>
      several (exact_name n) (schema_fields s)
      \<or> falls_back (schema_fields s) n \<and> several (loose_name n) (schema_fields s)"
    using several_ex [of "exact_name n" "schema_fields s"]
    by (auto simp: resolve_unfold Let_def falls_back_def)
  moreover have "resolve_field_index s n \<in> {Inl ambiguous_column, Inl column_missing} \<union> range Inr"
    by (simp add: resolve_unfold Let_def)
  ultimately show ?thesis using resolve_iff by blast
qed

section \<open>Comparison of scalars\<close>

fun flip_ordering :: "ordering \<Rightarrow> ordering" where
  "flip_ordering Less = Greater"
| "flip_ordering Equal = Equal"
| "flip_ordering Greater = Less"

lemma compare_lin_flip: "compare_lin b a = flip_ordering (compare_lin a b)"
  by (auto simp: compare_lin_def)

lemma compare_lin_Less [simp]: "compare_lin a b = Less \<longleftrightarrow> a < b"
  by (simp add: compare_lin_def)

lemma f64_partial_cmp_flip: "f64_partial_cmp b a = map_option flip_ordering (f64_partial_cmp a b)"
  by (auto simp: f64_partial_cmp_def compare_lin_flip [of "f64_key b" "f64_key a"])

lemma f64_partial_cmp_trans:
  "f64_partial_cmp a b = Some Less \<Longrightarrow> f64_partial_cmp b c = Some Less \<Longrightarrow> f64_partial_cmp a c = Some Less"
  by (auto simp: f64_partial_cmp_def split: if_splits)

lemma partial_compare_flip: "partial_compare b a = map_option flip_ordering (partial_compare a b)"
  by (cases a; cases b) (simp_all add: f64_partial_cmp_flip [symmetric] compare_lin_flip [symmetric])

text \<open>
  \<open>partial_compare\<close> is a strict partial order that puts \<open>NULL\<close> first: swapping the arguments
  reverses the answer, the order is transitive, and two values are incomparable only if their types
  differ or one is a NaN.
\<close>

theorem partial_compare_order:
  "partial_compare b a = map_option flip_ordering (partial_compare a b)
   \<and> (partial_compare a b = Some Less \<longrightarrow> partial_compare b c = Some Less \<longrightarrow>
        partial_compare a c = Some Less)
   \<and> (partial_compare a b = None \<longrightarrow> a \<noteq> SNull \<and> b \<noteq> SNull
        \<and> (scalar_data_type a \<noteq> scalar_data_type b
           \<or> (\<exists>p q. a = SFloat64 p \<and> b = SFloat64 q \<and> (f64_is_nan p \<or> f64_is_nan q))))"
proof (intro conjI impI)
  show "partial_compare b a = map_option flip_ordering (partial_compare a b)"
    by (rule partial_compare_flip)
  show "partial_compare a c = Some Less"
    if "partial_compare a b = Some Less" "partial_compare b c = Some Less"
    using that by (cases a; cases b; cases c) (auto intro: f64_partial_cmp_trans)
qed (cases a; cases b; auto simp: f64_partial_cmp_def split: if_splits)+

theorem partial_compare_order_witness:
  "partial_compare (SInt64 1) (SUInt64 1) = None
   \<and> scalar_data_type (SInt64 1) \<noteq> scalar_data_type (SUInt64 1)
   \<and> partial_compare SNull (SInt64 2) = Some Less"
proof -
  have "partial_compare SNull (SInt64 1) = Some Less" "partial_compare (SInt64 1) (SInt64 2) = Some Less"
    "partial_compare (SInt64 1) (SUInt64 1) = None"
    by simp_all
  then show ?thesis
    using partial_compare_order [where a = SNull and b = "SInt64 1" and c = "SInt64 2"]
      partial_compare_order [where a = "SInt64 1" and b = "SUInt64 1"] by simp
qed

section \<open>Scalars and arrays\<close>

definition buildable :: "data_type \<Rightarrow> bool" where
  "buildable t \<longleftrightarrow> t \<noteq> TNull \<and> (\<forall>n. t \<noteq> TOther n)"

lemma value_of_cell_fits:
  assumes "buildable t" and "cell_fits t c"
    and "t = TFloat32 \<Longrightarrow> \<forall>v. x_f64_to_f32 x (x_f32_to_f64 x v) = v"
  obtains v where "value_of_cell x t c = Inr v" and "cell_of_scalar x t v = c"
proof (cases c)
  case CNull
  then show thesis
    using assms(1) that [of SNull]
    by (cases t) (simp_all add: value_of_cell_def cell_of_scalar_def buildable_def)
next
  case (CI32 v)
  have "(ucast (scast v :: i64) :: u32) = v" by (rule bit_word_eqI) (simp add: bit_simps)
  with CI32 show thesis
    using assms(2) that by (simp add: value_of_cell_def cell_of_scalar_def)
next
  case (CU32 v)
  have "(ucast (ucast v :: u64) :: u32) = v" by (rule bit_word_eqI) (simp add: bit_simps)
  with CU32 show thesis
    using assms(2) that by (simp add: value_of_cell_def cell_of_scalar_def)
next
  case (COther n)
  then show thesis using assms(1,2) by (auto simp: buildable_def split: data_type.splits)
qed (use assms that in \<open>simp_all add: value_of_cell_def cell_of_scalar_def\<close>)

text \<open>
  Reading every row of an array and building an array from the values gives the array back:
  no row is an error and no value changes, for every type the engine can build.  The one assumption
  on Arrow's conversions is that widening a 32-bit float is exact.
\<close>

theorem array_roundtrip:
  assumes "array_ok a" and "buildable (arr_type a)"
    and "\<And>v. x_f64_to_f32 x (x_f32_to_f64 x v) = v"
  shows "\<exists>vs. rmap (value_at x a) [0..<length (arr_cells a)] = Inr vs
    \<and> scalars_to_array x vs (arr_type a) = Inr a"
proof -
  let ?cs = "arr_cells a" and ?t = "arr_type a"
  have "\<exists>v. value_of_cell x ?t c = Inr v \<and> cell_of_scalar x ?t v = c" if "c \<in> set ?cs" for c
    using value_of_cell_fits [OF assms(2), of c x] assms(1,3) that
    by (auto simp: array_ok_def list_all_iff)
  then obtain g where g: "value_of_cell x ?t c = Inr (g c)" "cell_of_scalar x ?t (g c) = c"
    if "c \<in> set ?cs" for c by metis
  have "rmap (value_at x a) [0..<length ?cs] = Inr (map (\<lambda>i. g (?cs ! i)) [0..<length ?cs])"
    by (rule rmap_Inr_map) (simp add: value_at_def g(1))
  moreover have "map (cell_of_scalar x ?t) (map (\<lambda>i. g (?cs ! i)) [0..<length ?cs]) = ?cs"
    by (rule nth_equalityI) (simp_all add: g(2))
  then have "scalars_to_array x (map (\<lambda>i. g (?cs ! i)) [0..<length ?cs]) ?t = Inr a"
    using assms(2)
    by (cases ?t) (simp_all add: scalars_to_array_def array_of_def buildable_def)
  ultimately show ?thesis by blast
qed

theorem array_roundtrip_witness:
  "\<exists>vs. rmap (value_at sample_externs (array_of TInt32 [CI32 5, CNull])) [0, 1] = Inr vs
    \<and> scalars_to_array sample_externs vs TInt32 = Inr (array_of TInt32 [CI32 5, CNull])"
proof -
  have "array_ok (array_of TInt32 [CI32 5, CNull])" by (simp add: array_ok_def array_of_def)
  moreover have "x_f64_to_f32 sample_externs (x_f32_to_f64 sample_externs v) = v" for v
    by (rule bit_word_eqI) (simp add: sample_externs_def bit_simps)
  ultimately show ?thesis
    using array_roundtrip [of "array_of TInt32 [CI32 5, CNull]" sample_externs]
    by (simp add: array_of_def buildable_def)
qed

end
