(* ===== verification/Grpc_Status.thy ===== *)
theory Grpc_Status
  imports Sparkx_Prelude
begin

text \<open>
  The part of gRPC and of the standard library that the two Flight services share: status codes,
  the errors of a Flight client, and the decoding of UTF-8.
\<close>

datatype status_code =
    SCInvalidArgument | SCNotFound | SCResourceExhausted | SCAborted | SCCancelled | SCInternal
  | SCUnimplemented | SCUnknown

type_synonym status = "status_code \<times> string"

datatype flight_error = TonicError status | OtherFlightError string

text \<open>
  \<open>from_utf8\<close>: a sequence of one to four bytes per character, without overlong forms, surrogates
  or code points above U+10FFFF.
\<close>

definition continuation :: "u8 \<Rightarrow> bool" where
  "continuation b \<longleftrightarrow> 0x80 \<le> b \<and> b \<le> 0xBF"

fun utf8_valid :: "u8 list \<Rightarrow> bool" where
  "utf8_valid [] = True"
| "utf8_valid (a # s) =
     (if a \<le> 0x7F then utf8_valid s
      else case s of
        [] \<Rightarrow> False
      | b # t \<Rightarrow>
          if 0xC2 \<le> a \<and> a \<le> 0xDF then continuation b \<and> utf8_valid t
          else case t of
            [] \<Rightarrow> False
          | c # u \<Rightarrow>
              if 0xE0 \<le> a \<and> a \<le> 0xEF then
                continuation b \<and> continuation c \<and> (a = 0xE0 \<longrightarrow> 0xA0 \<le> b)
                \<and> (a = 0xED \<longrightarrow> b \<le> 0x9F) \<and> utf8_valid u
              else case u of
                [] \<Rightarrow> False
              | d # v \<Rightarrow>
                  0xF0 \<le> a \<and> a \<le> 0xF4 \<and> continuation b \<and> continuation c \<and> continuation d
                  \<and> (a = 0xF0 \<longrightarrow> 0x90 \<le> b) \<and> (a = 0xF4 \<longrightarrow> b \<le> 0x8F) \<and> utf8_valid v)"

definition as_bytes :: "string \<Rightarrow> bytes" where
  "as_bytes s = map (\<lambda>c. of_nat (byte_of c)) s"

definition from_utf8 :: "bytes \<Rightarrow> string option" where
  "from_utf8 bs = (if utf8_valid bs then Some (map (\<lambda>b. char_of (unat b)) bs) else None)"

lemma from_utf8_as_bytes: "utf8_valid (as_bytes s) \<Longrightarrow> from_utf8 (as_bytes s) = Some s"
proof -
  have "char_of (unat (of_nat (byte_of c) :: u8)) = c" for c
  proof -
    have "byte_of c < 2 ^ LENGTH(8)" by (simp add: byte_of_def)
    then have "unat (of_nat (byte_of c) :: u8) = byte_of c" by (rule unat_of_nat_small)
    then show ?thesis by (simp add: byte_of_def)
  qed
  then show "utf8_valid (as_bytes s) \<Longrightarrow> ?thesis"
    by (simp add: from_utf8_def as_bytes_def comp_def)
qed

end
