(* ===== verification/Pruning.thy ===== *)
theory Pruning
  imports Expr_Props Sample_Data Grpc_Status
begin

text \<open>
  \<open>src/storage/pruning.rs\<close>: skipping Parquet row groups by their statistics, and the part of
  \<open>src/storage/catalog.rs\<close> that calls it.

  The metadata of a row group are data: the number of rows and, per column, the statistics as the
  Parquet library presents them.  A column index comes from the schema of the same file, so it is
  in range.  The reference semantics \<open>row_truth\<close> says when a row passes a filter; expressions that
  the pruning does not analyse have an arbitrary truth value there.
\<close>

section \<open>Statistics\<close>

record stat_info =
  si_null_count :: "u64 option"
  si_min_exact :: bool
  si_max_exact :: bool
  si_deprecated :: bool
  si_backwards_compatible :: bool

datatype statistics =
    StBoolean stat_info "bool option" "bool option"
  | StInt32 stat_info "u32 option" "u32 option"
  | StInt64 stat_info "i64 option" "i64 option"
  | StFloat stat_info "u32 option" "u32 option"
  | StDouble stat_info "u64 option" "u64 option"
  | StByteArray stat_info "bytes option" "bytes option"
  | StOther stat_info

fun stat_info_of :: "statistics \<Rightarrow> stat_info" where
  "stat_info_of (StBoolean i _ _) = i"
| "stat_info_of (StInt32 i _ _) = i"
| "stat_info_of (StInt64 i _ _) = i"
| "stat_info_of (StFloat i _ _) = i"
| "stat_info_of (StDouble i _ _) = i"
| "stat_info_of (StByteArray i _ _) = i"
| "stat_info_of (StOther i) = i"

record row_group =
  rg_num_rows :: int
  rg_columns :: "statistics option list"

fun statistic_min :: "externs \<Rightarrow> statistics \<Rightarrow> data_type \<Rightarrow> scalar_value option" where
  "statistic_min x (StBoolean _ mn _) TBoolean = map_option SBoolean mn"
| "statistic_min x (StInt32 _ mn _) TInt32 = map_option (\<lambda>v. SInt64 (scast v)) mn"
| "statistic_min x (StInt64 _ mn _) TInt64 = map_option SInt64 mn"
| "statistic_min x (StFloat _ mn _) TFloat32 = map_option (\<lambda>v. SFloat64 (x_f32_to_f64 x v)) mn"
| "statistic_min x (StDouble _ mn _) TFloat64 = map_option SFloat64 mn"
| "statistic_min x (StByteArray _ mn _) TUtf8 = map_option SUtf8 (Option.bind mn from_utf8)"
| "statistic_min x _ _ = None"

fun statistic_max :: "externs \<Rightarrow> statistics \<Rightarrow> data_type \<Rightarrow> scalar_value option" where
  "statistic_max x (StBoolean _ _ mx) TBoolean = map_option SBoolean mx"
| "statistic_max x (StInt32 _ _ mx) TInt32 = map_option (\<lambda>v. SInt64 (scast v)) mx"
| "statistic_max x (StInt64 _ _ mx) TInt64 = map_option SInt64 mx"
| "statistic_max x (StFloat _ _ mx) TFloat32 = map_option (\<lambda>v. SFloat64 (x_f32_to_f64 x v)) mx"
| "statistic_max x (StDouble _ _ mx) TFloat64 = map_option SFloat64 mx"
| "statistic_max x (StByteArray _ _ mx) TUtf8 = map_option SUtf8 (Option.bind mx from_utf8)"
| "statistic_max x _ _ = None"

definition eq_ignore_ascii_case :: "string \<Rightarrow> string \<Rightarrow> bool" where
  "eq_ignore_ascii_case a b \<longleftrightarrow> to_ascii_lowercase a = to_ascii_lowercase b"

definition column_statistics ::
  "string \<Rightarrow> schema \<Rightarrow> nat option list \<Rightarrow> row_group \<Rightarrow> (nat \<times> statistics) option" where
  "column_statistics n s parquet_columns rg =
     (case positions (\<lambda>f. eq_ignore_ascii_case (field_name f) (unqualified n)) (schema_fields s) of
        [] \<Rightarrow> None
      | i # _ \<Rightarrow>
          if i < length parquet_columns then
            (case parquet_columns ! i of
               None \<Rightarrow> None
             | Some p \<Rightarrow> map_option (Pair i) (rg_columns rg ! p))
          else None)"

section \<open>The test\<close>

fun reverse_comparison :: "operator \<Rightarrow> operator" where
  "reverse_comparison OpLt = OpGt"
| "reverse_comparison OpLtEq = OpGtEq"
| "reverse_comparison OpGt = OpLt"
| "reverse_comparison OpGtEq = OpLtEq"
| "reverse_comparison op = op"

definition ordered_statistics :: "stat_info \<Rightarrow> bool" where
  "ordered_statistics i \<longleftrightarrow> \<not> si_deprecated i \<or> si_backwards_compatible i"

definition usable_min :: "externs \<Rightarrow> statistics \<Rightarrow> data_type \<Rightarrow> scalar_value option" where
  "usable_min x st t =
     (if ordered_statistics (stat_info_of st) \<and> si_min_exact (stat_info_of st)
      then statistic_min x st t else None)"

definition usable_max :: "externs \<Rightarrow> statistics \<Rightarrow> data_type \<Rightarrow> scalar_value option" where
  "usable_max x st t =
     (if ordered_statistics (stat_info_of st) \<and> si_max_exact (stat_info_of st)
      then statistic_max x st t else None)"

definition none_or :: "('a \<Rightarrow> bool) \<Rightarrow> 'a option \<Rightarrow> bool" where
  "none_or p v \<longleftrightarrow> (case v of None \<Rightarrow> True | Some a \<Rightarrow> p a)"

definition some_and :: "('a \<Rightarrow> bool) \<Rightarrow> 'a option \<Rightarrow> bool" where
  "some_and p v \<longleftrightarrow> (case v of None \<Rightarrow> False | Some a \<Rightarrow> p a)"

definition bounds_may_match ::
  "operator \<Rightarrow> data_type \<Rightarrow> scalar_value \<Rightarrow> scalar_value option \<Rightarrow> scalar_value option \<Rightarrow> bool" where
  "bounds_may_match op t lit mn mx =
     (case op of
        OpEq \<Rightarrow> none_or (\<lambda>m. partial_compare lit m \<noteq> Some Less) mn
          \<and> none_or (\<lambda>m. partial_compare lit m \<noteq> Some Greater) mx
      | OpNotEq \<Rightarrow>
          if t \<noteq> TFloat32 \<and> t \<noteq> TFloat64
          then \<not> (some_and (\<lambda>m. scalar_eq m lit) mn \<and> some_and (\<lambda>m. scalar_eq m lit) mx)
          else True
      | OpLt \<Rightarrow> \<not> some_and (\<lambda>m. partial_compare m lit \<in> {Some Equal, Some Greater}) mn
      | OpLtEq \<Rightarrow> none_or (\<lambda>m. partial_compare m lit \<noteq> Some Greater) mn
      | OpGt \<Rightarrow> \<not> some_and (\<lambda>m. partial_compare m lit \<in> {Some Equal, Some Less}) mx
      | OpGtEq \<Rightarrow> none_or (\<lambda>m. partial_compare m lit \<noteq> Some Less) mx
      | _ \<Rightarrow> True)"

definition column_literal_may_match ::
  "externs \<Rightarrow> string \<Rightarrow> operator \<Rightarrow> scalar_value \<Rightarrow> schema \<Rightarrow> nat option list \<Rightarrow> row_group \<Rightarrow> bool" where
  "column_literal_may_match x n op lit s parquet_columns rg =
     (if lit = SNull then False
      else case column_statistics n s parquet_columns rg of
        None \<Rightarrow> True
      | Some (i, st) \<Rightarrow>
          let t = field_type (schema_fields s ! i) in
          bounds_may_match op t lit (usable_min x st t) (usable_max x st t))"

definition comparison_may_match ::
  "externs \<Rightarrow> expr \<Rightarrow> operator \<Rightarrow> expr \<Rightarrow> schema \<Rightarrow> nat option list \<Rightarrow> row_group \<Rightarrow> bool" where
  "comparison_may_match x l op r s parquet_columns rg =
     (case (unalias l, unalias r) of
        (Column n, Literal v) \<Rightarrow> column_literal_may_match x n op v s parquet_columns rg
      | (Literal v, Column n) \<Rightarrow>
          column_literal_may_match x n (reverse_comparison op) v s parquet_columns rg
      | _ \<Rightarrow> True)"

definition is_null_may_match :: "expr \<Rightarrow> bool \<Rightarrow> schema \<Rightarrow> nat option list \<Rightarrow> row_group \<Rightarrow> bool" where
  "is_null_may_match e negated s parquet_columns rg =
     (case unalias e of
        Column n \<Rightarrow>
          (case column_statistics n s parquet_columns rg of
             None \<Rightarrow> True
           | Some (i, st) \<Rightarrow>
               if \<not> field_nullable (schema_fields s ! i) then negated
               else (case si_null_count (stat_info_of st) of
                       Some nulls \<Rightarrow> if negated then nulls < of_int (max (rg_num_rows rg) 0) else nulls > 0
                     | None \<Rightarrow> True))
      | _ \<Rightarrow> True)"

definition is_comparison :: "operator \<Rightarrow> bool" where
  "is_comparison op \<longleftrightarrow> op \<in> {OpEq, OpNotEq, OpLt, OpLtEq, OpGt, OpGtEq}"

lemma size_unalias_Binary: "unalias e = Binary l op r \<Longrightarrow> size l < size e \<and> size r < size e"
  by (cases e) auto

function expression_may_match ::
  "externs \<Rightarrow> expr \<Rightarrow> schema \<Rightarrow> nat option list \<Rightarrow> row_group \<Rightarrow> bool" where
  "expression_may_match x e s parquet_columns rg =
     (case unalias e of
        Literal (SBoolean v) \<Rightarrow> v
      | Literal SNull \<Rightarrow> False
      | Binary l op r \<Rightarrow>
          if op = OpAnd then
            expression_may_match x l s parquet_columns rg \<and> expression_may_match x r s parquet_columns rg
          else if op = OpOr then
            expression_may_match x l s parquet_columns rg \<or> expression_may_match x r s parquet_columns rg
          else if is_comparison op then comparison_may_match x l op r s parquet_columns rg
          else True
      | IsNull i negated \<Rightarrow> is_null_may_match i negated s parquet_columns rg
      | _ \<Rightarrow> True)"
  by pat_completeness auto

termination
  by (relation "measure (\<lambda>(x, e, s, p, rg). size e)") (auto dest: size_unalias_Binary)

declare expression_may_match.simps [simp del]

definition row_group_may_match ::
  "externs \<Rightarrow> schema \<Rightarrow> nat option list \<Rightarrow> row_group \<Rightarrow> expr list \<Rightarrow> bool" where
  "row_group_may_match x s parquet_columns rg filters =
     list_all (\<lambda>f. expression_may_match x f s parquet_columns rg) filters"

section \<open>The Parquet table\<close>

record parquet_table =
  pq_schema :: schema
  pq_row_groups :: "row_group list"
  pq_columns :: "nat option list"

text \<open>The leaf columns of a field, when there is exactly one; \<open>roots\<close> are the first path parts.\<close>

definition parquet_column :: "string list \<Rightarrow> field \<Rightarrow> nat option" where
  "parquet_column roots f =
     (case positions (\<lambda>r. r = field_name f) roots of [i] \<Rightarrow> Some i | _ \<Rightarrow> None)"

definition parquet_table_new :: "schema \<Rightarrow> string list \<Rightarrow> row_group list \<Rightarrow> parquet_table" where
  "parquet_table_new s roots groups =
     \<lparr>pq_schema = s, pq_row_groups = groups, pq_columns = map (parquet_column roots) (schema_fields s)\<rparr>"

definition partition_may_match :: "externs \<Rightarrow> parquet_table \<Rightarrow> nat \<Rightarrow> expr list \<Rightarrow> bool result" where
  "partition_may_match x t p filters =
     (if length (pq_row_groups t) \<le> p then Inl (EExecution ''Parquet source has no row group {partition}'')
      else Inr (row_group_may_match x (pq_schema t) (pq_columns t) (pq_row_groups t ! p) filters))"

section \<open>Reference semantics of a filter on a row\<close>

text \<open>
  Arrow's comparison kernels order floats by the total order of IEEE 754, in which the negative zero
  lies below the positive one and a positive NaN above everything.
\<close>

definition f64_total_key :: "u64 \<Rightarrow> int" where
  "f64_total_key b = (if unat b < 2 ^ 63 then int (unat b) else - int (unat b mod 2 ^ 63) - 1)"

fun total_compare :: "scalar_value \<Rightarrow> scalar_value \<Rightarrow> ordering option" where
  "total_compare (SFloat64 a) (SFloat64 b) = Some (compare_lin (f64_total_key a) (f64_total_key b))"
| "total_compare a b = partial_compare a b"

definition ordering_holds :: "operator \<Rightarrow> ordering \<Rightarrow> bool" where
  "ordering_holds op c =
     (case op of
        OpEq \<Rightarrow> c = Equal | OpNotEq \<Rightarrow> c \<noteq> Equal | OpLt \<Rightarrow> c = Less | OpLtEq \<Rightarrow> c \<noteq> Greater
      | OpGt \<Rightarrow> c = Greater | OpGtEq \<Rightarrow> c \<noteq> Less | _ \<Rightarrow> False)"

text \<open>
  A comparison with \<open>NULL\<close> is unknown; operands of different types are first coerced, which
  \<open>mixed\<close> stands for.
\<close>

type_synonym mixed_compare = "operator \<Rightarrow> scalar_value \<Rightarrow> scalar_value \<Rightarrow> bool option"

definition compare_values :: "mixed_compare \<Rightarrow> operator \<Rightarrow> scalar_value \<Rightarrow> scalar_value \<Rightarrow> bool option" where
  "compare_values mixed op a b =
     (if a = SNull \<or> b = SNull then None
      else case total_compare a b of None \<Rightarrow> mixed op a b | Some c \<Rightarrow> Some (ordering_holds op c))"

definition truth_and :: "bool option \<Rightarrow> bool option \<Rightarrow> bool option" where
  "truth_and a b =
     (if a = Some False \<or> b = Some False then Some False
      else if a = Some True \<and> b = Some True then Some True else None)"

definition truth_or :: "bool option \<Rightarrow> bool option \<Rightarrow> bool option" where
  "truth_or a b =
     (if a = Some True \<or> b = Some True then Some True
      else if a = Some False \<and> b = Some False then Some False else None)"

text \<open>A filter on a column that does not resolve fails, so no row passes it.\<close>

definition operand :: "schema \<Rightarrow> scalar_value list \<Rightarrow> expr \<Rightarrow> scalar_value option" where
  "operand s row e =
     (case unalias e of
        Literal v \<Rightarrow> Some v
      | Column n \<Rightarrow> Some (case resolve_field_index s n of Inr i \<Rightarrow> row ! i | Inl _ \<Rightarrow> SNull)
      | _ \<Rightarrow> None)"

function row_truth ::
  "mixed_compare \<Rightarrow> (expr \<Rightarrow> bool option) \<Rightarrow> schema \<Rightarrow> scalar_value list \<Rightarrow> expr \<Rightarrow> bool option" where
  "row_truth mixed other s row e =
     (case unalias e of
        Literal (SBoolean v) \<Rightarrow> Some v
      | Literal SNull \<Rightarrow> None
      | Binary l op r \<Rightarrow>
          if op = OpAnd then truth_and (row_truth mixed other s row l) (row_truth mixed other s row r)
          else if op = OpOr then truth_or (row_truth mixed other s row l) (row_truth mixed other s row r)
          else (case (operand s row l, operand s row r) of
                  (Some a, Some b) \<Rightarrow>
                    if is_comparison op then compare_values mixed op a b else other (Binary l op r)
                | _ \<Rightarrow> other (Binary l op r))
      | IsNull i negated \<Rightarrow>
          (case unalias i of
             Column n \<Rightarrow>
               (case resolve_field_index s n of
                  Inr j \<Rightarrow> Some ((row ! j = SNull) \<noteq> negated)
                | Inl _ \<Rightarrow> None)
           | _ \<Rightarrow> other (IsNull i negated))
      | e' \<Rightarrow> other e')"
  by pat_completeness auto

termination
  by (relation "measure (\<lambda>(m, oth, s, row, e). size e)") (auto dest: size_unalias_Binary)

declare row_truth.simps [simp del]

section \<open>Soundness\<close>

text \<open>Names that the engine and the pruning resolve to the same column.\<close>

definition plain_names :: "schema \<Rightarrow> bool" where
  "plain_names s \<longleftrightarrow>
     (\<forall>f\<in>set (schema_fields s). CHR ''.'' \<notin> set (field_name f))
     \<and> distinct (map (\<lambda>f. to_ascii_lowercase (field_name f)) (schema_fields s))"

text \<open>Neither a NaN nor the negative zero: the two orders of floats agree.\<close>

fun plain_value :: "scalar_value \<Rightarrow> bool" where
  "plain_value (SFloat64 b) = (\<not> f64_is_nan b \<and> unat b \<noteq> 2 ^ 63)"
| "plain_value _ = True"

fun plain_literals :: "expr \<Rightarrow> bool" where
  "plain_literals (Literal v) = plain_value v"
| "plain_literals (Binary l _ r) = (plain_literals l \<and> plain_literals r)"
| "plain_literals (IsNull e _) = plain_literals e"
| "plain_literals (Cast e _) = plain_literals e"
| "plain_literals (Alias e _) = plain_literals e"
| "plain_literals (Aggregate _ e _) = plain_literals e"
| "plain_literals _ = True"

definition at_most :: "scalar_value \<Rightarrow> scalar_value \<Rightarrow> bool" where
  "at_most a b \<longleftrightarrow> partial_compare a b = Some Less \<or> partial_compare a b = Some Equal"

text \<open>
  What Parquet documents of statistics: exact and ordered bounds enclose the values that are present
  and the null count is exact; a column without nulls has none.
\<close>

definition column_described :: "externs \<Rightarrow> field \<Rightarrow> statistics \<Rightarrow> scalar_value list \<Rightarrow> bool" where
  "column_described x f st vs \<longleftrightarrow>
     (\<forall>v\<in>set vs. v \<noteq> SNull \<longrightarrow> plain_value v \<longrightarrow>
        (\<forall>m. usable_min x st (field_type f) = Some m \<longrightarrow> at_most m v)
        \<and> (\<forall>m. usable_max x st (field_type f) = Some m \<longrightarrow> at_most v m))
     \<and> (\<forall>n. si_null_count (stat_info_of st) = Some n \<longrightarrow> unat n = count_list vs SNull)
     \<and> (\<not> field_nullable f \<longrightarrow> SNull \<notin> set vs)"

definition group_described ::
  "externs \<Rightarrow> schema \<Rightarrow> nat option list \<Rightarrow> row_group \<Rightarrow> scalar_value list list \<Rightarrow> bool" where
  "group_described x s parquet_columns rg rows \<longleftrightarrow>
     rg_num_rows rg = int (length rows) \<and> length rows < 2 ^ 63
     \<and> (\<forall>row\<in>set rows. length row = length (schema_fields s))
     \<and> (\<forall>i p st. i < length (schema_fields s) \<longrightarrow> i < length parquet_columns \<longrightarrow>
          parquet_columns ! i = Some p \<longrightarrow> rg_columns rg ! p = Some st \<longrightarrow>
          column_described x (schema_fields s ! i) st (map (\<lambda>row. row ! i) rows))"

lemma unqualified_plain: "CHR ''.'' \<notin> set n \<Longrightarrow> unqualified n = n"
proof -
  assume "CHR ''.'' \<notin> set n"
  then have "takeWhile (\<lambda>c. c \<noteq> CHR ''.'') (rev n) = rev n" by auto
  then show ?thesis by (simp only: unqualified_def rev_rev_ident)
qed

lemma column_statistics_resolves:
  assumes names: "plain_names s" and res: "resolve_field_index s n = Inr i"
    and cs: "column_statistics n s pc rg = Some (j, st)"
  shows "j = i" and "i < length (schema_fields s)"
    and "\<exists>p. i < length pc \<and> pc ! i = Some p \<and> rg_columns rg ! p = Some st"
proof -
  let ?fs = "schema_fields s"
  from res consider "only_at (exact_name n) ?fs i" | "only_at (loose_name n) ?fs i"
    unfolding resolve_iff by blast
  then have "i < length ?fs \<and> field_name (?fs ! i) = unqualified n"
  proof cases
    case 1
    then have "i < length ?fs" "field_name (?fs ! i) = n" by (auto simp: only_at_def exact_name_def)
    moreover from this have "CHR ''.'' \<notin> set n" using names nth_mem by (fastforce simp: plain_names_def)
    ultimately show ?thesis by (simp add: unqualified_plain)
  next
    case 2
    then have "i < length ?fs" "unqualified (field_name (?fs ! i)) = unqualified n"
      by (auto simp: only_at_def loose_name_def)
    moreover from this(1) have "CHR ''.'' \<notin> set (field_name (?fs ! i))"
      using names by (simp add: plain_names_def)
    ultimately show ?thesis by (simp add: unqualified_plain)
  qed
  then have i: "i < length ?fs" "field_name (?fs ! i) = unqualified n" by auto
  let ?P = "\<lambda>f. eq_ignore_ascii_case (field_name f) (unqualified n)"
  have "only_at ?P ?fs i"
    unfolding only_at_def
  proof (intro conjI allI impI)
    fix k assume k: "k < length ?fs" "?P (?fs ! k)"
    then show "k = i"
      using names i nth_eq_iff_index_eq [of "map (\<lambda>f. to_ascii_lowercase (field_name f)) ?fs" k i]
      by (simp add: plain_names_def eq_ignore_ascii_case_def)
  qed (use i in \<open>simp_all add: eq_ignore_ascii_case_def\<close>)
  then have pos: "positions ?P ?fs = [i]" by (simp add: positions_single_iff)
  from cs show "j = i" "\<exists>p. i < length pc \<and> pc ! i = Some p \<and> rg_columns rg ! p = Some st"
    unfolding column_statistics_def pos by (auto split: if_splits option.splits)
  show "i < length ?fs" by (rule i)
qed

text \<open>On plain values of one type the total order is the partial one.\<close>

lemma signed_keys_compare:
  fixes a b h :: nat
  assumes "\<not> a < h \<Longrightarrow> 0 < a mod h" "\<not> b < h \<Longrightarrow> 0 < b mod h"
  shows "compare_lin (if a < h then int a else - int (a mod h) - 1) (if b < h then int b else - int (b mod h) - 1)
    = compare_lin (if a < h then int a else - int (a mod h)) (if b < h then int b else - int (b mod h))"
  using assms by (cases "a < h"; cases "b < h") (auto simp: compare_lin_def simp del: of_nat_mod)

lemma f64_total_plain:
  assumes "unat a \<noteq> 2 ^ 63" "unat b \<noteq> 2 ^ 63"
  shows "compare_lin (f64_total_key a) (f64_total_key b) = compare_lin (f64_key a) (f64_key b)"
proof -
  have mag: "0 < unat c mod 2 ^ 63" if "\<not> unat c < 2 ^ 63" "unat c \<noteq> 2 ^ 63" for c :: u64
  proof -
    have "unat c < 2 ^ LENGTH(64)" by (rule unsigned_less)
    then have "unat c < 2 ^ 63 + 2 ^ 63" by simp
    then have "unat c mod 2 ^ 63 = unat c - 2 ^ 63" using that(1) by (simp add: mod_if)
    then show ?thesis using that by simp
  qed
  show ?thesis
    unfolding f64_total_key_def f64_key_def
    by (rule signed_keys_compare) (use mag assms in blast)+
qed

lemma total_compare_plain:
  assumes "plain_value a" "plain_value b" shows "total_compare a b = partial_compare a b"
  using assms f64_total_plain by (cases a; cases b) (auto simp: f64_partial_cmp_def)

subsection \<open>Bounds\<close>

lemma at_most_trans: "at_most a b \<Longrightarrow> at_most b c \<Longrightarrow> at_most a c"
  by (cases a; cases b; cases c)
    (auto simp: at_most_def f64_partial_cmp_def compare_lin_def split: if_splits)

lemma at_most_less_trans: "at_most a b \<Longrightarrow> partial_compare b c = Some Less \<Longrightarrow> partial_compare a c = Some Less"
  by (cases a; cases b; cases c)
    (auto simp: at_most_def f64_partial_cmp_def compare_lin_def split: if_splits)

lemma less_at_most_trans: "partial_compare a b = Some Less \<Longrightarrow> at_most b c \<Longrightarrow> partial_compare a c = Some Less"
  by (cases a; cases b; cases c)
    (auto simp: at_most_def f64_partial_cmp_def compare_lin_def split: if_splits)

lemma compare_Greater: "partial_compare a b = Some Greater \<longleftrightarrow> partial_compare b a = Some Less"
  unfolding partial_compare_flip [of b a] by (auto elim: flip_ordering.elims)

lemma compare_Equal: "partial_compare a b = Some Equal \<longleftrightarrow> partial_compare b a = Some Equal"
  unfolding partial_compare_flip [of b a] by (auto elim: flip_ordering.elims)

lemma scalar_eq_iff [simp]: "scalar_eq a b \<longleftrightarrow> a = b"
  by (cases a; cases b) auto

text \<open>A value within bounds that rule the comparison out is ordered against it.\<close>

lemma bounds_sound:
  assumes mn: "\<And>m. mn = Some m \<Longrightarrow> at_most m v" and mx: "\<And>m. mx = Some m \<Longrightarrow> at_most v m"
    and pruned: "\<not> bounds_may_match op t lit mn mx"
  shows "\<exists>c. partial_compare v lit = Some c \<and> \<not> ordering_holds op c"
proof -
  have low: "partial_compare v lit = Some Greater" if "mn = Some m" "partial_compare lit m = Some Less" for m
    using less_at_most_trans [OF that(2) mn [OF that(1)]] by (simp add: compare_Greater)
  have high: "partial_compare v lit = Some Less" if "mx = Some m" "partial_compare lit m = Some Greater" for m
    using at_most_less_trans [OF mx [OF that(1)]] that(2) by (simp add: compare_Greater)
  have ge: "partial_compare v lit = Some Equal \<or> partial_compare v lit = Some Greater"
    if "mn = Some m" "partial_compare m lit = Some Equal \<or> partial_compare m lit = Some Greater" for m
  proof -
    have "at_most lit m" using that(2) compare_Equal [of m lit] compare_Greater [of m lit] by (auto simp: at_most_def)
    then have "at_most lit v" using at_most_trans mn [OF that(1)] by blast
    then show ?thesis using compare_Equal [of v lit] compare_Greater [of v lit] by (auto simp: at_most_def)
  qed
  have le: "partial_compare v lit = Some Equal \<or> partial_compare v lit = Some Less"
    if "mx = Some m" "partial_compare m lit = Some Equal \<or> partial_compare m lit = Some Less" for m
  proof -
    have "at_most m lit" using that(2) by (auto simp: at_most_def)
    then have "at_most v lit" using at_most_trans mx [OF that(1)] by blast
    then show ?thesis by (auto simp: at_most_def)
  qed
  show ?thesis
  proof (cases op)
    case OpEq
    then obtain m where "mn = Some m \<and> partial_compare lit m = Some Less \<or> mx = Some m \<and> partial_compare lit m = Some Greater"
      using pruned by (auto simp: bounds_may_match_def none_or_def split: option.splits)
    then show ?thesis using low high OpEq by (auto simp: ordering_holds_def)
  next
    case OpNotEq
    then have "mn = Some lit" "mx = Some lit"
      using pruned by (auto simp: bounds_may_match_def some_and_def split: option.splits if_splits)
    then have "at_most lit v" "at_most v lit" using mn mx by auto
    then have "partial_compare v lit = Some Equal"
      using compare_Greater [of lit v] compare_Greater [of v lit] by (auto simp: at_most_def)
    then show ?thesis using OpNotEq by (simp add: ordering_holds_def)
  next
    case OpLt
    then obtain m where "mn = Some m" "partial_compare m lit = Some Equal \<or> partial_compare m lit = Some Greater"
      using pruned by (auto simp: bounds_may_match_def some_and_def split: option.splits)
    then show ?thesis using ge OpLt by (auto simp: ordering_holds_def)
  next
    case OpLtEq
    then obtain m where "mn = Some m" "partial_compare lit m = Some Less"
      using pruned compare_Greater by (auto simp: bounds_may_match_def none_or_def split: option.splits)
    then show ?thesis using low OpLtEq by (auto simp: ordering_holds_def)
  next
    case OpGt
    then obtain m where "mx = Some m" "partial_compare m lit = Some Equal \<or> partial_compare m lit = Some Less"
      using pruned by (auto simp: bounds_may_match_def some_and_def split: option.splits)
    then show ?thesis using le OpGt by (auto simp: ordering_holds_def)
  next
    case OpGtEq
    then obtain m where "mx = Some m" "partial_compare lit m = Some Greater"
      using pruned compare_Greater by (auto simp: bounds_may_match_def none_or_def split: option.splits)
    then show ?thesis using high OpGtEq by (auto simp: ordering_holds_def)
  qed (use pruned in \<open>simp_all add: bounds_may_match_def\<close>)
qed

lemma reverse_comparison_holds:
  "is_comparison op \<Longrightarrow> ordering_holds (reverse_comparison op) c \<longleftrightarrow> ordering_holds op (flip_ordering c)"
  by (cases op; cases c) (simp_all add: is_comparison_def ordering_holds_def)

lemma column_literal_sound:
  assumes names: "plain_names s" and desc: "group_described x s pc rg rows"
    and row: "row \<in> set rows" "\<forall>v\<in>set row. plain_value v" and res: "resolve_field_index s n = Inr i"
    and lit: "lit \<noteq> SNull" and present: "row ! i \<noteq> SNull"
    and pruned: "\<not> column_literal_may_match x n op lit s pc rg"
  shows "\<exists>c. partial_compare (row ! i) lit = Some c \<and> \<not> ordering_holds op c \<and> plain_value (row ! i)"
proof -
  obtain j st where cs: "column_statistics n s pc rg = Some (j, st)"
    using pruned lit by (auto simp: column_literal_may_match_def split: option.splits)
  note r = column_statistics_resolves [OF names res cs]
  let ?f = "schema_fields s ! i"
  have d: "column_described x ?f st (map (\<lambda>row. row ! i) rows)"
    using desc r by (auto simp: group_described_def)
  have v: "row ! i \<in> set (map (\<lambda>row. row ! i) rows)" using row(1) by simp
  have "length row = length (schema_fields s)" using desc row(1) by (simp add: group_described_def)
  then have plain: "plain_value (row ! i)" using row(2) r(2) by simp
  have "\<not> bounds_may_match op (field_type ?f) lit (usable_min x st (field_type ?f)) (usable_max x st (field_type ?f))"
    using pruned lit cs r(1) by (simp add: column_literal_may_match_def Let_def)
  moreover have "at_most m (row ! i)" if "usable_min x st (field_type ?f) = Some m" for m
    using d v present plain that unfolding column_described_def by blast
  moreover have "at_most (row ! i) m" if "usable_max x st (field_type ?f) = Some m" for m
    using d v present plain that unfolding column_described_def by blast
  ultimately show ?thesis using bounds_sound [of "usable_min x st (field_type ?f)" "row ! i"] plain by blast
qed

lemma compare_values_plain:
  assumes "a \<noteq> SNull" "b \<noteq> SNull" "plain_value a" "plain_value b" "partial_compare a b = Some c"
  shows "compare_values mixed op a b = Some (ordering_holds op c)"
  using assms by (simp add: compare_values_def total_compare_plain)

lemma comparison_sound:
  assumes names: "plain_names s" and desc: "group_described x s pc rg rows"
    and row: "row \<in> set rows" "\<forall>v\<in>set row. plain_value v" and op: "is_comparison op"
    and lits: "plain_literals l" "plain_literals r"
    and pruned: "\<not> comparison_may_match x l op r s pc rg"
  shows "\<exists>a b. operand s row l = Some a \<and> operand s row r = Some b \<and> compare_values mixed op a b \<noteq> Some True"
proof -
  have plain: "plain_value v" if "unalias e = Literal v" "plain_literals e" for e v
    using that by (cases e) auto
  consider (cl) n v where "unalias l = Column n" "unalias r = Literal v" "\<not> column_literal_may_match x n op v s pc rg"
    | (lc) n v where "unalias l = Literal v" "unalias r = Column n"
        "\<not> column_literal_may_match x n (reverse_comparison op) v s pc rg"
    using pruned by (auto simp: comparison_may_match_def split: expr.splits)
  then show ?thesis
  proof cases
    case cl
    show ?thesis
    proof (cases "v = SNull \<or> operand s row l = Some SNull")
      case True
      then show ?thesis using cl by (auto simp: operand_def compare_values_def split: sum.splits)
    next
      case False
      then obtain i where i: "resolve_field_index s n = Inr i" "row ! i \<noteq> SNull"
        using cl by (auto simp: operand_def split: sum.splits)
      obtain c where "partial_compare (row ! i) v = Some c" "\<not> ordering_holds op c" "plain_value (row ! i)"
        using column_literal_sound [OF names desc row i(1) _ i(2) cl(3)] False by blast
      then show ?thesis
        using cl i False compare_values_plain [of "row ! i" v c mixed op] plain [OF cl(2) lits(2)]
        by (auto simp: operand_def)
    qed
  next
    case lc
    show ?thesis
    proof (cases "v = SNull \<or> operand s row r = Some SNull")
      case True
      then show ?thesis using lc by (auto simp: operand_def compare_values_def split: sum.splits)
    next
      case False
      then obtain i where i: "resolve_field_index s n = Inr i" "row ! i \<noteq> SNull"
        using lc by (auto simp: operand_def split: sum.splits)
      obtain c where c: "partial_compare (row ! i) v = Some c" "\<not> ordering_holds (reverse_comparison op) c"
        "plain_value (row ! i)"
        using column_literal_sound [OF names desc row i(1) _ i(2) lc(3)] False by blast
      then have "partial_compare v (row ! i) = Some (flip_ordering c)"
        using partial_compare_flip [of v "row ! i"] by simp
      then show ?thesis
        using lc i c False compare_values_plain [of v "row ! i" "flip_ordering c" mixed op] plain [OF lc(1) lits(1)]
          reverse_comparison_holds [OF op]
        by (auto simp: operand_def)
    qed
  qed
qed

lemma all_null: "length vs \<le> count_list vs (a :: 'a) \<Longrightarrow> v \<in> set vs \<Longrightarrow> v = a"
proof (induction vs)
  case (Cons u vs)
  have "count_list vs a \<le> length vs" by (rule count_le_length)
  with Cons show ?case by (auto split: if_splits)
qed simp

lemma is_null_sound:
  assumes names: "plain_names s" and desc: "group_described x s pc rg rows" and row: "row \<in> set rows"
    and n: "unalias e = Column n" and pruned: "\<not> is_null_may_match e negated s pc rg"
    and res: "resolve_field_index s n = Inr i"
  shows "(row ! i = SNull) = negated"
proof -
  obtain j st where cs: "column_statistics n s pc rg = Some (j, st)"
    using pruned n by (auto simp: is_null_may_match_def split: option.splits)
  note r = column_statistics_resolves [OF names res cs]
  let ?f = "schema_fields s ! i" and ?vs = "map (\<lambda>row. row ! i) rows"
  have d: "column_described x ?f st ?vs" using desc r by (auto simp: group_described_def)
  have v: "row ! i \<in> set ?vs" using row by simp
  show ?thesis
  proof (cases "field_nullable ?f")
    case False
    then have "SNull \<notin> set ?vs" using d unfolding column_described_def by blast
    moreover have "\<not> negated" using False pruned n cs r(1) by (simp add: is_null_may_match_def)
    ultimately show ?thesis using v by metis
  next
    case True
    then obtain nulls where nulls: "si_null_count (stat_info_of st) = Some nulls"
      and p: "\<not> (if negated then nulls < of_int (max (rg_num_rows rg) 0) else nulls > 0)"
      using pruned n cs r(1) by (auto simp: is_null_may_match_def split: option.splits)
    have cnt: "unat nulls = count_list ?vs SNull" using d nulls unfolding column_described_def by blast
    have rows: "rg_num_rows rg = int (length rows)" "length rows < 2 ^ 63" using desc by (simp_all add: group_described_def)
    then have "(of_int (max (rg_num_rows rg) 0) :: u64) = of_nat (length rows)" by simp
    moreover have "unat (of_nat (length rows) :: u64) = length rows"
      using rows(2) by (intro unat_of_nat_small) simp
    ultimately show ?thesis
      using p v cnt all_null [of ?vs SNull "row ! i"] count_list_0_iff [of ?vs SNull]
      by (cases negated) (auto simp: word_less_nat_alt not_less)
  qed
qed

lemma expression_sound:
  assumes names: "plain_names s" and desc: "group_described x s pc rg rows"
    and row: "row \<in> set rows" "\<forall>v\<in>set row. plain_value v"
  shows "plain_literals e \<Longrightarrow> \<not> expression_may_match x e s pc rg \<Longrightarrow> row_truth mixed other s row e \<noteq> Some True"
proof (induction e rule: measure_induct_rule [where f = size])
  case (less e)
  have sub: "plain_literals (unalias e)" using less.prems(1) by (cases e) simp_all
  show ?case
  proof (cases "unalias e")
    case (Literal v)
    then show ?thesis
      using less.prems(2) expression_may_match.simps [of x e s pc rg] row_truth.simps [of mixed other s row e]
      by (cases v) auto
  next
    case (Binary l op r)
    then have pl: "plain_literals l" "plain_literals r" using sub by simp_all
    note sz = size_unalias_Binary [OF Binary]
    consider "op = OpAnd" | "op = OpOr" | "is_comparison op" "op \<noteq> OpAnd" "op \<noteq> OpOr" | "\<not> is_comparison op" "op \<noteq> OpAnd" "op \<noteq> OpOr"
      by blast
    then show ?thesis
    proof cases
      case 1
      then have "row_truth mixed other s row l \<noteq> Some True \<or> row_truth mixed other s row r \<noteq> Some True"
        using less.prems(2) less.IH [of l] less.IH [of r] sz pl Binary expression_may_match.simps [of x e s pc rg] by auto
      then show ?thesis using 1 Binary row_truth.simps [of mixed other s row e] by (auto simp: truth_and_def)
    next
      case 2
      then have "row_truth mixed other s row l \<noteq> Some True" "row_truth mixed other s row r \<noteq> Some True"
        using less.prems(2) less.IH [of l] less.IH [of r] sz pl Binary expression_may_match.simps [of x e s pc rg] by auto
      then show ?thesis using 2 Binary row_truth.simps [of mixed other s row e] by (auto simp: truth_or_def)
    next
      case 3
      then have "\<not> comparison_may_match x l op r s pc rg"
        using less.prems(2) Binary expression_may_match.simps [of x e s pc rg] by simp
      from comparison_sound [OF names desc row 3(1) pl this, of mixed]
      show ?thesis using 3 Binary row_truth.simps [of mixed other s row e] by auto
    next
      case 4
      then show ?thesis using less.prems(2) Binary expression_may_match.simps [of x e s pc rg] by simp
    qed
  next
    case (IsNull i negated)
    then have pruned: "\<not> is_null_may_match i negated s pc rg"
      using less.prems(2) expression_may_match.simps [of x e s pc rg] by simp
    then obtain n where n: "unalias i = Column n" by (auto simp: is_null_may_match_def split: expr.splits)
    show ?thesis
    proof (cases "resolve_field_index s n")
      case (Inl err)
      then show ?thesis using IsNull n row_truth.simps [of mixed other s row e] by simp
    next
      case (Inr j)
      then show ?thesis
        using is_null_sound [OF names desc row(1) n pruned Inr] IsNull n row_truth.simps [of mixed other s row e] by simp
    qed
  qed (use less.prems(2) expression_may_match.simps [of x e s pc rg] in simp_all)
qed

section \<open>Properties\<close>

text \<open>
  C18: A row group is skipped only if none of its rows passes the filters.  For a schema whose names
  differ in more than case and have no dots, statistics that describe the rows as Parquet documents
  them, and rows and literals without NaN and negative zero, every row of a group that the table
  rejects fails one of the filters, under any meaning of the expressions the test does not analyse.
\<close>

theorem pruning_sound:
  assumes "plain_names (pq_schema t)" and "p < length (pq_row_groups t)"
    and "group_described x (pq_schema t) (pq_columns t) (pq_row_groups t ! p) rows"
    and "\<forall>row\<in>set rows. \<forall>v\<in>set row. plain_value v" and "\<forall>f\<in>set filters. plain_literals f"
    and "partition_may_match x t p filters = Inr False"
  shows "\<forall>row\<in>set rows. \<exists>f\<in>set filters. row_truth mixed other (pq_schema t) row f \<noteq> Some True"
proof
  fix row assume row: "row \<in> set rows"
  have "\<not> row_group_may_match x (pq_schema t) (pq_columns t) (pq_row_groups t ! p) filters"
    using assms(2,6) by (simp add: partition_may_match_def)
  then obtain f where f: "f \<in> set filters" "\<not> expression_may_match x f (pq_schema t) (pq_columns t) (pq_row_groups t ! p)"
    by (auto simp: row_group_may_match_def list_all_iff)
  have "row_truth mixed other (pq_schema t) row f \<noteq> Some True"
    using expression_sound [OF assms(1,3) row, of f] assms(4,5) row f by blast
  then show "\<exists>f\<in>set filters. row_truth mixed other (pq_schema t) row f \<noteq> Some True" using f(1) by blast
qed

text \<open>One column of integers between 3 and 7.\<close>

definition exact_info :: stat_info where
  "exact_info = \<lparr>si_null_count = Some 0, si_min_exact = True, si_max_exact = True, si_deprecated = False,
     si_backwards_compatible = False\<rparr>"

definition int_group :: row_group where
  "int_group = \<lparr>rg_num_rows = 2, rg_columns = [Some (StInt64 exact_info (Some 3) (Some 7))]\<rparr>"

definition int_table :: parquet_table where
  "int_table = parquet_table_new (schema_new [field_new ''a'' TInt64 False]) [''a''] [int_group]"

definition at_least_nine :: expr where
  "at_least_nine = Binary (Literal (SInt64 9)) OpLtEq (Column ''a'')"

theorem pruning_sound_witness:
  "row_truth (\<lambda>_ _ _. None) (\<lambda>_. None) (pq_schema int_table) [SInt64 7] at_least_nine \<noteq> Some True"
proof -
  have cols: "pq_columns int_table = [Some 0]" and groups: "pq_row_groups int_table = [int_group]"
    and sch: "schema_fields (pq_schema int_table) = [field_new ''a'' TInt64 False]"
    by (simp_all add: int_table_def parquet_table_new_def parquet_column_def positions_def field_new_def schema_new_def)
  have "partition_may_match x int_table 0 [at_least_nine] = Inr False" for x
    by (simp add: partition_may_match_def groups row_group_may_match_def expression_may_match.simps at_least_nine_def
        is_comparison_def comparison_may_match_def column_literal_may_match_def column_statistics_def positions_def
        sch cols eq_ignore_ascii_case_def unqualified_plain field_new_def int_group_def usable_max_def usable_min_def
        exact_info_def ordered_statistics_def bounds_may_match_def none_or_def compare_lin_def)
  moreover have "group_described x (pq_schema int_table) (pq_columns int_table) (pq_row_groups int_table ! 0)
      [[SInt64 3], [SInt64 7]]" for x
    by (auto simp: group_described_def sch cols groups int_group_def column_described_def usable_min_def usable_max_def
        exact_info_def at_most_def compare_lin_def field_new_def)
  moreover have "plain_names (pq_schema int_table)" by (simp add: plain_names_def sch field_new_def)
  ultimately show ?thesis
    using pruning_sound [of int_table 0 sample_externs "[[SInt64 3], [SInt64 7]]" "[at_least_nine]" "\<lambda>_ _ _. None" "\<lambda>_. None"]
    by (simp add: groups at_least_nine_def)
qed

definition case_schema :: schema where
  "case_schema = schema_new [field_new ''a'' TInt64 False, field_new ''A'' TInt64 False]"

definition case_group :: row_group where
  "case_group = \<lparr>rg_num_rows = 1,
     rg_columns = [Some (StInt64 exact_info (Some 1) (Some 1)), Some (StInt64 exact_info (Some 5) (Some 5))]\<rparr>"

definition case_table :: parquet_table where
  "case_table = parquet_table_new case_schema [''a'', ''A''] [case_group]"

text \<open>
  C37: The test and the engine may look at different columns.  When a file has columns whose names
  differ only in case, the test takes the statistics of the first, and a filter on the second can
  skip a row group with a row that passes it.
\<close>

theorem pruning_wrong_column:
  "partition_may_match x case_table 0 [Binary (Column ''A'') OpEq (Literal (SInt64 5))] = Inr False
   \<and> group_described x case_schema (pq_columns case_table) case_group [[SInt64 1, SInt64 5]]
   \<and> row_truth mixed other case_schema [SInt64 1, SInt64 5] (Binary (Column ''A'') OpEq (Literal (SInt64 5))) = Some True"
proof (intro conjI)
  have sch: "schema_fields case_schema = [field_new ''a'' TInt64 False, field_new ''A'' TInt64 False]"
    by (simp add: case_schema_def schema_new_def)
  have cols: "pq_columns case_table = [Some 0, Some (Suc 0)]"
    by (simp add: case_table_def parquet_table_new_def sch parquet_column_def positions_def field_new_def)
  have lower: "to_ascii_lowercase ''a'' = ''a''" "to_ascii_lowercase ''A'' = ''a''" by code_simp+
  have first: "column_statistics ''A'' case_schema [Some 0, Some (Suc 0)] case_group
      = Some (0, StInt64 exact_info (Some 1) (Some 1))"
    by (simp add: column_statistics_def positions_def sch eq_ignore_ascii_case_def unqualified_plain field_new_def lower
        case_group_def)
  have "\<not> column_literal_may_match x ''A'' OpEq (SInt64 5) case_schema [Some 0, Some (Suc 0)] case_group"
    by (simp add: column_literal_may_match_def first sch field_new_def usable_min_def usable_max_def exact_info_def
        ordered_statistics_def bounds_may_match_def none_or_def compare_lin_def)
  then show "partition_may_match x case_table 0 [Binary (Column ''A'') OpEq (Literal (SInt64 5))] = Inr False"
    by (simp add: partition_may_match_def cols row_group_may_match_def expression_may_match.simps is_comparison_def
        comparison_may_match_def) (simp add: case_table_def parquet_table_new_def)
  have "column_described x (field_new n TInt64 False) (StInt64 exact_info (Some v) (Some v)) [SInt64 v]" for n v
    by (simp add: column_described_def usable_min_def usable_max_def exact_info_def at_most_def compare_lin_def field_new_def)
  then show "group_described x case_schema (pq_columns case_table) case_group [[SInt64 1, SInt64 5]]"
    by (auto simp: group_described_def cols sch case_group_def less_Suc_eq)
  have "resolve_field_index case_schema ''A'' = Inr 1"
    by (simp add: resolve_field_index_def positions_def sch field_new_def)
  then show "row_truth mixed other case_schema [SInt64 1, SInt64 5] (Binary (Column ''A'') OpEq (Literal (SInt64 5))) = Some True"
    by (simp add: row_truth.simps operand_def is_comparison_def compare_values_def ordering_holds_def compare_lin_def)
qed

definition f64_one :: u64 where
  "f64_one = 0x3FF0000000000000"

definition f64_five :: u64 where
  "f64_five = 0x4014000000000000"

definition f64_nan :: u64 where
  "f64_nan = 0x7FF8000000000000"

definition nan_group :: row_group where
  "nan_group = \<lparr>rg_num_rows = 2, rg_columns = [Some (StDouble exact_info (Some f64_one) (Some f64_one))]\<rparr>"

definition nan_table :: parquet_table where
  "nan_table = parquet_table_new (schema_new [field_new ''a'' TFloat64 False]) [''a''] [nan_group]"

text \<open>
  C38: A NaN is outside the bounds that Parquet records, and Arrow orders it above every number: a row
  group with the values 1 and NaN is skipped for the filter \<open>a > 5\<close>, which its NaN passes.
\<close>

theorem pruning_drops_nan:
  "partition_may_match x nan_table 0 [Binary (Column ''a'') OpGt (Literal (SFloat64 f64_five))] = Inr False
   \<and> group_described x (pq_schema nan_table) (pq_columns nan_table) nan_group [[SFloat64 f64_one], [SFloat64 f64_nan]]
   \<and> row_truth mixed other (pq_schema nan_table) [SFloat64 f64_nan]
       (Binary (Column ''a'') OpGt (Literal (SFloat64 f64_five))) = Some True"
proof (intro conjI)
  have cols: "pq_columns nan_table = [Some 0]" and groups: "pq_row_groups nan_table = [nan_group]"
    and sch: "schema_fields (pq_schema nan_table) = [field_new ''a'' TFloat64 False]"
    by (simp_all add: nan_table_def parquet_table_new_def parquet_column_def positions_def field_new_def schema_new_def)
  have nan: "f64_is_nan f64_nan" "\<not> f64_is_nan f64_one" "\<not> f64_is_nan f64_five"
    by (simp_all add: f64_is_nan_def f64_nan_def f64_one_def f64_five_def)
  have keys: "f64_key f64_one < f64_key f64_five" "f64_total_key f64_five < f64_total_key f64_nan"
    by (simp_all add: f64_key_def f64_total_key_def f64_nan_def f64_one_def f64_five_def)
  have "column_statistics ''a'' (pq_schema nan_table) [Some 0] nan_group
      = Some (0, StDouble exact_info (Some f64_one) (Some f64_one))"
    by (simp add: column_statistics_def positions_def sch eq_ignore_ascii_case_def unqualified_plain field_new_def
        nan_group_def)
  then have "\<not> column_literal_may_match x ''a'' OpGt (SFloat64 f64_five) (pq_schema nan_table) [Some 0] nan_group"
    using nan keys
    by (simp add: column_literal_may_match_def sch field_new_def usable_min_def usable_max_def exact_info_def
        ordered_statistics_def bounds_may_match_def some_and_def f64_partial_cmp_def compare_lin_def)
  then show "partition_may_match x nan_table 0 [Binary (Column ''a'') OpGt (Literal (SFloat64 f64_five))] = Inr False"
    by (simp add: partition_may_match_def cols groups row_group_may_match_def expression_may_match.simps
        is_comparison_def comparison_may_match_def)
  show "group_described x (pq_schema nan_table) (pq_columns nan_table) nan_group [[SFloat64 f64_one], [SFloat64 f64_nan]]"
    using nan
    by (auto simp: group_described_def sch cols nan_group_def column_described_def usable_min_def usable_max_def
        exact_info_def at_most_def compare_lin_def f64_partial_cmp_def field_new_def)
  have "resolve_field_index (pq_schema nan_table) ''a'' = Inr 0"
    by (simp add: resolve_field_index_def positions_def sch field_new_def)
  then show "row_truth mixed other (pq_schema nan_table) [SFloat64 f64_nan]
       (Binary (Column ''a'') OpGt (Literal (SFloat64 f64_five))) = Some True"
    using keys
    by (simp add: row_truth.simps operand_def is_comparison_def compare_values_def ordering_holds_def compare_lin_def)
qed

end
