(* ===== verification/Plan_Codec.thy ===== *)
theory Plan_Codec
  imports Planner
begin

text \<open>
  \<open>src/cluster/plan_codec.rs\<close>: the versioned wire form of physical plans.

  The Protobuf messages are datatypes with the source's fields; an \<open>optional\<close> message field is an
  \<open>option\<close>, an \<open>enumeration\<close> field is the \<open>i32\<close> code it carries on the wire.  The byte encoding of
  a message is the work of the \<open>prost\<close> library: the two functions \<open>pb_encode\<close> and \<open>pb_decode\<close>
  are arguments of the definitions that use bytes.
\<close>

section \<open>Wire messages\<close>

datatype wire_scalar_value =
    WNull bool | WBoolean bool | WInt64 i64 | WUInt64 u64 | WFloat64 u64 | WUtf8 string

datatype wire_scalar = WireScalar "wire_scalar_value option"

datatype wire_expr = WireExpr "wire_expr_kind option"
and wire_expr_kind =
    WColumn string
  | WLiteral wire_scalar
  | WBinary "wire_expr option" u32 "wire_expr option"
  | WIsNull "wire_expr option" bool
  | WCast "wire_expr option" u32
  | WAlias "wire_expr option" string
  | WAggregate u32 "wire_expr option" bool
  | WWildcard bool

record wire_sort_expr =
  wse_expr :: "wire_expr option"
  wse_ascending :: bool
  wse_nulls_first :: bool

type_synonym wire_key_value = "string \<times> string"

record wire_field =
  wf_name :: string
  wf_data_type :: u32
  wf_nullable :: bool
  wf_metadata :: "wire_key_value list"

record wire_schema =
  ws_fields :: "wire_field list"
  ws_metadata :: "wire_key_value list"

datatype wire_plan = WirePlan "wire_plan_kind option"
and wire_plan_kind =
    WScan operator_id string bool "u32 list" "wire_expr list" "wire_schema option"
  | WProjection operator_id "wire_plan option" "wire_expr list" "wire_schema option"
  | WFilter operator_id "wire_plan option" "wire_expr option" "wire_schema option"
  | WHashAggregate operator_id "wire_plan option" "wire_expr list" "wire_expr list"
      "wire_schema option"
  | WSort operator_id "wire_plan option" "wire_sort_expr list" "wire_schema option"
  | WTopK operator_id "wire_plan option" "wire_sort_expr list" u64 "wire_schema option"
  | WLimit operator_id "wire_plan option" u64 "wire_schema option"
  | WHashJoin operator_id "wire_plan option" "wire_plan option" u32 "wire_expr list"
      "wire_expr list" "wire_schema option"

record wire_plan_envelope =
  env_version :: u32
  env_root :: "wire_plan option"

section \<open>Constants and checks\<close>

definition PLAN_CODEC_VERSION :: u32 where
  "PLAN_CODEC_VERSION = 2"

definition MAX_PLAN_FRAGMENT_BYTES :: nat where
  "MAX_PLAN_FRAGMENT_BYTES = 16 * 1024 * 1024"

definition MAX_PLAN_DEPTH :: nat where
  "MAX_PLAN_DEPTH = 128"

definition codec_error :: "string \<Rightarrow> sparkx_error" where
  "codec_error m = EProtocol (''invalid physical plan fragment: '' @ m)"

definition validate_fragment_size :: "nat \<Rightarrow> unit result" where
  "validate_fragment_size n =
     (if n = 0 then Inl (codec_error ''plan fragment must not be empty'')
      else if MAX_PLAN_FRAGMENT_BYTES < n
      then Inl (codec_error ''plan fragment is {bytes} bytes; maximum is {MAX_PLAN_FRAGMENT_BYTES} bytes'')
      else Inr ())"

definition check_depth :: "nat \<Rightarrow> unit result" where
  "check_depth d =
     (if MAX_PLAN_DEPTH \<le> d
      then Inl (codec_error ''plan exceeds maximum nesting depth {MAX_PLAN_DEPTH}'')
      else Inr ())"

definition checked_u32 :: "nat \<Rightarrow> string \<Rightarrow> u32 result" where
  "checked_u32 n name =
     (if n < 2 ^ 32 then Inr (of_nat n) else Inl (codec_error (name @ '' {value} exceeds u32'')))"

definition checked_u64 :: "nat \<Rightarrow> string \<Rightarrow> u64 result" where
  "checked_u64 n name =
     (if n < 2 ^ 64 then Inr (of_nat n) else Inl (codec_error (name @ '' {value} exceeds u64'')))"

text \<open>On a 64-bit target every \<open>u64\<close> is a \<open>usize\<close>.\<close>

definition checked_usize :: "u64 \<Rightarrow> string \<Rightarrow> nat result" where
  "checked_usize w name = Inr (unat w)"

definition required :: "'a option \<Rightarrow> string \<Rightarrow> 'a result" where
  "required v name = ok_or v (codec_error (name @ '' is missing''))"

text \<open>The codec's own \<open>unqualified\<close>: \<open>rsplit_once('.')\<close>, the whole name without a dot.\<close>

fun split_last_dot :: "string \<Rightarrow> string option" where
  "split_last_dot [] = None"
| "split_last_dot (c # s) =
     (case split_last_dot s of
        Some t \<Rightarrow> Some t
      | None \<Rightarrow> if c = CHR ''.'' then Some s else None)"

definition codec_unqualified :: "string \<Rightarrow> string" where
  "codec_unqualified n = (case split_last_dot n of None \<Rightarrow> n | Some t \<Rightarrow> t)"

section \<open>Enumerations\<close>

fun encode_data_type :: "data_type \<Rightarrow> u32 result" where
  "encode_data_type TNull = Inr 0"
| "encode_data_type TBoolean = Inr 1"
| "encode_data_type TInt32 = Inr 2"
| "encode_data_type TInt64 = Inr 3"
| "encode_data_type TUInt32 = Inr 4"
| "encode_data_type TUInt64 = Inr 5"
| "encode_data_type TFloat32 = Inr 6"
| "encode_data_type TFloat64 = Inr 7"
| "encode_data_type TUtf8 = Inr 8"
| "encode_data_type (TOther _) = Inl (codec_error
     ''Arrow data type {other} is not supported by plan codec version {PLAN_CODEC_VERSION}'')"

definition decode_data_type :: "u32 \<Rightarrow> data_type result" where
  "decode_data_type v =
     (if v = 0 then Inr TNull else if v = 1 then Inr TBoolean else if v = 2 then Inr TInt32
      else if v = 3 then Inr TInt64 else if v = 4 then Inr TUInt32 else if v = 5 then Inr TUInt64
      else if v = 6 then Inr TFloat32 else if v = 7 then Inr TFloat64 else if v = 8 then Inr TUtf8
      else Inl (codec_error ''unknown Arrow data-type code {value}''))"

fun encode_operator :: "operator \<Rightarrow> u32" where
  "encode_operator OpEq = 0"
| "encode_operator OpNotEq = 1"
| "encode_operator OpLt = 2"
| "encode_operator OpLtEq = 3"
| "encode_operator OpGt = 4"
| "encode_operator OpGtEq = 5"
| "encode_operator OpAnd = 6"
| "encode_operator OpOr = 7"
| "encode_operator OpAdd = 8"
| "encode_operator OpSubtract = 9"
| "encode_operator OpMultiply = 10"
| "encode_operator OpDivide = 11"

definition decode_operator :: "u32 \<Rightarrow> operator result" where
  "decode_operator v =
     (if v = 0 then Inr OpEq else if v = 1 then Inr OpNotEq else if v = 2 then Inr OpLt
      else if v = 3 then Inr OpLtEq else if v = 4 then Inr OpGt else if v = 5 then Inr OpGtEq
      else if v = 6 then Inr OpAnd else if v = 7 then Inr OpOr else if v = 8 then Inr OpAdd
      else if v = 9 then Inr OpSubtract else if v = 10 then Inr OpMultiply
      else if v = 11 then Inr OpDivide
      else Inl (codec_error ''unknown expression operator code {value}''))"

fun encode_aggregate_function :: "aggregate_function \<Rightarrow> u32" where
  "encode_aggregate_function AggCount = 0"
| "encode_aggregate_function AggSum = 1"
| "encode_aggregate_function AggSumUInt64 = 5"
| "encode_aggregate_function AggMin = 2"
| "encode_aggregate_function AggMax = 3"
| "encode_aggregate_function AggAvg = 4"

definition decode_aggregate_function :: "u32 \<Rightarrow> aggregate_function result" where
  "decode_aggregate_function v =
     (if v = 0 then Inr AggCount else if v = 1 then Inr AggSum else if v = 5 then Inr AggSumUInt64
      else if v = 2 then Inr AggMin else if v = 3 then Inr AggMax else if v = 4 then Inr AggAvg
      else Inl (codec_error ''unknown aggregate function code {value}''))"

fun encode_join_type :: "join_type \<Rightarrow> u32" where
  "encode_join_type InnerJoin = 0"
| "encode_join_type LeftJoin = 1"

definition decode_join_type :: "u32 \<Rightarrow> join_type result" where
  "decode_join_type v =
     (if v = 0 then Inr InnerJoin else if v = 1 then Inr LeftJoin
      else Inl (codec_error ''unknown join type code {value}''))"

section \<open>Scalars and expressions\<close>

fun encode_scalar :: "scalar_value \<Rightarrow> wire_scalar" where
  "encode_scalar SNull = WireScalar (Some (WNull True))"
| "encode_scalar (SBoolean v) = WireScalar (Some (WBoolean v))"
| "encode_scalar (SInt64 v) = WireScalar (Some (WInt64 v))"
| "encode_scalar (SUInt64 v) = WireScalar (Some (WUInt64 v))"
| "encode_scalar (SFloat64 v) = WireScalar (Some (WFloat64 v))"
| "encode_scalar (SUtf8 v) = WireScalar (Some (WUtf8 v))"

fun decode_scalar :: "wire_scalar \<Rightarrow> scalar_value result" where
  "decode_scalar (WireScalar w) =
     rbind (required w ''scalar value'') (\<lambda>v.
       case v of
         WNull b \<Rightarrow> if b then Inr SNull else Inl (codec_error ''null scalar marker must be true'')
       | WBoolean b \<Rightarrow> Inr (SBoolean b)
       | WInt64 i \<Rightarrow> Inr (SInt64 i)
       | WUInt64 i \<Rightarrow> Inr (SUInt64 i)
       | WFloat64 f \<Rightarrow> Inr (SFloat64 f)
       | WUtf8 s \<Rightarrow> Inr (SUtf8 s))"

fun encode_expr :: "expr \<Rightarrow> wire_expr result" where
  "encode_expr (Column n) = Inr (WireExpr (Some (WColumn n)))"
| "encode_expr (Literal v) = Inr (WireExpr (Some (WLiteral (encode_scalar v))))"
| "encode_expr (Binary l op r) =
     rbind (encode_expr l) (\<lambda>wl.
     rbind (encode_expr r) (\<lambda>wr.
       Inr (WireExpr (Some (WBinary (Some wl) (encode_operator op) (Some wr))))))"
| "encode_expr (IsNull e negated) =
     rbind (encode_expr e) (\<lambda>w. Inr (WireExpr (Some (WIsNull (Some w) negated))))"
| "encode_expr (Cast e t) =
     rbind (encode_expr e) (\<lambda>w.
     rbind (encode_data_type t) (\<lambda>c.
       Inr (WireExpr (Some (WCast (Some w) c)))))"
| "encode_expr (Alias e a) =
     rbind (encode_expr e) (\<lambda>w. Inr (WireExpr (Some (WAlias (Some w) a))))"
| "encode_expr (Aggregate f e dist) =
     rbind (encode_expr e) (\<lambda>w.
       Inr (WireExpr (Some (WAggregate (encode_aggregate_function f) (Some w) dist))))"
| "encode_expr Wildcard = Inr (WireExpr (Some (WWildcard True)))"

text \<open>
  \<open>decode_expr\<close> takes the message apart; \<open>decode_operand\<close> is \<open>required_box\<close> followed by the
  recursive call.
\<close>

fun decode_expr :: "wire_expr \<Rightarrow> expr result"
  and decode_operand :: "wire_expr option \<Rightarrow> string \<Rightarrow> expr result"
  and decode_expr_kind :: "wire_expr_kind \<Rightarrow> expr result" where
  "decode_expr (WireExpr None) = required None ''expression kind''"
| "decode_expr (WireExpr (Some k)) = decode_expr_kind k"
| "decode_operand None name = required None name"
| "decode_operand (Some w) name = decode_expr w"
| "decode_expr_kind (WColumn n) =
     (if blank n then Inl (codec_error ''column name must not be empty'') else Inr (Column n))"
| "decode_expr_kind (WLiteral v) = rbind (decode_scalar v) (\<lambda>s. Inr (Literal s))"
| "decode_expr_kind (WBinary l op r) =
     rbind (decode_operand l ''binary left operand'') (\<lambda>le.
     rbind (decode_operator op) (\<lambda>oper.
     rbind (decode_operand r ''binary right operand'') (\<lambda>re.
       Inr (Binary le oper re))))"
| "decode_expr_kind (WIsNull e negated) =
     rbind (decode_operand e ''IS NULL operand'') (\<lambda>d. Inr (IsNull d negated))"
| "decode_expr_kind (WCast e t) =
     rbind (decode_operand e ''cast operand'') (\<lambda>d.
     rbind (decode_data_type t) (\<lambda>dt.
       Inr (Cast d dt)))"
| "decode_expr_kind (WAlias e a) =
     (if blank a then Inl (codec_error ''expression alias must not be empty'')
      else rbind (decode_operand e ''aliased expression'') (\<lambda>d. Inr (Alias d a)))"
| "decode_expr_kind (WAggregate f e dist) =
     rbind (decode_aggregate_function f) (\<lambda>fn.
     rbind (decode_operand e ''aggregate argument'') (\<lambda>d.
       Inr (Aggregate fn d dist)))"
| "decode_expr_kind (WWildcard b) =
     (if b then Inr Wildcard else Inl (codec_error ''wildcard marker must be true''))"

definition encode_sort_expr :: "sort_expr \<Rightarrow> wire_sort_expr result" where
  "encode_sort_expr k =
     rbind (encode_expr (sort_on k)) (\<lambda>w.
       Inr \<lparr>wse_expr = Some w, wse_ascending = sort_ascending k,
            wse_nulls_first = sort_nulls_first k\<rparr>)"

definition decode_sort_expr :: "schema \<Rightarrow> wire_sort_expr \<Rightarrow> sort_expr result" where
  "decode_sort_expr s w =
     rbind (required (wse_expr w) ''sort expression'') (\<lambda>we.
     rbind (decode_expr we) (\<lambda>e.
     rbind (expr_data_type s e) (\<lambda>_.
       Inr \<lparr>sort_on = e, sort_ascending = wse_ascending w,
            sort_nulls_first = wse_nulls_first w\<rparr>)))"

definition decode_sort_exprs :: "wire_sort_expr list \<Rightarrow> schema \<Rightarrow> sort_expr list result" where
  "decode_sort_exprs ws s =
     rbind (rmap (decode_sort_expr s) ws) (\<lambda>ks.
       if ks = [] then Inl (codec_error ''sort operator requires at least one expression'')
       else Inr ks)"

definition validate_wire_sort_exprs :: "wire_sort_expr list \<Rightarrow> unit result" where
  "validate_wire_sort_exprs ws =
     (if ws = [] then Inl (codec_error ''sort operator requires at least one expression'')
      else rall (\<lambda>w. rbind (required (wse_expr w) ''sort expression'') (\<lambda>we.
                     rbind (decode_expr we) (\<lambda>_. Inr ()))) ws)"

definition decode_exprs :: "wire_expr list \<Rightarrow> expr list result" where
  "decode_exprs ws = rmap decode_expr ws"

definition validate_wire_exprs :: "wire_expr list \<Rightarrow> unit result" where
  "validate_wire_exprs ws = rall (\<lambda>w. rbind (decode_expr w) (\<lambda>_. Inr ())) ws"

section \<open>Schemas\<close>

definition encode_metadata :: "(string, string) btree \<Rightarrow> wire_key_value list" where
  "encode_metadata m = sort_key fst m"

fun decode_metadata_into ::
  "(string, string) btree \<Rightarrow> wire_key_value list \<Rightarrow> (string, string) btree result" where
  "decode_metadata_into m [] = Inr m"
| "decode_metadata_into m ((k, v) # es) =
     (if map_of m k \<noteq> None
      then Inl (codec_error ''schema metadata key {} appears more than once'')
      else decode_metadata_into (bt_insert k v m) es)"

definition decode_metadata :: "wire_key_value list \<Rightarrow> (string, string) btree result" where
  "decode_metadata es = decode_metadata_into [] es"

definition encode_field :: "field \<Rightarrow> wire_field result" where
  "encode_field f =
     rbind (encode_data_type (field_type f)) (\<lambda>c.
       Inr \<lparr>wf_name = field_name f, wf_data_type = c, wf_nullable = field_nullable f,
            wf_metadata = encode_metadata (field_metadata f)\<rparr>)"

definition encode_schema :: "schema \<Rightarrow> wire_schema result" where
  "encode_schema s =
     rbind (rmap encode_field (schema_fields s)) (\<lambda>fs.
       Inr \<lparr>ws_fields = fs, ws_metadata = encode_metadata (schema_metadata s)\<rparr>)"

definition decode_field :: "wire_field \<Rightarrow> field result" where
  "decode_field w =
     rbind (decode_data_type (wf_data_type w)) (\<lambda>t.
     rbind (decode_metadata (wf_metadata w)) (\<lambda>m.
       Inr \<lparr>field_name = wf_name w, field_type = t, field_nullable = wf_nullable w,
            field_metadata = m\<rparr>))"

definition decode_schema :: "wire_schema \<Rightarrow> schema result" where
  "decode_schema w =
     rbind (rmap decode_field (ws_fields w)) (\<lambda>fs.
     rbind (decode_metadata (ws_metadata w)) (\<lambda>m.
       Inr \<lparr>schema_fields = fs, schema_metadata = m\<rparr>))"

definition decode_required_schema :: "wire_schema option \<Rightarrow> string \<Rightarrow> schema result" where
  "decode_required_schema w oper = rbind (required w (oper @ '' schema'')) decode_schema"

definition validate_schema :: "string \<Rightarrow> schema \<Rightarrow> schema \<Rightarrow> unit result" where
  "validate_schema oper actual expected =
     (if actual \<noteq> expected
      then Inl (codec_error (oper @ '' output schema does not match its decoded expressions or inputs''))
      else Inr ())"

definition schema_for_exprs :: "externs \<Rightarrow> expr list \<Rightarrow> schema \<Rightarrow> schema result" where
  "schema_for_exprs x es input = rbind (rmap (expr_field x input) es) (\<lambda>fs. Inr (schema_new fs))"

definition codec_check_join_keys :: "schema \<Rightarrow> schema \<Rightarrow> expr \<times> expr \<Rightarrow> unit result" where
  "codec_check_join_keys ls rs k =
     rbind (expr_data_type ls (fst k)) (\<lambda>lt.
     rbind (expr_data_type rs (snd k)) (\<lambda>rt.
       require (lt = rt)
         (codec_error ''hash join key types differ: {left_type} versus {right_type}'')))"

definition validate_join_keys :: "expr list \<Rightarrow> schema \<Rightarrow> expr list \<Rightarrow> schema \<Rightarrow> unit result" where
  "validate_join_keys l ls r rs =
     (if l = [] \<or> length l \<noteq> length r
      then Inl (codec_error ''hash join requires the same non-zero number of left and right keys'')
      else rall (codec_check_join_keys ls rs) (zip l r))"

definition codec_join_field :: "join_type \<Rightarrow> field list \<Rightarrow> field \<Rightarrow> field" where
  "codec_join_field jt acc f =
     (let f = (if jt = LeftJoin then f\<lparr>field_nullable := True\<rparr> else f) in
      if list_ex (\<lambda>e. field_name e = field_name f) acc
      then f\<lparr>field_name := ''right.'' @ field_name f\<rparr> else f)"

definition join_schema :: "schema \<Rightarrow> schema \<Rightarrow> join_type \<Rightarrow> schema" where
  "join_schema l r jt =
     schema_new (foldl (\<lambda>acc f. acc @ [codec_join_field jt acc f])
       (schema_fields l) (schema_fields r))"

definition decode_projection :: "bool \<Rightarrow> u32 list \<Rightarrow> nat list option result" where
  "decode_projection has ix =
     (if \<not> has then
        if ix \<noteq> []
        then Inl (codec_error ''scan projection contains indices while has_projection is false'')
        else Inr None
      else Inr (Some (map unat ix)))"

definition scan_field_matches :: "field \<times> field \<Rightarrow> bool" where
  "scan_field_matches p =
     (case p of (expected, actual) \<Rightarrow>
        codec_unqualified (field_name expected) = codec_unqualified (field_name actual)
        \<and> field_type expected = field_type actual
        \<and> field_nullable expected = field_nullable actual
        \<and> field_metadata expected = field_metadata actual)"

definition validate_scan_schema :: "schema \<Rightarrow> nat list option \<Rightarrow> schema \<Rightarrow> unit result" where
  "validate_scan_schema provider projection fragment =
     (if (case projection of None \<Rightarrow> False
          | Some ix \<Rightarrow> list_ex (\<lambda>i. length (schema_fields provider) \<le> i) ix)
      then Inl (codec_error ''scan projection index {index} is outside table {table_name} schema'')
      else
        rbind (projected_schema provider projection) (\<lambda>actual.
          if length (schema_fields actual) \<noteq> length (schema_fields fragment)
          then Inl (codec_error
            ''scan schema for table {table_name} has {} fields but worker catalog provides {}'')
          else if list_all scan_field_matches (zip (schema_fields fragment) (schema_fields actual))
          then Inr ()
          else Inl (codec_error
            ''scan field {} does not match worker catalog field {} for table {table_name}'')))"

section \<open>Plans\<close>

fun encode_plan :: "physical_plan \<Rightarrow> nat \<Rightarrow> wire_plan result" where
  "encode_plan (PScan i table provider projection filters s) d =
     rbind (check_depth d) (\<lambda>_.
     rbind (rmap (\<lambda>n. checked_u32 n ''scan projection index'')
              (case projection of None \<Rightarrow> [] | Some ix \<Rightarrow> ix)) (\<lambda>ix.
     rbind (rmap encode_expr filters) (\<lambda>fs.
     rbind (encode_schema s) (\<lambda>ws.
       Inr (WirePlan (Some (WScan i table (projection \<noteq> None) ix fs (Some ws))))))))"
| "encode_plan (PProjection i input exprs s) d =
     rbind (check_depth d) (\<lambda>_.
     rbind (encode_plan input (d + 1)) (\<lambda>w.
     rbind (rmap encode_expr exprs) (\<lambda>es.
     rbind (encode_schema s) (\<lambda>ws.
       Inr (WirePlan (Some (WProjection i (Some w) es (Some ws))))))))"
| "encode_plan (PFilter i input predicate s) d =
     rbind (check_depth d) (\<lambda>_.
     rbind (encode_plan input (d + 1)) (\<lambda>w.
     rbind (encode_expr predicate) (\<lambda>p.
     rbind (encode_schema s) (\<lambda>ws.
       Inr (WirePlan (Some (WFilter i (Some w) (Some p) (Some ws))))))))"
| "encode_plan (PHashAggregate i input group_exprs aggregate_exprs s) d =
     rbind (check_depth d) (\<lambda>_.
     rbind (encode_plan input (d + 1)) (\<lambda>w.
     rbind (rmap encode_expr group_exprs) (\<lambda>gs.
     rbind (rmap encode_expr aggregate_exprs) (\<lambda>as.
     rbind (encode_schema s) (\<lambda>ws.
       Inr (WirePlan (Some (WHashAggregate i (Some w) gs as (Some ws)))))))))"
| "encode_plan (PSort i input exprs s) d =
     rbind (check_depth d) (\<lambda>_.
     rbind (encode_plan input (d + 1)) (\<lambda>w.
     rbind (rmap encode_sort_expr exprs) (\<lambda>es.
     rbind (encode_schema s) (\<lambda>ws.
       Inr (WirePlan (Some (WSort i (Some w) es (Some ws))))))))"
| "encode_plan (PTopK i input exprs limit s) d =
     rbind (check_depth d) (\<lambda>_.
     rbind (encode_plan input (d + 1)) (\<lambda>w.
     rbind (rmap encode_sort_expr exprs) (\<lambda>es.
     rbind (checked_u64 limit ''Top-K limit'') (\<lambda>n.
     rbind (encode_schema s) (\<lambda>ws.
       Inr (WirePlan (Some (WTopK i (Some w) es n (Some ws)))))))))"
| "encode_plan (PLimit i input limit s) d =
     rbind (check_depth d) (\<lambda>_.
     rbind (encode_plan input (d + 1)) (\<lambda>w.
     rbind (checked_u64 limit ''limit'') (\<lambda>n.
     rbind (encode_schema s) (\<lambda>ws.
       Inr (WirePlan (Some (WLimit i (Some w) n (Some ws))))))))"
| "encode_plan (PHashJoin i left right jt left_on right_on s) d =
     rbind (check_depth d) (\<lambda>_.
     rbind (encode_plan left (d + 1)) (\<lambda>wl.
     rbind (encode_plan right (d + 1)) (\<lambda>wr.
     rbind (rmap encode_expr left_on) (\<lambda>ls.
     rbind (rmap encode_expr right_on) (\<lambda>rs.
     rbind (encode_schema s) (\<lambda>ws.
       Inr (WirePlan (Some (WHashJoin i (Some wl) (Some wr) (encode_join_type jt) ls rs
              (Some ws))))))))))"

fun decode_plan :: "externs \<Rightarrow> catalog \<Rightarrow> wire_plan \<Rightarrow> nat \<Rightarrow> physical_plan result"
  and decode_input :: "externs \<Rightarrow> catalog \<Rightarrow> wire_plan option \<Rightarrow> string \<Rightarrow> nat \<Rightarrow> physical_plan result"
  and decode_plan_kind :: "externs \<Rightarrow> catalog \<Rightarrow> wire_plan_kind \<Rightarrow> nat \<Rightarrow> physical_plan result" where
  "decode_plan x c (WirePlan None) d =
     rbind (check_depth d) (\<lambda>_. required None ''plan operator'')"
| "decode_plan x c (WirePlan (Some k)) d =
     rbind (check_depth d) (\<lambda>_. decode_plan_kind x c k d)"
| "decode_input x c None name d = required None name"
| "decode_input x c (Some w) name d = decode_plan x c w d"
| "decode_plan_kind x c (WScan i table has ix filters ws) d =
     (if blank table then Inl (codec_error ''scan table name must not be empty'')
      else
        (case catalog_table c table of
           Inl e \<Rightarrow> Inl (codec_error ''worker cannot resolve scan table {}: {error}'')
         | Inr provider \<Rightarrow>
             rbind (decode_projection has ix) (\<lambda>projection.
             rbind (decode_required_schema ws ''scan'') (\<lambda>s.
             rbind (validate_scan_schema (tp_schema provider) projection s) (\<lambda>_.
             rbind (decode_exprs filters) (\<lambda>fs.
               Inr (PScan i table provider projection fs s)))))))"
| "decode_plan_kind x c (WProjection i w es ws) d =
     rbind (decode_input x c w ''projection input'' (d + 1)) (\<lambda>input.
     rbind (decode_exprs es) (\<lambda>exprs.
     rbind (decode_required_schema ws ''projection'') (\<lambda>s.
     rbind (schema_for_exprs x exprs (physical_schema input)) (\<lambda>expected.
     rbind (validate_schema ''projection'' s expected) (\<lambda>_.
       Inr (PProjection i input exprs s))))))"
| "decode_plan_kind x c (WFilter i w p ws) d =
     rbind (decode_input x c w ''filter input'' (d + 1)) (\<lambda>input.
     rbind (required p ''filter predicate'') (\<lambda>wp.
     rbind (decode_expr wp) (\<lambda>predicate.
     rbind (expr_data_type (physical_schema input) predicate) (\<lambda>t.
     rbind (require (t = TBoolean) (codec_error ''filter predicate must be Boolean'')) (\<lambda>_.
     rbind (decode_required_schema ws ''filter'') (\<lambda>s.
     rbind (validate_schema ''filter'' s (physical_schema input)) (\<lambda>_.
       Inr (PFilter i input predicate s))))))))"
| "decode_plan_kind x c (WHashAggregate i w gs as ws) d =
     rbind (decode_input x c w ''hash aggregate input'' (d + 1)) (\<lambda>input.
     rbind (decode_exprs gs) (\<lambda>group_exprs.
     rbind (decode_exprs as) (\<lambda>aggregate_exprs.
     rbind (decode_required_schema ws ''hash aggregate'') (\<lambda>s.
     rbind (schema_for_exprs x (group_exprs @ aggregate_exprs) (physical_schema input)) (\<lambda>expected.
     rbind (validate_schema ''hash aggregate'' s expected) (\<lambda>_.
       Inr (PHashAggregate i input group_exprs aggregate_exprs s)))))))"
| "decode_plan_kind x c (WSort i w es ws) d =
     rbind (decode_input x c w ''sort input'' (d + 1)) (\<lambda>input.
     rbind (decode_sort_exprs es (physical_schema input)) (\<lambda>exprs.
     rbind (decode_required_schema ws ''sort'') (\<lambda>s.
     rbind (validate_schema ''sort'' s (physical_schema input)) (\<lambda>_.
       Inr (PSort i input exprs s)))))"
| "decode_plan_kind x c (WTopK i w es n ws) d =
     rbind (decode_input x c w ''Top-K input'' (d + 1)) (\<lambda>input.
     rbind (decode_sort_exprs es (physical_schema input)) (\<lambda>exprs.
     rbind (decode_required_schema ws ''Top-K'') (\<lambda>s.
     rbind (validate_schema ''Top-K'' s (physical_schema input)) (\<lambda>_.
     rbind (checked_usize n ''Top-K limit'') (\<lambda>limit.
       Inr (PTopK i input exprs limit s))))))"
| "decode_plan_kind x c (WLimit i w n ws) d =
     rbind (decode_input x c w ''limit input'' (d + 1)) (\<lambda>input.
     rbind (decode_required_schema ws ''limit'') (\<lambda>s.
     rbind (validate_schema ''limit'' s (physical_schema input)) (\<lambda>_.
     rbind (checked_usize n ''limit'') (\<lambda>limit.
       Inr (PLimit i input limit s)))))"
| "decode_plan_kind x c (WHashJoin i l r jt ls rs ws) d =
     rbind (decode_input x c l ''join left input'' (d + 1)) (\<lambda>left.
     rbind (decode_input x c r ''join right input'' (d + 1)) (\<lambda>right.
     rbind (decode_join_type jt) (\<lambda>join_type.
     rbind (decode_exprs ls) (\<lambda>left_on.
     rbind (decode_exprs rs) (\<lambda>right_on.
     rbind (validate_join_keys left_on (physical_schema left) right_on (physical_schema right)) (\<lambda>_.
     rbind (decode_required_schema ws ''hash join'') (\<lambda>s.
     rbind (validate_schema ''hash join'' s
              (join_schema (physical_schema left) (physical_schema right) join_type)) (\<lambda>_.
       Inr (PHashJoin i left right join_type left_on right_on s)))))))))"

fun validate_wire_plan :: "wire_plan \<Rightarrow> nat \<Rightarrow> unit result"
  and validate_wire_input :: "wire_plan option \<Rightarrow> string \<Rightarrow> nat \<Rightarrow> unit result"
  and validate_wire_kind :: "wire_plan_kind \<Rightarrow> nat \<Rightarrow> unit result" where
  "validate_wire_plan (WirePlan None) d =
     rbind (check_depth d) (\<lambda>_. required None ''plan operator'')"
| "validate_wire_plan (WirePlan (Some k)) d =
     rbind (check_depth d) (\<lambda>_. validate_wire_kind k d)"
| "validate_wire_input None name d = required None name"
| "validate_wire_input (Some w) name d = validate_wire_plan w d"
| "validate_wire_kind (WScan i table has ix filters ws) d =
     (if blank table then Inl (codec_error ''scan table name must not be empty'')
      else
        rbind (decode_projection has ix) (\<lambda>_.
        rbind (decode_required_schema ws ''scan'') (\<lambda>_.
          validate_wire_exprs filters)))"
| "validate_wire_kind (WProjection i w es ws) d =
     rbind (validate_wire_input w ''projection input'' (d + 1)) (\<lambda>_.
     rbind (decode_required_schema ws ''projection'') (\<lambda>_.
       validate_wire_exprs es))"
| "validate_wire_kind (WFilter i w p ws) d =
     rbind (validate_wire_input w ''filter input'' (d + 1)) (\<lambda>_.
     rbind (decode_required_schema ws ''filter'') (\<lambda>_.
     rbind (required p ''filter predicate'') (\<lambda>wp.
     rbind (decode_expr wp) (\<lambda>_. Inr ()))))"
| "validate_wire_kind (WHashAggregate i w gs as ws) d =
     rbind (validate_wire_input w ''hash aggregate input'' (d + 1)) (\<lambda>_.
     rbind (decode_required_schema ws ''hash aggregate'') (\<lambda>_.
     rbind (validate_wire_exprs gs) (\<lambda>_.
       validate_wire_exprs as)))"
| "validate_wire_kind (WSort i w es ws) d =
     rbind (validate_wire_input w ''sort input'' (d + 1)) (\<lambda>_.
     rbind (decode_required_schema ws ''sort'') (\<lambda>_.
       validate_wire_sort_exprs es))"
| "validate_wire_kind (WTopK i w es n ws) d =
     rbind (validate_wire_input w ''Top-K input'' (d + 1)) (\<lambda>_.
     rbind (decode_required_schema ws ''Top-K'') (\<lambda>_.
     rbind (checked_usize n ''Top-K limit'') (\<lambda>_.
       validate_wire_sort_exprs es)))"
| "validate_wire_kind (WLimit i w n ws) d =
     rbind (validate_wire_input w ''limit input'' (d + 1)) (\<lambda>_.
     rbind (decode_required_schema ws ''limit'') (\<lambda>_.
     rbind (checked_usize n ''limit'') (\<lambda>_. Inr ())))"
| "validate_wire_kind (WHashJoin i l r jt ls rs ws) d =
     rbind (validate_wire_input l ''join left input'' (d + 1)) (\<lambda>_.
     rbind (validate_wire_input r ''join right input'' (d + 1)) (\<lambda>_.
     rbind (decode_join_type jt) (\<lambda>_.
     rbind (decode_required_schema ws ''hash join'') (\<lambda>_.
       if length ls \<noteq> length rs
       then Inl (codec_error ''hash join has {} left keys but {} right keys'')
       else rbind (validate_wire_exprs ls) (\<lambda>_. validate_wire_exprs rs)))))"

section \<open>The codec's entry points\<close>

type_synonym pb_encoder = "wire_plan_envelope \<Rightarrow> bytes"
type_synonym pb_decoder = "bytes \<Rightarrow> wire_plan_envelope option"

definition decode_envelope :: "pb_decoder \<Rightarrow> bytes \<Rightarrow> wire_plan result" where
  "decode_envelope pb_decode bs =
     rbind (validate_fragment_size (length bs)) (\<lambda>_.
     rbind (ok_or (pb_decode bs) (codec_error ''cannot decode Protobuf envelope: {error}'')) (\<lambda>env.
       if env_version env \<noteq> PLAN_CODEC_VERSION
       then Inl (codec_error ''unsupported plan codec version {}; expected {PLAN_CODEC_VERSION}'')
       else ok_or (env_root env) (codec_error ''plan envelope has no root operator'')))"

definition codec_encode :: "pb_encoder \<Rightarrow> physical_plan \<Rightarrow> bytes result" where
  "codec_encode pb_encode p =
     rbind (encode_plan p 0) (\<lambda>w.
       let bs = pb_encode \<lparr>env_version = PLAN_CODEC_VERSION, env_root = Some w\<rparr> in
       rbind (validate_fragment_size (length bs)) (\<lambda>_. Inr bs))"

definition validate_fragment :: "pb_decoder \<Rightarrow> bytes \<Rightarrow> unit result" where
  "validate_fragment pb_decode bs =
     rbind (decode_envelope pb_decode bs) (\<lambda>root. validate_wire_plan root 0)"

definition codec_decode :: "externs \<Rightarrow> pb_decoder \<Rightarrow> bytes \<Rightarrow> catalog \<Rightarrow> physical_plan result" where
  "codec_decode x pb_decode bs c =
     rbind (decode_envelope pb_decode bs) (\<lambda>root. decode_plan x c root 0)"

end
