(* ===== verification/Codec_Props.thy ===== *)
theory Codec_Props
  imports Plan_Codec Sample_Data
begin

text \<open>
  Correctness of the plan codec.

  The locale \<open>wire_codec\<close> is the contract of an encoder and a decoder of one kind of message: a
  value of the codec's domain encodes to a message that decodes to it, and whatever decodes is in
  the domain.  It is interpreted for data types, operators, aggregate functions, join types, scalars,
  expressions, lists of expressions, sort keys, metadata, fields, schemas and, at the end, whole
  physical plans.  The domain of the plan codec, \<open>plan_wf\<close>, says what a worker may rely on once a
  fragment has been decoded.
\<close>

section \<open>The contract of a wire codec\<close>

locale wire_codec =
  fixes enc :: "'a \<Rightarrow> 'w result"
    and dec :: "'w \<Rightarrow> 'a result"
    and ok :: "'a \<Rightarrow> bool"
  assumes enc_total: "ok a \<Longrightarrow> \<exists>w. enc a = Inr w \<and> dec w = Inr a"
    and dec_sound: "dec w = Inr a \<Longrightarrow> ok a"
begin

lemma enc_dec: "ok a \<Longrightarrow> enc a = Inr w \<Longrightarrow> dec w = Inr a"
  using enc_total [of a] by auto

lemma enc_ok: "ok a \<Longrightarrow> is_ok (enc a)"
  using enc_total [of a] by auto

lemma domain_iff: "ok a \<longleftrightarrow> (\<exists>w. dec w = Inr a)"
  using enc_total [of a] dec_sound by blast

lemma enc_inj: "ok a \<Longrightarrow> enc a = Inr w \<Longrightarrow> ok b \<Longrightarrow> enc b = Inr w \<Longrightarrow> a = b"
  using enc_dec [of a w] enc_dec [of b w] by simp

lemma re_encode: "dec w = Inr a \<Longrightarrow> \<exists>w'. enc a = Inr w' \<and> dec w' = Inr a"
  by (rule enc_total [OF dec_sound])

text \<open>The contract lifts to repeated fields.\<close>

lemma lifted: "wire_codec (rmap enc) (rmap dec) (list_all ok)"
proof
  show "\<exists>ws. rmap enc as = Inr ws \<and> rmap dec ws = Inr as" if "list_all ok as" for as
    using that
  proof (induction as)
    case (Cons a as)
    then obtain ws where "rmap enc as = Inr ws" "rmap dec ws = Inr as" by auto
    moreover obtain w where "enc a = Inr w" "dec w = Inr a" using Cons.prems enc_total by auto
    ultimately have "rmap enc (a # as) = Inr (w # ws)" "rmap dec (w # ws) = Inr (a # as)" by simp_all
    then show ?case by blast
  qed simp
  show "list_all ok as" if "rmap dec ws = Inr as" for ws as
    using that by (auto simp: rmap_eq_Inr list_all2_conv_all_nth list_all_length intro: dec_sound)
qed

end

section \<open>Enumerations, scalars and expressions\<close>

definition supported_type :: "data_type \<Rightarrow> bool" where
  "supported_type t = (case t of TOther _ \<Rightarrow> False | _ \<Rightarrow> True)"

fun expr_ok :: "expr \<Rightarrow> bool" where
  "expr_ok (Column n) = (\<not> blank n)"
| "expr_ok (Literal v) = True"
| "expr_ok (Binary l op r) = (expr_ok l \<and> expr_ok r)"
| "expr_ok (IsNull e _) = expr_ok e"
| "expr_ok (Cast e t) = (expr_ok e \<and> supported_type t)"
| "expr_ok (Alias e a) = (\<not> blank a \<and> expr_ok e)"
| "expr_ok (Aggregate _ e _) = expr_ok e"
| "expr_ok Wildcard = True"

interpretation dt: wire_codec encode_data_type decode_data_type supported_type
proof
  show "\<exists>w. encode_data_type t = Inr w \<and> decode_data_type w = Inr t" if "supported_type t" for t
    using that by (cases t) (simp_all add: supported_type_def decode_data_type_def)
  show "supported_type t" if "decode_data_type w = Inr t" for w t
    using that by (auto simp: supported_type_def decode_data_type_def split: if_splits)
qed

interpretation oper: wire_codec "Inr \<circ> encode_operator" decode_operator "\<lambda>_. True"
proof
  show "\<exists>w. (Inr \<circ> encode_operator) t = Inr w \<and> decode_operator w = Inr t" for t
    by (cases t) (simp_all add: decode_operator_def)
qed simp

interpretation agg: wire_codec "Inr \<circ> encode_aggregate_function" decode_aggregate_function "\<lambda>_. True"
proof
  show "\<exists>w. (Inr \<circ> encode_aggregate_function) t = Inr w \<and> decode_aggregate_function w = Inr t" for t
    by (cases t) (simp_all add: decode_aggregate_function_def)
qed simp

interpretation jt: wire_codec "Inr \<circ> encode_join_type" decode_join_type "\<lambda>_. True"
proof
  show "\<exists>w. (Inr \<circ> encode_join_type) t = Inr w \<and> decode_join_type w = Inr t" for t
    by (cases t) (simp_all add: decode_join_type_def)
qed simp

interpretation scalar: wire_codec "Inr \<circ> encode_scalar" decode_scalar "\<lambda>_. True"
proof
  show "\<exists>w. (Inr \<circ> encode_scalar) v = Inr w \<and> decode_scalar w = Inr v" for v
    by (cases v) (simp_all add: required_def)
qed simp

lemma decode_operator_encode [simp]: "decode_operator (encode_operator op) = Inr op"
  using oper.enc_dec by simp

lemma decode_aggregate_encode [simp]:
  "decode_aggregate_function (encode_aggregate_function f) = Inr f"
  using agg.enc_dec by simp

lemma decode_join_type_encode [simp]: "decode_join_type (encode_join_type j) = Inr j"
  using jt.enc_dec by simp

lemma decode_scalar_encode [simp]: "decode_scalar (encode_scalar v) = Inr v"
  using scalar.enc_dec by simp

lemma expr_enc_total: "expr_ok e \<Longrightarrow> \<exists>w. encode_expr e = Inr w \<and> decode_expr w = Inr e"
proof (induction e)
  case (Cast e t)
  then obtain w c where "encode_expr e = Inr w" "decode_expr w = Inr e"
    "encode_data_type t = Inr c" "decode_data_type c = Inr t"
    using dt.enc_total [of t] by auto
  then show ?case by auto
qed auto

lemma expr_dec_sound:
  "decode_expr w = Inr e \<Longrightarrow> expr_ok e"
  "decode_operand ow name = Inr e \<Longrightarrow> expr_ok e"
  "decode_expr_kind k = Inr e \<Longrightarrow> expr_ok e"
  by (induction w and ow name and k arbitrary: e and e and e
      rule: decode_expr_decode_operand_decode_expr_kind.induct)
    (auto simp: rbind_eq_Inr required_def split: if_splits dest: dt.dec_sound)

interpretation ex: wire_codec encode_expr decode_expr expr_ok
  by unfold_locales (erule expr_enc_total, erule expr_dec_sound(1))

interpretation exs: wire_codec "rmap encode_expr" "rmap decode_expr" "list_all expr_ok"
  by (rule ex.lifted)

section \<open>Sort keys, metadata and schemas\<close>

definition sort_key_ok :: "schema \<Rightarrow> sort_expr \<Rightarrow> bool" where
  "sort_key_ok s k \<longleftrightarrow> expr_ok (sort_on k) \<and> is_ok (expr_data_type s (sort_on k))"

definition field_ok :: "field \<Rightarrow> bool" where
  "field_ok f \<longleftrightarrow> supported_type (field_type f) \<and> bt_ok (field_metadata f)"

definition schema_ok :: "schema \<Rightarrow> bool" where
  "schema_ok s \<longleftrightarrow> list_all field_ok (schema_fields s) \<and> bt_ok (schema_metadata s)"

interpretation sk: wire_codec encode_sort_expr "decode_sort_expr s" "sort_key_ok s" for s
proof
  show "\<exists>w. encode_sort_expr k = Inr w \<and> decode_sort_expr s w = Inr k" if key: "sort_key_ok s k" for k
  proof -
    obtain w where "encode_expr (sort_on k) = Inr w" "decode_expr w = Inr (sort_on k)"
      using ex.enc_total [of "sort_on k"] key by (auto simp: sort_key_ok_def)
    moreover obtain t where "expr_data_type s (sort_on k) = Inr t"
      using key by (auto simp: sort_key_ok_def is_ok_iff)
    ultimately show ?thesis by (simp add: encode_sort_expr_def decode_sort_expr_def required_def)
  qed
  show "sort_key_ok s k" if "decode_sort_expr s w = Inr k" for w k
    using that by (auto simp: decode_sort_expr_def sort_key_ok_def rbind_eq_Inr dest: ex.dec_sound)
qed

interpretation sks: wire_codec "rmap encode_sort_expr" "rmap (decode_sort_expr s)"
    "list_all (sort_key_ok s)" for s
  by (rule sk.lifted)

lemma bt_insert_last: "bt_ok (m @ (k, v) # es) \<Longrightarrow> bt_insert k v m = m @ [(k, v)]"
  by (induction m) (auto simp: bt_ok_def)

lemma decode_metadata_into_append:
  "bt_ok (m @ es) \<Longrightarrow> decode_metadata_into m es = Inr (m @ es)"
proof (induction es arbitrary: m)
  case (Cons e es)
  obtain k v where e: "e = (k, v)" by force
  have "k \<notin> fst ` set m" using Cons.prems bt_ok_distinct [of "m @ e # es"] by (auto simp: e)
  then have "map_of m k = None" by (simp add: map_of_eq_None_iff)
  with Cons.IH [of "m @ [e]"] Cons.prems show ?case by (simp add: e bt_insert_last)
qed simp

lemma decode_metadata_into_ok:
  "decode_metadata_into m es = Inr m' \<Longrightarrow> bt_ok m \<Longrightarrow> bt_ok m'"
  by (induction m es rule: decode_metadata_into.induct) (auto split: if_splits)

interpretation md: wire_codec "Inr \<circ> encode_metadata" decode_metadata bt_ok
proof
  show "\<exists>w. (Inr \<circ> encode_metadata) m = Inr w \<and> decode_metadata w = Inr m" if "bt_ok m" for m
  proof -
    have "sorted (map fst m)" using that by (simp add: bt_ok_def strict_sorted_imp_sorted)
    then have "sort_key fst m = m" by (rule sort_key_id_if_sorted)
    with that show ?thesis
      using decode_metadata_into_append [of "[]" m] by (simp add: encode_metadata_def decode_metadata_def)
  qed
  show "bt_ok m" if "decode_metadata es = Inr m" for es m
    using that decode_metadata_into_ok [of "[]" es m] by (simp add: decode_metadata_def bt_ok_def)
qed

lemma decode_metadata_encode [simp]: "bt_ok m \<Longrightarrow> decode_metadata (encode_metadata m) = Inr m"
  using md.enc_dec by simp

interpretation fld: wire_codec encode_field decode_field field_ok
proof
  show "\<exists>w. encode_field f = Inr w \<and> decode_field w = Inr f" if "field_ok f" for f
  proof -
    from that obtain c where "encode_data_type (field_type f) = Inr c"
      "decode_data_type c = Inr (field_type f)"
      using dt.enc_total by (auto simp: field_ok_def)
    with that show ?thesis by (simp add: encode_field_def decode_field_def field_ok_def)
  qed
  show "field_ok f" if "decode_field w = Inr f" for w f
    using that by (auto simp: decode_field_def field_ok_def rbind_eq_Inr
        dest: dt.dec_sound md.dec_sound)
qed

interpretation flds: wire_codec "rmap encode_field" "rmap decode_field" "list_all field_ok"
  by (rule fld.lifted)

interpretation sch: wire_codec encode_schema decode_schema schema_ok
proof
  show "\<exists>w. encode_schema s = Inr w \<and> decode_schema w = Inr s" if "schema_ok s" for s
  proof -
    from that obtain ws where "rmap encode_field (schema_fields s) = Inr ws"
      "rmap decode_field ws = Inr (schema_fields s)"
      using flds.enc_total by (auto simp: schema_ok_def)
    with that show ?thesis by (simp add: encode_schema_def decode_schema_def schema_ok_def)
  qed
  show "schema_ok s" if "decode_schema w = Inr s" for w s
    using that by (auto simp: decode_schema_def schema_ok_def rbind_eq_Inr
        dest: flds.dec_sound md.dec_sound)
qed

section \<open>Plans\<close>

text \<open>
  \<open>plan_wf x c d p\<close>: a plan at nesting depth \<open>d\<close> that a worker with catalog \<open>c\<close> can run.  Every
  operator has the schema its inputs and expressions give, predicates are Boolean, join keys
  agree in type, scans resolve to a table of the catalog whose columns match, and the plan stays
  within the nesting and width limits of the wire format.
\<close>

fun plan_wf :: "externs \<Rightarrow> catalog \<Rightarrow> nat \<Rightarrow> physical_plan \<Rightarrow> bool" where
  "plan_wf x c d (PScan i table provider projection filters s) \<longleftrightarrow>
     d < MAX_PLAN_DEPTH \<and> \<not> blank table \<and> catalog_table c table = Inr provider
     \<and> (case projection of None \<Rightarrow> True | Some ix \<Rightarrow> list_all (\<lambda>n. n < 2 ^ 32) ix)
     \<and> validate_scan_schema (tp_schema provider) projection s = Inr ()
     \<and> list_all expr_ok filters \<and> schema_ok s"
| "plan_wf x c d (PProjection i input exprs s) \<longleftrightarrow>
     d < MAX_PLAN_DEPTH \<and> plan_wf x c (d + 1) input \<and> list_all expr_ok exprs
     \<and> schema_for_exprs x exprs (physical_schema input) = Inr s \<and> schema_ok s"
| "plan_wf x c d (PFilter i input predicate s) \<longleftrightarrow>
     d < MAX_PLAN_DEPTH \<and> plan_wf x c (d + 1) input \<and> expr_ok predicate
     \<and> expr_data_type (physical_schema input) predicate = Inr TBoolean \<and> s = physical_schema input"
| "plan_wf x c d (PHashAggregate i input group_exprs aggregate_exprs s) \<longleftrightarrow>
     d < MAX_PLAN_DEPTH \<and> plan_wf x c (d + 1) input
     \<and> list_all expr_ok group_exprs \<and> list_all expr_ok aggregate_exprs
     \<and> schema_for_exprs x (group_exprs @ aggregate_exprs) (physical_schema input) = Inr s \<and> schema_ok s"
| "plan_wf x c d (PSort i input exprs s) \<longleftrightarrow>
     d < MAX_PLAN_DEPTH \<and> plan_wf x c (d + 1) input \<and> exprs \<noteq> []
     \<and> list_all (sort_key_ok (physical_schema input)) exprs \<and> s = physical_schema input"
| "plan_wf x c d (PTopK i input exprs limit s) \<longleftrightarrow>
     d < MAX_PLAN_DEPTH \<and> plan_wf x c (d + 1) input \<and> exprs \<noteq> [] \<and> limit < 2 ^ 64
     \<and> list_all (sort_key_ok (physical_schema input)) exprs \<and> s = physical_schema input"
| "plan_wf x c d (PLimit i input limit s) \<longleftrightarrow>
     d < MAX_PLAN_DEPTH \<and> plan_wf x c (d + 1) input \<and> limit < 2 ^ 64 \<and> s = physical_schema input"
| "plan_wf x c d (PHashJoin i left right jt left_on right_on s) \<longleftrightarrow>
     d < MAX_PLAN_DEPTH \<and> plan_wf x c (d + 1) left \<and> plan_wf x c (d + 1) right
     \<and> list_all expr_ok left_on \<and> list_all expr_ok right_on
     \<and> validate_join_keys left_on (physical_schema left) right_on (physical_schema right) = Inr ()
     \<and> s = join_schema (physical_schema left) (physical_schema right) jt"

lemma check_depth_iff [simp]: "check_depth d = Inr u \<longleftrightarrow> d < MAX_PLAN_DEPTH"
  by (simp add: check_depth_def)

lemma check_depth_ok: "d < MAX_PLAN_DEPTH \<Longrightarrow> check_depth d = Inr ()"
  by simp

lemma validate_schema_iff [simp]: "validate_schema oper a b = Inr u \<longleftrightarrow> a = b"
  by (simp add: validate_schema_def)

lemma decode_required_schema_iff [simp]:
  "decode_required_schema w oper = Inr s \<longleftrightarrow> (\<exists>v. w = Some v \<and> decode_schema v = Inr s)"
  by (simp add: decode_required_schema_def required_def rbind_eq_Inr)

lemma decode_required_schema_Some: "decode_required_schema (Some v) oper = decode_schema v"
  by (simp add: decode_required_schema_def required_def)

lemma decode_sort_exprs_iff:
  "decode_sort_exprs ws s = Inr ks \<longleftrightarrow> rmap (decode_sort_expr s) ws = Inr ks \<and> ks \<noteq> []"
  by (auto simp: decode_sort_exprs_def rbind_eq_Inr)

lemma decode_projection_iff:
  "decode_projection has ix = Inr p \<longleftrightarrow>
     (if has then p = Some (map unat ix) else ix = [] \<and> p = None)"
  by (auto simp: decode_projection_def)

lemma checked_u32_ok: "n < 2 ^ 32 \<Longrightarrow> checked_u32 n name = Inr (of_nat n)"
  by (simp add: checked_u32_def)

lemma checked_u64_ok: "n < 2 ^ 64 \<Longrightarrow> checked_u64 n name = Inr (of_nat n)"
  by (simp add: checked_u64_def)

lemma unat_of_nat_u32: "n < 2 ^ 32 \<Longrightarrow> unat (of_nat n :: u32) = n"
  by (rule unat_of_nat_small) simp

lemma unat_of_nat_u64: "n < 2 ^ 64 \<Longrightarrow> unat (of_nat n :: u64) = n"
  by (rule unat_of_nat_small) simp

lemma unat_u32_less: "unat (w :: u32) < 2 ^ 32"
  using unsigned_less [of w] by simp

lemma list_all_unat: "list_all (\<lambda>n. n < 4294967296) (map unat (ix :: u32 list))"
  using unat_u32_less by (simp add: list_all_iff)

lemma unat_u64_less: "unat (w :: u64) < 18446744073709551616"
  using unsigned_less [of w] by simp

lemma schema_ok_join:
  "schema_ok l \<Longrightarrow> schema_ok r \<Longrightarrow> schema_ok (join_schema l r jt)"
proof -
  have *: "list_all field_ok as \<Longrightarrow> list_all field_ok bs \<Longrightarrow>
      list_all field_ok (foldl (\<lambda>acc f. acc @ [codec_join_field jt acc f]) as bs)" for as bs
    by (induction bs arbitrary: as) (auto simp: codec_join_field_def field_ok_def Let_def)
  show "schema_ok l \<Longrightarrow> schema_ok r \<Longrightarrow> schema_ok (join_schema l r jt)"
    by (simp add: schema_ok_def join_schema_def schema_new_def * bt_ok_def)
qed

lemma plan_wf_schema: "plan_wf x c d p \<Longrightarrow> schema_ok (physical_schema p)"
  by (induction p arbitrary: d) (auto intro: schema_ok_join)

lemma scan_projection_roundtrip:
  assumes "case projection of None \<Rightarrow> True | Some ix \<Rightarrow> list_all (\<lambda>n. n < 2 ^ 32) ix"
  shows "\<exists>ix. rmap (\<lambda>n. checked_u32 n name) (case projection of None \<Rightarrow> [] | Some ix \<Rightarrow> ix) = Inr ix
     \<and> decode_projection (projection \<noteq> None) ix = Inr projection"
proof (cases projection)
  case None
  then show ?thesis by (simp add: decode_projection_def)
next
  case (Some ix)
  with assms have *: "n < 2 ^ 32" if "n \<in> set ix" for n using that by (simp add: list_all_iff)
  then have "rmap (\<lambda>n. checked_u32 n name) ix = Inr (map of_nat ix)"
    by (intro rmap_Inr_map checked_u32_ok)
  moreover have "map (unat \<circ> (of_nat :: nat \<Rightarrow> u32)) ix = ix"
    by (rule map_idI) (simp only: comp_apply unat_of_nat_u32 [OF *])
  ultimately show ?thesis using Some by (simp add: decode_projection_def)
qed

lemma plan_enc_total:
  "plan_wf x c d p \<Longrightarrow> \<exists>w. encode_plan p d = Inr w \<and> decode_plan x c w d = Inr p"
proof (induction p arbitrary: d)
  case (PScan i table provider projection filters s)
  obtain ix where "rmap (\<lambda>n. checked_u32 n ''scan projection index'')
      (case projection of None \<Rightarrow> [] | Some ix \<Rightarrow> ix) = Inr ix"
    "decode_projection (projection \<noteq> None) ix = Inr projection"
    using scan_projection_roundtrip PScan.prems by force
  moreover obtain fs where "rmap encode_expr filters = Inr fs" "rmap decode_expr fs = Inr filters"
    using exs.enc_total PScan.prems by auto
  moreover obtain ws where "encode_schema s = Inr ws" "decode_schema ws = Inr s"
    using sch.enc_total PScan.prems by auto
  ultimately show ?case
    using PScan.prems by (simp add: check_depth_ok decode_required_schema_Some decode_exprs_def)
next
  case (PProjection i input exprs s)
  obtain w where "encode_plan input (d + 1) = Inr w" "decode_plan x c w (d + 1) = Inr input"
    using PProjection.IH [of "d + 1"] PProjection.prems by auto
  moreover obtain es where "rmap encode_expr exprs = Inr es" "rmap decode_expr es = Inr exprs"
    using exs.enc_total PProjection.prems by auto
  moreover obtain ws where "encode_schema s = Inr ws" "decode_schema ws = Inr s"
    using sch.enc_total PProjection.prems by auto
  ultimately show ?case
    using PProjection.prems
    by (simp add: check_depth_ok decode_required_schema_Some decode_exprs_def validate_schema_def)
next
  case (PFilter i input predicate s)
  obtain w where "encode_plan input (d + 1) = Inr w" "decode_plan x c w (d + 1) = Inr input"
    using PFilter.IH [of "d + 1"] PFilter.prems by auto
  moreover obtain e where "encode_expr predicate = Inr e" "decode_expr e = Inr predicate"
    using ex.enc_total PFilter.prems by auto
  moreover obtain ws where "encode_schema s = Inr ws" "decode_schema ws = Inr s"
    using sch.enc_total [of s] plan_wf_schema PFilter.prems by auto
  ultimately show ?case
    using PFilter.prems
    by (simp add: check_depth_ok decode_required_schema_Some required_def validate_schema_def)
next
  case (PHashAggregate i input group_exprs aggregate_exprs s)
  obtain w where "encode_plan input (d + 1) = Inr w" "decode_plan x c w (d + 1) = Inr input"
    using PHashAggregate.IH [of "d + 1"] PHashAggregate.prems by auto
  moreover obtain gs where "rmap encode_expr group_exprs = Inr gs" "rmap decode_expr gs = Inr group_exprs"
    using exs.enc_total PHashAggregate.prems by auto
  moreover obtain as where "rmap encode_expr aggregate_exprs = Inr as"
    "rmap decode_expr as = Inr aggregate_exprs"
    using exs.enc_total PHashAggregate.prems by auto
  moreover obtain ws where "encode_schema s = Inr ws" "decode_schema ws = Inr s"
    using sch.enc_total PHashAggregate.prems by auto
  ultimately show ?case
    using PHashAggregate.prems
    by (simp add: check_depth_ok decode_required_schema_Some decode_exprs_def validate_schema_def)
next
  case (PSort i input exprs s)
  obtain w where "encode_plan input (d + 1) = Inr w" "decode_plan x c w (d + 1) = Inr input"
    using PSort.IH [of "d + 1"] PSort.prems by auto
  moreover obtain es where "rmap encode_sort_expr exprs = Inr es"
    "rmap (decode_sort_expr (physical_schema input)) es = Inr exprs"
    using sks.enc_total PSort.prems by auto
  moreover obtain ws where "encode_schema s = Inr ws" "decode_schema ws = Inr s"
    using sch.enc_total [of s] plan_wf_schema PSort.prems by auto
  ultimately show ?case
    using PSort.prems
    by (simp add: check_depth_ok decode_required_schema_Some decode_sort_exprs_def validate_schema_def)
next
  case (PTopK i input exprs limit s)
  obtain w where "encode_plan input (d + 1) = Inr w" "decode_plan x c w (d + 1) = Inr input"
    using PTopK.IH [of "d + 1"] PTopK.prems by auto
  moreover obtain es where "rmap encode_sort_expr exprs = Inr es"
    "rmap (decode_sort_expr (physical_schema input)) es = Inr exprs"
    using sks.enc_total PTopK.prems by auto
  moreover obtain ws where "encode_schema s = Inr ws" "decode_schema ws = Inr s"
    using sch.enc_total [of s] plan_wf_schema PTopK.prems by auto
  ultimately show ?case
    using PTopK.prems unat_of_nat_u64 [of limit] checked_u64_ok [of limit]
    by (simp add: check_depth_ok decode_required_schema_Some decode_sort_exprs_def validate_schema_def
        checked_usize_def del: unsigned_of_nat)
next
  case (PLimit i input limit s)
  obtain w where "encode_plan input (d + 1) = Inr w" "decode_plan x c w (d + 1) = Inr input"
    using PLimit.IH [of "d + 1"] PLimit.prems by auto
  moreover obtain ws where "encode_schema s = Inr ws" "decode_schema ws = Inr s"
    using sch.enc_total [of s] plan_wf_schema PLimit.prems by auto
  ultimately show ?case
    using PLimit.prems unat_of_nat_u64 [of limit] checked_u64_ok [of limit]
    by (simp add: check_depth_ok decode_required_schema_Some validate_schema_def checked_usize_def
        del: unsigned_of_nat)
next
  case (PHashJoin i left right jt left_on right_on s)
  obtain wl where "encode_plan left (d + 1) = Inr wl" "decode_plan x c wl (d + 1) = Inr left"
    using PHashJoin.IH(1) [of "d + 1"] PHashJoin.prems by auto
  moreover obtain wr where "encode_plan right (d + 1) = Inr wr" "decode_plan x c wr (d + 1) = Inr right"
    using PHashJoin.IH(2) [of "d + 1"] PHashJoin.prems by auto
  moreover obtain ls where "rmap encode_expr left_on = Inr ls" "rmap decode_expr ls = Inr left_on"
    using exs.enc_total PHashJoin.prems by auto
  moreover obtain rs where "rmap encode_expr right_on = Inr rs" "rmap decode_expr rs = Inr right_on"
    using exs.enc_total PHashJoin.prems by auto
  moreover obtain ws where "encode_schema s = Inr ws" "decode_schema ws = Inr s"
    using sch.enc_total [of s] schema_ok_join [OF plan_wf_schema plan_wf_schema] PHashJoin.prems
    by fastforce
  ultimately show ?case
    using PHashJoin.prems
    by (simp add: check_depth_ok decode_required_schema_Some decode_exprs_def validate_schema_def)
qed

lemma plan_dec_sound:
  "decode_plan x c w d = Inr p \<Longrightarrow> plan_wf x c d p"
  "decode_input x c ow name d = Inr p \<Longrightarrow> plan_wf x c d p"
  "d < MAX_PLAN_DEPTH \<Longrightarrow> decode_plan_kind x c k d = Inr p \<Longrightarrow> plan_wf x c d p"
proof (induction x c w d and x c ow name d and x c k d arbitrary: p and p and p
    rule: decode_plan_decode_input_decode_plan_kind.induct)
  case (5 x c i table has ix filters ws d)
  then show ?case
    by (auto simp: rbind_eq_Inr decode_projection_iff decode_exprs_def list_all_unat
        split: sum.splits if_splits intro: exs.dec_sound sch.dec_sound)
qed (auto simp: rbind_eq_Inr required_def decode_exprs_def decode_sort_exprs_iff checked_usize_def
    unat_u64_less intro: exs.dec_sound ex.dec_sound sks.dec_sound sch.dec_sound)

interpretation pl: wire_codec "\<lambda>p. encode_plan p d" "\<lambda>w. decode_plan x c w d" "plan_wf x c d" for x c d
  by unfold_locales (erule plan_enc_total, erule plan_dec_sound(1))

lemma rmap_elem: "rmap f xs = Inr ys \<Longrightarrow> x \<in> set xs \<Longrightarrow> \<exists>y. f x = Inr y"
  using rmap_nth by (metis in_set_conv_nth)

lemma decode_exprs_validate: "decode_exprs ws = Inr es \<Longrightarrow> validate_wire_exprs ws = Inr ()"
  by (auto simp: decode_exprs_def validate_wire_exprs_def rall_eq_Inr rbind_eq_Inr dest: rmap_elem)

lemma decode_sort_exprs_validate:
  assumes "decode_sort_exprs ws s = Inr ks"
  shows "validate_wire_sort_exprs ws = Inr ()"
proof -
  from assms have ks: "rmap (decode_sort_expr s) ws = Inr ks" "ks \<noteq> []"
    by (simp_all add: decode_sort_exprs_iff)
  then have "ws \<noteq> []" by auto
  moreover have "\<exists>y. decode_sort_expr s w = Inr y" if "w \<in> set ws" for w
    by (rule rmap_elem [OF ks(1) that])
  ultimately show ?thesis
    by (fastforce simp: validate_wire_sort_exprs_def rall_eq_Inr rbind_eq_Inr decode_sort_expr_def)
qed

text \<open>Whatever a worker can decode passes the catalog-free check of the coordinator.\<close>

lemma plan_dec_validates:
  "decode_plan x c w d = Inr p \<Longrightarrow> validate_wire_plan w d = Inr ()"
  "decode_input x c ow name d = Inr p \<Longrightarrow> validate_wire_input ow name d = Inr ()"
  "decode_plan_kind x c k d = Inr p \<Longrightarrow> validate_wire_kind k d = Inr ()"
proof (induction x c w d and x c ow name d and x c k d arbitrary: p and p and p
    rule: decode_plan_decode_input_decode_plan_kind.induct)
  case (5 x c i table has ix filters ws d)
  then show ?case
    by (auto simp: rbind_eq_Inr split: sum.splits if_splits intro: decode_exprs_validate)
next
  case (12 x c i l r jt ls rs ws d)
  then show ?case
    by (auto simp: rbind_eq_Inr validate_join_keys_def decode_exprs_def rmap_length
        split: if_splits intro: decode_exprs_validate [unfolded decode_exprs_def] dest: rmap_length)
qed (auto simp: rbind_eq_Inr required_def intro: decode_exprs_validate decode_sort_exprs_validate)

section \<open>A sample plan\<close>

definition sample_scan :: physical_plan where
  "sample_scan = PScan 1 ''t'' sample_provider (Some [1]) [Column ''flag'']
     (schema_new [field_new ''flag'' TBoolean True])"

definition sample_plan :: physical_plan where
  "sample_plan = PTopK 0 sample_scan [\<lparr>sort_on = Column ''flag'', sort_ascending = True, sort_nulls_first = False\<rparr>] 5
     (schema_new [field_new ''flag'' TBoolean True])"

lemma not_blank_letters: "\<not> blank ''t''" "\<not> blank ''flag''" "\<not> blank ''a''" "\<not> blank ''b''"
  by (rule blank_letter; simp add: byte_of_def)+

lemma resolve_flag:
  "resolve_field_index (schema_new [field_new ''flag'' TBoolean True]) ''flag'' = Inr 0"
  by (simp add: resolve_field_index_def positions_def schema_new_def field_new_def)

lemma sample_flag_type:
  "expr_data_type (schema_new [field_new ''flag'' TBoolean True]) (Column ''flag'') = Inr TBoolean"
  by (simp add: find_field_def resolve_flag schema_field_def) (simp add: schema_new_def field_new_def)

lemma sample_scan_wf: "d < 128 \<Longrightarrow> plan_wf x sample_catalog d sample_scan"
  by (simp add: sample_scan_def not_blank_letters MAX_PLAN_DEPTH_def validate_scan_schema_def
      projected_schema_def sample_schema_def schema_new_def field_new_def schema_field_def
      scan_field_matches_def schema_ok_def field_ok_def supported_type_def bt_ok_def)

lemma sample_plan_wf: "plan_wf x sample_catalog 0 sample_plan"
proof -
  have "physical_schema sample_scan = schema_new [field_new ''flag'' TBoolean True]"
    by (simp add: sample_scan_def)
  with sample_scan_wf [of 1 x] show ?thesis
    by (simp add: sample_plan_def MAX_PLAN_DEPTH_def sort_key_ok_def not_blank_letters sample_flag_type
        del: expr_data_type.simps)
qed

text \<open>A stand-in for the Protobuf library that knows one message.\<close>

definition sample_wire :: wire_plan where
  "sample_wire = (case encode_plan sample_plan 0 of Inr w \<Rightarrow> w | Inl _ \<Rightarrow> WirePlan None)"

definition sample_envelope :: wire_plan_envelope where
  "sample_envelope = \<lparr>env_version = PLAN_CODEC_VERSION, env_root = Some sample_wire\<rparr>"

lemma sample_wire:
  "encode_plan sample_plan 0 = Inr sample_wire" "decode_plan x sample_catalog sample_wire 0 = Inr sample_plan"
proof -
  obtain w where w: "encode_plan sample_plan 0 = Inr w"
    using pl.enc_total [OF sample_plan_wf] by blast
  then show "encode_plan sample_plan 0 = Inr sample_wire" by (simp add: sample_wire_def)
  then show "decode_plan x sample_catalog sample_wire 0 = Inr sample_plan"
    by (rule pl.enc_dec [OF sample_plan_wf])
qed

lemma sample_encode: "codec_encode (\<lambda>_. [7]) sample_plan = Inr [7]"
  by (simp add: codec_encode_def sample_wire validate_fragment_size_def MAX_PLAN_FRAGMENT_BYTES_def)

lemma sample_decode: "codec_decode x (\<lambda>_. Some sample_envelope) [7] sample_catalog = Inr sample_plan"
  by (simp add: codec_decode_def decode_envelope_def sample_envelope_def validate_fragment_size_def
      MAX_PLAN_FRAGMENT_BYTES_def sample_wire)

section \<open>Properties\<close>

text \<open>
  C28: The plans a worker can obtain from the decoder are exactly the well-formed ones: every
  decoded operator has the schema its inputs and expressions give, predicates are Boolean, join keys
  agree in type, scans match the worker's catalog, and nesting stays below the limit; and every
  such plan is the result of decoding some message.
\<close>

theorem decode_plan_domain: "(\<exists>w. decode_plan x c w d = Inr p) \<longleftrightarrow> plan_wf x c d p"
  using pl.domain_iff by blast

text \<open>
  C4: A plan survives the trip over the wire.  If the Protobuf library decodes the envelope it
  encoded, a well-formed plan that \<open>encode\<close> accepts passes the coordinator's check of the fragment and is
  decoded by the worker to the same plan, operator ids included.
\<close>

theorem codec_roundtrip:
  assumes "\<And>w. encode_plan p 0 = Inr w \<Longrightarrow>
      pb_decode (pb_encode \<lparr>env_version = PLAN_CODEC_VERSION, env_root = Some w\<rparr>)
        = Some \<lparr>env_version = PLAN_CODEC_VERSION, env_root = Some w\<rparr>"
    and "plan_wf x c 0 p" and "codec_encode pb_encode p = Inr bs"
  shows "codec_decode x pb_decode bs c = Inr p \<and> validate_fragment pb_decode bs = Inr ()"
proof -
  obtain w where w: "encode_plan p 0 = Inr w" "decode_plan x c w 0 = Inr p"
    using pl.enc_total [OF assms(2)] by blast
  then have bs: "bs = pb_encode \<lparr>env_version = PLAN_CODEC_VERSION, env_root = Some w\<rparr>"
    and "validate_fragment_size (length bs) = Inr ()"
    using assms(3) by (auto simp: codec_encode_def rbind_eq_Inr Let_def)
  then have "decode_envelope pb_decode bs = Inr w"
    using assms(1) [OF w(1)] by (simp add: decode_envelope_def)
  with w show ?thesis
    by (simp add: codec_decode_def validate_fragment_def plan_dec_validates)
qed

theorem codec_roundtrip_witness:
  "codec_decode sample_externs (\<lambda>_. Some sample_envelope) [7] sample_catalog = Inr sample_plan
   \<and> validate_fragment (\<lambda>_. Some sample_envelope) [7] = Inr ()"
  by (rule codec_roundtrip [of sample_plan "\<lambda>_. Some sample_envelope" "\<lambda>_. [7]"])
    (simp_all add: sample_wire sample_envelope_def sample_plan_wf sample_encode)

text \<open>
  Encoding a well-formed plan fails for one reason only, the size limit of a fragment.
\<close>

theorem codec_encode_total:
  assumes "plan_wf x c 0 p"
  shows "\<exists>w. codec_encode pb_encode p =
    (let bs = pb_encode \<lparr>env_version = PLAN_CODEC_VERSION, env_root = Some w\<rparr> in
     if 0 < length bs \<and> length bs \<le> 16777216 then Inr bs
     else Inl (if bs = [] then codec_error ''plan fragment must not be empty''
       else codec_error ''plan fragment is {bytes} bytes; maximum is {MAX_PLAN_FRAGMENT_BYTES} bytes''))"
proof -
  obtain w where "encode_plan p 0 = Inr w" using pl.enc_total [OF assms] by blast
  then have "codec_encode pb_encode p =
    (let bs = pb_encode \<lparr>env_version = PLAN_CODEC_VERSION, env_root = Some w\<rparr> in
     if 0 < length bs \<and> length bs \<le> 16777216 then Inr bs
     else Inl (if bs = [] then codec_error ''plan fragment must not be empty''
       else codec_error ''plan fragment is {bytes} bytes; maximum is {MAX_PLAN_FRAGMENT_BYTES} bytes''))"
    by (auto simp: codec_encode_def validate_fragment_size_def MAX_PLAN_FRAGMENT_BYTES_def Let_def)
  then show ?thesis by blast
qed

theorem codec_encode_total_witness:
  "\<exists>w. codec_encode (\<lambda>_. []) sample_plan =
    (let bs = (\<lambda>_. []) \<lparr>env_version = PLAN_CODEC_VERSION, env_root = Some w\<rparr> in
     if 0 < length bs \<and> length bs \<le> 16777216 then Inr bs
     else Inl (if bs = [] then codec_error ''plan fragment must not be empty''
       else codec_error ''plan fragment is {bytes} bytes; maximum is {MAX_PLAN_FRAGMENT_BYTES} bytes''))"
  by (rule codec_encode_total [OF sample_plan_wf [of sample_externs]])

text \<open>
  The coordinator never refuses a fragment that a worker could run: what decodes against some
  catalog passes \<open>validate_fragment\<close>.
\<close>

theorem decoded_fragment_validates:
  assumes "codec_decode x pb_decode bs c = Inr p"
  shows "validate_fragment pb_decode bs = Inr ()"
  using assms plan_dec_validates(1)
  by (auto simp: codec_decode_def validate_fragment_def rbind_eq_Inr)

theorem decoded_fragment_validates_witness:
  "validate_fragment (\<lambda>_. Some sample_envelope) [7] = Inr ()"
  by (rule decoded_fragment_validates [OF sample_decode [of sample_externs]])

text \<open>The nesting of operators.\<close>

fun plan_height :: "physical_plan \<Rightarrow> nat" where
  "plan_height (PScan i table provider projection filters s) = 1"
| "plan_height (PProjection i input exprs s) = plan_height input + 1"
| "plan_height (PFilter i input predicate s) = plan_height input + 1"
| "plan_height (PHashAggregate i input gs as s) = plan_height input + 1"
| "plan_height (PSort i input exprs s) = plan_height input + 1"
| "plan_height (PTopK i input exprs n s) = plan_height input + 1"
| "plan_height (PLimit i input n s) = plan_height input + 1"
| "plan_height (PHashJoin i l r jt lo ro s) = max (plan_height l) (plan_height r) + 1"

lemma plan_wf_height: "plan_wf x c d p \<Longrightarrow> d + plan_height p \<le> MAX_PLAN_DEPTH"
  by (induction p arbitrary: d) fastforce+

text \<open>
  Recursion over a decoded plan is bounded: no fragment, whoever sent it, decodes to a plan
  nested more than 128 operators deep.
\<close>

theorem decoded_plan_bounded:
  assumes "codec_decode x pb_decode bs c = Inr p"
  shows "plan_height p \<le> 128"
proof -
  have "plan_wf x c 0 p"
    using assms pl.dec_sound by (auto simp: codec_decode_def rbind_eq_Inr)
  then show ?thesis using plan_wf_height by (fastforce simp: MAX_PLAN_DEPTH_def)
qed

theorem decoded_plan_bounded_witness: "plan_height sample_plan \<le> 128"
  by (rule decoded_plan_bounded [OF sample_decode [of sample_externs]])

text \<open>
  C32: A fragment can pass the coordinator's check and still make the worker that decodes it panic:
  \<open>unalias\<close> strips one alias, so a projection of a doubly aliased expression reaches the
  \<open>unreachable!()\<close> of the type inference.
\<close>

theorem nested_alias_panics:
  assumes "decode_plan x c w 1 = Inr p" and "\<not> blank a" and "\<not> blank b"
    and "encode_expr (Alias (Alias (Literal v) a) b) = Inr e"
    and "bad = WirePlan (Some (WProjection i (Some w) [e] (Some \<lparr>ws_fields = [], ws_metadata = []\<rparr>)))"
  shows "validate_wire_plan bad 0 = Inr () \<and> decode_plan x c bad 0 = Inl (EPanic ''unreachable'')"
proof -
  have e: "decode_expr e = Inr (Alias (Alias (Literal v) a) b)"
    by (rule ex.enc_dec) (use assms in simp_all)
  have d: "check_depth 0 = Inr ()" by (simp add: check_depth_def MAX_PLAN_DEPTH_def)
  have s: "decode_schema \<lparr>ws_fields = [], ws_metadata = []\<rparr> = Inr (schema_new [])"
    by (simp add: decode_schema_def decode_metadata_def schema_new_def)
  show ?thesis
    using assms(1) plan_dec_validates(1) [OF assms(1)]
    by (simp add: assms(5) d e s validate_wire_exprs_def decode_exprs_def decode_required_schema_Some
        schema_for_exprs_def expr_field_def)
qed

theorem nested_alias_panics_witness:
  "\<exists>bad. validate_wire_plan bad 0 = Inr ()
     \<and> decode_plan sample_externs sample_catalog bad 0 = Inl (EPanic ''unreachable'')"
proof -
  obtain w where w: "decode_plan sample_externs sample_catalog w 1 = Inr sample_scan"
    using pl.enc_total [OF sample_scan_wf [of 1 sample_externs]] by auto
  obtain e where e: "encode_expr (Alias (Alias (Literal SNull) ''a'') ''b'') = Inr e" by auto
  from nested_alias_panics [OF w not_blank_letters(3,4) e refl, of 0] show ?thesis by blast
qed

section \<open>Agreement with the planner\<close>

lemma split_last_dot_None: "split_last_dot s = None \<longleftrightarrow> CHR ''.'' \<notin> set s"
  by (induction s) (auto split: option.splits)

lemma split_last_dot_append:
  "CHR ''.'' \<notin> set t \<Longrightarrow> split_last_dot (s @ CHR ''.'' # t) = Some t"
  by (induction s) (simp_all add: split_last_dot_None [THEN iffD2])

text \<open>
  The codec's own \<open>unqualified\<close>, which splits at the last dot, computes the same name as the one
  of the expression language, which takes the last segment.
\<close>

theorem codec_unqualified_eq: "codec_unqualified n = unqualified n"
proof (cases "CHR ''.'' \<in> set n")
  case True
  then obtain s t where n: "n = s @ CHR ''.'' # t" "CHR ''.'' \<notin> set t"
    using split_list_last by fastforce
  have "takeWhile (\<lambda>c. c \<noteq> CHR ''.'') (rev t @ CHR ''.'' # rev s) = rev t"
    by (subst takeWhile_append2) (use n(2) in auto)
  then have "unqualified n = t" by (simp add: n(1) unqualified_def)
  then show ?thesis using n by (simp add: codec_unqualified_def split_last_dot_append)
next
  case False
  then have "unqualified n = n"
    unfolding unqualified_def by (subst takeWhile_eq_all_conv [THEN iffD2]) auto
  with False show ?thesis
    by (simp add: codec_unqualified_def split_last_dot_None [THEN iffD2])
qed

text \<open>
  The schema the codec demands of a hash join is the schema the planner gave it: same renaming
  of clashing names, same nullability on the right of a left join.
\<close>

theorem join_schema_agrees:
  assumes "join_plan l r jt left_on right_on = Inr p"
  shows "logical_schema p = join_schema (logical_schema l) (logical_schema r) jt"
proof -
  have "codec_join_field = join_output_field"
    by (simp add: fun_eq_iff codec_join_field_def join_output_field_def Let_def)
  then show ?thesis
    using assms by (auto simp: join_plan_def join_schema_def join_fields_def rbind_eq_Inr split: if_splits)
qed

theorem join_schema_agrees_witness:
  "logical_schema (LJoin (logical_scan ''t'' sample_schema) (logical_scan ''t'' sample_schema) LeftJoin
      [Column ''id''] [Column ''id'']
      (schema_new (join_fields LeftJoin (schema_fields sample_schema) (schema_fields sample_schema))))
   = join_schema sample_schema sample_schema LeftJoin"
proof -
  have "resolve_field_index sample_schema ''id'' = Inr 0"
    by (simp add: resolve_field_index_def positions_def sample_schema_def schema_new_def field_new_def)
  then have "expr_data_type sample_schema (Column ''id'') = Inr TInt64"
    by (simp add: find_field_def schema_field_def sample_schema_def schema_new_def field_new_def)
  then have "join_plan (logical_scan ''t'' sample_schema) (logical_scan ''t'' sample_schema) LeftJoin
      [Column ''id''] [Column ''id''] = Inr (LJoin (logical_scan ''t'' sample_schema)
        (logical_scan ''t'' sample_schema) LeftJoin [Column ''id''] [Column ''id'']
        (schema_new (join_fields LeftJoin (schema_fields sample_schema) (schema_fields sample_schema))))"
    by (simp add: join_plan_def logical_scan_def check_join_keys_def del: expr_data_type.simps)
  from join_schema_agrees [OF this] show ?thesis by (simp add: logical_scan_def)
qed

end
