(* ===== verification/Plan_Props.thy ===== *)
theory Plan_Props
  imports Codec_Props Expr_Props
begin

text \<open>
  Correctness of planning: \<open>src/query/logical.rs\<close>, \<open>src/query/optimizer.rs\<close> and
  \<open>src/query/planner.rs\<close>.

  The invariant \<open>logical_wf\<close> of logical plans is established by every constructor, kept by every
  rewrite of the optimizer and carried over to physical plans, where it gives \<open>plan_wf\<close>, the domain
  of the wire codec.
\<close>

section \<open>Operator ids\<close>

fun plan_ids :: "physical_plan \<Rightarrow> operator_id list" where
  "plan_ids (PScan i table provider projection filters s) = [i]"
| "plan_ids (PProjection i input exprs s) = i # plan_ids input"
| "plan_ids (PFilter i input predicate s) = i # plan_ids input"
| "plan_ids (PHashAggregate i input gs as s) = i # plan_ids input"
| "plan_ids (PSort i input exprs s) = i # plan_ids input"
| "plan_ids (PTopK i input exprs n s) = i # plan_ids input"
| "plan_ids (PLimit i input n s) = i # plan_ids input"
| "plan_ids (PHashJoin i l r jt lo ro s) = i # plan_ids l @ plan_ids r"

primrec id_run :: "operator_id \<Rightarrow> nat \<Rightarrow> operator_id list" where
  "id_run i 0 = []"
| "id_run i (Suc n) = i # id_run (i + 1) n"

lemma id_run_append: "id_run i (a + b) = id_run i a @ id_run (i + of_nat a) b"
  by (induction a arbitrary: i) (simp_all add: add.assoc)

lemma length_id_run [simp]: "length (id_run i n) = n"
  by (induction n arbitrary: i) simp_all

lemma id_run_snoc: "id_run i (Suc n) = id_run i n @ [i + of_nat n]"
  using id_run_append [of i n 1] by simp

lemma id_run_zero: "id_run 0 n = map of_nat [0..<n]"
proof (induction n)
  case (Suc n)
  then show ?case by (simp only: id_run_snoc) simp
qed simp

lemma build_ids:
  "build c p i = Inr (q, n) \<Longrightarrow>
     n = i + of_nat (length (plan_ids q)) \<and> plan_ids q = id_run i (length (plan_ids q))"
proof (induction c p i arbitrary: q n rule: build.induct)
  case (8 c left right jt left_on right_on s i)
  then obtain l m r where "build c left (i + 1) = Inr (l, m)" "build c right m = Inr (r, n)"
    and q: "q = PHashJoin i l r jt left_on right_on s"
    by (auto simp: rbind_eq_Inr)
  with 8 have "plan_ids l = id_run (i + 1) (length (plan_ids l))"
    "m = i + 1 + of_nat (length (plan_ids l))" "plan_ids r = id_run m (length (plan_ids r))"
    "n = m + of_nat (length (plan_ids r))"
    by force+
  then show ?case
    using id_run_append [of "i + 1" "length (plan_ids l)" "length (plan_ids r)"]
    by (simp add: q add.assoc)
qed (fastforce simp: rbind_eq_Inr add.assoc)+

lemma distinct_of_nat_u32: "n \<le> 2 ^ 32 \<Longrightarrow> distinct (map (of_nat :: nat \<Rightarrow> u32) [0..<n])"
  by (auto simp: distinct_map inj_on_def dest!: arg_cong [of _ _ unat]
      simp: unat_of_nat_small simp del: unsigned_of_nat)

text \<open>
  The planner numbers the operators of a plan in pre-order from zero without gaps, so ids are
  unique within a plan: metrics and traces keyed by operator id never mix two operators.
\<close>

theorem operator_ids_preorder:
  assumes "create_physical_plan p c = Inr q"
  shows "plan_ids q = map of_nat [0..<length (plan_ids q)]
    \<and> (length (plan_ids q) \<le> 2 ^ 32 \<longrightarrow> distinct (plan_ids q))"
proof -
  from assms obtain n where "build c p 0 = Inr (q, n)"
    by (auto simp: create_physical_plan_def rbind_eq_Inr)
  then have ids: "plan_ids q = map of_nat [0..<length (plan_ids q)]"
    using build_ids id_run_zero by metis
  then show ?thesis using distinct_of_nat_u32 by metis
qed

theorem operator_ids_preorder_witness:
  "plan_ids (PLimit 0 (PScan 1 ''t'' sample_provider None [] sample_schema) 3 sample_schema)
     = map of_nat [0..<2]"
proof -
  have "create_physical_plan (LLimit (LScan ''t'' None [] sample_schema) 3 sample_schema) sample_catalog
      = Inr (PLimit 0 (PScan 1 ''t'' sample_provider None [] sample_schema) 3 sample_schema)"
    by (simp add: create_physical_plan_def)
  from operator_ids_preorder [OF this] show ?thesis by (simp add: numeral_2_eq_2)
qed

section \<open>Well-formed logical plans\<close>

text \<open>
  Every node of a well-formed plan has the schema its constructor computes from the schemas of its
  inputs, and its expressions have types under them.
\<close>

fun logical_wf :: "externs \<Rightarrow> logical_plan \<Rightarrow> bool" where
  "logical_wf x (LScan table projection filters s) = True"
| "logical_wf x (LProjection input exprs s) \<longleftrightarrow>
     logical_wf x input \<and> schema_for_exprs x exprs (logical_schema input) = Inr s"
| "logical_wf x (LFilter input predicate s) \<longleftrightarrow>
     logical_wf x input \<and> expr_data_type (logical_schema input) predicate = Inr TBoolean
     \<and> s = logical_schema input"
| "logical_wf x (LAggregate input group_exprs aggregate_exprs s) \<longleftrightarrow>
     logical_wf x input
     \<and> schema_for_exprs x (group_exprs @ aggregate_exprs) (logical_schema input) = Inr s"
| "logical_wf x (LSort input exprs s) \<longleftrightarrow>
     logical_wf x input
     \<and> list_all (\<lambda>k. is_ok (expr_data_type (logical_schema input) (sort_on k))) exprs
     \<and> s = logical_schema input"
| "logical_wf x (LLimit input n s) \<longleftrightarrow> logical_wf x input \<and> s = logical_schema input"
| "logical_wf x (LJoin left right jt left_on right_on s) \<longleftrightarrow>
     logical_wf x left \<and> logical_wf x right
     \<and> validate_join_keys left_on (logical_schema left) right_on (logical_schema right) = Inr ()
     \<and> s = join_schema (logical_schema left) (logical_schema right) jt"

subsection \<open>The constructors\<close>

lemma project_wf: "project x i es = Inr p \<Longrightarrow> logical_wf x i \<Longrightarrow> logical_wf x p"
  by (auto simp: project_def Let_def schema_for_exprs_def rbind_eq_Inr)

lemma filter_plan_wf: "filter_plan i e = Inr p \<Longrightarrow> logical_wf x i \<Longrightarrow> logical_wf x p"
  by (auto simp: filter_plan_def rbind_eq_Inr split: if_splits)

lemma aggregate_plan_wf: "aggregate_plan x i gs as = Inr p \<Longrightarrow> logical_wf x i \<Longrightarrow> logical_wf x p"
  by (auto simp: aggregate_plan_def schema_for_exprs_def rbind_eq_Inr)

lemma sort_plan_wf: "sort_plan i ks = Inr p \<Longrightarrow> logical_wf x i \<Longrightarrow> logical_wf x p"
  by (auto simp: sort_plan_def rbind_eq_Inr list_all_iff is_ok_iff dest: rmap_elem)

lemma limit_plan_wf: "logical_wf x i \<Longrightarrow> logical_wf x (limit_plan i n)"
  by (simp add: limit_plan_def)

lemma join_fields_schema:
  "schema_new (join_fields jt (schema_fields l) (schema_fields r)) = join_schema l r jt"
proof -
  have "codec_join_field = join_output_field"
    by (simp add: fun_eq_iff codec_join_field_def join_output_field_def Let_def)
  then show ?thesis by (simp add: join_schema_def join_fields_def)
qed

lemma check_join_keys_codec: "check_join_keys ls rs k = Inr u \<longleftrightarrow> codec_check_join_keys ls rs k = Inr u"
  by (auto simp: check_join_keys_def codec_check_join_keys_def rbind_eq_Inr)

lemma join_plan_wf:
  "join_plan l r jt lo ro = Inr p \<Longrightarrow> logical_wf x l \<Longrightarrow> logical_wf x r \<Longrightarrow> logical_wf x p"
  by (auto simp: join_plan_def validate_join_keys_def rbind_eq_Inr rall_eq_Inr check_join_keys_codec
      join_fields_schema split: if_splits)

lemmas constructor_wf = project_wf filter_plan_wf aggregate_plan_wf sort_plan_wf limit_plan_wf join_plan_wf

subsection \<open>The optimizer\<close>

lemma simplify_expressions_wf: "simplify_expressions x p = Inr q \<Longrightarrow> logical_wf x p \<Longrightarrow> logical_wf x q"
  by (cases p) (auto simp: rbind_eq_Inr intro: constructor_wf)

lemma push_filter_wf: "push_filter_into_scan p = Inr q \<Longrightarrow> logical_wf x p \<Longrightarrow> logical_wf x q"
  by (cases p) (auto split: logical_plan.splits intro: filter_plan_wf)

lemma push_projection_wf: "push_projection_into_scan x p = Inr q \<Longrightarrow> logical_wf x p \<Longrightarrow> logical_wf x q"
  by (cases p) (auto simp: Let_def rbind_eq_Inr split: logical_plan.splits if_splits intro: project_wf)

lemma eliminate_identity_wf:
  "eliminate_identity_projection x p = Inr q \<Longrightarrow> logical_wf x p \<Longrightarrow> logical_wf x q"
  by (cases p) (auto split: if_splits intro: project_wf)

lemma optimize_wf:
  "optimize x p = Inr q \<Longrightarrow> logical_wf x q"
  "optimize_children x p = Inr q \<Longrightarrow> logical_wf x q"
proof (induction x p and x p arbitrary: q and q rule: optimize_optimize_children.induct)
  case (1 x p)
  then obtain p1 p2 p3 p4 where "optimize_children x p = Inr p1" "simplify_expressions x p1 = Inr p2"
    "push_filter_into_scan p2 = Inr p3" "push_projection_into_scan x p3 = Inr p4"
    "eliminate_identity_projection x p4 = Inr q"
    by (auto simp: optimize.simps [of x p] rbind_eq_Inr)
  then show ?case
    by (meson "1.IH" simplify_expressions_wf push_filter_wf push_projection_wf eliminate_identity_wf)
qed (auto simp: rbind_eq_Inr intro: constructor_wf)

subsection \<open>From logical plans to wire fragments\<close>

text \<open>
  What the wire format asks of a plan beyond being well-formed: names that are not blank, Arrow
  types it supports, at least one sort key, limits that fit, nesting below the limit, and scans
  that match the catalog.
\<close>

fun wire_ready :: "catalog \<Rightarrow> nat \<Rightarrow> logical_plan \<Rightarrow> bool" where
  "wire_ready c d (LScan table projection filters s) \<longleftrightarrow>
     d < MAX_PLAN_DEPTH \<and> \<not> blank table \<and> list_all expr_ok filters \<and> schema_ok s
     \<and> (case catalog_table c table of Inl _ \<Rightarrow> False
        | Inr provider \<Rightarrow>
            length (schema_fields (tp_schema provider)) \<le> 2 ^ 32
            \<and> (case roption (rmap (find_column (tp_schema provider))) projection of Inl _ \<Rightarrow> False
               | Inr ix \<Rightarrow> validate_scan_schema (tp_schema provider) ix s = Inr ()))"
| "wire_ready c d (LProjection input exprs s) \<longleftrightarrow>
     d < MAX_PLAN_DEPTH \<and> wire_ready c (d + 1) input \<and> list_all expr_ok exprs"
| "wire_ready c d (LFilter input predicate s) \<longleftrightarrow>
     d < MAX_PLAN_DEPTH \<and> wire_ready c (d + 1) input \<and> expr_ok predicate"
| "wire_ready c d (LAggregate input group_exprs aggregate_exprs s) \<longleftrightarrow>
     d < MAX_PLAN_DEPTH \<and> wire_ready c (d + 1) input
     \<and> list_all expr_ok group_exprs \<and> list_all expr_ok aggregate_exprs"
| "wire_ready c d (LSort input exprs s) \<longleftrightarrow>
     d < MAX_PLAN_DEPTH \<and> wire_ready c (d + 1) input \<and> exprs \<noteq> []
     \<and> list_all (\<lambda>k. expr_ok (sort_on k)) exprs"
| "wire_ready c d (LLimit input n s) \<longleftrightarrow>
     d < MAX_PLAN_DEPTH \<and> wire_ready c (d + 1) input \<and> n < 2 ^ 64"
| "wire_ready c d (LJoin left right jt left_on right_on s) \<longleftrightarrow>
     d < MAX_PLAN_DEPTH \<and> wire_ready c (d + 1) left \<and> wire_ready c (d + 1) right
     \<and> list_all expr_ok left_on \<and> list_all expr_ok right_on"

lemma schema_field_supported:
  "schema_ok s \<Longrightarrow> schema_field s i = Inr f \<Longrightarrow> supported_type (field_type f)"
  by (auto simp: schema_ok_def schema_field_def list_all_length field_ok_def split: if_splits)

lemma binary_type_supported: "binary_data_type op l r = Inr t \<Longrightarrow> supported_type t"
  by (cases l; cases r)
    (auto simp: binary_data_type_def supported_type_def common_numeric_type_def is_numeric_def
      split: if_splits)

lemma expr_type_supported:
  "schema_ok s \<Longrightarrow> expr_ok e \<Longrightarrow> expr_data_type s e = Inr t \<Longrightarrow> supported_type t"
proof (induction s e arbitrary: t rule: expr_data_type.induct)
  case (1 s n)
  then show ?case by (auto simp: find_field_def rbind_eq_Inr dest: schema_field_supported)
next
  case (2 s v)
  then show ?case by (cases v) (auto simp: supported_type_def)
next
  case (3 s l op r)
  then show ?case by (auto simp: rbind_eq_Inr dest: binary_type_supported)
next
  case (6 s f e dist)
  then show ?case
    by (cases f) (auto simp: rbind_eq_Inr supported_type_def split: if_splits)
next
  case (8 s e a)
  then show ?case by (auto split: expr.splits)
qed (auto simp: supported_type_def)

lemma schema_for_exprs_ok:
  assumes "schema_ok s" and "list_all expr_ok es" and "schema_for_exprs x es s = Inr s'"
  shows "schema_ok s'"
proof -
  obtain fs where fs: "rmap (expr_field x s) es = Inr fs" "s' = schema_new fs"
    using assms(3) by (auto simp: schema_for_exprs_def rbind_eq_Inr)
  have "field_ok f" if f: "f \<in> set fs" for f
  proof -
    obtain i where "i < length fs" "f = fs ! i" using f by (auto simp: in_set_conv_nth)
    with fs(1) have "expr_field x s (es ! i) = Inr f" "es ! i \<in> set es"
      using rmap_nth [OF fs(1), of i] rmap_length [OF fs(1)] by auto
    then show ?thesis
      using assms(1,2) expr_type_supported [of s "es ! i"]
      by (auto simp: expr_field_def rbind_eq_Inr field_ok_def field_new_def list_all_iff bt_ok_def)
  qed
  then show ?thesis by (simp add: fs(2) schema_ok_def schema_new_def list_all_iff bt_ok_def)
qed

lemma plan_wf_shallower: "plan_wf x c (Suc d) q \<Longrightarrow> plan_wf x c d q"
proof (induction q arbitrary: d)
  case (PProjection i q exprs s)
  then show ?case by simp
qed auto

lemma find_column_less: "find_column s n = Inr i \<Longrightarrow> i < length (schema_fields s)"
  by (auto simp: find_column_def resolve_iff only_at_def)

lemma scan_indices_small:
  assumes "length (schema_fields s) \<le> 2 ^ 32" and "roption (rmap (find_column s)) projection = Inr ix"
  shows "case ix of None \<Rightarrow> True | Some js \<Rightarrow> list_all (\<lambda>n. n < 2 ^ 32) js"
proof (cases ix)
  case (Some js)
  then obtain ns where "rmap (find_column s) ns = Inr js"
    using assms(2) by (cases projection) (auto simp: rbind_eq_Inr)
  then have "j < length (schema_fields s)" if "j \<in> set js" for j
    using that find_column_less rmap_length rmap_nth by (metis in_set_conv_nth)
  then show ?thesis using Some assms(1) by (fastforce simp: list_all_iff)
qed simp

lemma build_total: "wire_ready c d p \<Longrightarrow> \<exists>q n. build c p i = Inr (q, n)"
proof (induction c p i arbitrary: d rule: build.induct)
  case (1 c table projection filters s i)
  then show ?case by (auto split: sum.splits)
next
  case (6 c sort_input exprs s' limit s i)
  then show ?case by fastforce
next
  case (8 c left right jt left_on right_on s i)
  then obtain l n where l: "build c left (i + 1) = Inr (l, n)" by fastforce
  with 8 obtain r m where "build c right n = Inr (r, m)" by fastforce
  with l show ?case by simp
qed fastforce+

lemma build_wf:
  "build c p i = Inr (q, n) \<Longrightarrow> logical_wf x p \<Longrightarrow> wire_ready c d p \<Longrightarrow>
     plan_wf x c d q \<and> physical_schema q = logical_schema p"
proof (induction c p i arbitrary: q n d rule: build.induct)
  case (1 c table projection filters s i)
  then show ?case
    using scan_indices_small by (auto simp: rbind_eq_Inr split: sum.splits)
next
  case (2 c input exprs s i)
  from "2.prems"(1) obtain r where r: "build c input (i + 1) = Inr (r, n)" "q = PProjection i r exprs s"
    by (auto simp: rbind_eq_Inr)
  have "plan_wf x c (d + 1) r \<and> physical_schema r = logical_schema input"
    by (rule "2.IH" [OF r(1)]) (use "2.prems" in simp_all)
  then show ?case
    using "2.prems" r(2) schema_for_exprs_ok [OF plan_wf_schema, of x c "d + 1" r exprs x s] by simp
next
  case (3 c input predicate s i)
  from "3.prems"(1) obtain r where r: "build c input (i + 1) = Inr (r, n)" "q = PFilter i r predicate s"
    by (auto simp: rbind_eq_Inr)
  have "plan_wf x c (d + 1) r \<and> physical_schema r = logical_schema input"
    by (rule "3.IH" [OF r(1)]) (use "3.prems" in simp_all)
  then show ?case using "3.prems" r(2) by simp
next
  case (4 c input gs as s i)
  from "4.prems"(1) obtain r where r: "build c input (i + 1) = Inr (r, n)"
    "q = PHashAggregate i r gs as s"
    by (auto simp: rbind_eq_Inr)
  have "plan_wf x c (d + 1) r \<and> physical_schema r = logical_schema input"
    by (rule "4.IH" [OF r(1)]) (use "4.prems" in simp_all)
  then show ?case
    using "4.prems" r(2) schema_for_exprs_ok [OF plan_wf_schema, of x c "d + 1" r "gs @ as" x s] by simp
next
  case (5 c input exprs s i)
  from "5.prems"(1) obtain r where r: "build c input (i + 1) = Inr (r, n)" "q = PSort i r exprs s"
    by (auto simp: rbind_eq_Inr)
  have "plan_wf x c (d + 1) r \<and> physical_schema r = logical_schema input"
    by (rule "5.IH" [OF r(1)]) (use "5.prems" in simp_all)
  then show ?case using "5.prems" r(2) by (simp add: list_all_iff sort_key_ok_def)
next
  case (6 c sort_input exprs s' limit s i)
  from "6.prems"(1) obtain r where r: "build c sort_input (i + 1) = Inr (r, n)" "q = PTopK i r exprs limit s"
    by (auto simp: rbind_eq_Inr)
  have "plan_wf x c (Suc (Suc d)) r \<and> physical_schema r = logical_schema sort_input"
    by (rule "6.IH" [OF r(1)]) (use "6.prems" in simp_all)
  then show ?case
    using "6.prems" r(2) plan_wf_shallower [of x c "Suc d" r] by (simp add: list_all_iff sort_key_ok_def)
next
  case (8 c left right jt left_on right_on s i)
  from "8.prems"(1) obtain l m r where b: "build c left (i + 1) = Inr (l, m)" "build c right m = Inr (r, n)"
    "q = PHashJoin i l r jt left_on right_on s"
    by (auto simp: rbind_eq_Inr)
  have "plan_wf x c (d + 1) l \<and> physical_schema l = logical_schema left"
    by (rule "8.IH"(1) [OF b(1)]) (use "8.prems" in simp_all)
  moreover have "plan_wf x c (d + 1) r \<and> physical_schema r = logical_schema right"
    by (rule "8.IH"(2) [OF b(1) refl b(2)]) (use "8.prems" in simp_all)
  ultimately show ?case using "8.prems" b(3) by simp
qed (fastforce simp: rbind_eq_Inr)+

subsection \<open>A sample query\<close>

definition sample_query :: logical_plan where
  "sample_query = LLimit (LFilter (LScan ''t'' None [] sample_schema) (Column ''flag'') sample_schema)
     5 sample_schema"

definition sample_optimized :: logical_plan where
  "sample_optimized = LLimit (LScan ''t'' None [Column ''flag''] sample_schema) 5 sample_schema"

lemma sample_flag_resolves:
  "expr_data_type sample_schema (Column ''flag'') = Inr TBoolean"
  by (simp add: find_field_def resolve_field_index_def positions_def sample_schema_def schema_new_def
      field_new_def schema_field_def)

lemma sample_flag_simplify: "simplify x sample_schema (Column ''flag'') = Inr (Column ''flag'')"
  using sample_flag_resolves
  by (simp add: simplify_node_def columns_def insort_insert_key_def del: expr_data_type.simps)

lemma sample_optimize: "optimize x sample_query = Inr sample_optimized"
proof -
  have scan: "optimize x (LScan ''t'' None [] sample_schema) = Inr (LScan ''t'' None [] sample_schema)"
    by (simp add: optimize.simps)
  have "optimize x (LFilter (LScan ''t'' None [] sample_schema) (Column ''flag'') sample_schema)
      = Inr (LScan ''t'' None [Column ''flag''] sample_schema)"
    by (subst optimize.simps)
      (simp add: scan filter_plan_def sample_flag_resolves sample_flag_simplify
        del: expr_data_type.simps simplify.simps)
  then show ?thesis
    by (subst optimize.simps) (simp add: sample_query_def sample_optimized_def limit_plan_def)
qed

lemma sample_wire_ready: "wire_ready sample_catalog 0 sample_optimized"
proof -
  have "validate_scan_schema sample_schema None sample_schema = Inr ()"
    by (simp add: validate_scan_schema_def projected_schema_def sample_schema_def schema_new_def
        field_new_def scan_field_matches_def)
  then show ?thesis
    by (simp add: sample_optimized_def MAX_PLAN_DEPTH_def not_blank_letters)
      (simp add: sample_schema_def schema_new_def field_new_def schema_ok_def field_ok_def
        supported_type_def bt_ok_def)
qed





section \<open>Identity projections\<close>

lemma unqualified_not_dotted: "\<not> dotted (unqualified n)"
  by (auto simp: dotted_def unqualified_def dest: set_takeWhileD)

lemma unqualified_id: "\<not> dotted n \<Longrightarrow> unqualified n = n"
proof -
  assume "\<not> dotted n"
  then have "takeWhile (\<lambda>c. c \<noteq> CHR ''.'') (rev n) = rev n"
    by (intro takeWhile_eq_all_conv [THEN iffD2]) (auto simp: dotted_def)
  then have "rev (takeWhile (\<lambda>c. c \<noteq> CHR ''.'') (rev n)) = n" by (rule rev_swap [THEN iffD2])
  then show ?thesis by (simp add: unqualified_def)
qed

lemma resolve_unique:
  assumes "resolve_field_index s n = Inr j" and "i < length (schema_fields s)"
    and "unqualified n = field_name (schema_fields s ! i)"
    and "\<And>f. f \<in> set (schema_fields s) \<Longrightarrow> \<not> dotted (field_name f)"
  shows "j = i"
proof -
  have nd: "\<not> dotted (field_name (schema_fields s ! k))" if "k < length (schema_fields s)" for k
    using assms(4) that by simp
  from assms(1) consider "only_at (exact_name n) (schema_fields s) j"
    | "only_at (loose_name n) (schema_fields s) j"
    unfolding resolve_iff by blast
  then show ?thesis
  proof cases
    case 1
    then have "field_name (schema_fields s ! j) = n" "j < length (schema_fields s)"
      by (simp_all add: only_at_def exact_name_def)
    then have "unqualified n = n" using unqualified_id nd by metis
    with 1 assms(2,3) show ?thesis by (simp add: only_at_def exact_name_def)
  next
    case 2
    have "unqualified (field_name (schema_fields s ! i)) = unqualified n"
      using unqualified_id [OF nd [OF assms(2)]] assms(3) by simp
    with 2 assms(2) show ?thesis by (auto simp: only_at_def loose_name_def)
  qed
qed

lemma unalias_Column:
  assumes "unalias e = Column n"
  shows "expr_data_type s e = expr_data_type s (Column n)" and "evaluate x b e = evaluate x b (Column n)"
  using assms by (cases e; simp)+

lemma identity_columns:
  assumes "identity_projection x es s" and "i < length es"
  obtains n where "unalias (es ! i) = Column n" and "i < length (schema_fields s)"
    and "unqualified n = field_name (schema_fields s ! i)"
    and "expr_name x (es ! i) = field_name (schema_fields s ! i)"
proof -
  have "identity_column x (es ! i, schema_fields s ! i)" "i < length (schema_fields s)"
    using assms by (auto simp: identity_projection_def list_all_length)
  then show thesis using that by (auto simp: identity_column_def split: expr.splits)
qed

lemma identity_not_dotted:
  assumes "identity_projection x es s" and "f \<in> set (schema_fields s)"
  shows "\<not> dotted (field_name f)"
proof -
  obtain i where i: "i < length es" "f = schema_fields s ! i"
    using assms by (auto simp: identity_projection_def in_set_conv_nth)
  obtain n where "unqualified n = field_name f" using identity_columns [OF assms(1) i(1)] i(2) by metis
  then show ?thesis using unqualified_not_dotted by metis
qed

text \<open>
  Removing an identity projection is correct.  If the optimizer's test accepts a projection that
  type-checks, then on every batch of the input schema the projection computes exactly the input
  columns, in order, under the same names and types; qualifiers, aliases and name clashes cannot
  make it drop, swap or rename a column.
\<close>

theorem identity_projection_sound:
  assumes "identity_projection x es (rb_schema b)"
    and "rmap (expr_field x (rb_schema b)) es = Inr fs"
    and "length (rb_columns b) = length (schema_fields (rb_schema b))"
  shows "rmap (evaluate x b) es = Inr (rb_columns b)
    \<and> map field_name fs = map field_name (schema_fields (rb_schema b))
    \<and> map field_type fs = map field_type (schema_fields (rb_schema b))"
proof -
  let ?s = "rb_schema b"
  have len: "length es = length (schema_fields ?s)" "length fs = length es"
    using assms(1) rmap_length [OF assms(2)] by (auto simp: identity_projection_def)
  have col: "evaluate x b (es ! i) = Inr (rb_columns b ! i)
      \<and> field_name (fs ! i) = field_name (schema_fields ?s ! i)
      \<and> field_type (fs ! i) = field_type (schema_fields ?s ! i)" if i: "i < length es" for i
  proof -
    obtain n where n: "unalias (es ! i) = Column n" "i < length (schema_fields ?s)"
      "unqualified n = field_name (schema_fields ?s ! i)"
      "expr_name x (es ! i) = field_name (schema_fields ?s ! i)"
      by (rule identity_columns [OF assms(1) i])
    obtain t where t: "expr_data_type ?s (Column n) = Inr t" "fs ! i = field_new (expr_name x (es ! i)) t True"
      using rmap_nth [OF assms(2) i] unalias_Column(1) [OF n(1), of ?s]
      by (auto simp: expr_field_def rbind_eq_Inr)
    then obtain j where j: "resolve_field_index ?s n = Inr j" by (auto simp: find_field_def rbind_eq_Inr)
    have "j = i"
      by (rule resolve_unique [OF j n(2,3) identity_not_dotted [OF assms(1)]])
    with j t n assms(3) show ?thesis
      using unalias_Column(2) [OF n(1), of x b]
      by (simp add: find_column_def batch_column_def find_field_def schema_field_def field_new_def)
  qed
  have "rmap (evaluate x b) es = Inr (rb_columns b)"
    unfolding rmap_eq_Inr list_all2_conv_all_nth using col len(1) assms(3) by simp
  moreover have "map field_name fs = map field_name (schema_fields ?s)"
    "map field_type fs = map field_type (schema_fields ?s)"
    using col len by (simp_all add: list_eq_iff_nth_eq)
  ultimately show ?thesis by blast
qed

definition sample_batch :: batch where
  "sample_batch = \<lparr>rb_schema = sample_schema,
     rb_columns = [array_of TInt64 [CI64 7], array_of TBoolean [CBool True]], rb_num_rows = 1\<rparr>"

lemma sample_columns:
  "resolve_field_index sample_schema ''id'' = Inr 0" "resolve_field_index sample_schema ''flag'' = Inr 1"
  by (simp_all add: resolve_field_index_def positions_def sample_schema_def schema_new_def field_new_def)

lemma unqualified_samples: "unqualified ''id'' = ''id''" "unqualified ''flag'' = ''flag''"
  by (simp_all add: unqualified_def)

theorem identity_projection_sound_witness:
  "rmap (evaluate sample_externs sample_batch) [Column ''id'', Alias (Column ''flag'') ''flag'']
     = Inr (rb_columns sample_batch)"
proof -
  have "identity_projection sample_externs [Column ''id'', Alias (Column ''flag'') ''flag'']
      (rb_schema sample_batch)"
    by (simp add: identity_projection_def identity_column_def sample_batch_def sample_schema_def
        schema_new_def field_new_def unqualified_samples)
  moreover have "rmap (expr_field sample_externs (rb_schema sample_batch))
      [Column ''id'', Alias (Column ''flag'') ''flag''] =
      Inr [field_new ''id'' TInt64 True, field_new ''flag'' TBoolean True]"
    by (simp add: sample_batch_def expr_field_def find_field_def sample_columns schema_field_def
        unqualified_samples) (simp add: sample_schema_def schema_new_def field_new_def)
  moreover have "length (rb_columns sample_batch) = length (schema_fields (rb_schema sample_batch))"
    by (simp add: sample_batch_def sample_schema_def schema_new_def)
  ultimately show ?thesis using identity_projection_sound by blast
qed

end
