(* ===== verification/Pushdown_Props.thy ===== *)
theory Pushdown_Props
  imports Plan_Props
begin

text \<open>
  Projection pushdown in \<open>src/query/optimizer.rs\<close>: when narrowing a scan to the required columns
  keeps the meaning of the expressions above it, and two plans on which the optimizer goes wrong.
\<close>

section \<open>Required columns\<close>

fun column_names :: "expr \<Rightarrow> string set" where
  "column_names (Column n) = {unqualified n}"
| "column_names (Binary l op r) = column_names l \<union> column_names r"
| "column_names (IsNull e neg) = column_names e"
| "column_names (Cast e t) = column_names e"
| "column_names (Alias e a) = column_names e"
| "column_names (Aggregate f e dist) = column_names e"
| "column_names (Literal v) = {}"
| "column_names Wildcard = {}"

lemma set_collect_columns: "set (collect_columns e cs) = set cs \<union> column_names e"
  by (induction e arbitrary: cs) (auto simp: set_insort_insert)

lemma set_columns [simp]: "set (columns e) = column_names e"
  by (simp add: columns_def set_collect_columns)

lemma fold_insort_insert:
  "set (fold insort_insert xs ys) = set xs \<union> set ys"
  "distinct ys \<Longrightarrow> distinct (fold insort_insert xs ys)"
  by (induction xs arbitrary: ys) (auto simp: set_insort_insert distinct_insort_insert)

lemma required_columns_fold:
  "set (fold (\<lambda>e req. fold insort_insert (columns e) req) es req) = set req \<union> (\<Union>e\<in>set es. column_names e)"
  "distinct req \<Longrightarrow> distinct (fold (\<lambda>e req. fold insort_insert (columns e) req) es req)"
  by (induction es arbitrary: req) (auto simp: fold_insort_insert)

lemma required_columns:
  "set (required_columns es) = (\<Union>e\<in>set es. column_names e)" "distinct (required_columns es)"
  by (simp_all add: required_columns_def required_columns_fold)

lemma columns_not_dotted: "u \<in> column_names e \<Longrightarrow> \<not> dotted u"
  by (induction e) (auto simp: unqualified_not_dotted)

section \<open>Narrowing a scan\<close>

text \<open>The batch a scan returns under a projection: the chosen fields and columns.\<close>

definition narrow :: "batch \<Rightarrow> nat list \<Rightarrow> batch" where
  "narrow b ix = \<lparr>rb_schema = schema_new (map ((!) (schema_fields (rb_schema b))) ix),
     rb_columns = map ((!) (rb_columns b)) ix, rb_num_rows = rb_num_rows b\<rparr>"

definition unambiguous :: "schema \<Rightarrow> bool" where
  "unambiguous s \<longleftrightarrow> distinct (map (\<lambda>f. unqualified (field_name f)) (schema_fields s))"

lemma resolve_loose:
  assumes "resolve_field_index s n = Inr i"
  shows "i < length (schema_fields s)" and "unqualified (field_name (schema_fields s ! i)) = unqualified n"
  using assms by (auto simp: resolve_iff only_at_def exact_name_def loose_name_def)

lemma unambiguous_eq:
  "unambiguous s \<Longrightarrow> i < length (schema_fields s) \<Longrightarrow> j < length (schema_fields s) \<Longrightarrow>
     unqualified (field_name (schema_fields s ! i)) = unqualified (field_name (schema_fields s ! j)) \<Longrightarrow> i = j"
  by (auto simp: unambiguous_def distinct_conv_nth)

lemma projection_indices_facts:
  assumes "projection_indices s req = Inr ix" and "distinct req" and "\<forall>u\<in>set req. \<not> dotted u"
  shows "distinct ix" and "\<And>i. i \<in> set ix \<Longrightarrow> i < length (schema_fields s)"
    and "\<And>u. u \<in> set req \<Longrightarrow> \<exists>i\<in>set ix. resolve_field_index s u = Inr i"
proof -
  have r: "rmap (find_column s) req = Inr ix" using assms(1) by (simp add: projection_indices_def)
  note len = rmap_length [OF r]
  have nth: "resolve_field_index s (req ! k) = Inr (ix ! k)" if "k < length req" for k
    using rmap_nth [OF r that] by (simp add: find_column_def)
  then have name: "unqualified (field_name (schema_fields s ! (ix ! k))) = req ! k" if "k < length req" for k
    using resolve_loose(2) unqualified_id assms(3) that by (metis nth_mem)
  show "distinct ix"
    unfolding distinct_conv_nth using name len assms(2) by (metis nth_eq_iff_index_eq)
  show "i < length (schema_fields s)" if "i \<in> set ix" for i
    using that nth len resolve_loose(1) by (metis in_set_conv_nth)
  show "\<exists>i\<in>set ix. resolve_field_index s u = Inr i" if "u \<in> set req" for u
    using that nth len by (metis in_set_conv_nth)
qed

lemma only_at_narrow:
  assumes "only_at P fs i" and "i \<in> set ix" and "distinct ix" and "\<And>j. j \<in> set ix \<Longrightarrow> j < length fs"
  obtains k where "k < length ix" and "ix ! k = i" and "only_at P (map ((!) fs) ix) k"
proof -
  obtain k where k: "k < length ix" "ix ! k = i" using assms(2) by (auto simp: in_set_conv_nth)
  have only: "j = k" if j: "j < length ix" "P (fs ! (ix ! j))" for j
  proof -
    have "ix ! j = i"
      using assms(1) j(2) assms(4) [OF nth_mem [OF j(1)]] unfolding only_at_def by blast
    then show ?thesis using nth_eq_iff_index_eq [OF assms(3) j(1) k(1)] k(2) by simp
  qed
  have "P (fs ! (ix ! k))" using assms(1) k(2) by (simp add: only_at_def)
  then have "only_at P (map ((!) fs) ix) k"
    unfolding only_at_def using k(1) by (auto intro: only)
  with k show thesis by (rule that)
qed

lemma list_ex_narrow:
  assumes "\<And>j. j \<in> set ix \<Longrightarrow> j < length fs" and "list_ex P (map ((!) fs) ix)"
  shows "list_ex P fs"
proof -
  obtain j where "j \<in> set ix" "P (fs ! j)" using assms(2) by (auto simp: list_ex_iff)
  then show ?thesis using nth_mem [OF assms(1)] unfolding list_ex_iff by blast
qed

lemma resolve_narrow:
  assumes "resolve_field_index s n = Inr i" and "i \<in> set ix" and "distinct ix"
    and "\<And>j. j \<in> set ix \<Longrightarrow> j < length (schema_fields s)"
  obtains k where "k < length ix" and "ix ! k = i"
    and "resolve_field_index (schema_new (map ((!) (schema_fields s)) ix)) n = Inr k"
proof -
  let ?s = "schema_new (map ((!) (schema_fields s)) ix)"
  have fs: "schema_fields ?s = map ((!) (schema_fields s)) ix" by (simp add: schema_new_def)
  note ex = list_ex_narrow [of ix "schema_fields s", OF assms(4)]
  from assms(1) consider "only_at (exact_name n) (schema_fields s) i"
    | "falls_back (schema_fields s) n" "only_at (loose_name n) (schema_fields s) i"
    unfolding resolve_iff by blast
  then show thesis
  proof cases
    case 1
    obtain k where "k < length ix" "ix ! k = i" "only_at (exact_name n) (schema_fields ?s) k"
      unfolding fs by (rule only_at_narrow [OF 1 assms(2,3,4)])
    then show thesis using that resolve_iff by blast
  next
    case 2
    have "falls_back (schema_fields ?s) n"
      using 2(1) ex [of "exact_name n"] ex [of "\<lambda>f. dotted (field_name f)"]
      by (auto simp: falls_back_def fs)
    moreover obtain k where "k < length ix" "ix ! k = i" "only_at (loose_name n) (schema_fields ?s) k"
      unfolding fs by (rule only_at_narrow [OF 2(2) assms(2,3,4)])
    ultimately show thesis using that resolve_iff by blast
  qed
qed

lemma evaluate_narrow:
  assumes "\<And>n a. unqualified n \<in> column_names e \<Longrightarrow> evaluate x b (Column n) = Inr a \<Longrightarrow>
      evaluate x (narrow b ix) (Column n) = Inr a"
  shows "evaluate x b e = Inr a \<Longrightarrow> evaluate x (narrow b ix) e = Inr a"
  using assms
proof (induction e arbitrary: a)
  case (Column n)
  from Column.prems(2) [of n a] Column.prems(1) show ?case by simp
next
  case (Literal v)
  then show ?case by (simp add: narrow_def)
next
  case (Binary l op r)
  from Binary.prems(1) obtain la ra where la: "evaluate x b l = Inr la" "evaluate x b r = Inr ra"
    "evaluate_binary x (rb_num_rows b) op la ra = Inr a"
    by (auto simp: rbind_eq_Inr)
  have "evaluate x (narrow b ix) l = Inr la"
    by (rule Binary.IH(1) [OF la(1)]) (rule Binary.prems(2), simp)
  moreover have "evaluate x (narrow b ix) r = Inr ra"
    by (rule Binary.IH(2) [OF la(2)]) (rule Binary.prems(2), simp)
  ultimately show ?case using la(3) by (simp add: narrow_def)
next
  case (IsNull e neg)
  from IsNull.prems(1) obtain ea where ea: "evaluate x b e = Inr ea"
    "(if neg then x_is_not_null x ea else x_is_null x ea) = Inr a"
    by (auto simp: rbind_eq_Inr)
  have "evaluate x (narrow b ix) e = Inr ea"
    by (rule IsNull.IH [OF ea(1)]) (rule IsNull.prems(2), simp)
  with ea(2) show ?case by simp
next
  case (Cast e t)
  from Cast.prems(1) obtain ea where ea: "evaluate x b e = Inr ea" "x_cast x ea t = Inr a"
    by (auto simp: rbind_eq_Inr)
  have "evaluate x (narrow b ix) e = Inr ea"
    by (rule Cast.IH [OF ea(1)]) (rule Cast.prems(2), simp)
  with ea(2) show ?case by simp
next
  case (Alias e n)
  have e: "\<And>f m. e \<noteq> Alias f m" "evaluate x b e = Inr a"
    using Alias.prems(1) by (auto split: expr.splits)
  have "evaluate x (narrow b ix) e = Inr a"
    by (rule Alias.IH [OF e(2)]) (rule Alias.prems(2), simp)
  with e(1) show ?case by (auto split: expr.split)
qed simp_all

lemma evaluate_column_narrow:
  assumes "unambiguous (rb_schema b)" and "length (rb_columns b) = length (schema_fields (rb_schema b))"
    and "projection_indices (rb_schema b) req = Inr ix" and "distinct req"
    and "\<forall>u\<in>set req. \<not> dotted u" and "unqualified n \<in> set req"
    and "evaluate x b (Column n) = Inr a"
  shows "evaluate x (narrow b ix) (Column n) = Inr a"
proof -
  let ?s = "rb_schema b"
  note ix = projection_indices_facts [OF assms(3,4,5)]
  from assms(7) obtain i where i: "resolve_field_index ?s n = Inr i" "a = rb_columns b ! i"
    by (auto simp: rbind_eq_Inr find_column_def batch_column_def split: if_splits)
  obtain j where j: "j \<in> set ix" "resolve_field_index ?s (unqualified n) = Inr j"
    using ix(3) [OF assms(6)] by blast
  have "unqualified (unqualified n) = unqualified n"
    by (rule unqualified_id [OF unqualified_not_dotted])
  then have "j = i"
    using unambiguous_eq [OF assms(1)] resolve_loose [OF i(1)] resolve_loose [OF j(2)] by simp
  with i(1) j(1) ix(1,2) obtain k where k: "k < length ix" "ix ! k = i"
    "resolve_field_index (schema_new (map ((!) (schema_fields ?s)) ix)) n = Inr k"
    using resolve_narrow [of ?s n i ix] by blast
  then show ?thesis
    by (simp add: narrow_def find_column_def batch_column_def i(2))
qed



section \<open>Where the optimizer goes wrong\<close>

definition clash_schema :: schema where
  "clash_schema = schema_new [field_new ''id'' TInt64 True, field_new ''x.id'' TInt64 True]"

definition clash_batch :: batch where
  "clash_batch = \<lparr>rb_schema = clash_schema,
     rb_columns = [array_of TInt64 [CI64 1], array_of TInt64 [CI64 2]], rb_num_rows = 1\<rparr>"

lemma clash_names:
  "unqualified ''x.id'' = ''id''" "unqualified ''id'' = ''id''"
  by (simp_all add: unqualified_def)

lemma clash_resolve:
  "resolve_field_index clash_schema ''x.id'' = Inr 1" "resolve_field_index clash_schema ''id'' = Inr 0"
  "resolve_field_index (schema_new [field_new ''id'' TInt64 True]) ''x.id'' = Inr 0"
  by (simp_all add: resolve_field_index_def positions_def clash_schema_def schema_new_def field_new_def
      clash_names)

text \<open>
  C39: Without the condition on names pushdown reads the wrong column.  In a table with the columns
  \<open>id\<close> and \<open>x.id\<close>, a projection of \<open>x.id\<close> is rewritten to a scan of \<open>id\<close> alone, because required
  columns are collected without their qualifiers; the projection then resolves to \<open>id\<close>, and the
  query silently returns its values.
\<close>

theorem pushdown_wrong_column:
  "\<exists>s2. push_projection_into_scan x (LProjection (LScan ''t'' None [] clash_schema) [Column ''x.id''] s)
      = Inr (LProjection (LScan ''t'' (Some [''id'']) [] (rb_schema (narrow clash_batch [0])))
          [Column ''x.id''] s2)
    \<and> evaluate x clash_batch (Column ''x.id'') = Inr (array_of TInt64 [CI64 2])
    \<and> evaluate x (narrow clash_batch [0]) (Column ''x.id'') = Inr (array_of TInt64 [CI64 1])"
proof -
  let ?id = "schema_new [field_new ''id'' TInt64 True]"
  have n: "rb_schema (narrow clash_batch [0]) = ?id"
    by (simp add: narrow_def clash_batch_def clash_schema_def schema_new_def)
  have req: "required_columns ([Column ''x.id''] @ []) = [''id'']"
    by (simp add: required_columns_def columns_def insort_insert_key_def clash_names)
  have "schema_field clash_schema 0 = Inr (field_new ''id'' TInt64 True)"
    by (simp add: schema_field_def clash_schema_def schema_new_def)
  moreover have "\<exists>s2. project x (LScan ''t'' (Some [''id'']) [] ?id) [Column ''x.id'']
      = Inr (LProjection (LScan ''t'' (Some [''id'']) [] ?id) [Column ''x.id''] s2)"
    by (simp add: project_def Let_def expr_field_def find_field_def clash_resolve schema_field_def)
      (simp add: schema_new_def)
  ultimately have "\<exists>s2. push_projection_into_scan x
        (LProjection (LScan ''t'' None [] clash_schema) [Column ''x.id''] s)
      = Inr (LProjection (LScan ''t'' (Some [''id'']) [] ?id) [Column ''x.id''] s2)"
    using req by (simp add: projection_indices_def find_column_def clash_resolve) (simp add: field_new_def)
  moreover have "evaluate x clash_batch (Column ''x.id'') = Inr (array_of TInt64 [CI64 2])"
    by (simp add: clash_batch_def find_column_def clash_resolve batch_column_def)
  moreover have "evaluate x (narrow clash_batch [0]) (Column ''x.id'') = Inr (array_of TInt64 [CI64 1])"
    by (simp add: n find_column_def clash_resolve) (simp add: narrow_def batch_column_def clash_batch_def)
  ultimately show ?thesis unfolding n by blast
qed

definition count_flag :: expr where
  "count_flag = Aggregate AggCount (Binary (Literal (SBoolean True)) OpAnd (Column ''flag'')) False"

text \<open>
  C40: Simplifying an aggregate's argument renames its output column and breaks the plan.  The plan
  of \<open>SELECT COUNT(TRUE AND flag)\<close>, an aggregate under a projection of the column named after the
  aggregate, type-checks; the optimizer rewrites the aggregate to \<open>COUNT(flag)\<close>, whose column has
  another name, and fails with an error that the column does not exist.
\<close>

theorem optimizer_loses_aggregate_name:
  "\<exists>p. rbind (aggregate_plan x (logical_scan ''t'' sample_schema) [] [count_flag])
        (\<lambda>a. project x a [Column (expr_name x count_flag)]) = Inr p
    \<and> optimize x p = Inl column_missing"
proof -
  let ?scan = "LScan ''t'' None [] sample_schema"
  let ?old = "''COUNT((true AND #flag))''" and ?new = "''COUNT(#flag)''"
  let ?s = "schema_new [field_new ?old TUInt64 True]" and ?s' = "schema_new [field_new ?new TUInt64 True]"
  let ?count = "Aggregate AggCount (Column ''flag'') False"
  have nm: "expr_name x count_flag = ?old" by (simp add: count_flag_def)
  have agg: "aggregate_plan x ?scan [] [count_flag] = Inr (LAggregate ?scan [] [count_flag] ?s)"
    by (simp add: aggregate_plan_def expr_field_def nm) (simp add: count_flag_def)
  have agg': "aggregate_plan x ?scan [] [?count] = Inr (LAggregate ?scan [] [?count] ?s')"
    by (simp add: aggregate_plan_def expr_field_def)
  have res: "resolve_field_index ?s ?old = Inr 0" "resolve_field_index ?s' ?old = Inl column_missing"
    by (simp_all add: resolve_field_index_def positions_def schema_new_def field_new_def unqualified_def)
  have uq: "unqualified ?old = ?old" by (simp add: unqualified_def)
  have proj: "project x (LAggregate ?scan [] [count_flag] ?s) [Column ?old]
      = Inr (LProjection (LAggregate ?scan [] [count_flag] ?s) [Column ?old] ?s)"
    by (simp add: project_def Let_def expr_field_def find_field_def res schema_field_def uq)
      (simp add: schema_new_def field_new_def)
  have proj': "project x (LAggregate ?scan [] [?count] ?s') [Column ?old] = Inl column_missing"
    by (simp add: project_def Let_def expr_field_def find_field_def res)
  have lit: "simplify x sample_schema (Literal (SBoolean True)) = Inr (Literal (SBoolean True))"
    by (simp add: simplify_node_def columns_def value_at_def value_of_cell_def typed_literal_def
        array_of_def constant_batch_def)
  have simp_count: "simplify x sample_schema count_flag = Inr ?count"
    using sample_flag_resolves
    by (simp add: count_flag_def lit sample_flag_simplify del: expr_data_type.simps(1) simplify.simps(7,8))
      (simp add: simplify_node_def columns_def binary_data_type_def is_boolean_or_null_def
        simplify_logic_def boolean_literal_def insort_insert_key_def del: expr_data_type.simps(1))
  have scan: "optimize x ?scan = Inr ?scan" by (simp add: optimize.simps)
  have opt: "optimize x (LAggregate ?scan [] [count_flag] ?s) = Inr (LAggregate ?scan [] [?count] ?s')"
    by (subst optimize.simps) (simp add: scan agg simp_count agg')
  have "optimize x (LProjection (LAggregate ?scan [] [count_flag] ?s) [Column ?old] ?s)
      = Inl column_missing"
    by (subst optimize.simps) (simp add: opt proj')
  then show ?thesis using agg proj by (simp add: logical_scan_def nm)
qed

end
