(* ===== verification/Memory.thy ===== *)
theory Memory
  imports Btree_Map
begin

text \<open>
  \<open>src/runtime/memory.rs\<close> and \<open>src/runtime/cancellation.rs\<close>: the memory budget of a query and its
  cancellation flag.

  The sequential operations act on the shared record \<open>query_memory\<close> and on a reservation.  The step
  relation \<open>mem_step\<close> interleaves the atomic accesses of any number of threads: the load, the
  comparison and exchange, which may fail spuriously, the update of the peak, and the releases.
\<close>

section \<open>State and sequential operations\<close>

definition DEFAULT_MEMORY_LIMIT_BYTES :: u64 where
  "DEFAULT_MEMORY_LIMIT_BYTES = 512 * 1024 * 1024"

record query_memory =
  qm_limit :: u64
  qm_reserved :: u64
  qm_peak :: u64

definition memory_new :: "u64 \<Rightarrow> query_memory" where
  "memory_new limit = \<lparr>qm_limit = max limit 1, qm_reserved = 0, qm_peak = 0\<rparr>"

text \<open>The body of the loop of \<open>reserve\<close> up to the exchange: what \<open>current\<close> would become.\<close>

definition reserve_next :: "query_memory \<Rightarrow> u64 \<Rightarrow> u64 \<Rightarrow> u64 result" where
  "reserve_next m current n =
     rbind (ok_or (checked_add current n)
              (EResourceExhausted ''query memory reservation overflowed'')) (\<lambda>next.
       if qm_limit m < next
       then Inl (EResourceExhausted ''query requires at least {next} bytes but its limit is {} bytes'')
       else Inr next)"

definition exchange_reserved :: "u64 \<Rightarrow> query_memory \<Rightarrow> query_memory" where
  "exchange_reserved next m = m\<lparr>qm_reserved := next\<rparr>"

definition publish_peak :: "u64 \<Rightarrow> query_memory \<Rightarrow> query_memory" where
  "publish_peak next m = m\<lparr>qm_peak := max (qm_peak m) next\<rparr>"

text \<open>\<open>reserve\<close> without interference: the exchange succeeds at the first attempt.\<close>

definition memory_reserve :: "u64 \<Rightarrow> query_memory \<Rightarrow> unit result \<times> query_memory" where
  "memory_reserve n m =
     (case reserve_next m (qm_reserved m) n of
        Inl e \<Rightarrow> (Inl e, m)
      | Inr next \<Rightarrow> (Inr (), publish_peak next (exchange_reserved next m)))"

definition memory_release :: "u64 \<Rightarrow> query_memory \<Rightarrow> query_memory" where
  "memory_release n m = (if n = 0 then m else m\<lparr>qm_reserved := qm_reserved m - n\<rparr>)"

text \<open>A \<open>MemoryReservation\<close> is the number of its bytes.\<close>

type_synonym memory_reservation = u64

definition try_reserve :: "u64 \<Rightarrow> query_memory \<Rightarrow> memory_reservation result \<times> query_memory" where
  "try_reserve n m =
     (case memory_reserve n m of (Inl e, m') \<Rightarrow> (Inl e, m') | (Inr _, m') \<Rightarrow> (Inr n, m'))"

definition try_grow ::
  "u64 \<Rightarrow> memory_reservation \<Rightarrow> query_memory \<Rightarrow> unit result \<times> memory_reservation \<times> query_memory" where
  "try_grow additional r m =
     (case checked_add r additional of
        None \<Rightarrow> (Inl (EResourceExhausted ''memory reservation size overflowed''), r, m)
      | Some next \<Rightarrow>
          (case memory_reserve additional m of
             (Inl e, m') \<Rightarrow> (Inl e, r, m')
           | (Inr _, m') \<Rightarrow> (Inr (), next, m')))"

definition shrink ::
  "u64 \<Rightarrow> memory_reservation \<Rightarrow> query_memory \<Rightarrow> memory_reservation \<times> query_memory" where
  "shrink n r m = (let released = min n r in (r - released, memory_release released m))"

definition drop_reservation :: "memory_reservation \<Rightarrow> query_memory \<Rightarrow> query_memory" where
  "drop_reservation r m = memory_release r m"

section \<open>Cancellation\<close>

record cancellation_token =
  ct_cancelled :: bool

definition cancellation_new :: cancellation_token where
  "cancellation_new = \<lparr>ct_cancelled = False\<rparr>"

definition cancel :: "cancellation_token \<Rightarrow> cancellation_token" where
  "cancel t = t\<lparr>ct_cancelled := True\<rparr>"

definition cancellation_check :: "cancellation_token \<Rightarrow> unit result" where
  "cancellation_check t = (if ct_cancelled t then Inl ECancelled else Inr ())"

section \<open>Interleaved threads\<close>

text \<open>
  A thread that is not idle works on a new reservation (\<open>None\<close>) or on growing an existing one.
  \<open>Claiming target n current\<close> is the loop of \<open>reserve\<close> with the value last observed; \<open>Claimed\<close> has
  won the exchange and still has to publish the peak and return.
\<close>

datatype mem_thread =
    MtIdle
  | Claiming "nat option" u64 u64
  | Claimed "nat option" u64 u64

record mem_system =
  ms_memory :: query_memory
  ms_threads :: "mem_thread list"
  ms_claims :: "memory_reservation list"

fun grows :: "nat \<Rightarrow> mem_thread \<Rightarrow> bool" where
  "grows r (Claiming (Some r') _ _) = (r' = r)"
| "grows r (Claimed (Some r') _ _) = (r' = r)"
| "grows r _ = False"

text \<open>The exclusive borrow of \<open>try_grow\<close>: nobody else uses the reservation meanwhile.\<close>

definition free_claim :: "nat \<Rightarrow> mem_system \<Rightarrow> bool" where
  "free_claim r s \<longleftrightarrow> r < length (ms_claims s) \<and> \<not> list_ex (grows r) (ms_threads s)"

fun settle :: "nat option \<Rightarrow> u64 \<Rightarrow> memory_reservation list \<Rightarrow> memory_reservation list" where
  "settle None n claims = claims @ [n]"
| "settle (Some r) n claims = claims[r := claims ! r + n]"

inductive mem_step :: "mem_system \<Rightarrow> mem_system \<Rightarrow> bool" where
  begin_reserve: "i < length (ms_threads s) \<Longrightarrow> ms_threads s ! i = MtIdle \<Longrightarrow>
    mem_step s (s\<lparr>ms_threads := (ms_threads s)[i := Claiming None n (qm_reserved (ms_memory s))]\<rparr>)"
| begin_grow: "i < length (ms_threads s) \<Longrightarrow> ms_threads s ! i = MtIdle \<Longrightarrow> free_claim r s \<Longrightarrow>
    checked_add (ms_claims s ! r) n \<noteq> None \<Longrightarrow>
    mem_step s (s\<lparr>ms_threads := (ms_threads s)[i := Claiming (Some r) n (qm_reserved (ms_memory s))]\<rparr>)"
| give_up: "i < length (ms_threads s) \<Longrightarrow> ms_threads s ! i = Claiming target n current \<Longrightarrow>
    reserve_next (ms_memory s) current n = Inl e \<Longrightarrow>
    mem_step s (s\<lparr>ms_threads := (ms_threads s)[i := MtIdle]\<rparr>)"
| exchange: "i < length (ms_threads s) \<Longrightarrow> ms_threads s ! i = Claiming target n current \<Longrightarrow>
    reserve_next (ms_memory s) current n = Inr next \<Longrightarrow> qm_reserved (ms_memory s) = current \<Longrightarrow>
    mem_step s (s\<lparr>ms_memory := exchange_reserved next (ms_memory s),
      ms_threads := (ms_threads s)[i := Claimed target n next]\<rparr>)"
| retry: "i < length (ms_threads s) \<Longrightarrow> ms_threads s ! i = Claiming target n current \<Longrightarrow>
    reserve_next (ms_memory s) current n = Inr next \<Longrightarrow>
    mem_step s (s\<lparr>ms_threads :=
      (ms_threads s)[i := Claiming target n (qm_reserved (ms_memory s))]\<rparr>)"
| publish: "i < length (ms_threads s) \<Longrightarrow> ms_threads s ! i = Claimed target n next \<Longrightarrow>
    mem_step s (s\<lparr>ms_memory := publish_peak next (ms_memory s),
      ms_threads := (ms_threads s)[i := MtIdle], ms_claims := settle target n (ms_claims s)\<rparr>)"
| give_back: "free_claim r s \<Longrightarrow> shrink n (ms_claims s ! r) (ms_memory s) = (c, m) \<Longrightarrow>
    mem_step s (s\<lparr>ms_memory := m, ms_claims := (ms_claims s)[r := c]\<rparr>)"
| drop: "free_claim r s \<Longrightarrow>
    mem_step s (s\<lparr>ms_memory := drop_reservation (ms_claims s ! r) (ms_memory s),
      ms_claims := (ms_claims s)[r := 0]\<rparr>)"

definition mem_init :: "mem_system \<Rightarrow> bool" where
  "mem_init s \<longleftrightarrow> (\<exists>limit k. s = \<lparr>ms_memory = memory_new limit, ms_threads = replicate k MtIdle,
     ms_claims = []\<rparr>)"

section \<open>Accounting\<close>

fun pending_bytes :: "mem_thread \<Rightarrow> nat" where
  "pending_bytes (Claimed _ n _) = unat n"
| "pending_bytes _ = 0"

fun pending_peak :: "mem_thread \<Rightarrow> nat" where
  "pending_peak (Claimed _ _ next) = unat next"
| "pending_peak _ = 0"

definition held_bytes :: "mem_system \<Rightarrow> nat" where
  "held_bytes s = sum_list (map unat (ms_claims s)) + sum_list (map pending_bytes (ms_threads s))"

definition thread_ok :: "mem_system \<Rightarrow> mem_thread \<Rightarrow> bool" where
  "thread_ok s t = (case t of
      MtIdle \<Rightarrow> True
    | Claiming target n _ \<Rightarrow> (case target of None \<Rightarrow> True | Some r \<Rightarrow>
        r < length (ms_claims s) \<and> checked_add (ms_claims s ! r) n \<noteq> None)
    | Claimed target n next \<Rightarrow> next \<le> qm_limit (ms_memory s) \<and> (case target of None \<Rightarrow> True | Some r \<Rightarrow>
        r < length (ms_claims s) \<and> checked_add (ms_claims s ! r) n \<noteq> None))"

definition exclusive :: "mem_system \<Rightarrow> bool" where
  "exclusive s \<longleftrightarrow> (\<forall>r i j. i < length (ms_threads s) \<longrightarrow> j < length (ms_threads s) \<longrightarrow>
     grows r (ms_threads s ! i) \<longrightarrow> grows r (ms_threads s ! j) \<longrightarrow> i = j)"

definition mem_inv :: "mem_system \<Rightarrow> bool" where
  "mem_inv s \<longleftrightarrow>
     unat (qm_reserved (ms_memory s)) = held_bytes s
     \<and> qm_reserved (ms_memory s) \<le> qm_limit (ms_memory s)
     \<and> qm_peak (ms_memory s) \<le> qm_limit (ms_memory s)
     \<and> (unat (qm_reserved (ms_memory s)) \<le> unat (qm_peak (ms_memory s))
        \<or> (\<exists>t\<in>set (ms_threads s). unat (qm_reserved (ms_memory s)) \<le> pending_peak t))
     \<and> (\<forall>t\<in>set (ms_threads s). thread_ok s t) \<and> exclusive s"

subsection \<open>Lemmas on threads and claims\<close>

lemma sum_list_map_update:
  "i < length xs \<Longrightarrow> sum_list (map f (xs[i := y])) + f (xs ! i) = sum_list (map f xs) + (f y :: nat)"
proof (induction xs arbitrary: i)
  case (Cons x xs)
  then show ?case by (cases i) (auto simp: add.assoc add.left_commute)
qed simp

lemma sum_list_map_ge: "i < length xs \<Longrightarrow> f (xs ! i) \<le> (sum_list (map f xs) :: nat)"
  by (simp add: member_le_sum_list)

lemma thread_ok_claims:
  assumes "thread_ok s t" and "qm_limit (ms_memory s') = qm_limit (ms_memory s)"
    and "\<And>r. grows r t \<Longrightarrow> r < length (ms_claims s) \<Longrightarrow>
        r < length (ms_claims s') \<and> ms_claims s' ! r = ms_claims s ! r"
  shows "thread_ok s' t"
  using assms by (cases t) (auto simp: thread_ok_def split: option.splits)

lemma exclusive_update:
  assumes "exclusive s" and "i < length (ms_threads s)"
    and "\<And>r. grows r t \<Longrightarrow> grows r (ms_threads s ! i) \<or> \<not> list_ex (grows r) (ms_threads s)"
    and "ms_threads s' = (ms_threads s)[i := t]"
  shows "exclusive s'"
proof -
  have only: "j = i" if "grows r (ms_threads s ! j)" "j < length (ms_threads s)" "grows r t" for r j
    using that assms(1,2) assms(3) [of r] unfolding exclusive_def list_ex_length by blast
  show ?thesis
    unfolding exclusive_def assms(4) length_list_update
  proof (intro allI impI)
    fix r a b
    assume ab: "a < length (ms_threads s)" "b < length (ms_threads s)"
      "grows r ((ms_threads s)[i := t] ! a)" "grows r ((ms_threads s)[i := t] ! b)"
    consider "a = i" "b = i" | "a = i" "b \<noteq> i" | "a \<noteq> i" "b = i" | "a \<noteq> i" "b \<noteq> i" by blast
    then show "a = b"
    proof cases
      case 2
      then show ?thesis using only [of r b] ab by simp
    next
      case 3
      then show ?thesis using only [of r a] ab by simp
    next
      case 4
      then show ?thesis using assms(1) ab unfolding exclusive_def by auto
    qed simp
  qed
qed

lemma reserve_next_Inr:
  "reserve_next m current n = Inr next \<longleftrightarrow>
     checked_add current n = Some next \<and> next \<le> qm_limit m"
  by (auto simp: reserve_next_def rbind_eq_Inr not_less)

lemma mem_invD:
  assumes "mem_inv s"
  shows "unat (qm_reserved (ms_memory s)) = held_bytes s"
    and "qm_reserved (ms_memory s) \<le> qm_limit (ms_memory s)"
    and "qm_peak (ms_memory s) \<le> qm_limit (ms_memory s)"
    and "unat (qm_reserved (ms_memory s)) \<le> unat (qm_peak (ms_memory s))
      \<or> (\<exists>t\<in>set (ms_threads s). unat (qm_reserved (ms_memory s)) \<le> pending_peak t)"
    and "\<And>t. t \<in> set (ms_threads s) \<Longrightarrow> thread_ok s t" and "exclusive s"
  using assms by (auto simp: mem_inv_def)

text \<open>A step that only changes the local state of one thread that holds nothing.\<close>

lemma mem_inv_local:
  assumes "mem_inv s" and "i < length (ms_threads s)"
    and "pending_bytes (ms_threads s ! i) = 0" "pending_peak (ms_threads s ! i) = 0"
    and "pending_bytes t = 0" and "thread_ok s t"
    and "\<And>r. grows r t \<Longrightarrow> grows r (ms_threads s ! i) \<or> \<not> list_ex (grows r) (ms_threads s)"
  shows "mem_inv (s\<lparr>ms_threads := (ms_threads s)[i := t]\<rparr>)"
proof -
  let ?s = "s\<lparr>ms_threads := (ms_threads s)[i := t]\<rparr>"
  note inv = mem_invD [OF assms(1)]
  have "held_bytes ?s = held_bytes s"
    using sum_list_map_update [OF assms(2), of pending_bytes t] assms(3,5) by (simp add: held_bytes_def)
  moreover have "\<exists>u\<in>set (ms_threads ?s). unat (qm_reserved (ms_memory s)) \<le> pending_peak u"
    if u: "u \<in> set (ms_threads s)" "unat (qm_reserved (ms_memory s)) \<le> pending_peak u"
      "\<not> unat (qm_reserved (ms_memory s)) \<le> unat (qm_peak (ms_memory s))" for u
  proof -
    obtain j where j: "j < length (ms_threads s)" "u = ms_threads s ! j"
      using u(1) unfolding in_set_conv_nth by blast
    have "j \<noteq> i" using j(2) u(2,3) assms(4) by auto
    then have "u \<in> set (ms_threads ?s)" using j by (auto simp: in_set_conv_nth intro!: exI [of _ j])
    then show ?thesis using u(2) by blast
  qed
  moreover have "thread_ok ?s u" if "u \<in> set (ms_threads ?s)" for u
  proof (rule thread_ok_claims [of s])
    show "thread_ok s u" using that inv(5) assms(6) set_update_subset_insert by fastforce
  qed simp_all
  moreover have "exclusive ?s"
    by (rule exclusive_update [OF inv(6) assms(2), where t = t], erule assms(7), simp)
  ultimately show ?thesis using inv(1-4) unfolding mem_inv_def by fastforce
qed

subsection \<open>Every step keeps the accounts\<close>

lemma mem_inv_exchange:
  assumes inv: "mem_inv s" and i: "i < length (ms_threads s)" "ms_threads s ! i = Claiming target n current"
    and nx: "reserve_next (ms_memory s) current n = Inr next" "qm_reserved (ms_memory s) = current"
  shows "mem_inv (s\<lparr>ms_memory := exchange_reserved next (ms_memory s),
      ms_threads := (ms_threads s)[i := Claimed target n next]\<rparr>)" (is "mem_inv ?s")
proof -
  note I = mem_invD [OF inv]
  from nx have ov: "unat next = unat current + unat n" "next \<le> qm_limit (ms_memory s)"
    by (auto simp: reserve_next_Inr checked_add_Some_iff)
  have "held_bytes ?s = held_bytes s + unat n"
    using sum_list_map_update [OF i(1), of pending_bytes "Claimed target n next"] i(2)
    by (simp add: held_bytes_def)
  then have "unat (qm_reserved (ms_memory ?s)) = held_bytes ?s"
    using I(1) ov(1) nx(2) by (simp add: exchange_reserved_def)
  moreover have "Claimed target n next \<in> set (ms_threads ?s)" using i(1) by (simp add: set_update_memI)
  then have "\<exists>t\<in>set (ms_threads ?s). unat (qm_reserved (ms_memory ?s)) \<le> pending_peak t"
    by (rule bexI [rotated]) (simp add: exchange_reserved_def)
  moreover have "thread_ok ?s u" if u: "u \<in> set (ms_threads ?s)" for u
  proof -
    have "u = Claimed target n next \<or> u \<in> set (ms_threads s)"
      using u set_update_subset_insert by fastforce
    moreover have "thread_ok s (Claiming target n current)" using I(5) i nth_mem by metis
    then have "thread_ok ?s (Claimed target n next)"
      using ov(2) by (auto simp: thread_ok_def exchange_reserved_def split: option.splits)
    moreover have "thread_ok ?s u" if "u \<in> set (ms_threads s)"
      by (rule thread_ok_claims [OF I(5) [OF that]]) (simp_all add: exchange_reserved_def)
    ultimately show ?thesis by blast
  qed
  moreover have "exclusive ?s"
  proof (rule exclusive_update [OF I(6) i(1), where t = "Claimed target n next"])
    show "grows r (ms_threads s ! i) \<or> \<not> list_ex (grows r) (ms_threads s)"
      if "grows r (Claimed target n next)" for r
      using that i(2) by (cases target) simp_all
  qed simp
  ultimately show ?thesis
    using I(3) ov(2) unfolding mem_inv_def by (simp add: exchange_reserved_def)
qed

lemma settle_other:
  assumes "r < length claims" and "target \<noteq> Some r"
  shows "r < length (settle target n claims) \<and> settle target n claims ! r = claims ! r"
  using assms by (cases target) (simp_all add: nth_append)

lemma mem_inv_publish:
  assumes inv: "mem_inv s" and i: "i < length (ms_threads s)" "ms_threads s ! i = Claimed target n next"
  shows "mem_inv (s\<lparr>ms_memory := publish_peak next (ms_memory s),
      ms_threads := (ms_threads s)[i := MtIdle], ms_claims := settle target n (ms_claims s)\<rparr>)"
    (is "mem_inv ?s")
proof -
  note I = mem_invD [OF inv]
  have ti: "thread_ok s (Claimed target n next)" using I(5) i nth_mem by metis
  then have claims: "sum_list (map unat (settle target n (ms_claims s)))
      = sum_list (map unat (ms_claims s)) + unat n"
  proof (cases target)
    case (Some r)
    with ti have r: "r < length (ms_claims s)" "unat (ms_claims s ! r + n) = unat (ms_claims s ! r) + unat n"
      using unat_add_lem [of "ms_claims s ! r" n]
      by (auto simp: thread_ok_def checked_add_def split: if_splits)
    then show ?thesis
      using sum_list_map_update [OF r(1), of unat "ms_claims s ! r + n"] Some by simp
  qed simp
  have "sum_list (map pending_bytes ((ms_threads s)[i := MtIdle])) + unat n
      = sum_list (map pending_bytes (ms_threads s))"
    using sum_list_map_update [OF i(1), of pending_bytes MtIdle] i(2) by simp
  with claims have held: "held_bytes ?s = held_bytes s" by (simp add: held_bytes_def)
  have keep: "u \<in> set (ms_threads ?s)" if u: "u \<in> set (ms_threads s)" "u \<noteq> Claimed target n next" for u
  proof -
    obtain j where j: "j < length (ms_threads s)" "u = ms_threads s ! j"
      using u(1) unfolding in_set_conv_nth by blast
    with u(2) i(2) have "j \<noteq> i" by auto
    with j show ?thesis by (auto simp: in_set_conv_nth intro!: exI [of _ j])
  qed
  have "unat (qm_reserved (ms_memory s)) \<le> unat (qm_peak (ms_memory ?s))
      \<or> (\<exists>t\<in>set (ms_threads ?s). unat (qm_reserved (ms_memory s)) \<le> pending_peak t)"
    using I(4) keep by (fastforce simp: publish_peak_def max_def word_le_nat_alt)
  moreover have "thread_ok ?s u" if u: "u \<in> set (ms_threads ?s)" for u
  proof -
    obtain j where j: "j < length (ms_threads s)" "u = ms_threads ?s ! j"
      using u unfolding in_set_conv_nth by auto
    show ?thesis
    proof (cases "j = i")
      case True
      then show ?thesis using j by (simp add: thread_ok_def)
    next
      case False
      then have u': "u = ms_threads s ! j" using j by simp
      show ?thesis
      proof (rule thread_ok_claims [of s])
        show "thread_ok s u" using I(5) u' j(1) by simp
        show "r < length (ms_claims ?s) \<and> ms_claims ?s ! r = ms_claims s ! r"
          if "grows r u" "r < length (ms_claims s)" for r
        proof -
          have "target \<noteq> Some r"
            using I(6) i j(1) False that(1) u' unfolding exclusive_def by fastforce
          then show ?thesis using settle_other [OF that(2)] by simp
        qed
      qed (simp add: publish_peak_def)
    qed
  qed
  moreover have "exclusive ?s"
    by (rule exclusive_update [OF I(6) i(1), where t = MtIdle]) simp_all
  moreover have "next \<le> qm_limit (ms_memory s)" using ti by (simp add: thread_ok_def)
  ultimately show ?thesis
    using I(1-3) held unfolding mem_inv_def by (simp add: publish_peak_def)
qed

lemma mem_inv_give_back:
  assumes inv: "mem_inv s" and r: "free_claim r s" and n: "n \<le> ms_claims s ! r"
  shows "mem_inv (s\<lparr>ms_memory := memory_release n (ms_memory s),
      ms_claims := (ms_claims s)[r := ms_claims s ! r - n]\<rparr>)" (is "mem_inv ?s")
proof -
  note I = mem_invD [OF inv]
  have rl: "r < length (ms_claims s)" and nb: "\<And>t. t \<in> set (ms_threads s) \<Longrightarrow> \<not> grows r t"
    using r by (auto simp: free_claim_def list_ex_iff)
  have "unat (ms_claims s ! r) \<le> held_bytes s"
    using sum_list_map_ge [OF rl, of unat] by (simp add: held_bytes_def)
  then have le: "n \<le> qm_reserved (ms_memory s)"
    using n I(1) by (simp add: word_le_nat_alt)
  then have rel: "unat (qm_reserved (memory_release n (ms_memory s))) = unat (qm_reserved (ms_memory s)) - unat n"
    by (simp add: memory_release_def unat_sub)
  have "held_bytes ?s + unat n = held_bytes s"
    using sum_list_map_update [OF rl, of unat "ms_claims s ! r - n"] n
    by (simp add: held_bytes_def unat_sub word_le_nat_alt)
  then have "unat (qm_reserved (ms_memory ?s)) = held_bytes ?s" using I(1) rel by simp
  moreover have "thread_ok ?s u" if "u \<in> set (ms_threads ?s)" for u
  proof (rule thread_ok_claims [of s])
    show "thread_ok s u" using that I(5) by simp
    show "q < length (ms_claims ?s) \<and> ms_claims ?s ! q = ms_claims s ! q"
      if "grows q u" "q < length (ms_claims s)" for q
      using that \<open>u \<in> set (ms_threads ?s)\<close> nb [of u] by (cases "q = r") auto
  qed (simp add: memory_release_def)
  moreover have "exclusive ?s" using I(6) by (simp add: exclusive_def)
  moreover have "unat (qm_reserved (ms_memory ?s)) \<le> unat (qm_reserved (ms_memory s))"
    using rel by simp
  moreover have "qm_limit (ms_memory ?s) = qm_limit (ms_memory s)" "qm_peak (ms_memory ?s) = qm_peak (ms_memory s)"
    by (simp_all add: memory_release_def)
  ultimately show ?thesis
    using I(2-4) unfolding mem_inv_def by (simp add: word_le_nat_alt) (meson le_trans)
qed

lemma mem_inv_step: "mem_step s t \<Longrightarrow> mem_inv s \<Longrightarrow> mem_inv t"
proof (induction rule: mem_step.induct)
  case (begin_reserve i s n)
  then show ?case by (intro mem_inv_local) (simp_all add: thread_ok_def)
next
  case (begin_grow i s r n)
  then show ?case by (intro mem_inv_local) (auto simp: thread_ok_def free_claim_def)
next
  case (give_up i s target n current e)
  then show ?case by (intro mem_inv_local) (simp_all add: thread_ok_def)
next
  case (exchange i s target n current "next")
  then show ?case by (intro mem_inv_exchange)
next
  case (retry i s target n current "next")
  then have "thread_ok s (Claiming target n current)" using mem_invD(5) nth_mem by metis
  then have "thread_ok s (Claiming target n (qm_reserved (ms_memory s)))" by (simp add: thread_ok_def)
  moreover have "grows r (ms_threads s ! i)" if "grows r (Claiming target n (qm_reserved (ms_memory s)))" for r
    using that retry by (cases target) simp_all
  ultimately show ?case using retry by (intro mem_inv_local) simp_all
next
  case (publish i s target n "next")
  then show ?case by (intro mem_inv_publish)
next
  case (give_back r s n c m)
  then have "c = ms_claims s ! r - min n (ms_claims s ! r)"
    "m = memory_release (min n (ms_claims s ! r)) (ms_memory s)"
    by (auto simp: shrink_def Let_def)
  then show ?case using mem_inv_give_back [OF give_back(3,1)] by simp
next
  case (drop r s)
  then show ?case using mem_inv_give_back [OF drop(2,1), of "ms_claims s ! r"] by (simp add: drop_reservation_def)
qed

lemma mem_inv_init: "mem_init s \<Longrightarrow> mem_inv s"
proof -
  assume "mem_init s"
  then obtain limit k where s: "s = \<lparr>ms_memory = memory_new limit, ms_threads = replicate k MtIdle,
     ms_claims = []\<rparr>" by (auto simp: mem_init_def)
  have "sum_list (map pending_bytes (replicate k MtIdle)) = 0" by (induction k) simp_all
  moreover have "exclusive s" by (simp add: s exclusive_def)
  ultimately show ?thesis
    by (simp add: s mem_inv_def held_bytes_def memory_new_def thread_ok_def)
qed

interpretation mem: transition_system mem_init mem_step mem_inv
  by unfold_locales (auto intro: mem_inv_init mem_inv_step)

section \<open>Properties\<close>

text \<open>
  C5: Whatever the interleaving of the threads of a query, the shared counter is exactly the bytes of
  the live reservations plus those a thread has won and not yet returned; neither it nor the peak
  exceeds the limit; once every thread is idle the peak is at least the counter; and no reservation is
  larger than the counter, so a release never wraps around (the assertion in \<open>release\<close> holds).
\<close>

theorem memory_accounting:
  assumes "mem_init s0" and "mem_step\<^sup>*\<^sup>* s0 s"
  shows "unat (qm_reserved (ms_memory s))
       = sum_list (map unat (ms_claims s)) + sum_list (map pending_bytes (ms_threads s))
     \<and> qm_reserved (ms_memory s) \<le> qm_limit (ms_memory s)
     \<and> qm_peak (ms_memory s) \<le> qm_limit (ms_memory s)
     \<and> ((\<forall>t\<in>set (ms_threads s). t = MtIdle) \<longrightarrow>
          qm_reserved (ms_memory s) \<le> qm_peak (ms_memory s))
     \<and> (\<forall>c\<in>set (ms_claims s). c \<le> qm_reserved (ms_memory s))"
proof -
  note I = mem_invD [OF mem.reachable_inv [OF assms]]
  have "c \<le> qm_reserved (ms_memory s)" if "c \<in> set (ms_claims s)" for c
    using member_le_sum_list [of "unat c" "map unat (ms_claims s)"] that I(1)
    by (auto simp: word_le_nat_alt held_bytes_def)
  moreover have "qm_reserved (ms_memory s) \<le> qm_peak (ms_memory s)"
    if "\<forall>t\<in>set (ms_threads s). t = MtIdle"
    using I(4) that by (auto simp: word_le_nat_alt)
  ultimately show ?thesis using I(1-3) by (simp add: held_bytes_def)
qed

text \<open>
  Two threads compete for a budget of 100 bytes.  Both observe 0; the first takes 60, the second
  fails its exchange, observes 60 and gives up on its 50.
\<close>

definition race :: "u64 \<Rightarrow> u64 \<Rightarrow> mem_thread list \<Rightarrow> u64 list \<Rightarrow> mem_system" where
  "race reserved peak threads claims =
     \<lparr>ms_memory = \<lparr>qm_limit = 100, qm_reserved = reserved, qm_peak = peak\<rparr>,
      ms_threads = threads, ms_claims = claims\<rparr>"

lemma race_init: "mem_init (race 0 0 [MtIdle, MtIdle] [])"
proof -
  have "max (100 :: u64) 1 = 100" by (simp add: max_def word_le_nat_alt)
  moreover have "replicate (Suc (Suc 0)) MtIdle = [MtIdle, MtIdle]" by simp
  ultimately show ?thesis unfolding mem_init_def race_def memory_new_def by metis
qed

lemma race_run: "mem_step\<^sup>*\<^sup>* (race 0 0 [MtIdle, MtIdle] []) (race 60 60 [MtIdle, MtIdle] [60])"
proof -
  note eval = race_def reserve_next_def checked_add_def exchange_reserved_def publish_peak_def
  have "mem_step (race 0 0 [MtIdle, MtIdle] []) (race 0 0 [Claiming None 60 0, MtIdle] [])"
    using begin_reserve [of 0 "race 0 0 [MtIdle, MtIdle] []" 60] by (simp add: race_def)
  moreover have "mem_step (race 0 0 [Claiming None 60 0, MtIdle] [])
      (race 0 0 [Claiming None 60 0, Claiming None 50 0] [])"
    using begin_reserve [of 1 "race 0 0 [Claiming None 60 0, MtIdle] []" 50] by (simp add: race_def)
  moreover have "mem_step (race 0 0 [Claiming None 60 0, Claiming None 50 0] [])
      (race 60 0 [Claimed None 60 60, Claiming None 50 0] [])"
    using exchange [of 0 "race 0 0 [Claiming None 60 0, Claiming None 50 0] []" None 60 0 60]
    by (simp add: eval)
  moreover have "mem_step (race 60 0 [Claimed None 60 60, Claiming None 50 0] [])
      (race 60 0 [Claimed None 60 60, Claiming None 50 60] [])"
    using retry [of 1 "race 60 0 [Claimed None 60 60, Claiming None 50 0] []" None 50 0 50]
    by (simp add: eval)
  moreover have "mem_step (race 60 0 [Claimed None 60 60, Claiming None 50 60] [])
      (race 60 0 [Claimed None 60 60, MtIdle] [])"
    using give_up [of 1 "race 60 0 [Claimed None 60 60, Claiming None 50 60] []" None 50 60]
    by (simp add: eval)
  moreover have "mem_step (race 60 0 [Claimed None 60 60, MtIdle] [])
      (race 60 60 [MtIdle, MtIdle] [60])"
    using publish [of 0 "race 60 0 [Claimed None 60 60, MtIdle] []" None 60 60]
    by (simp add: eval)
  ultimately show ?thesis by (meson converse_rtranclp_into_rtranclp rtranclp.rtrancl_refl)
qed

theorem memory_accounting_witness:
  "mem_step\<^sup>*\<^sup>* (race 0 0 [MtIdle, MtIdle] []) (race 60 60 [MtIdle, MtIdle] [60])
   \<and> unat (qm_reserved (ms_memory (race 60 60 [MtIdle, MtIdle] [60]))) = 60
   \<and> (60 :: u64) \<le> qm_reserved (ms_memory (race 60 60 [MtIdle, MtIdle] [60]))"
  using memory_accounting [OF race_init race_run] race_run by (simp add: race_def)

definition granted :: "u64 \<Rightarrow> query_memory \<Rightarrow> query_memory" where
  "granted n m = publish_peak (qm_reserved m + n) (exchange_reserved (qm_reserved m + n) m)"

lemma granted_sel [simp]:
  "qm_reserved (granted n m) = qm_reserved m + n" "qm_limit (granted n m) = qm_limit m"
  "qm_peak (granted n m) = max (qm_peak m) (qm_reserved m + n)"
  by (simp_all add: granted_def publish_peak_def exchange_reserved_def)

lemma fits_no_overflow:
  fixes a b c :: u64
  assumes "unat a + unat b \<le> unat c"
  shows "checked_add a b = Some (a + b)" and "unat (a + b) = unat a + unat b"
proof -
  have "unat a + unat b < 2 ^ LENGTH(64)" using assms unsigned_less [of c, where 'a = nat] by linarith
  then show "checked_add a b = Some (a + b)" "unat (a + b) = unat a + unat b"
    using unat_add_lem [of a b] by (simp_all add: checked_add_def)
qed

lemma memory_reserve_granted:
  assumes "unat (qm_reserved m) + unat n \<le> unat (qm_limit m)"
  shows "memory_reserve n m = (Inr (), granted n m)"
  using fits_no_overflow [OF assms] assms
  by (simp add: memory_reserve_def reserve_next_def granted_def word_less_nat_alt)

lemma memory_reserve_refused:
  assumes "\<not> unat (qm_reserved m) + unat n \<le> unat (qm_limit m)"
  shows "\<exists>e. memory_reserve n m = (Inl e, m)"
proof -
  have "reserve_next m (qm_reserved m) n \<noteq> Inr next" for "next"
    using assms by (auto simp: reserve_next_Inr checked_add_Some_iff word_le_nat_alt)
  then show ?thesis unfolding memory_reserve_def by (cases "reserve_next m (qm_reserved m) n") auto
qed

lemma qm_reserved_release [simp]: "qm_reserved (memory_release n m) = qm_reserved m - n"
  by (simp add: memory_release_def)

text \<open>
  Without interference a reservation is granted exactly when it fits: the sum neither overflows
  nor exceeds the limit.  A grant raises the counter by its size and the peak to the new counter if
  that is larger, and dropping the reservation restores the counter; a refusal changes nothing.
  Growing behaves as a second reservation, and shrinking never returns more than is held.
\<close>

theorem reservation_raii:
  "(case try_reserve n m of
      (Inr r, m') \<Rightarrow> r = n \<and> unat (qm_reserved m) + unat n \<le> unat (qm_limit m)
        \<and> unat (qm_reserved m') = unat (qm_reserved m) + unat n
        \<and> qm_peak m' = max (qm_peak m) (qm_reserved m') \<and> qm_limit m' = qm_limit m
        \<and> qm_reserved (drop_reservation r m') = qm_reserved m
        \<and> (case try_grow k r m' of
             (Inr _, r', m'') \<Rightarrow> unat r' = unat r + unat k
               \<and> unat (qm_reserved m'') = unat (qm_reserved m') + unat k
               \<and> qm_reserved (drop_reservation r' m'') = qm_reserved m
           | (Inl e, r', m'') \<Rightarrow> r' = r \<and> m'' = m'
               \<and> unat (qm_limit m) < unat (qm_reserved m') + unat k)
        \<and> (case shrink k r m' of (r', m'') \<Rightarrow>
             unat r' = unat r - unat k \<and> qm_reserved (drop_reservation r' m'') = qm_reserved m)
    | (Inl e, m') \<Rightarrow> m' = m \<and> unat (qm_limit m) < unat (qm_reserved m) + unat n)"
proof (cases "unat (qm_reserved m) + unat n \<le> unat (qm_limit m)")
  case False
  then show ?thesis using memory_reserve_refused [of m n] by (auto simp: try_reserve_def)
next
  case True
  define m' where "m' = granted n m"
  have res: "try_reserve n m = (Inr n, m')"
    using memory_reserve_granted [OF True] by (simp add: try_reserve_def m'_def)
  have m': "unat (qm_reserved m') = unat (qm_reserved m) + unat n" "qm_limit m' = qm_limit m"
    "qm_peak m' = max (qm_peak m) (qm_reserved m')" "qm_reserved m' - n = qm_reserved m"
    using fits_no_overflow [OF True] by (simp_all add: m'_def)
  have grow: "case try_grow k n m' of
      (Inr _, r', m'') \<Rightarrow> unat r' = unat n + unat k
        \<and> unat (qm_reserved m'') = unat (qm_reserved m') + unat k
        \<and> qm_reserved (drop_reservation r' m'') = qm_reserved m
    | (Inl e, r', m'') \<Rightarrow> r' = n \<and> m'' = m'
        \<and> unat (qm_limit m) < unat (qm_reserved m') + unat k"
  proof (cases "unat (qm_reserved m') + unat k \<le> unat (qm_limit m')")
    case True
    then have "unat n + unat k \<le> unat (qm_limit m')" using m'(1) by linarith
    note nk = fits_no_overflow [OF this]
    show ?thesis
      using memory_reserve_granted [OF True] fits_no_overflow(2) [OF True] nk m'(4)
      by (simp add: try_grow_def drop_reservation_def algebra_simps)
  next
    case False
    then show ?thesis
      using memory_reserve_refused [of m' k] m'(2)
      by (auto simp: try_grow_def split: option.splits)
  qed
  have "unat (n - min k n) = unat n - unat k"
    by (simp add: min_def unat_sub word_le_nat_alt)
  moreover have "qm_reserved (drop_reservation (n - min k n) (memory_release (min k n) m')) = qm_reserved m"
    using m'(4) by (simp add: drop_reservation_def algebra_simps)
  ultimately have shrunk: "case shrink k n m' of (r', m'') \<Rightarrow>
      unat r' = unat n - unat k \<and> qm_reserved (drop_reservation r' m'') = qm_reserved m"
    by (simp add: shrink_def Let_def)
  have "qm_reserved (drop_reservation n m') = qm_reserved m"
    using m'(4) by (simp add: drop_reservation_def)
  then show ?thesis using True grow shrunk m'(1-3) by (simp add: res)
qed
end
