(* ===== verification/Budget.thy ===== *)
theory Budget
  imports Memory
begin

text \<open>
  Operators that charge a memory budget while they run.

  The operators of \<open>src/runtime/execution.rs\<close>, \<open>src/cluster/hash_exchange.rs\<close> and
  \<open>src/cluster/distributed.rs\<close> all work the same way: they hold reservations that grow with the
  data they keep, they take further reservations for the duration of one loop iteration, and every
  early return drops what is held.  A run has the operator's data, the reservations it holds and the
  shared budget; \<open>grow_at\<close> and \<open>scoped\<close> are the two ways in which the sources charge, and \<open>loop\<close>
  is a loop whose body may return early.

  Two facts about such code are proved once.  \<open>balanced\<close>: the bytes charged to the budget are at
  any time those of the held reservations.  \<open>computes\<close>: apart from running out of memory, the code
  computes a function of its data alone.
\<close>

section \<open>Runs\<close>

record 'd run =
  run_data :: 'd
  run_held :: "memory_reservation list"
  run_memory :: query_memory

type_synonym ('d, 'a) charged = "'d run \<Rightarrow> 'a result \<times> 'd run"

definition charged_bind :: "('d, 'a) charged \<Rightarrow> ('a \<Rightarrow> ('d, 'b) charged) \<Rightarrow> ('d, 'b) charged" where
  "charged_bind f g s = (case f s of (Inl e, s') \<Rightarrow> (Inl e, s') | (Inr a, s') \<Rightarrow> g a s')"

definition on_data :: "('d \<Rightarrow> ('a \<times> 'd) result) \<Rightarrow> ('d, 'a) charged" where
  "on_data g s = (case g (run_data s) of Inl e \<Rightarrow> (Inl e, s) | Inr (a, d) \<Rightarrow> (Inr a, s\<lparr>run_data := d\<rparr>))"

definition effect :: "('d \<Rightarrow> 'd result) \<Rightarrow> 'd \<Rightarrow> (unit \<times> 'd) result" where
  "effect g d = rbind (g d) (\<lambda>d'. Inr ((), d'))"

definition inspect :: "('d \<Rightarrow> 'a result) \<Rightarrow> 'd \<Rightarrow> ('a \<times> 'd) result" where
  "inspect g d = rbind (g d) (\<lambda>a. Inr (a, d))"

text \<open>\<open>held[i].try_grow(n)?\<close>\<close>

definition grow_at :: "nat \<Rightarrow> u64 \<Rightarrow> ('d, unit) charged" where
  "grow_at i n s =
     (case try_grow n (run_held s ! i) (run_memory s) of
        (r, h, m) \<Rightarrow> (r, s\<lparr>run_held := (run_held s)[i := h], run_memory := m\<rparr>))"

text \<open>\<open>let _guard = memory.try_reserve(n)?;\<close> followed by the rest of the block.\<close>

definition scoped :: "u64 \<Rightarrow> ('d, 'a) charged \<Rightarrow> ('d, 'a) charged" where
  "scoped n body s =
     (case try_reserve n (run_memory s) of
        (Inl e, m) \<Rightarrow> (Inl e, s\<lparr>run_memory := m\<rparr>)
      | (Inr r, m) \<Rightarrow>
          (case body (s\<lparr>run_memory := m\<rparr>) of
             (res, s') \<Rightarrow> (res, s'\<lparr>run_memory := drop_reservation r (run_memory s')\<rparr>)))"

fun loop :: "('x \<Rightarrow> ('d, unit) charged) \<Rightarrow> 'x list \<Rightarrow> ('d, unit) charged" where
  "loop f [] = (\<lambda>s. (Inr (), s))"
| "loop f (x # xs) = charged_bind (f x) (\<lambda>_. loop f xs)"

text \<open>The pure counterpart of a loop, and the end of a run: every held reservation is dropped.\<close>

fun rfold :: "('x \<Rightarrow> 'd \<Rightarrow> 'd result) \<Rightarrow> 'x list \<Rightarrow> 'd \<Rightarrow> 'd result" where
  "rfold f [] d = Inr d"
| "rfold f (x # xs) d = rbind (f x d) (rfold f xs)"

definition release_all :: "memory_reservation list \<Rightarrow> query_memory \<Rightarrow> query_memory" where
  "release_all hs m = fold drop_reservation hs m"

text \<open>An operator that starts with an empty reservation and drops what it holds when it returns.\<close>

definition with_budget :: "'d \<Rightarrow> ('d, 'a) charged \<Rightarrow> query_memory \<Rightarrow> 'a result \<times> query_memory" where
  "with_budget d f m =
     (case try_reserve 0 m of
        (Inl e, m1) \<Rightarrow> (Inl e, m1)
      | (Inr r, m1) \<Rightarrow>
          (case f \<lparr>run_data = d, run_held = [r], run_memory = m1\<rparr> of
             (res, st) \<Rightarrow> (res, release_all (run_held st) (run_memory st))))"

lemma rbind_assoc: "rbind (rbind r f) g = rbind r (\<lambda>a. rbind (f a) g)"
  by (cases r) simp_all

lemma rbind_Inr_right [simp]: "rbind r Inr = r"
  by (cases r) simp_all

lemma rbind_effect [simp]: "rbind (effect g d) (\<lambda>(a, d'). h a d') = rbind (g d) (h ())"
  by (simp add: effect_def rbind_assoc)

lemma rbind_inspect [simp]: "rbind (inspect g d) (\<lambda>(a, d'). h a d') = rbind (g d) (\<lambda>a. h a d)"
  by (simp add: inspect_def rbind_assoc)

lemma effect_rbind: "effect (\<lambda>d. rbind (g d) (h d)) d = rbind (g d) (\<lambda>a. effect (\<lambda>_. h d a) d)"
  by (simp add: effect_def rbind_assoc)

lemma rfold_append: "rfold f (xs @ ys) d = rbind (rfold f xs d) (rfold f ys)"
  by (induction xs arbitrary: d) (auto simp: rbind_def split: sum.splits)

lemma rfold_cong [fundef_cong]:
  "xs = ys \<Longrightarrow> d = d' \<Longrightarrow> (\<And>x a. x \<in> set ys \<Longrightarrow> f x a = g x a) \<Longrightarrow> rfold f xs d = rfold g ys d'"
  by (induction ys arbitrary: xs d d') (auto simp: rbind_def split: sum.splits)

lemma rfold_Inr_fold:
  "(\<And>x d. x \<in> set xs \<Longrightarrow> f x d = Inr (g x d)) \<Longrightarrow> rfold f xs d = Inr (fold g xs d)"
  by (induction xs arbitrary: d) auto

lemma rfold_invariant:
  assumes "rfold f xs d = Inr d'" and "P d"
    and "\<And>x a b. x \<in> set xs \<Longrightarrow> P a \<Longrightarrow> f x a = Inr b \<Longrightarrow> P b"
  shows "P d'"
  using assms by (induction xs arbitrary: d) (auto simp: rbind_eq_Inr)

section \<open>Accounting\<close>

definition balanced :: "nat \<Rightarrow> 'd run \<Rightarrow> bool" where
  "balanced base s \<longleftrightarrow>
     unat (qm_reserved (run_memory s)) = base + sum_list (map unat (run_held s))"

definition keeps_balance :: "nat \<Rightarrow> ('d, 'a) charged \<Rightarrow> bool" where
  "keeps_balance k f \<longleftrightarrow>
     (\<forall>s base. length (run_held s) = k \<and> balanced base s
        \<longrightarrow> length (run_held (snd (f s))) = k \<and> balanced base (snd (f s)))"

lemma keeps_balanceD:
  assumes "keeps_balance k f" and "f s = (r, s')" and "length (run_held s) = k" and "balanced base s"
  shows "length (run_held s') = k" and "balanced base s'"
  using assms by (force simp: keeps_balance_def)+

lemma keeps_balance_bind [intro]:
  assumes "keeps_balance k f" and "\<And>a. keeps_balance k (g a)"
  shows "keeps_balance k (charged_bind f g)"
  using assms by (force simp: keeps_balance_def charged_bind_def split: prod.splits sum.splits)

lemma keeps_balance_on_data [intro]: "keeps_balance k (on_data g)"
  by (auto simp: keeps_balance_def on_data_def balanced_def split: sum.splits)

lemma keeps_balance_loop [intro]:
  assumes "\<And>x. x \<in> set xs \<Longrightarrow> keeps_balance k (f x)"
  shows "keeps_balance k (loop f xs)"
  using assms
proof (induction xs)
  case Nil
  then show ?case by (simp add: keeps_balance_def)
next
  case (Cons x xs)
  then show ?case by auto
qed

lemma sum_list_update_nat:
  fixes xs :: "nat list"
  assumes "i < length xs"
  shows "sum_list (xs[i := v]) + xs ! i = sum_list xs + v"
  using assms by (induction xs arbitrary: i) (auto split: nat.splits)

text \<open>What a reservation does to the counter.\<close>

lemma memory_reserve_cases:
  obtains (ok) m' where "memory_reserve n m = (Inr (), m')" "qm_limit m' = qm_limit m"
      "unat (qm_reserved m') = unat (qm_reserved m) + unat n"
      "unat (qm_reserved m') \<le> unat (qm_limit m)"
  | (full) msg where "memory_reserve n m = (Inl (EResourceExhausted msg), m)"
proof (cases "unat (qm_reserved m) + unat n \<le> unat (qm_limit m)")
  case True
  note fits_no_overflow(2) [OF True]
  then show ?thesis using memory_reserve_granted [OF True] True ok by simp
next
  case False
  have "reserve_next m (qm_reserved m) n \<noteq> Inr v" for v
    using False by (auto simp: reserve_next_Inr checked_add_Some_iff word_le_nat_alt)
  then obtain e where e: "reserve_next m (qm_reserved m) n = Inl e"
    by (cases "reserve_next m (qm_reserved m) n") auto
  then obtain msg where "e = EResourceExhausted msg"
    by (auto simp: reserve_next_def rbind_eq_Inl split: if_splits)
  then show ?thesis using full e by (simp add: memory_reserve_def)
qed

lemma keeps_balance_grow_at [intro]:
  assumes "i < k"
  shows "keeps_balance k (grow_at i n)"
  unfolding keeps_balance_def
proof (intro allI impI)
  fix s :: "'a run" and base
  assume s: "length (run_held s) = k \<and> balanced base s"
  let ?h = "run_held s" and ?m = "run_memory s"
  show "length (run_held (snd (grow_at i n s))) = k \<and> balanced base (snd (grow_at i n s))"
  proof (cases "checked_add (?h ! i) n")
    case None
    then show ?thesis using s by (simp add: grow_at_def try_grow_def balanced_def)
  next
    case (Some h)
    then have h: "unat h = unat (?h ! i) + unat n" by (simp add: checked_add_Some_iff)
    show ?thesis
    proof (cases rule: memory_reserve_cases [of n ?m])
      case (ok m')
      then show ?thesis
        using s Some h assms sum_list_update_nat [of i "map unat ?h" "unat h"]
        by (simp add: grow_at_def try_grow_def balanced_def map_update)
    next
      case (full msg)
      then show ?thesis using s Some by (simp add: grow_at_def try_grow_def balanced_def)
    qed
  qed
qed

lemma keeps_balance_scoped [intro]:
  assumes "keeps_balance k f"
  shows "keeps_balance k (scoped n f)"
  unfolding keeps_balance_def
proof (intro allI impI)
  fix s :: "'a run" and base
  assume s: "length (run_held s) = k \<and> balanced base s"
  let ?m = "run_memory s"
  show "length (run_held (snd (scoped n f s))) = k \<and> balanced base (snd (scoped n f s))"
  proof (cases rule: memory_reserve_cases [of n ?m])
    case (ok m')
    let ?s = "s\<lparr>run_memory := m'\<rparr>"
    obtain r s' where f: "f ?s = (r, s')" by force
    have "length (run_held s') = k" "balanced (base + unat n) s'"
      using keeps_balanceD [OF assms f, of "base + unat n"] s ok by (auto simp: balanced_def)
    then show ?thesis
      using f ok by (simp add: scoped_def try_reserve_def balanced_def drop_reservation_def unat_sub
          word_le_nat_alt)
  next
    case (full msg)
    then show ?thesis using s by (simp add: scoped_def try_reserve_def balanced_def)
  qed
qed

lemmas balance_intros = keeps_balance_bind keeps_balance_on_data keeps_balance_loop keeps_balance_scoped
  keeps_balance_grow_at

lemma release_all_balanced:
  assumes "unat (qm_reserved m) = base + sum_list (map unat hs)"
  shows "unat (qm_reserved (release_all hs m)) = base"
  using assms
proof (induction hs arbitrary: m)
  case (Cons h hs)
  then have "unat (qm_reserved (drop_reservation h m)) = base + sum_list (map unat hs)"
    by (simp add: drop_reservation_def unat_sub word_le_nat_alt)
  then show ?case using Cons.IH by (simp add: release_all_def)
qed (simp add: release_all_def)

section \<open>Functional behaviour\<close>

text \<open>
  \<open>computes f g\<close>: unless the budget is exhausted, \<open>f\<close> ends as the function \<open>g\<close> of the data says.
\<close>

definition exhausted :: "'a result \<Rightarrow> bool" where
  "exhausted r \<longleftrightarrow> (\<exists>msg. r = Inl (EResourceExhausted msg))"

definition agrees :: "'a result \<times> 'd run \<Rightarrow> ('a \<times> 'd) result \<Rightarrow> bool" where
  "agrees p q \<longleftrightarrow> exhausted (fst p)
     \<or> (case q of Inl e \<Rightarrow> fst p = Inl e | Inr (a, d) \<Rightarrow> fst p = Inr a \<and> run_data (snd p) = d)"

definition computes :: "('d, 'a) charged \<Rightarrow> ('d \<Rightarrow> ('a \<times> 'd) result) \<Rightarrow> bool" where
  "computes f g \<longleftrightarrow> (\<forall>s. agrees (f s) (g (run_data s)))"

lemma agrees_Inl [simp]: "agrees (Inl e, s) q \<longleftrightarrow> exhausted (Inl e :: 'a result) \<or> q = Inl (e :: sparkx_error)"
  for q :: "('a \<times> 'd) result"
  by (auto simp: agrees_def exhausted_def split: sum.splits)

lemma agrees_Inr [simp]: "agrees (Inr a, s) q \<longleftrightarrow> q = Inr (a, run_data s)"
  by (auto simp: agrees_def exhausted_def split: sum.splits)

lemma computesD: "computes f g \<Longrightarrow> f s = (r, s') \<Longrightarrow> agrees (r, s') (g (run_data s))"
  by (metis computes_def)

lemma computes_bind [intro]:
  assumes "computes f g" and "\<And>a. computes (f' a) (g' a)"
  shows "computes (charged_bind f f') (\<lambda>d. rbind (g d) (\<lambda>(a, d'). g' a d'))"
  unfolding computes_def
proof
  fix s
  obtain r s' where f: "f s = (r, s')" by force
  note agrees = computesD [OF assms(1) f]
  show "agrees (charged_bind f f' s) (rbind (g (run_data s)) (\<lambda>(a, d'). g' a d'))"
  proof (cases r)
    case (Inl e)
    then show ?thesis using agrees f by (auto simp: charged_bind_def exhausted_def)
  next
    case (Inr a)
    then show ?thesis using agrees f assms(2) [of a] by (simp add: charged_bind_def computes_def)
  qed
qed

lemma computes_on_data [intro]: "computes (on_data g) g"
  by (auto simp: computes_def on_data_def split: sum.splits)

lemma computes_grow_at [intro]: "computes (grow_at i n) (effect Inr)"
  unfolding computes_def
proof
  fix s :: "'a run"
  show "agrees (grow_at i n s) (effect Inr (run_data s))"
    by (cases rule: memory_reserve_cases [of n "run_memory s"])
      (auto simp: grow_at_def try_grow_def effect_def exhausted_def split: option.splits)
qed

lemma computes_scoped [intro]:
  assumes "computes f g"
  shows "computes (scoped n f) g"
  unfolding computes_def
proof
  fix s :: "'a run"
  show "agrees (scoped n f s) (g (run_data s))"
  proof (cases rule: memory_reserve_cases [of n "run_memory s"])
    case (ok m')
    obtain r s' where f: "f (s\<lparr>run_memory := m'\<rparr>) = (r, s')" by force
    then show ?thesis
      using computesD [OF assms f] ok by (cases r) (simp_all add: scoped_def try_reserve_def)
  next
    case (full msg)
    then show ?thesis by (simp add: scoped_def try_reserve_def exhausted_def)
  qed
qed

lemma computes_loop [intro]:
  assumes "\<And>x. x \<in> set xs \<Longrightarrow> computes (f x) (effect (g x))"
  shows "computes (loop f xs) (effect (rfold g xs))"
  using assms
proof (induction xs)
  case Nil
  then show ?case by (simp add: computes_def effect_def)
next
  case (Cons x xs)
  then have "computes (charged_bind (f x) (\<lambda>_. loop f xs))
      (\<lambda>d. rbind (effect (g x) d) (\<lambda>(a, d'). effect (rfold g xs) d'))" by (intro computes_bind) auto
  then show ?case by (simp add: effect_def rbind_assoc)
qed

lemmas computes_intros = computes_bind computes_on_data computes_grow_at computes_scoped computes_loop

lemma computes_cong: "computes f g \<Longrightarrow> (\<And>d. g d = h d) \<Longrightarrow> computes f h"
  by (simp add: computes_def)

lemmas computes_simps = effect_def inspect_def rbind_assoc case_prod_unfold

text \<open>An operator leaves the budget as it found it, and fails or returns what its data determine.\<close>

lemma with_budget_spec:
  assumes "keeps_balance 1 f" and "computes f g"
  shows "qm_reserved (snd (with_budget d f m)) = qm_reserved m"
    and "exhausted (fst (with_budget d f m)) \<or> fst (with_budget d f m) = rbind (g d) (\<lambda>(a, _). Inr a)"
proof -
  have "qm_reserved (snd (with_budget d f m)) = qm_reserved m
    \<and> (exhausted (fst (with_budget d f m)) \<or> fst (with_budget d f m) = rbind (g d) (\<lambda>(a, _). Inr a))"
  proof (cases rule: memory_reserve_cases [of 0 m])
    case (ok m')
    let ?s = "\<lparr>run_data = d, run_held = [0], run_memory = m'\<rparr>"
    obtain r st where f: "f ?s = (r, st)" by force
    have "balanced (unat (qm_reserved m)) ?s" using ok(3) by (simp add: balanced_def)
    with keeps_balanceD [OF assms(1) f] have "balanced (unat (qm_reserved m)) st" by simp
    then have "unat (qm_reserved (release_all (run_held st) (run_memory st))) = unat (qm_reserved m)"
      using release_all_balanced [of "run_memory st"] by (simp add: balanced_def)
    moreover have "exhausted r \<or> r = rbind (g d) (\<lambda>(a, _). Inr a)"
      using computesD [OF assms(2) f] by (cases r) (auto simp: exhausted_def)
    moreover have "with_budget d f m = (r, release_all (run_held st) (run_memory st))"
      using ok f by (simp add: with_budget_def try_reserve_def)
    ultimately show ?thesis by (simp add: word_unat_eq_iff)
  next
    case (full msg)
    then show ?thesis by (simp add: with_budget_def try_reserve_def exhausted_def)
  qed
  then show "qm_reserved (snd (with_budget d f m)) = qm_reserved m"
    "exhausted (fst (with_budget d f m)) \<or> fst (with_budget d f m) = rbind (g d) (\<lambda>(a, _). Inr a)"
    by auto
qed

end
