(* ===== verification/Affordable.thy ===== *)
theory Affordable
  imports Budget
begin

text \<open>
  Enough memory: a charged computation whose cost fits into the free part of the budget does not run
  out of it.  The cost of a computation is a function of its data, composed as the computation is.
\<close>

definition settles :: "'a result \<times> 'd run \<Rightarrow> ('a \<times> 'd) result \<Rightarrow> bool" where
  "settles p q \<longleftrightarrow> (case q of Inl e \<Rightarrow> fst p = Inl e | Inr (a, d) \<Rightarrow> fst p = Inr a \<and> run_data (snd p) = d)"

definition affords :: "'d run \<Rightarrow> nat \<Rightarrow> bool" where
  "affords s k \<longleftrightarrow> unat (qm_reserved (run_memory s)) + k \<le> unat (qm_limit (run_memory s))"

definition pays :: "nat \<Rightarrow> ('d \<Rightarrow> nat) \<Rightarrow> ('d, 'a) charged \<Rightarrow> ('d \<Rightarrow> ('a \<times> 'd) result) \<Rightarrow> bool" where
  "pays j k f g \<longleftrightarrow> (\<forall>s base. length (run_held s) = j \<and> balanced base s \<and> affords s (k (run_data s)) \<longrightarrow>
     settles (f s) (g (run_data s)) \<and> length (run_held (snd (f s))) = j \<and> balanced base (snd (f s))
     \<and> qm_limit (run_memory (snd (f s))) = qm_limit (run_memory s)
     \<and> unat (qm_reserved (run_memory (snd (f s)))) \<le> unat (qm_reserved (run_memory s)) + k (run_data s))"

lemma paysD:
  assumes "pays j k f g" and "f s = (r, s')" and "length (run_held s) = j" and "balanced base s"
    and "affords s (k (run_data s))"
  shows "settles (r, s') (g (run_data s))" and "length (run_held s') = j" and "balanced base s'"
    and "qm_limit (run_memory s') = qm_limit (run_memory s)"
    and "unat (qm_reserved (run_memory s')) \<le> unat (qm_reserved (run_memory s)) + k (run_data s)"
  using assms unfolding pays_def by (metis fst_conv snd_conv)+

lemma pays_weaken:
  assumes "pays j k f g" and "\<And>d. k d \<le> k' d" and "\<And>d. g d = h d"
  shows "pays j k' f h"
  unfolding pays_def
proof (intro allI impI)
  fix s base assume s: "length (run_held s) = j \<and> balanced base s \<and> affords s (k' (run_data s))"
  then have "affords s (k (run_data s))" using assms(2) [of "run_data s"] by (simp add: affords_def)
  moreover obtain r s' where f: "f s = (r, s')" by force
  ultimately show "settles (f s) (h (run_data s)) \<and> length (run_held (snd (f s))) = j \<and> balanced base (snd (f s))
     \<and> qm_limit (run_memory (snd (f s))) = qm_limit (run_memory s)
     \<and> unat (qm_reserved (run_memory (snd (f s)))) \<le> unat (qm_reserved (run_memory s)) + k' (run_data s)"
    using paysD [OF assms(1) f] s assms(2) [of "run_data s"] assms(3) by fastforce
qed

definition cost_bind :: "('d \<Rightarrow> nat) \<Rightarrow> ('d \<Rightarrow> ('a \<times> 'd) result) \<Rightarrow> ('a \<Rightarrow> 'd \<Rightarrow> nat) \<Rightarrow> 'd \<Rightarrow> nat" where
  "cost_bind k g k' d = k d + (case g d of Inl _ \<Rightarrow> 0 | Inr (a, d') \<Rightarrow> k' a d')"

lemma pays_bind:
  assumes "pays j k f g" and "\<And>a. pays j (k' a) (f' a) (g' a)"
  shows "pays j (cost_bind k g k') (charged_bind f f') (\<lambda>d. rbind (g d) (\<lambda>(a, d'). g' a d'))"
  unfolding pays_def
proof (intro allI impI)
  fix s base assume s: "length (run_held s) = j \<and> balanced base s \<and> affords s (cost_bind k g k' (run_data s))"
  obtain r s1 where f: "f s = (r, s1)" by force
  have "affords s (k (run_data s))" using s by (simp add: affords_def cost_bind_def)
  note first = paysD [OF assms(1) f _ _ this, of base]
  show "settles (charged_bind f f' s) (rbind (g (run_data s)) (\<lambda>(a, d'). g' a d'))
     \<and> length (run_held (snd (charged_bind f f' s))) = j \<and> balanced base (snd (charged_bind f f' s))
     \<and> qm_limit (run_memory (snd (charged_bind f f' s))) = qm_limit (run_memory s)
     \<and> unat (qm_reserved (run_memory (snd (charged_bind f f' s))))
        \<le> unat (qm_reserved (run_memory s)) + cost_bind k g k' (run_data s)"
  proof (cases r)
    case (Inl e)
    then show ?thesis using first s f by (auto simp: charged_bind_def settles_def cost_bind_def split: sum.splits)
  next
    case (Inr a)
    then have g: "g (run_data s) = Inr (a, run_data s1)" using first s by (auto simp: settles_def split: sum.splits)
    obtain r2 s2 where f2: "f' a s1 = (r2, s2)" by force
    have "affords s1 (k' a (run_data s1))"
      using s first g by (auto simp: affords_def cost_bind_def)
    then show ?thesis
      using paysD [OF assms(2) f2, of base] first s f f2 Inr g by (auto simp: charged_bind_def cost_bind_def)
  qed
qed

lemma pays_on_data: "pays j (\<lambda>_. 0) (on_data g) g"
  by (auto simp: pays_def on_data_def settles_def balanced_def split: sum.splits)

lemma memory_reserve_affords:
  assumes "unat (qm_reserved m) + unat n \<le> unat (qm_limit m)"
  obtains m' where "memory_reserve n m = (Inr (), m')" "qm_limit m' = qm_limit m"
    "unat (qm_reserved m') = unat (qm_reserved m) + unat n"
proof (cases rule: memory_reserve_cases [of n m])
  case (ok m')
  then show thesis using that by blast
next
  case (full msg)
  then show thesis using memory_reserve_granted [OF assms] by simp
qed

lemma pays_grow_at:
  assumes "i < j"
  shows "pays j (\<lambda>_. unat n) (grow_at i n) (effect Inr)"
  unfolding pays_def
proof (intro allI impI)
  fix s :: "'a run" and base
  assume s: "length (run_held s) = j \<and> balanced base s \<and> affords s (unat n)"
  let ?h = "run_held s" and ?m = "run_memory s"
  obtain m' where m': "memory_reserve n ?m = (Inr (), m')" "qm_limit m' = qm_limit ?m"
    "unat (qm_reserved m') = unat (qm_reserved ?m) + unat n"
    using memory_reserve_affords [of ?m n] s by (auto simp: affords_def)
  have "unat (?h ! i) \<le> sum_list (map unat ?h)"
    using member_le_sum_list [of "unat (?h ! i)" "map unat ?h"] s assms by simp
  then have "unat (?h ! i) + unat n < 2 ^ 64"
    using s unsigned_less [of "qm_limit ?m", where 'a = nat] by (simp add: affords_def balanced_def)
  then have "checked_add (?h ! i) n = Some (?h ! i + n)" by (simp add: checked_add_def)
  then have grow: "grow_at i n s = (Inr (), s\<lparr>run_held := ?h[i := ?h ! i + n], run_memory := m'\<rparr>)"
    using m' by (simp add: grow_at_def try_grow_def)
  have "keeps_balance j (grow_at i n :: ('a, unit) charged)" by (rule keeps_balance_grow_at [OF assms])
  then have "balanced base (snd (grow_at i n s))" using s unfolding keeps_balance_def by blast
  then show "settles (grow_at i n s) (effect Inr (run_data s)) \<and> length (run_held (snd (grow_at i n s))) = j
     \<and> balanced base (snd (grow_at i n s)) \<and> qm_limit (run_memory (snd (grow_at i n s))) = qm_limit ?m
     \<and> unat (qm_reserved (run_memory (snd (grow_at i n s)))) \<le> unat (qm_reserved ?m) + unat n"
    using grow m' s by (simp add: settles_def effect_def)
qed

lemma pays_scoped:
  assumes "pays j k f g"
  shows "pays j (\<lambda>d. unat n + k d) (scoped n f) g"
  unfolding pays_def
proof (intro allI impI)
  fix s :: "'a run" and base
  assume s: "length (run_held s) = j \<and> balanced base s \<and> affords s (unat n + k (run_data s))"
  let ?m = "run_memory s"
  obtain m' where m': "memory_reserve n ?m = (Inr (), m')" "qm_limit m' = qm_limit ?m"
    "unat (qm_reserved m') = unat (qm_reserved ?m) + unat n"
    using memory_reserve_affords [of ?m n] s by (auto simp: affords_def)
  let ?s = "s\<lparr>run_memory := m'\<rparr>"
  obtain r s' where f: "f ?s = (r, s')" by force
  have ok: "length (run_held ?s) = j" "balanced (base + unat n) ?s" "affords ?s (k (run_data ?s))"
    using s m' by (auto simp: balanced_def affords_def)
  note f' = paysD [OF assms f ok]
  have "scoped n f s = (r, s'\<lparr>run_memory := drop_reservation n (run_memory s')\<rparr>)"
    using m' f by (simp add: scoped_def try_reserve_def)
  moreover have "unat (qm_reserved (drop_reservation n (run_memory s'))) = unat (qm_reserved (run_memory s')) - unat n"
    using f'(3) by (simp add: balanced_def drop_reservation_def unat_sub word_le_nat_alt)
  moreover have "qm_limit (drop_reservation n (run_memory s')) = qm_limit (run_memory s')"
    by (simp add: drop_reservation_def memory_release_def)
  ultimately show "settles (scoped n f s) (g (run_data s)) \<and> length (run_held (snd (scoped n f s))) = j
     \<and> balanced base (snd (scoped n f s)) \<and> qm_limit (run_memory (snd (scoped n f s))) = qm_limit ?m
     \<and> unat (qm_reserved (run_memory (snd (scoped n f s)))) \<le> unat (qm_reserved ?m) + (unat n + k (run_data s))"
    using f' m' by (auto simp: settles_def balanced_def split: sum.splits)
qed

fun loop_cost :: "('x \<Rightarrow> 'd \<Rightarrow> nat) \<Rightarrow> ('x \<Rightarrow> 'd \<Rightarrow> 'd result) \<Rightarrow> 'x list \<Rightarrow> 'd \<Rightarrow> nat" where
  "loop_cost c g [] d = 0"
| "loop_cost c g (x # xs) d = c x d + (case g x d of Inl _ \<Rightarrow> 0 | Inr d' \<Rightarrow> loop_cost c g xs d')"

lemma pays_loop:
  assumes "\<And>x. x \<in> set xs \<Longrightarrow> pays j (c x) (f x) (effect (g x))"
  shows "pays j (loop_cost c g xs) (loop f xs) (effect (rfold g xs))"
  using assms
proof (induction xs)
  case Nil
  then show ?case by (auto simp: pays_def settles_def effect_def)
next
  case (Cons x xs)
  have "pays j (cost_bind (c x) (effect (g x)) (\<lambda>_. loop_cost c g xs)) (charged_bind (f x) (\<lambda>_. loop f xs))
      (\<lambda>d. rbind (effect (g x) d) (\<lambda>(a, d'). effect (rfold g xs) d'))"
    using Cons by (intro pays_bind) auto
  then show ?case
    unfolding loop.simps
    by (rule pays_weaken) (auto simp: cost_bind_def effect_def rbind_assoc split: sum.splits)
qed

lemma loop_cost_bound:
  assumes "\<And>x d. x \<in> set xs \<Longrightarrow> c x d \<le> b x"
  shows "loop_cost c g xs d \<le> sum_list (map b xs)"
  using assms
proof (induction xs arbitrary: d)
  case (Cons x xs)
  have "loop_cost c g xs d' \<le> sum_list (map b xs)" for d' using Cons by simp
  then show ?case using Cons.prems [of x d] by (auto simp: add_mono split: sum.splits)
qed simp

text \<open>The cost of a loop that succeeds, by what each turn adds to a potential.\<close>

lemma loop_cost_potential:
  assumes "rfold g xs d = Inr d'" and "P d"
    and "\<And>x a a'. x \<in> set xs \<Longrightarrow> P a \<Longrightarrow> g x a = Inr a' \<Longrightarrow> P a' \<and> c x a + v a \<le> b x + v a'"
  shows "loop_cost c g xs d + v d \<le> sum_list (map b xs) + v d'"
  using assms
proof (induction xs arbitrary: d)
  case (Cons x xs)
  obtain d1 where d1: "g x d = Inr d1" "rfold g xs d1 = Inr d'" using Cons.prems(1) by (auto simp: rbind_eq_Inr)
  have step: "P d1" "c x d + v d \<le> b x + v d1" using Cons.prems(3) [of x d d1] Cons.prems(2) d1(1) by auto
  have "loop_cost c g xs d1 + v d1 \<le> sum_list (map b xs) + v d'"
    by (rule Cons.IH [OF d1(2) step(1)]) (use Cons.prems(3) in auto)
  then show ?case using d1(1) step(2) by simp
qed simp

text \<open>An operator with enough memory ends as its data determine.\<close>

lemma with_budget_enough:
  assumes "pays 1 k f g" and "unat (qm_reserved m) + k d \<le> unat (qm_limit m)"
  shows "fst (with_budget d f m) = rbind (g d) (\<lambda>(a, _). Inr a)"
proof -
  obtain m' where m': "memory_reserve 0 m = (Inr (), m')" "qm_limit m' = qm_limit m"
    "unat (qm_reserved m') = unat (qm_reserved m)"
    using memory_reserve_affords [of m 0] assms(2) by auto
  let ?s = "\<lparr>run_data = d, run_held = [0], run_memory = m'\<rparr>"
  obtain r st where f: "f ?s = (r, st)" by force
  have "balanced (unat (qm_reserved m)) ?s" "affords ?s (k (run_data ?s))"
    using m' assms(2) by (simp_all add: balanced_def affords_def)
  then have "settles (r, st) (g d)" using paysD(1) [OF assms(1) f] by simp
  then show ?thesis
    using m' f by (auto simp: with_budget_def try_reserve_def settles_def split: sum.splits)
qed

lemmas pays_intros = pays_bind pays_on_data pays_grow_at pays_scoped pays_loop

end
