(* ===== verification/Row_Key.thy ===== *)
theory Row_Key
  imports Expr_Props Affordable
begin

text \<open>
  \<open>src/runtime/row_key.rs\<close>: byte keys for the rows of a list of columns, used by grouping, hash
  joins and hash routing.

  The byte format of a row, and the kernels that gather rows and assemble batches, are Arrow's: the
  fields of \<open>arrow_externs\<close>, together with the float arithmetic and the sizes of types whose layout
  the compiler chooses.  Their documented behaviour is stated by \<open>row_format\<close> (the encoding of
  a batch is row by row, injective on rows of supported types, and can be reverted) and by
  \<open>kernels_ok\<close>.  Rows of cells are the common currency of the operators: \<open>cell_rows\<close> reads them off
  columns.
\<close>

section \<open>Model\<close>

record arrow_externs =
  ax_rows_new :: "data_type list \<Rightarrow> unit result"
  ax_convert :: "data_type list \<Rightarrow> array list \<Rightarrow> bytes list result"
  ax_restore :: "data_type list \<Rightarrow> bytes list \<Rightarrow> array list result"
  ax_rows_size :: "bytes list \<Rightarrow> u64"
  ax_take :: "array \<Rightarrow> nat list \<Rightarrow> array result"
  ax_try_new :: "schema \<Rightarrow> array list \<Rightarrow> batch result"
  ax_filter :: "batch \<Rightarrow> array \<Rightarrow> batch result"
  ax_concat :: "schema \<Rightarrow> batch list \<Rightarrow> batch result"
  ax_lexsort :: "(array \<times> bool \<times> bool) list \<Rightarrow> nat option \<Rightarrow> nat list result"
  ax_take_batch :: "batch \<Rightarrow> nat list \<Rightarrow> batch result"
  ax_slice :: "batch \<Rightarrow> nat \<Rightarrow> nat \<Rightarrow> batch"
  ax_f64_add :: "u64 \<Rightarrow> u64 \<Rightarrow> u64"
  ax_f64_div :: "u64 \<Rightarrow> u64 \<Rightarrow> u64"
  ax_i128_to_f64 :: "128 word \<Rightarrow> u64"
  ax_sizeof_scalar :: u64
  ax_sizeof_state :: u64
  ax_sizeof_merge :: u64
  ax_capacity :: "string \<Rightarrow> u64"

text \<open>An encoder is the list of its column types; \<open>None\<close> is the encoder of the empty key.\<close>

type_synonym row_key_encoder = "data_type list option"

datatype encoded_rows = GlobalRows nat | EncodedRows "bytes list"

definition encoder_new :: "arrow_externs \<Rightarrow> data_type list \<Rightarrow> row_key_encoder result" where
  "encoder_new ax tys =
     (if tys = [] then Inr None else rbind (ax_rows_new ax tys) (\<lambda>_. Inr (Some tys)))"

definition encoder_from_columns :: "arrow_externs \<Rightarrow> array list \<Rightarrow> row_key_encoder result" where
  "encoder_from_columns ax cols = encoder_new ax (map arr_type cols)"

definition encode_rows ::
  "arrow_externs \<Rightarrow> row_key_encoder \<Rightarrow> array list \<Rightarrow> nat \<Rightarrow> encoded_rows result" where
  "encode_rows ax enc cols row_count =
     (case enc of
        Some tys \<Rightarrow> rbind (ax_convert ax tys cols) (\<lambda>rows.
          if length rows \<noteq> row_count
          then Inl (EExecution ''encoded key row count {} does not match input row count {row_count}'')
          else Inr (EncodedRows rows))
      | None \<Rightarrow>
          if cols = [] then Inr (GlobalRows row_count)
          else Inl (EExecution ''global row-key encoder received key columns''))"

definition decode_keys :: "arrow_externs \<Rightarrow> row_key_encoder \<Rightarrow> bytes list \<Rightarrow> array list result" where
  "decode_keys ax enc keys =
     (case enc of
        None \<Rightarrow>
          if list_ex (\<lambda>k. k \<noteq> []) keys
          then Inl (EExecution ''global row-key encoder received non-empty keys'')
          else Inr []
      | Some tys \<Rightarrow> ax_restore ax tys keys)"

fun encoded_key :: "encoded_rows \<Rightarrow> nat \<Rightarrow> bytes result" where
  "encoded_key (GlobalRows n) row =
     (if row < n then Inr [] else Inl (EPanic ''encoded row index out of bounds''))"
| "encoded_key (EncodedRows rows) row =
     (if row < length rows then Inr (rows ! row) else Inl (EPanic ''index out of bounds''))"

fun encoded_memory_size :: "arrow_externs \<Rightarrow> encoded_rows \<Rightarrow> u64" where
  "encoded_memory_size ax (GlobalRows n) = 0"
| "encoded_memory_size ax (EncodedRows rows) = ax_rows_size ax rows"

text \<open>
  \<open>Array::is_null\<close> consults the validity bitmap, which an array of type \<open>Null\<close> does not have.
\<close>

definition array_is_null :: "array \<Rightarrow> nat \<Rightarrow> bool" where
  "array_is_null a row \<longleftrightarrow>
     arr_type a \<noteq> TNull \<and> row < length (arr_cells a) \<and> arr_cells a ! row = CNull"

definition key_has_null :: "array list \<Rightarrow> nat \<Rightarrow> bool" where
  "key_has_null cols row = list_ex (\<lambda>a. array_is_null a row) cols"

text \<open>A boxed slice is two words.\<close>

definition encoded_key_memory_bytes :: "bytes \<Rightarrow> u64" where
  "encoded_key_memory_bytes k = saturating_add 16 (of_nat (length k))"

section \<open>Rows of cells\<close>

definition cell_rows :: "nat \<Rightarrow> array list \<Rightarrow> cell list list" where
  "cell_rows n cols = map (\<lambda>i. map (\<lambda>a. arr_cells a ! i) cols) [0..<n]"

definition columns_of :: "data_type list \<Rightarrow> cell list list \<Rightarrow> array list" where
  "columns_of tys rows = map (\<lambda>j. array_of (tys ! j) (map (\<lambda>r. r ! j) rows)) [0..<length tys]"

definition cell_ok :: "data_type \<Rightarrow> cell \<Rightarrow> bool" where
  "cell_ok t c \<longleftrightarrow> cell_fits t c \<and> (t = TNull \<longrightarrow> c = CNull)"

definition row_ok :: "data_type list \<Rightarrow> cell list \<Rightarrow> bool" where
  "row_ok tys r \<longleftrightarrow> list_all2 cell_ok tys r"

text \<open>Columns of given types and equal length.\<close>

definition columns_ok :: "data_type list \<Rightarrow> nat \<Rightarrow> array list \<Rightarrow> bool" where
  "columns_ok tys n cols \<longleftrightarrow>
     map arr_type cols = tys \<and> (\<forall>a\<in>set cols. length (arr_cells a) = n \<and> array_ok a)"

lemma columns_okD:
  assumes "columns_ok tys n cols"
  shows "length tys = length cols" and "j < length cols \<Longrightarrow> tys ! j = arr_type (cols ! j)"
    and "j < length cols \<Longrightarrow> length (arr_cells (cols ! j)) = n" and "j < length cols \<Longrightarrow> array_ok (cols ! j)"
  using assms by (auto simp: columns_ok_def)

lemma array_ok_iff: "array_ok a \<longleftrightarrow> (\<forall>c\<in>set (arr_cells a). cell_ok (arr_type a) c)"
  by (auto simp: array_ok_def cell_ok_def list_all_iff)

lemma length_cell_rows [simp]: "length (cell_rows n cols) = n"
  by (simp add: cell_rows_def)

lemma nth_cell_rows: "i < n \<Longrightarrow> cell_rows n cols ! i = map (\<lambda>a. arr_cells a ! i) cols"
  by (simp add: cell_rows_def)

lemma cell_rows_ok:
  assumes "columns_ok tys n cols" and "r \<in> set (cell_rows n cols)"
  shows "row_ok tys r"
proof -
  obtain i where i: "i < n" "r = map (\<lambda>a. arr_cells a ! i) cols"
    using assms(2) by (auto simp: cell_rows_def)
  then show ?thesis
    using assms(1)
    by (auto simp: row_ok_def columns_ok_def list_all2_conv_all_nth array_ok_iff)
qed

lemma columns_of_cell_rows:
  assumes "columns_ok tys n cols"
  shows "columns_of tys (cell_rows n cols) = cols"
proof (rule nth_equalityI)
  show "length (columns_of tys (cell_rows n cols)) = length cols"
    using assms by (auto simp: columns_of_def columns_ok_def)
  fix j assume "j < length (columns_of tys (cell_rows n cols))"
  then have j: "j < length cols" using assms by (auto simp: columns_of_def columns_ok_def)
  then have "length (arr_cells (cols ! j)) = n" "tys ! j = arr_type (cols ! j)" "length tys = length cols"
    using assms by (auto simp: columns_ok_def)
  then show "columns_of tys (cell_rows n cols) ! j = cols ! j"
    using j by (auto simp: columns_of_def cell_rows_def array_of_def comp_def
        intro!: array.equality nth_equalityI)
qed

lemma columns_of_ok:
  assumes "\<forall>r\<in>set rows. row_ok tys r"
  shows "columns_ok tys (length rows) (columns_of tys rows)"
  using assms
  by (auto simp: columns_ok_def columns_of_def array_of_def array_ok_iff row_ok_def list_all2_conv_all_nth
      intro!: nth_equalityI)

lemma cell_rows_columns_of:
  assumes "\<forall>r\<in>set rows. row_ok tys r"
  shows "cell_rows (length rows) (columns_of tys rows) = rows"
  using assms
  by (auto simp: cell_rows_def columns_of_def array_of_def row_ok_def list_all2_conv_all_nth
      intro!: nth_equalityI)

lemma cell_rows_nth_columns:
  assumes "\<forall>j\<in>set js. j < length cols"
  shows "cell_rows n (map ((!) cols) js) = map (\<lambda>r. map ((!) r) js) (cell_rows n cols)"
  using assms by (auto simp: cell_rows_def)

lemma row_ok_sub:
  assumes "row_ok tys r" and "\<forall>j\<in>set js. j < length tys"
  shows "row_ok (map ((!) tys) js) (map ((!) r) js)"
  using assms by (auto simp: row_ok_def list_all2_conv_all_nth)

section \<open>The row format\<close>

text \<open>Encoding and restoring are specified for the types the engine handles.\<close>

definition plain_type :: "data_type \<Rightarrow> bool" where
  "plain_type t = (case t of TOther _ \<Rightarrow> False | _ \<Rightarrow> True)"

definition row_format :: "arrow_externs \<Rightarrow> (data_type list \<Rightarrow> cell list \<Rightarrow> bytes) \<Rightarrow> bool" where
  "row_format ax row \<longleftrightarrow>
     (\<forall>tys n cols. tys \<noteq> [] \<and> list_all plain_type tys \<and> columns_ok tys n cols
        \<longrightarrow> ax_convert ax tys cols = Inr (map (row tys) (cell_rows n cols)))
   \<and> (\<forall>tys r r'. list_all plain_type tys \<and> row_ok tys r \<and> row_ok tys r' \<and> row tys r = row tys r' \<longrightarrow> r = r')
   \<and> (\<forall>tys rows. list_all plain_type tys \<and> (\<forall>r\<in>set rows. row_ok tys r)
        \<longrightarrow> ax_restore ax tys (map (row tys) rows) = Inr (columns_of tys rows))"

definition row_key :: "(data_type list \<Rightarrow> cell list \<Rightarrow> bytes) \<Rightarrow> data_type list \<Rightarrow> cell list \<Rightarrow> bytes" where
  "row_key row tys r = (if tys = [] then [] else row tys r)"

lemma row_formatD:
  assumes "row_format ax row" and "list_all plain_type tys"
  shows "tys \<noteq> [] \<Longrightarrow> columns_ok tys n cols \<Longrightarrow> ax_convert ax tys cols = Inr (map (row tys) (cell_rows n cols))"
    and "row_ok tys r \<Longrightarrow> row_ok tys r' \<Longrightarrow> row tys r = row tys r' \<Longrightarrow> r = r'"
    and "\<forall>r\<in>set rows. row_ok tys r \<Longrightarrow> ax_restore ax tys (map (row tys) rows) = Inr (columns_of tys rows)"
  using assms unfolding row_format_def by blast+

lemma encoder_new_Inr: "encoder_new ax tys = Inr enc \<Longrightarrow> enc = (if tys = [] then None else Some tys)"
  by (auto simp: encoder_new_def rbind_eq_Inr split: if_splits)

lemma encode_rows_keys:
  assumes "row_format ax row" and "list_all plain_type tys" and "columns_ok tys n cols"
    and "encoder_new ax tys = Inr enc"
  obtains er where "encode_rows ax enc cols n = Inr er"
    and "\<And>i. i < n \<Longrightarrow> encoded_key er i = Inr (row_key row tys (cell_rows n cols ! i))"
proof (cases "tys = []")
  case True
  then have "encode_rows ax enc cols n = Inr (GlobalRows n)"
    using encoder_new_Inr [OF assms(4)] assms(3) by (auto simp: encode_rows_def columns_ok_def)
  then show thesis using that True by (simp add: row_key_def)
next
  case False
  then have "encode_rows ax enc cols n = Inr (EncodedRows (map (row tys) (cell_rows n cols)))"
    using encoder_new_Inr [OF assms(4)] row_formatD(1) [OF assms(1,2) False assms(3)]
    by (simp add: encode_rows_def)
  then show thesis using that False by (simp add: row_key_def)
qed

lemma row_key_inj:
  assumes "row_format ax row" and "list_all plain_type tys" and "row_ok tys r" and "row_ok tys r'"
  shows "row_key row tys r = row_key row tys r' \<longleftrightarrow> r = r'"
proof (cases "tys = []")
  case True
  then show ?thesis using assms(3,4) by (simp add: row_key_def row_ok_def)
next
  case False
  then show ?thesis using row_formatD(2) [OF assms] by (auto simp: row_key_def)
qed

lemma decode_keys_rows:
  assumes "row_format ax row" and "list_all plain_type tys" and "\<forall>r\<in>set rows. row_ok tys r"
    and "encoder_new ax tys = Inr enc"
  shows "decode_keys ax enc (map (row_key row tys) rows) = Inr (columns_of tys rows)"
proof (cases "tys = []")
  case True
  then show ?thesis
    using encoder_new_Inr [OF assms(4)]
    by (simp add: decode_keys_def row_key_def columns_of_def list_ex_iff)
next
  case False
  then have "row_key row tys = row tys" by (simp add: row_key_def fun_eq_iff)
  then show ?thesis
    using encoder_new_Inr [OF assms(4)] False row_formatD(3) [OF assms(1-3)]
    by (simp add: decode_keys_def)
qed

text \<open>A key has a null where the row has one.\<close>

lemma key_has_null_iff:
  assumes "columns_ok tys n cols" and "i < n" and "TNull \<notin> set tys"
  shows "key_has_null cols i \<longleftrightarrow> CNull \<in> set (cell_rows n cols ! i)"
proof -
  have "array_is_null a i \<longleftrightarrow> CNull = arr_cells a ! i" if "a \<in> set cols" for a
    using assms that by (auto simp: array_is_null_def columns_ok_def image_iff) metis
  then show ?thesis using assms(2) by (auto simp: key_has_null_def list_ex_iff nth_cell_rows image_iff)
qed

section \<open>Batches\<close>

text \<open>
  A batch that Arrow has accepted for a schema, and the two kernels of the operators below: gathering
  rows by index, and assembling a batch, which checks exactly that.
\<close>

definition field_types :: "schema \<Rightarrow> data_type list" where
  "field_types s = map field_type (schema_fields s)"

definition no_nulls :: "field list \<Rightarrow> array list \<Rightarrow> bool" where
  "no_nulls fs cols \<longleftrightarrow> list_all2 (\<lambda>f a. field_nullable f \<or> CNull \<notin> set (arr_cells a)) fs cols"

definition batch_ok :: "schema \<Rightarrow> batch \<Rightarrow> bool" where
  "batch_ok s b \<longleftrightarrow> rb_schema b = s \<and> columns_ok (field_types s) (rb_num_rows b) (rb_columns b)
     \<and> no_nulls (schema_fields s) (rb_columns b)"

definition batch_rows :: "batch \<Rightarrow> cell list list" where
  "batch_rows b = cell_rows (rb_num_rows b) (rb_columns b)"

definition batch_of_rows :: "schema \<Rightarrow> cell list list \<Rightarrow> batch" where
  "batch_of_rows s rows =
     \<lparr>rb_schema = s, rb_columns = columns_of (field_types s) rows, rb_num_rows = length rows\<rparr>"

definition kernels_ok :: "arrow_externs \<Rightarrow> bool" where
  "kernels_ok ax \<longleftrightarrow>
     (\<forall>a ix. array_ok a \<and> (\<forall>i\<in>set ix. i < length (arr_cells a))
        \<longrightarrow> ax_take ax a ix = Inr (array_of (arr_type a) (map ((!) (arr_cells a)) ix)))
   \<and> (\<forall>s n cols. cols \<noteq> [] \<and> columns_ok (field_types s) n cols \<and> no_nulls (schema_fields s) cols
        \<longrightarrow> ax_try_new ax s cols = Inr \<lparr>rb_schema = s, rb_columns = cols, rb_num_rows = n\<rparr>)"

lemma kernels_okD:
  assumes "kernels_ok ax"
  shows "array_ok a \<Longrightarrow> \<forall>i\<in>set ix. i < length (arr_cells a)
      \<Longrightarrow> ax_take ax a ix = Inr (array_of (arr_type a) (map ((!) (arr_cells a)) ix))"
    and "cols \<noteq> [] \<Longrightarrow> columns_ok (field_types s) n cols \<Longrightarrow> no_nulls (schema_fields s) cols
      \<Longrightarrow> ax_try_new ax s cols = Inr \<lparr>rb_schema = s, rb_columns = cols, rb_num_rows = n\<rparr>"
  using assms unfolding kernels_ok_def by blast+

text \<open>The rows a schema admits.\<close>

definition row_admitted :: "schema \<Rightarrow> cell list \<Rightarrow> bool" where
  "row_admitted s r \<longleftrightarrow> list_all2 (\<lambda>f c. cell_ok (field_type f) c \<and> (field_nullable f \<or> c \<noteq> CNull)) (schema_fields s) r"

lemma row_admitted_ok: "row_admitted s r \<Longrightarrow> row_ok (field_types s) r"
  by (auto simp: row_admitted_def row_ok_def field_types_def list_all2_conv_all_nth)

lemma batch_rows_admitted:
  assumes "batch_ok s b" and "r \<in> set (batch_rows b)"
  shows "row_admitted s r"
proof -
  obtain i where i: "i < rb_num_rows b" "r = map (\<lambda>a. arr_cells a ! i) (rb_columns b)"
    using assms(2) by (auto simp: batch_rows_def cell_rows_def)
  have ok: "row_ok (field_types s) r"
    using assms cell_rows_ok by (auto simp: batch_ok_def batch_rows_def)
  have "length (rb_columns b) = length (schema_fields s)"
    using assms(1) by (auto simp: batch_ok_def no_nulls_def dest: list_all2_lengthD)
  then show ?thesis
    using assms(1) ok i
    by (auto simp: row_admitted_def batch_ok_def no_nulls_def list_all2_conv_all_nth row_ok_def field_types_def
        columns_ok_def) (metis nth_mem)
qed

lemma columns_of_no_nulls:
  assumes "\<forall>r\<in>set rows. row_admitted s r"
  shows "no_nulls (schema_fields s) (columns_of (field_types s) rows)"
  using assms
  by (fastforce simp: no_nulls_def columns_of_def field_types_def array_of_def row_admitted_def
      list_all2_conv_all_nth)

lemma batch_of_rows_ok:
  assumes "\<forall>r\<in>set rows. row_admitted s r"
  shows "batch_ok s (batch_of_rows s rows)" and "batch_rows (batch_of_rows s rows) = rows"
  using assms columns_of_no_nulls [OF assms] columns_of_ok [of rows "field_types s"]
    cell_rows_columns_of [of rows "field_types s"] row_admitted_ok
  by (auto simp: batch_ok_def batch_of_rows_def batch_rows_def)

lemma try_new_rows:
  assumes "kernels_ok ax" and "\<forall>r\<in>set rows. row_admitted s r" and "schema_fields s \<noteq> []"
  shows "ax_try_new ax s (columns_of (field_types s) rows) = Inr (batch_of_rows s rows)"
  unfolding batch_of_rows_def
  using assms columns_of_no_nulls [OF assms(2)] columns_of_ok [of rows "field_types s"] row_admitted_ok
  by (intro kernels_okD(2)) (auto simp: columns_of_def field_types_def)

section \<open>Values\<close>

text \<open>The scalar of a cell; it always exists for the types the engine handles.\<close>

definition cell_value :: "externs \<Rightarrow> data_type \<Rightarrow> cell \<Rightarrow> scalar_value" where
  "cell_value x t c = (case value_of_cell x t c of Inr v \<Rightarrow> v | Inl _ \<Rightarrow> SNull)"

definition row_values :: "externs \<Rightarrow> data_type list \<Rightarrow> cell list \<Rightarrow> scalar_value list" where
  "row_values x tys r = map2 (cell_value x) tys r"

lemma value_of_cell_ok: "plain_type t \<Longrightarrow> cell_ok t c \<Longrightarrow> value_of_cell x t c = Inr (cell_value x t c)"
  by (cases c; cases t) (simp_all add: cell_value_def value_of_cell_def cell_ok_def plain_type_def)

lemma value_at_ok:
  assumes "array_ok a" and "plain_type (arr_type a)" and "row < length (arr_cells a)"
  shows "value_at x a row = Inr (cell_value x (arr_type a) (arr_cells a ! row))"
  using assms value_of_cell_ok by (simp add: value_at_def array_ok_iff)

lemma columns_values:
  assumes "columns_ok tys n cols" and "list_all plain_type tys" and "i < n"
  shows "rmap (\<lambda>a. value_at x a i) cols = Inr (row_values x tys (cell_rows n cols ! i))"
proof -
  have "rmap (\<lambda>a. value_at x a i) cols = Inr (map (\<lambda>a. cell_value x (arr_type a) (arr_cells a ! i)) cols)"
    using assms by (intro rmap_Inr_map value_at_ok) (auto simp: columns_ok_def list_all_iff)
  moreover have "map (\<lambda>a. cell_value x (arr_type a) (arr_cells a ! i)) cols = row_values x tys (cell_rows n cols ! i)"
    using columns_okD [OF assms(1)] assms(3)
    by (auto simp: row_values_def nth_cell_rows intro!: nth_equalityI)
  ultimately show ?thesis by simp
qed

text \<open>A row of scalars as cells of a schema.\<close>

definition row_cells :: "externs \<Rightarrow> schema \<Rightarrow> scalar_value list \<Rightarrow> cell list" where
  "row_cells x s r = map2 (cell_of_scalar x) (field_types s) r"

definition buildable_schema :: "schema \<Rightarrow> bool" where
  "buildable_schema s \<longleftrightarrow> schema_fields s \<noteq> [] \<and> list_all buildable (field_types s)"

lemma scalars_to_array_buildable:
  "buildable t \<Longrightarrow> scalars_to_array x vs t = Inr (array_of t (map (cell_of_scalar x t) vs))"
  by (cases t) (simp_all add: scalars_to_array_def buildable_def)

end
