(* ===== verification/Sample_Rows.thy ===== *)
theory Sample_Rows
  imports Row_Key
begin

text \<open>
  A concrete row format and concrete kernels, on which the hypotheses \<open>row_format\<close> and \<open>kernels_ok\<close>
  of the properties are discharged.  A cell is a list of numbers, and a number is written in unary
  with a terminating zero.
\<close>

definition nat_code :: "nat \<Rightarrow> bytes" where
  "nat_code n = replicate n 1 @ [0]"

fun parse_nats :: "nat \<Rightarrow> bytes \<Rightarrow> nat list" where
  "parse_nats k [] = []"
| "parse_nats k (b # bs) = (if b = 0 then k # parse_nats 0 bs else parse_nats (Suc k) bs)"

fun cell_nats :: "cell \<Rightarrow> nat list" where
  "cell_nats CNull = [0, 0]"
| "cell_nats (CBool b) = [1, if b then 1 else 0]"
| "cell_nats (CI32 w) = [2, unat w]"
| "cell_nats (CI64 w) = [3, unat w]"
| "cell_nats (CU32 w) = [4, unat w]"
| "cell_nats (CU64 w) = [5, unat w]"
| "cell_nats (CF32 w) = [6, unat w]"
| "cell_nats (CF64 w) = [7, unat w]"
| "cell_nats (CUtf8 s) = 8 # length s # map of_char s"
| "cell_nats (COther n) = [9, n]"

definition parse_cell :: "nat list \<Rightarrow> cell \<times> nat list" where
  "parse_cell ns =
     (let tag = ns ! 0; v = ns ! 1; r = drop 2 ns in
      if tag = 0 then (CNull, r) else if tag = 1 then (CBool (v = 1), r)
      else if tag = 2 then (CI32 (of_nat v), r) else if tag = 3 then (CI64 (of_nat v), r)
      else if tag = 4 then (CU32 (of_nat v), r) else if tag = 5 then (CU64 (of_nat v), r)
      else if tag = 6 then (CF32 (of_nat v), r) else if tag = 7 then (CF64 (of_nat v), r)
      else if tag = 8 then (CUtf8 (map char_of (take v r)), drop v r)
      else (COther v, r))"

fun parse_cells :: "nat \<Rightarrow> nat list \<Rightarrow> cell list" where
  "parse_cells 0 ns = []"
| "parse_cells (Suc k) ns = (case parse_cell ns of (c, r) \<Rightarrow> c # parse_cells k r)"

definition sample_row :: "data_type list \<Rightarrow> cell list \<Rightarrow> bytes" where
  "sample_row tys r = concat (map nat_code (concat (map cell_nats r)))"

definition parse_row :: "nat \<Rightarrow> bytes \<Rightarrow> cell list" where
  "parse_row n k = parse_cells n (parse_nats 0 k)"

definition column_length :: "array list \<Rightarrow> nat" where
  "column_length cols = (case cols of [] \<Rightarrow> 0 | a # _ \<Rightarrow> length (arr_cells a))"

definition sample_ax :: arrow_externs where
  "sample_ax =
     \<lparr>ax_rows_new = (\<lambda>_. Inr ()),
      ax_convert = (\<lambda>tys cols. Inr (map (sample_row tys) (cell_rows (column_length cols) cols))),
      ax_restore = (\<lambda>tys keys. Inr (columns_of tys (map (parse_row (length tys)) keys))),
      ax_rows_size = (\<lambda>keys. of_nat (sum_list (map length keys))),
      ax_take = (\<lambda>a ix. Inr (array_of (arr_type a) (map ((!) (arr_cells a)) ix))),
      ax_try_new = (\<lambda>s cols. Inr \<lparr>rb_schema = s, rb_columns = cols, rb_num_rows = column_length cols\<rparr>),
      ax_filter = (\<lambda>b p. Inr (batch_of_rows (rb_schema b)
         (map ((!) (batch_rows b)) (filter (\<lambda>i. arr_cells p ! i = CBool True) [0..<rb_num_rows b])))),
      ax_concat = (\<lambda>s bs. Inr (batch_of_rows s (concat (map batch_rows bs)))),
      ax_lexsort = (\<lambda>cols limit. Inr (case limit of None \<Rightarrow> [0..<column_length (map fst cols)] | Some k \<Rightarrow> [0..<k])),
      ax_take_batch = (\<lambda>b ix. Inr (batch_of_rows (rb_schema b) (map ((!) (batch_rows b)) ix))),
      ax_slice = (\<lambda>b i n. batch_of_rows (rb_schema b) (take n (drop i (batch_rows b)))),
      ax_f64_add = (+), ax_f64_div = (\<lambda>a b. a), ax_i128_to_f64 = ucast,
      ax_sizeof_scalar = 24, ax_sizeof_state = 64, ax_sizeof_merge = 32,
      ax_capacity = (\<lambda>s. of_nat (length s))\<rparr>"

lemma sample_rows_new [simp]: "ax_rows_new sample_ax tys = Inr ()"
  by (simp add: sample_ax_def)

lemma parse_nats_code [simp]: "parse_nats k (nat_code n @ r) = (k + n) # parse_nats 0 r"
  by (induction n arbitrary: k) (simp_all add: nat_code_def)

lemma parse_nats_codes [simp]: "parse_nats 0 (concat (map nat_code ns)) = ns"
  by (induction ns) simp_all

lemma parse_cell_code [simp]: "parse_cell (cell_nats c @ r) = (c, r)"
  by (cases c) (simp_all add: parse_cell_def comp_def)

lemma parse_cells_codes [simp]: "parse_cells (length cs) (concat (map cell_nats cs)) = cs"
  by (induction cs) simp_all

lemma parse_row_row: "parse_row (length r) (sample_row tys r) = r"
  by (simp add: parse_row_def sample_row_def)

lemma column_length_ok: "columns_ok tys n cols \<Longrightarrow> cols \<noteq> [] \<Longrightarrow> column_length cols = n"
  by (cases cols) (auto simp: column_length_def columns_ok_def)

lemma sample_row_format: "row_format sample_ax sample_row"
  unfolding row_format_def
proof (intro conjI allI impI)
  fix tys n and cols :: "array list"
  assume "tys \<noteq> [] \<and> list_all plain_type tys \<and> columns_ok tys n cols"
  then show "ax_convert sample_ax tys cols = Inr (map (sample_row tys) (cell_rows n cols))"
    using column_length_ok [of tys n cols] by (auto simp: sample_ax_def columns_ok_def)
next
  fix tys r r'
  assume "list_all plain_type tys \<and> row_ok tys r \<and> row_ok tys r' \<and> sample_row tys r = sample_row tys r'"
  moreover from this have "length r = length r'" by (metis row_ok_def list_all2_lengthD)
  ultimately show "r = r'" by (metis parse_row_row)
next
  fix tys rows
  assume rows: "list_all plain_type tys \<and> (\<forall>r\<in>set rows. row_ok tys r)"
  then have "map (parse_row (length tys)) (map (sample_row tys) rows) = rows"
    by (auto simp: row_ok_def parse_row_row dest!: list_all2_lengthD intro!: map_idI)
  then show "ax_restore sample_ax tys (map (sample_row tys) rows) = Inr (columns_of tys rows)"
    by (simp add: sample_ax_def)
qed

lemma sample_kernels: "kernels_ok sample_ax"
  using column_length_ok by (auto simp: kernels_ok_def sample_ax_def)

text \<open>A small table and its rows.\<close>

definition sample_rows :: "cell list list" where
  "sample_rows = [[CI64 1, CBool True], [CI64 2, CNull], [CI64 1, CBool False]]"

definition sample_batch :: batch where
  "sample_batch = batch_of_rows sample_schema sample_rows"

lemma sample_types: "field_types sample_schema = [TInt64, TBoolean]"
  by (simp add: field_types_def sample_schema_def schema_new_def field_new_def)

lemma sample_admitted: "\<forall>r\<in>set sample_rows. row_admitted sample_schema r"
  by (simp add: sample_rows_def row_admitted_def sample_schema_def schema_new_def field_new_def cell_ok_def)

lemma sample_batch_ok: "batch_ok sample_schema sample_batch"
  unfolding sample_batch_def by (rule batch_of_rows_ok(1) [OF sample_admitted])

lemma sample_batch_rows [simp]: "batch_rows sample_batch = sample_rows"
  unfolding sample_batch_def by (rule batch_of_rows_ok(2) [OF sample_admitted])

lemma sample_id_resolves: "find_column sample_schema ''id'' = Inr 0"
  by (simp add: find_column_def resolve_field_index_def positions_def sample_schema_def schema_new_def field_new_def)

lemma sample_flag_column: "find_column sample_schema ''flag'' = Inr 1"
  by (simp add: find_column_def resolve_field_index_def positions_def sample_schema_def schema_new_def field_new_def)

lemma sample_batch_columns:
  "rb_columns sample_batch = [array_of TInt64 [CI64 1, CI64 2, CI64 1], array_of TBoolean [CBool True, CNull, CBool False]]"
  "rb_num_rows sample_batch = 3" "rb_schema sample_batch = sample_schema"
  by (simp_all add: sample_batch_def batch_of_rows_def columns_of_def sample_types sample_rows_def)

text \<open>A table of two partitions with these rows.\<close>

definition pair_provider :: table_provider where
  "pair_provider = memory_provider sample_externs
     \<lparr>mt_schema = sample_schema, mt_partitions = [[sample_batch], [sample_batch]], mt_estimated_bytes = 0\<rparr>"

lemma pair_provider_simps [simp]:
  "tp_partition_count pair_provider = 2" "tp_partition_may_match pair_provider p fs = Inr True"
  "p < 2 \<Longrightarrow> tp_scan_partition pair_provider p None n = Inr [sample_batch]"
  by (auto simp: pair_provider_def memory_provider_def memory_scan_partition_def less_2_cases_iff)

end
