(* ===== verification/Hash_Join.thy ===== *)
theory Hash_Join
  imports Sample_Rows
begin

text \<open>
  \<open>hash_join\<close> of \<open>src/runtime/execution.rs\<close>: the inner and the left equi-join of two lists of
  batches, with its memory accounting.

  The hash table is an ordered map: it is only looked up.  The data of a run are the encoder, which
  the first batch seen fixes, the table and the rows produced so far.
\<close>

section \<open>Model\<close>

definition HASH_ENTRY_OVERHEAD_BYTES :: u64 where
  "HASH_ENTRY_OVERHEAD_BYTES = 32"

fun scalar_memory_bytes :: "arrow_externs \<Rightarrow> scalar_value \<Rightarrow> u64" where
  "scalar_memory_bytes ax (SUtf8 s) = saturating_add (ax_sizeof_scalar ax) (ax_capacity ax s)"
| "scalar_memory_bytes ax _ = ax_sizeof_scalar ax"

text \<open>A vector is three words.\<close>

definition scalar_vec_memory_bytes :: "arrow_externs \<Rightarrow> scalar_value list \<Rightarrow> u64" where
  "scalar_vec_memory_bytes ax vs = saturating_add 24 (foldl saturating_add 0 (map (scalar_memory_bytes ax) vs))"

record join_state =
  js_encoder :: "row_key_encoder option"
  js_build :: "(bytes, scalar_value list list) btree"
  js_output :: "scalar_value list list"

definition row_scalars :: "externs \<Rightarrow> batch \<Rightarrow> nat \<Rightarrow> scalar_value list result" where
  "row_scalars x b row = rmap (\<lambda>a. value_at x a row) (rb_columns b)"

text \<open>The key columns of a batch and their encoding; the first batch creates the encoder.\<close>

definition join_keys ::
  "externs \<Rightarrow> arrow_externs \<Rightarrow> expr list \<Rightarrow> batch \<Rightarrow> join_state
   \<Rightarrow> ((array list \<times> encoded_rows) \<times> join_state) result" where
  "join_keys x ax on b d =
     rbind (rmap (evaluate x b) on) (\<lambda>keys.
     rbind (case js_encoder d of Some enc \<Rightarrow> Inr enc | None \<Rightarrow> encoder_from_columns ax keys) (\<lambda>enc.
     rbind (encode_rows ax enc keys (rb_num_rows b)) (\<lambda>er.
       Inr ((keys, er), d\<lparr>js_encoder := Some enc\<rparr>))))"

definition push_build :: "bytes \<Rightarrow> scalar_value list \<Rightarrow> join_state \<Rightarrow> join_state" where
  "push_build k vs d =
     d\<lparr>js_build := (case map_of (js_build d) k of
         Some rows \<Rightarrow> bt_insert k (rows @ [vs]) (js_build d)
       | None \<Rightarrow> bt_insert k [vs] (js_build d))\<rparr>"

definition build_bytes :: "arrow_externs \<Rightarrow> bytes \<Rightarrow> scalar_value list \<Rightarrow> join_state \<Rightarrow> u64" where
  "build_bytes ax k vs d =
     (let row_bytes = scalar_vec_memory_bytes ax vs in
      case map_of (js_build d) k of
        Some _ \<Rightarrow> row_bytes
      | None \<Rightarrow> saturating_add (saturating_add (saturating_add HASH_ENTRY_OVERHEAD_BYTES
                  (encoded_key_memory_bytes k)) 24) row_bytes)"

definition build_row ::
  "externs \<Rightarrow> arrow_externs \<Rightarrow> batch \<Rightarrow> array list \<times> encoded_rows \<Rightarrow> nat \<Rightarrow> (join_state, unit) charged" where
  "build_row x ax b ks row =
     (if key_has_null (fst ks) row then on_data (effect Inr)
      else charged_bind (on_data (inspect (\<lambda>d.
          rbind (encoded_key (snd ks) row) (\<lambda>k.
          rbind (row_scalars x b row) (\<lambda>vs. Inr (k, vs, build_bytes ax k vs d)))))) (\<lambda>(k, vs, bytes).
        charged_bind (grow_at 0 bytes) (\<lambda>_. on_data (effect (\<lambda>d. Inr (push_build k vs d))))))"

definition build_batch :: "externs \<Rightarrow> arrow_externs \<Rightarrow> expr list \<Rightarrow> batch \<Rightarrow> (join_state, unit) charged" where
  "build_batch x ax on b =
     charged_bind (on_data (join_keys x ax on b)) (\<lambda>ks.
       scoped (encoded_memory_size ax (snd ks)) (loop (build_row x ax b ks) [0..<rb_num_rows b]))"

definition push_row :: "arrow_externs \<Rightarrow> scalar_value list \<Rightarrow> (join_state, unit) charged" where
  "push_row ax row =
     charged_bind (grow_at 0 (scalar_vec_memory_bytes ax row)) (\<lambda>_.
       on_data (effect (\<lambda>d. Inr (d\<lparr>js_output := js_output d @ [row]\<rparr>))))"

text \<open>The rows that one row of the left side contributes.\<close>

definition probe_rows ::
  "join_type \<Rightarrow> nat \<Rightarrow> bool \<Rightarrow> bytes \<Rightarrow> scalar_value list \<Rightarrow> join_state \<Rightarrow> scalar_value list list" where
  "probe_rows jt width has_null k vs d =
     (case (if has_null then None else map_of (js_build d) k) of
        Some rows \<Rightarrow> map (\<lambda>right. vs @ right) rows
      | None \<Rightarrow> if jt = LeftJoin then [vs @ replicate width SNull] else [])"

definition probe_row ::
  "externs \<Rightarrow> arrow_externs \<Rightarrow> join_type \<Rightarrow> nat \<Rightarrow> batch \<Rightarrow> array list \<times> encoded_rows \<Rightarrow> nat
   \<Rightarrow> (join_state, unit) charged" where
  "probe_row x ax jt width b ks row =
     charged_bind (on_data (inspect (\<lambda>d.
         rbind (encoded_key (snd ks) row) (\<lambda>k.
         rbind (row_scalars x b row) (\<lambda>vs.
           Inr (probe_rows jt width (key_has_null (fst ks) row) k vs d)))))) (\<lambda>rows.
       loop (push_row ax) rows)"

definition probe_batch ::
  "externs \<Rightarrow> arrow_externs \<Rightarrow> join_type \<Rightarrow> nat \<Rightarrow> expr list \<Rightarrow> batch \<Rightarrow> (join_state, unit) charged" where
  "probe_batch x ax jt width on b =
     charged_bind (on_data (join_keys x ax on b)) (\<lambda>ks.
       scoped (encoded_memory_size ax (snd ks)) (loop (probe_row x ax jt width b ks) [0..<rb_num_rows b]))"

definition right_width :: "batch list \<Rightarrow> batch list \<Rightarrow> schema \<Rightarrow> nat" where
  "right_width left right s =
     (case right of
        b # _ \<Rightarrow> length (rb_columns b)
      | [] \<Rightarrow> length (schema_fields s) - (case left of b # _ \<Rightarrow> length (rb_columns b) | [] \<Rightarrow> 0))"

text \<open>The rows column by column; a row longer than the schema is an index out of bounds.\<close>

definition join_output ::
  "externs \<Rightarrow> arrow_externs \<Rightarrow> schema \<Rightarrow> scalar_value list list \<Rightarrow> batch result" where
  "join_output x ax s rows =
     (if list_ex (\<lambda>r. length (schema_fields s) < length r) rows then Inl (EPanic ''index out of bounds'')
      else rbind (rmap (\<lambda>j. scalars_to_array x (map (\<lambda>r. r ! j) (filter (\<lambda>r. j < length r) rows))
                     (field_type (schema_fields s ! j))) [0..<length (schema_fields s)]) (\<lambda>arrays.
        ax_try_new ax s arrays))"

definition join_run ::
  "externs \<Rightarrow> arrow_externs \<Rightarrow> batch list \<Rightarrow> batch list \<Rightarrow> join_type \<Rightarrow> expr list \<Rightarrow> expr list \<Rightarrow> schema
   \<Rightarrow> (join_state, batch) charged" where
  "join_run x ax left right jt left_on right_on s =
     charged_bind (loop (build_batch x ax right_on) right) (\<lambda>_.
     charged_bind (loop (probe_batch x ax jt (right_width left right s) left_on) left) (\<lambda>_.
       on_data (inspect (\<lambda>d. join_output x ax s (js_output d)))))"

definition hash_join ::
  "externs \<Rightarrow> arrow_externs \<Rightarrow> batch list \<Rightarrow> batch list \<Rightarrow> join_type \<Rightarrow> expr list \<Rightarrow> expr list \<Rightarrow> schema
   \<Rightarrow> query_memory \<Rightarrow> batch result \<times> query_memory" where
  "hash_join x ax left right jt left_on right_on s =
     with_budget \<lparr>js_encoder = None, js_build = [], js_output = []\<rparr> (join_run x ax left right jt left_on right_on s)"

section \<open>Accounting and functional part\<close>

lemma join_run_balance: "keeps_balance 1 (join_run x ax left right jt left_on right_on s)"
  unfolding join_run_def build_batch_def probe_batch_def build_row_def probe_row_def push_row_def
  by (auto intro!: balance_intros split: prod.splits)

definition build_row_pure ::
  "externs \<Rightarrow> batch \<Rightarrow> array list \<times> encoded_rows \<Rightarrow> nat \<Rightarrow> join_state \<Rightarrow> join_state result" where
  "build_row_pure x b ks row d =
     (if key_has_null (fst ks) row then Inr d
      else rbind (encoded_key (snd ks) row) (\<lambda>k. rbind (row_scalars x b row) (\<lambda>vs. Inr (push_build k vs d))))"

definition probe_row_pure ::
  "externs \<Rightarrow> join_type \<Rightarrow> nat \<Rightarrow> batch \<Rightarrow> array list \<times> encoded_rows \<Rightarrow> nat \<Rightarrow> join_state \<Rightarrow> join_state result" where
  "probe_row_pure x jt width b ks row d =
     rbind (encoded_key (snd ks) row) (\<lambda>k. rbind (row_scalars x b row) (\<lambda>vs.
       Inr (d\<lparr>js_output := js_output d @ probe_rows jt width (key_has_null (fst ks) row) k vs d\<rparr>)))"

definition side_pure ::
  "externs \<Rightarrow> arrow_externs \<Rightarrow> expr list \<Rightarrow> (batch \<Rightarrow> array list \<times> encoded_rows \<Rightarrow> nat \<Rightarrow> join_state \<Rightarrow> join_state result)
   \<Rightarrow> batch \<Rightarrow> join_state \<Rightarrow> join_state result" where
  "side_pure x ax on f b d = rbind (join_keys x ax on b d) (\<lambda>(ks, d'). rfold (f b ks) [0..<rb_num_rows b] d')"

lemma build_row_computes: "computes (build_row x ax b ks row) (effect (build_row_pure x b ks row))"
proof (cases "key_has_null (fst ks) row")
  case True
  then have "build_row x ax b ks row = on_data (effect Inr)" by (simp add: build_row_def)
  moreover have "effect (build_row_pure x b ks row) = effect Inr"
    using True by (simp add: fun_eq_iff effect_def build_row_pure_def)
  ultimately show ?thesis by (metis computes_on_data)
next
  case False
  show ?thesis
    unfolding build_row_def if_not_P [OF False] case_prod_unfold
    by (rule computes_cong, (rule computes_intros)+)
      (use False in \<open>simp add: build_row_pure_def computes_simps\<close>)
qed

lemma push_rows_computes:
  "computes (loop (push_row ax) rows) (effect (\<lambda>d. Inr (d\<lparr>js_output := js_output d @ rows\<rparr>)))"
proof -
  have row: "computes (push_row ax row) (effect (\<lambda>d. Inr (d\<lparr>js_output := js_output d @ [row]\<rparr>)))" for row
    unfolding push_row_def by (rule computes_cong, (rule computes_intros)+) (simp add: computes_simps)
  have "rfold (\<lambda>row d. Inr (d\<lparr>js_output := js_output d @ [row]\<rparr>)) rows d
      = Inr (d\<lparr>js_output := js_output d @ rows\<rparr>)" for d :: join_state
    by (induction rows arbitrary: d) simp_all
  then show ?thesis
    by (intro computes_cong [OF computes_loop [OF row]]) (simp add: effect_def)
qed

lemma probe_row_computes: "computes (probe_row x ax jt w b ks row) (effect (probe_row_pure x jt w b ks row))"
  unfolding probe_row_def
  by (rule computes_cong, rule computes_bind, rule computes_on_data, rule push_rows_computes)
    (simp add: probe_row_pure_def computes_simps)

lemma side_computes:
  assumes "\<And>ks row. computes (f ks row) (effect (g b ks row))"
  shows "computes (charged_bind (on_data (join_keys x ax on b)) (\<lambda>ks.
      scoped (encoded_memory_size ax (snd ks)) (loop (f ks) [0..<rb_num_rows b]))) (effect (side_pure x ax on g b))"
  by (rule computes_cong, rule computes_bind, rule computes_on_data, rule computes_scoped, rule computes_loop,
      rule assms) (simp add: side_pure_def computes_simps)

definition join_pure ::
  "externs \<Rightarrow> arrow_externs \<Rightarrow> batch list \<Rightarrow> batch list \<Rightarrow> join_type \<Rightarrow> expr list \<Rightarrow> expr list \<Rightarrow> schema \<Rightarrow> join_state result" where
  "join_pure x ax left right jt left_on right_on s =
     rbind (rfold (side_pure x ax right_on (build_row_pure x)) right \<lparr>js_encoder = None, js_build = [], js_output = []\<rparr>)
       (rfold (side_pure x ax left_on (probe_row_pure x jt (right_width left right s))) left)"

lemma hash_join_pure:
  "qm_reserved (snd (hash_join x ax left right jt left_on right_on s m)) = qm_reserved m"
  "exhausted (fst (hash_join x ax left right jt left_on right_on s m))
   \<or> fst (hash_join x ax left right jt left_on right_on s m)
     = rbind (join_pure x ax left right jt left_on right_on s) (\<lambda>d. join_output x ax s (js_output d))"
proof -
  let ?f = "join_run x ax left right jt left_on right_on s"
  let ?build = "rfold (side_pure x ax right_on (build_row_pure x)) right"
  let ?probe = "rfold (side_pure x ax left_on (probe_row_pure x jt (right_width left right s))) left"
  let ?g = "\<lambda>d. rbind (effect ?build d) (\<lambda>(_, d1). rbind (effect ?probe d1) (\<lambda>(_, d2).
    inspect (\<lambda>d. join_output x ax s (js_output d)) d2))"
  have "computes ?f ?g"
    unfolding join_run_def build_batch_def probe_batch_def
    by (intro computes_bind computes_loop side_computes build_row_computes probe_row_computes computes_on_data)
  from with_budget_spec [OF join_run_balance this]
  show "qm_reserved (snd (hash_join x ax left right jt left_on right_on s m)) = qm_reserved m"
    "exhausted (fst (hash_join x ax left right jt left_on right_on s m))
     \<or> fst (hash_join x ax left right jt left_on right_on s m)
       = rbind (join_pure x ax left right jt left_on right_on s) (\<lambda>d. join_output x ax s (js_output d))"
    unfolding hash_join_def join_pure_def
    by (simp_all add: computes_simps)
qed

section \<open>The reference: a nested loop\<close>

text \<open>A row of one side is its key and its values.\<close>

type_synonym keyed_row = "cell list \<times> scalar_value list"

definition join_row :: "join_type \<Rightarrow> nat \<Rightarrow> keyed_row list \<Rightarrow> keyed_row \<Rightarrow> scalar_value list list" where
  "join_row jt width right l =
     (let found = filter (\<lambda>r. CNull \<notin> set (fst l) \<and> fst r = fst l) right in
      if found = [] then (if jt = LeftJoin then [snd l @ replicate width SNull] else [])
      else map (\<lambda>r. snd l @ snd r) found)"

definition nested_join :: "join_type \<Rightarrow> nat \<Rightarrow> keyed_row list \<Rightarrow> keyed_row list \<Rightarrow> scalar_value list list" where
  "nested_join jt width left right = concat (map (join_row jt width right) left)"

text \<open>One side of a join: batches of a schema whose key expressions evaluate to columns of given types.\<close>

definition side_ok :: "externs \<Rightarrow> schema \<Rightarrow> expr list \<Rightarrow> data_type list \<Rightarrow> batch list \<Rightarrow> bool" where
  "side_ok x s on ktys bs \<longleftrightarrow> list_all plain_type (field_types s)
     \<and> (\<forall>b\<in>set bs. batch_ok s b
          \<and> (\<exists>ks. rmap (evaluate x b) on = Inr ks \<and> columns_ok ktys (rb_num_rows b) ks))"

definition key_columns :: "externs \<Rightarrow> expr list \<Rightarrow> batch \<Rightarrow> array list" where
  "key_columns x on b = (case rmap (evaluate x b) on of Inr ks \<Rightarrow> ks | Inl _ \<Rightarrow> [])"

definition keyed_row_at :: "externs \<Rightarrow> schema \<Rightarrow> expr list \<Rightarrow> batch \<Rightarrow> nat \<Rightarrow> keyed_row" where
  "keyed_row_at x s on b i =
     (cell_rows (rb_num_rows b) (key_columns x on b) ! i, row_values x (field_types s) (batch_rows b ! i))"

definition keyed_rows :: "externs \<Rightarrow> schema \<Rightarrow> expr list \<Rightarrow> batch list \<Rightarrow> keyed_row list" where
  "keyed_rows x s on bs = concat (map (\<lambda>b. map (keyed_row_at x s on b) [0..<rb_num_rows b]) bs)"

lemma side_okD:
  assumes "side_ok x s on ktys bs" and "b \<in> set bs"
  shows "batch_ok s b" and "rmap (evaluate x b) on = Inr (key_columns x on b)"
    and "columns_ok ktys (rb_num_rows b) (key_columns x on b)"
    and "i < rb_num_rows b \<Longrightarrow> row_scalars x b i = Inr (snd (keyed_row_at x s on b i))"
    and "i < rb_num_rows b \<Longrightarrow> row_ok ktys (fst (keyed_row_at x s on b i))"
proof -
  show "batch_ok s b" using assms by (simp add: side_ok_def)
  show ks: "rmap (evaluate x b) on = Inr (key_columns x on b)" "columns_ok ktys (rb_num_rows b) (key_columns x on b)"
    using assms by (auto simp: side_ok_def key_columns_def)
  show "row_ok ktys (fst (keyed_row_at x s on b i))" if "i < rb_num_rows b"
    using cell_rows_ok [OF ks(2)] that by (simp add: keyed_row_at_def)
  show "row_scalars x b i = Inr (snd (keyed_row_at x s on b i))" if "i < rb_num_rows b"
    using columns_values [of "field_types s" "rb_num_rows b" "rb_columns b"] assms that
    by (auto simp: side_ok_def batch_ok_def row_scalars_def keyed_row_at_def batch_rows_def)
qed

lemma keyed_rows_ok:
  assumes "side_ok x s on ktys bs" and "r \<in> set (keyed_rows x s on bs)"
  shows "row_ok ktys (fst r)"
  using assms side_okD(5) [OF assms(1)] by (auto simp: keyed_rows_def)

text \<open>What the table holds after the build rows \<open>right\<close>.\<close>

definition bucket ::
  "(data_type list \<Rightarrow> cell list \<Rightarrow> bytes) \<Rightarrow> data_type list \<Rightarrow> keyed_row list \<Rightarrow> bytes \<Rightarrow> scalar_value list list" where
  "bucket row ktys right k =
     map snd (filter (\<lambda>r. CNull \<notin> set (fst r) \<and> row_key row ktys (fst r) = k) right)"

definition built ::
  "(data_type list \<Rightarrow> cell list \<Rightarrow> bytes) \<Rightarrow> data_type list \<Rightarrow> keyed_row list \<Rightarrow> join_state \<Rightarrow> bool" where
  "built row ktys right d \<longleftrightarrow>
     (\<forall>k. map_of (js_build d) k = (if bucket row ktys right k = [] then None else Some (bucket row ktys right k)))"

lemma built_push:
  assumes "built row ktys right d"
  shows "built row ktys (right @ [r]) (if CNull \<in> set (fst r) then d else push_build (row_key row ktys (fst r)) (snd r) d)"
  using assms by (auto simp: built_def bucket_def push_build_def split: option.splits)

lemma probe_rows_join_row:
  assumes "row_format ax row" and "list_all plain_type ktys" and "built row ktys right d"
    and "\<forall>r\<in>set right. row_ok ktys (fst r)" and "row_ok ktys (fst l)"
  shows "probe_rows jt w (CNull \<in> set (fst l)) (row_key row ktys (fst l)) (snd l) d = join_row jt w right l"
proof -
  have "filter (\<lambda>r. CNull \<notin> set (fst r) \<and> row_key row ktys (fst r) = row_key row ktys (fst l)) right
      = filter (\<lambda>r. CNull \<notin> set (fst l) \<and> fst r = fst l) right"
    using assms(4,5) row_key_inj [OF assms(1,2)] by (intro filter_cong) auto
  then have "bucket row ktys right (row_key row ktys (fst l))
      = map snd (filter (\<lambda>r. CNull \<notin> set (fst l) \<and> fst r = fst l) right)"
    by (simp add: bucket_def)
  then show ?thesis
    using assms(3) by (auto simp: probe_rows_def join_row_def built_def Let_def comp_def)
qed

text \<open>The assumptions on a join's keys: Arrow encodes their types, and none is the null type.\<close>

definition keys_supported ::
  "arrow_externs \<Rightarrow> (data_type list \<Rightarrow> cell list \<Rightarrow> bytes) \<Rightarrow> data_type list \<Rightarrow> bool" where
  "keys_supported ax row ktys \<longleftrightarrow> row_format ax row \<and> list_all plain_type ktys \<and> TNull \<notin> set ktys
     \<and> ax_rows_new ax ktys = Inr ()"

definition the_encoder :: "data_type list \<Rightarrow> row_key_encoder" where
  "the_encoder ktys = (if ktys = [] then None else Some ktys)"

definition encoder_known :: "data_type list \<Rightarrow> join_state \<Rightarrow> bool" where
  "encoder_known ktys d \<longleftrightarrow> js_encoder d = None \<or> js_encoder d = Some (the_encoder ktys)"

lemma join_keys_ok:
  assumes "keys_supported ax row ktys" and "side_ok x s on ktys bs" and "b \<in> set bs" and "encoder_known ktys d"
  obtains er where "join_keys x ax on b d
      = Inr ((key_columns x on b, er), d\<lparr>js_encoder := Some (the_encoder ktys)\<rparr>)"
    and "\<And>i. i < rb_num_rows b \<Longrightarrow> encoded_key er i = Inr (row_key row ktys (fst (keyed_row_at x s on b i)))"
    and "\<And>i. i < rb_num_rows b \<Longrightarrow> key_has_null (key_columns x on b) i \<longleftrightarrow> CNull \<in> set (fst (keyed_row_at x s on b i))"
proof -
  note b = side_okD [OF assms(2,3)] and k = assms(1) [unfolded keys_supported_def]
  have enc: "encoder_new ax ktys = Inr (the_encoder ktys)" using k by (simp add: encoder_new_def the_encoder_def)
  have "encoder_from_columns ax (key_columns x on b) = Inr (the_encoder ktys)"
    using enc b(3) by (simp add: encoder_from_columns_def columns_ok_def)
  then have "(case js_encoder d of Some enc \<Rightarrow> Inr enc | None \<Rightarrow> encoder_from_columns ax (key_columns x on b))
      = Inr (the_encoder ktys)"
    using assms(4) by (auto simp: encoder_known_def)
  moreover obtain er where "encode_rows ax (the_encoder ktys) (key_columns x on b) (rb_num_rows b) = Inr er"
    "\<And>i. i < rb_num_rows b
      \<Longrightarrow> encoded_key er i = Inr (row_key row ktys (cell_rows (rb_num_rows b) (key_columns x on b) ! i))"
    using encode_rows_keys [OF _ _ b(3) enc] k by metis
  moreover have "key_has_null (key_columns x on b) i \<longleftrightarrow> CNull \<in> set (fst (keyed_row_at x s on b i))"
    if "i < rb_num_rows b" for i
    using key_has_null_iff [OF b(3) that] k by (simp add: keyed_row_at_def)
  ultimately show thesis using that b(2) by (simp add: join_keys_def keyed_row_at_def)
qed

lemma build_rows:
  assumes "\<And>i. i \<in> set js \<Longrightarrow> encoded_key er i = Inr (row_key row ktys (fst (kr i)))"
    and "\<And>i. i \<in> set js \<Longrightarrow> key_has_null ks i \<longleftrightarrow> CNull \<in> set (fst (kr i))"
    and "\<And>i. i \<in> set js \<Longrightarrow> row_scalars x b i = Inr (snd (kr i))"
    and "built row ktys right d"
  shows "\<exists>d'. rfold (build_row_pure x b (ks, er)) js d = Inr d' \<and> built row ktys (right @ map kr js) d'
    \<and> js_encoder d' = js_encoder d \<and> js_output d' = js_output d"
  using assms
proof (induction js arbitrary: d right)
  case (Cons i xs)
  define d1 where "d1 = (if CNull \<in> set (fst (kr i)) then d else push_build (row_key row ktys (fst (kr i))) (snd (kr i)) d)"
  have d1: "build_row_pure x b (ks, er) i d = Inr d1" "js_encoder d1 = js_encoder d" "js_output d1 = js_output d"
    using Cons.prems(1-3) [of i] by (simp_all add: build_row_pure_def d1_def push_build_def)
  have "built row ktys (right @ [kr i]) d1" unfolding d1_def by (rule built_push [OF Cons.prems(4)])
  with Cons.IH [of "right @ [kr i]" d1] Cons.prems(1-3) d1 show ?case by simp
qed simp

lemma build_side:
  assumes "keys_supported ax row ktys" and "side_ok x s on ktys bs" and "set cs \<subseteq> set bs"
    and "encoder_known ktys d" and "built row ktys right d"
  shows "\<exists>d'. rfold (side_pure x ax on (build_row_pure x)) cs d = Inr d' \<and> encoder_known ktys d'
    \<and> built row ktys (right @ keyed_rows x s on cs) d' \<and> js_output d' = js_output d"
  using assms(3-5)
proof (induction cs arbitrary: d right)
  case (Cons b cs)
  obtain er where er: "join_keys x ax on b d
      = Inr ((key_columns x on b, er), d\<lparr>js_encoder := Some (the_encoder ktys)\<rparr>)"
    "\<And>i. i < rb_num_rows b \<Longrightarrow> encoded_key er i = Inr (row_key row ktys (fst (keyed_row_at x s on b i)))"
    "\<And>i. i < rb_num_rows b \<Longrightarrow> key_has_null (key_columns x on b) i \<longleftrightarrow> CNull \<in> set (fst (keyed_row_at x s on b i))"
    using join_keys_ok [OF assms(1,2) _ Cons.prems(2), of b] Cons.prems(1) by auto
  let ?d = "d\<lparr>js_encoder := Some (the_encoder ktys)\<rparr>" and ?rows = "map (keyed_row_at x s on b) [0..<rb_num_rows b]"
  have "built row ktys right ?d" using Cons.prems(3) by (simp add: built_def)
  from build_rows [where kr = "keyed_row_at x s on b" and js = "[0..<rb_num_rows b]" and x = x and b = b
      and er = er and ks = "key_columns x on b", OF _ _ _ this]
  obtain d1 where d1: "rfold (build_row_pure x b (key_columns x on b, er)) [0..<rb_num_rows b] ?d = Inr d1"
    "built row ktys (right @ ?rows) d1" "js_encoder d1 = js_encoder ?d" "js_output d1 = js_output d"
    using er(2,3) side_okD(4) [OF assms(2), of b] Cons.prems(1) by auto
  have "side_pure x ax on (build_row_pure x) b d = Inr d1" using er(1) d1(1) by (simp add: side_pure_def)
  moreover have "encoder_known ktys d1" using d1(3) by (simp add: encoder_known_def)
  ultimately show ?case
    using Cons.IH [of d1 "right @ ?rows"] Cons.prems(1) d1(2,4) by (simp add: keyed_rows_def)
qed (simp add: keyed_rows_def)

lemma probe_rows_fold:
  assumes "\<And>i. i \<in> set js \<Longrightarrow> encoded_key er i = Inr (row_key row ktys (fst (kr i)))"
    and "\<And>i. i \<in> set js \<Longrightarrow> key_has_null ks i \<longleftrightarrow> CNull \<in> set (fst (kr i))"
    and "\<And>i. i \<in> set js \<Longrightarrow> row_scalars x b i = Inr (snd (kr i))"
    and "\<And>i. i \<in> set js \<Longrightarrow> row_ok ktys (fst (kr i))"
    and "row_format ax row" and "list_all plain_type ktys" and "\<forall>r\<in>set right. row_ok ktys (fst r)"
    and "built row ktys right d"
  shows "rfold (probe_row_pure x jt w b (ks, er)) js d
    = Inr (d\<lparr>js_output := js_output d @ nested_join jt w (map kr js) right\<rparr>)"
  using assms(1-4,8)
proof (induction js arbitrary: d)
  case (Cons i xs)
  let ?d = "d\<lparr>js_output := js_output d @ join_row jt w right (kr i)\<rparr>"
  have "probe_row_pure x jt w b (ks, er) i d = Inr ?d"
    using Cons.prems(1-3) [of i] probe_rows_join_row [OF assms(5,6) Cons.prems(5) assms(7) Cons.prems(4) [of i]]
    by (simp add: probe_row_pure_def)
  moreover have "built row ktys right ?d" using Cons.prems(5) by (simp add: built_def)
  ultimately show ?case using Cons.IH [of ?d] Cons.prems(1-4) by (simp add: nested_join_def)
qed (simp add: nested_join_def)

lemma probe_side:
  assumes "keys_supported ax row ktys" and "side_ok x s on ktys bs" and "set cs \<subseteq> set bs"
    and "\<forall>r\<in>set right. row_ok ktys (fst r)" and "encoder_known ktys d" and "built row ktys right d"
  shows "\<exists>d'. rfold (side_pure x ax on (probe_row_pure x jt w)) cs d = Inr d'
    \<and> js_output d' = js_output d @ nested_join jt w (keyed_rows x s on cs) right"
  using assms(3,5,6)
proof (induction cs arbitrary: d)
  case (Cons b cs)
  obtain er where er: "join_keys x ax on b d
      = Inr ((key_columns x on b, er), d\<lparr>js_encoder := Some (the_encoder ktys)\<rparr>)"
    "\<And>i. i < rb_num_rows b \<Longrightarrow> encoded_key er i = Inr (row_key row ktys (fst (keyed_row_at x s on b i)))"
    "\<And>i. i < rb_num_rows b \<Longrightarrow> key_has_null (key_columns x on b) i \<longleftrightarrow> CNull \<in> set (fst (keyed_row_at x s on b i))"
    using join_keys_ok [OF assms(1,2) _ Cons.prems(2), of b] Cons.prems(1) by auto
  let ?d = "d\<lparr>js_encoder := Some (the_encoder ktys)\<rparr>" and ?rows = "map (keyed_row_at x s on b) [0..<rb_num_rows b]"
  let ?d1 = "?d\<lparr>js_output := js_output d @ nested_join jt w ?rows right\<rparr>"
  have "built row ktys right ?d" "row_format ax row" "list_all plain_type ktys"
    using Cons.prems(3) assms(1) by (simp_all add: built_def keys_supported_def)
  then have "rfold (probe_row_pure x jt w b (key_columns x on b, er)) [0..<rb_num_rows b] ?d = Inr ?d1"
    using er(2,3) side_okD(4,5) [OF assms(2), of b] Cons.prems(1) assms(4)
    by (subst probe_rows_fold [where kr = "keyed_row_at x s on b"]) auto
  then have "side_pure x ax on (probe_row_pure x jt w) b d = Inr ?d1" using er(1) by (simp add: side_pure_def)
  moreover have "encoder_known ktys ?d1" "built row ktys right ?d1"
    using Cons.prems(3) by (simp_all add: encoder_known_def built_def)
  ultimately show ?case
    using Cons.IH [of ?d1] Cons.prems(1) by (auto simp: keyed_rows_def nested_join_def)
qed (simp add: keyed_rows_def nested_join_def)

lemma join_pure_nested:
  assumes "keys_supported ax row ktys" and "side_ok x ls left_on ktys left" and "side_ok x rs right_on ktys right"
  shows "\<exists>d. join_pure x ax left right jt left_on right_on s = Inr d
    \<and> js_output d = nested_join jt (right_width left right s) (keyed_rows x ls left_on left) (keyed_rows x rs right_on right)"
proof -
  let ?d = "\<lparr>js_encoder = None, js_build = [], js_output = []\<rparr>"
  have "encoder_known ktys ?d" "built row ktys [] ?d" by (simp_all add: encoder_known_def built_def bucket_def)
  from build_side [OF assms(1,3) order_refl this]
  obtain d1 where d1: "rfold (side_pure x ax right_on (build_row_pure x)) right ?d = Inr d1"
    "encoder_known ktys d1" "built row ktys (keyed_rows x rs right_on right) d1" "js_output d1 = []"
    by auto
  then show ?thesis
    using probe_side [OF assms(1,2) order_refl _ d1(2,3), of jt "right_width left right s"] keyed_rows_ok [OF assms(3)]
    by (auto simp: join_pure_def)
qed

section \<open>Enough memory\<close>

text \<open>
  A bound on what a join reserves: the encoded keys of every batch, an entry for every build row, and
  every output row.
\<close>

definition side_keys ::
  "externs \<Rightarrow> arrow_externs \<Rightarrow> data_type list \<Rightarrow> expr list \<Rightarrow> batch \<Rightarrow> (array list \<times> encoded_rows) result" where
  "side_keys x ax ktys on b =
     rbind (rmap (evaluate x b) on) (\<lambda>ks.
     rbind (encode_rows ax (the_encoder ktys) ks (rb_num_rows b)) (\<lambda>er. Inr (ks, er)))"

definition build_row_cost :: "externs \<Rightarrow> arrow_externs \<Rightarrow> batch \<Rightarrow> array list \<times> encoded_rows \<Rightarrow> nat \<Rightarrow> nat" where
  "build_row_cost x ax b ks i =
     (case rbind (encoded_key (snd ks) i) (\<lambda>k. rbind (row_scalars x b i) (\<lambda>vs. Inr (k, vs))) of
        Inl _ \<Rightarrow> 0
      | Inr (k, vs) \<Rightarrow> 32 + unat (encoded_key_memory_bytes k) + 24 + unat (scalar_vec_memory_bytes ax vs))"

definition side_cost ::
  "externs \<Rightarrow> arrow_externs \<Rightarrow> data_type list \<Rightarrow> expr list \<Rightarrow> (batch \<Rightarrow> array list \<times> encoded_rows \<Rightarrow> nat \<Rightarrow> nat) \<Rightarrow> batch \<Rightarrow> nat" where
  "side_cost x ax ktys on c b =
     (case side_keys x ax ktys on b of
        Inl _ \<Rightarrow> 0
      | Inr ks \<Rightarrow> unat (encoded_memory_size ax (snd ks)) + sum_list (map (c b ks) [0..<rb_num_rows b]))"

definition output_bytes :: "arrow_externs \<Rightarrow> scalar_value list list \<Rightarrow> nat" where
  "output_bytes ax rows = sum_list (map (\<lambda>r. unat (scalar_vec_memory_bytes ax r)) rows)"

definition join_budget ::
  "externs \<Rightarrow> arrow_externs \<Rightarrow> data_type list \<Rightarrow> expr list \<Rightarrow> expr list \<Rightarrow> batch list \<Rightarrow> batch list \<Rightarrow> scalar_value list list \<Rightarrow> nat" where
  "join_budget x ax ktys left_on right_on left right rows =
     sum_list (map (side_cost x ax ktys right_on (build_row_cost x ax)) right)
     + sum_list (map (side_cost x ax ktys left_on (\<lambda>_ _ _. 0)) left) + output_bytes ax rows"

lemma build_bytes_bound:
  "unat (build_bytes ax k vs d) \<le> 32 + unat (encoded_key_memory_bytes k) + 24 + unat (scalar_vec_memory_bytes ax vs)"
  by (auto simp: build_bytes_def Let_def HASH_ENTRY_OVERHEAD_BYTES_def unat_saturating_add split: option.splits)

lemma build_row_pays:
  "pays 1 (\<lambda>_. build_row_cost x ax b ks i) (build_row x ax b ks i) (effect (build_row_pure x b ks i))"
proof (cases "key_has_null (fst ks) i")
  case True
  then have "build_row x ax b ks i = on_data (effect Inr)" "effect (build_row_pure x b ks i) = effect Inr"
    by (simp_all add: build_row_def fun_eq_iff effect_def build_row_pure_def)
  then show ?thesis by (auto intro: pays_weaken [OF pays_on_data])
next
  case False
  show ?thesis
    unfolding build_row_def if_not_P [OF False] case_prod_unfold
    apply (rule pays_weaken, rule pays_bind, rule pays_on_data, rule pays_bind, rule pays_grow_at, simp, rule pays_on_data)
    subgoal for d
      using build_bytes_bound
      by (auto simp: cost_bind_def inspect_def effect_def build_row_cost_def rbind_def split: sum.splits)
    subgoal for d
      using False by (simp add: build_row_pure_def computes_simps)
    done
qed

lemma push_rows_pays:
  "pays 1 (\<lambda>_. output_bytes ax rows) (loop (push_row ax) rows) (effect (\<lambda>d. Inr (d\<lparr>js_output := js_output d @ rows\<rparr>)))"
proof -
  have row: "pays 1 (\<lambda>_. unat (scalar_vec_memory_bytes ax r)) (push_row ax r)
      (effect (\<lambda>d. Inr (d\<lparr>js_output := js_output d @ [r]\<rparr>)))" for r
    unfolding push_row_def
    by (rule pays_weaken, rule pays_bind, rule pays_grow_at, simp, rule pays_on_data) (auto simp: cost_bind_def effect_def)
  have "rfold (\<lambda>r d. Inr (d\<lparr>js_output := js_output d @ [r]\<rparr>)) rows d = Inr (d\<lparr>js_output := js_output d @ rows\<rparr>)"
    for d :: join_state
    by (induction rows arbitrary: d) simp_all
  then show ?thesis
    using loop_cost_bound [where xs = rows and b = "\<lambda>r. unat (scalar_vec_memory_bytes ax r)"
        and c = "\<lambda>r d. unat (scalar_vec_memory_bytes ax r)"]
    by (intro pays_weaken [OF pays_loop [OF row]]) (auto simp: effect_def output_bytes_def)
qed

definition probe_row_cost ::
  "externs \<Rightarrow> arrow_externs \<Rightarrow> join_type \<Rightarrow> nat \<Rightarrow> batch \<Rightarrow> array list \<times> encoded_rows \<Rightarrow> nat \<Rightarrow> join_state \<Rightarrow> nat" where
  "probe_row_cost x ax jt w b ks i d =
     (case rbind (encoded_key (snd ks) i) (\<lambda>k. rbind (row_scalars x b i) (\<lambda>vs.
         Inr (probe_rows jt w (key_has_null (fst ks) i) k vs d))) of
        Inl _ \<Rightarrow> 0 | Inr rows \<Rightarrow> output_bytes ax rows)"

lemma probe_row_pays:
  "pays 1 (probe_row_cost x ax jt w b ks i) (probe_row x ax jt w b ks i) (effect (probe_row_pure x jt w b ks i))"
  unfolding probe_row_def
  apply (rule pays_weaken, rule pays_bind, rule pays_on_data, rule push_rows_pays)
  subgoal for d by (auto simp: cost_bind_def inspect_def probe_row_cost_def rbind_def split: sum.splits)
  subgoal for d by (simp add: probe_row_pure_def computes_simps)
  done

definition side_state_cost ::
  "externs \<Rightarrow> arrow_externs \<Rightarrow> expr list \<Rightarrow> (batch \<Rightarrow> array list \<times> encoded_rows \<Rightarrow> nat \<Rightarrow> join_state \<Rightarrow> nat)
   \<Rightarrow> (batch \<Rightarrow> array list \<times> encoded_rows \<Rightarrow> nat \<Rightarrow> join_state \<Rightarrow> join_state result) \<Rightarrow> batch \<Rightarrow> join_state \<Rightarrow> nat" where
  "side_state_cost x ax on c g b d =
     (case join_keys x ax on b d of
        Inl _ \<Rightarrow> 0
      | Inr (ks, d') \<Rightarrow> unat (encoded_memory_size ax (snd ks)) + loop_cost (c b ks) (g b ks) [0..<rb_num_rows b] d')"

lemma side_pays:
  assumes "\<And>ks i. pays 1 (c b ks i) (f ks i) (effect (g b ks i))"
  shows "pays 1 (side_state_cost x ax on c g b) (charged_bind (on_data (join_keys x ax on b)) (\<lambda>ks.
      scoped (encoded_memory_size ax (snd ks)) (loop (f ks) [0..<rb_num_rows b]))) (effect (side_pure x ax on g b))"
  apply (rule pays_weaken, rule pays_bind, rule pays_on_data, rule pays_scoped, rule pays_loop, rule assms)
  subgoal for d by (auto simp: cost_bind_def side_state_cost_def split: sum.splits)
  subgoal for d by (simp add: side_pure_def computes_simps)
  done

lemma side_step:
  assumes "keys_supported ax row ktys" and "side_ok x s on ktys bs" and "b \<in> set bs" and "encoder_known ktys d"
    and "side_pure x ax on g b d = Inr d2"
    and "\<And>ks i a a'. g b ks i a = Inr a' \<Longrightarrow> js_encoder a' = js_encoder a \<and> c b ks i a + v a \<le> e b ks i + v a'"
    and "\<And>d enc. v (d\<lparr>js_encoder := enc\<rparr>) = v d"
  shows "encoder_known ktys d2 \<and> side_state_cost x ax on c g b d + v d \<le> side_cost x ax ktys on e b + v d2"
proof -
  let ?d = "d\<lparr>js_encoder := Some (the_encoder ktys)\<rparr>"
  obtain ks where ks: "join_keys x ax on b d = Inr (ks, ?d)" using join_keys_ok [OF assms(1-4)] by metis
  then have keys: "side_keys x ax ktys on b = Inr ks"
    by (auto simp: join_keys_def side_keys_def rbind_eq_Inr dest: arg_cong [where f = js_encoder])
  have run: "rfold (g b ks) [0..<rb_num_rows b] ?d = Inr d2" using assms(5) ks by (simp add: side_pure_def)
  have "loop_cost (c b ks) (g b ks) [0..<rb_num_rows b] ?d + v ?d
      \<le> sum_list (map (e b ks) [0..<rb_num_rows b]) + v d2"
    by (rule loop_cost_potential [OF run, where P = "\<lambda>_. True"]) (use assms(6) in auto)
  moreover have "js_encoder d2 = Some (the_encoder ktys)"
    by (rule rfold_invariant [OF run, where P = "\<lambda>a. js_encoder a = Some (the_encoder ktys)"]) (use assms(6) in auto)
  ultimately show ?thesis
    using assms(7) by (simp add: side_state_cost_def side_cost_def ks keys encoder_known_def)
qed

lemma side_total:
  assumes "keys_supported ax row ktys" and "side_ok x s on ktys bs" and "encoder_known ktys d"
    and "rfold (side_pure x ax on g) bs d = Inr d2"
    and "\<And>b ks i a a'. g b ks i a = Inr a' \<Longrightarrow> js_encoder a' = js_encoder a \<and> c b ks i a + v a \<le> e b ks i + v a'"
    and "\<And>d enc. v (d\<lparr>js_encoder := enc\<rparr>) = v d"
  shows "encoder_known ktys d2"
    and "loop_cost (side_state_cost x ax on c g) (side_pure x ax on g) bs d + v d
      \<le> sum_list (map (side_cost x ax ktys on e) bs) + v d2"
proof -
  have step: "encoder_known ktys a' \<and> side_state_cost x ax on c g b a + v a \<le> side_cost x ax ktys on e b + v a'"
    if "b \<in> set bs" "encoder_known ktys a" "side_pure x ax on g b a = Inr a'" for b a a'
    by (rule side_step [OF assms(1,2) that]) (use assms(5,6) in auto)
  show "encoder_known ktys d2"
    by (rule rfold_invariant [where P = "encoder_known ktys", OF assms(4,3)]) (use step in blast)
  show "loop_cost (side_state_cost x ax on c g) (side_pure x ax on g) bs d + v d
      \<le> sum_list (map (side_cost x ax ktys on e) bs) + v d2"
    by (rule loop_cost_potential [where P = "encoder_known ktys", OF assms(4,3)]) (use step in blast)
qed

definition build_cost :: "externs \<Rightarrow> arrow_externs \<Rightarrow> expr list \<Rightarrow> batch list \<Rightarrow> join_state \<Rightarrow> nat" where
  "build_cost x ax on = loop_cost (side_state_cost x ax on (\<lambda>b ks i d. build_row_cost x ax b ks i) (build_row_pure x))
     (side_pure x ax on (build_row_pure x))"

definition probe_cost :: "externs \<Rightarrow> arrow_externs \<Rightarrow> join_type \<Rightarrow> nat \<Rightarrow> expr list \<Rightarrow> batch list \<Rightarrow> join_state \<Rightarrow> nat" where
  "probe_cost x ax jt w on = loop_cost (side_state_cost x ax on (probe_row_cost x ax jt w) (probe_row_pure x jt w))
     (side_pure x ax on (probe_row_pure x jt w))"

lemma build_pays:
  "pays 1 (build_cost x ax on bs) (loop (build_batch x ax on) bs) (effect (rfold (side_pure x ax on (build_row_pure x)) bs))"
  unfolding build_cost_def build_batch_def by (rule pays_loop, rule side_pays, rule build_row_pays)

lemma probe_pays:
  "pays 1 (probe_cost x ax jt w on bs) (loop (probe_batch x ax jt w on) bs)
     (effect (rfold (side_pure x ax on (probe_row_pure x jt w)) bs))"
  unfolding probe_cost_def probe_batch_def by (rule pays_loop, rule side_pays, rule probe_row_pays)

lemma build_cost_bound:
  assumes "keys_supported ax row ktys" and "side_ok x s on ktys bs" and "encoder_known ktys d"
    and "rfold (side_pure x ax on (build_row_pure x)) bs d = Inr d1"
  shows "encoder_known ktys d1"
    and "build_cost x ax on bs d \<le> sum_list (map (side_cost x ax ktys on (build_row_cost x ax)) bs)"
proof -
  have step: "js_encoder a' = js_encoder a \<and> build_row_cost x ax b ks i + 0 \<le> build_row_cost x ax b ks i + 0"
    if "build_row_pure x b ks i a = Inr a'" for b ks i a a'
    using that by (auto simp: build_row_pure_def rbind_eq_Inr push_build_def split: if_splits)
  note total = side_total [where v = "\<lambda>_. 0" and c = "\<lambda>b ks i d. build_row_cost x ax b ks i" and e = "build_row_cost x ax",
      OF assms step refl]
  show "encoder_known ktys d1" by (rule total(1))
  show "build_cost x ax on bs d \<le> sum_list (map (side_cost x ax ktys on (build_row_cost x ax)) bs)"
    using total(2) unfolding build_cost_def by simp
qed

lemma probe_cost_bound:
  assumes "keys_supported ax row ktys" and "side_ok x s on ktys bs" and "encoder_known ktys d"
    and "rfold (side_pure x ax on (probe_row_pure x jt w)) bs d = Inr d1"
  shows "probe_cost x ax jt w on bs d + output_bytes ax (js_output d)
    \<le> sum_list (map (side_cost x ax ktys on (\<lambda>_ _ _. 0)) bs) + output_bytes ax (js_output d1)"
proof -
  have step: "js_encoder a' = js_encoder a
      \<and> probe_row_cost x ax jt w b ks i a + output_bytes ax (js_output a) \<le> 0 + output_bytes ax (js_output a')"
    if "probe_row_pure x jt w b ks i a = Inr a'" for b ks i a a'
    using that by (auto simp: probe_row_pure_def probe_row_cost_def rbind_eq_Inr output_bytes_def)
  show ?thesis
    unfolding probe_cost_def
    by (rule side_total(2) [where v = "\<lambda>d. output_bytes ax (js_output d)" and e = "\<lambda>_ _ _. 0", OF assms step]) simp_all
qed

lemma hash_join_enough:
  assumes "keys_supported ax row ktys" and "side_ok x ls left_on ktys left" and "side_ok x rs right_on ktys right"
    and "join_pure x ax left right jt left_on right_on s = Inr d"
    and "unat (qm_reserved m) + join_budget x ax ktys left_on right_on left right (js_output d) \<le> unat (qm_limit m)"
  shows "fst (hash_join x ax left right jt left_on right_on s m) = join_output x ax s (js_output d)"
proof -
  let ?w = "right_width left right s" and ?d0 = "\<lparr>js_encoder = None, js_build = [], js_output = []\<rparr>"
  let ?build = "rfold (side_pure x ax right_on (build_row_pure x)) right"
  let ?probe = "rfold (side_pure x ax left_on (probe_row_pure x jt ?w)) left"
  let ?cost = "cost_bind (build_cost x ax right_on right) (effect ?build)
    (\<lambda>_. cost_bind (probe_cost x ax jt ?w left_on left) (effect ?probe) (\<lambda>_ _. 0))"
  let ?g = "\<lambda>d. rbind (effect ?build d) (\<lambda>(_, d1). rbind (effect ?probe d1) (\<lambda>(_, d2).
    inspect (\<lambda>d. join_output x ax s (js_output d)) d2))"
  have pays: "pays 1 ?cost (join_run x ax left right jt left_on right_on s) ?g"
    unfolding join_run_def by (rule pays_bind, rule build_pays, rule pays_bind, rule probe_pays, rule pays_on_data)
  obtain d1 where d1: "?build ?d0 = Inr d1" "?probe d1 = Inr d" using assms(4) by (auto simp: join_pure_def rbind_eq_Inr)
  have fresh: "encoder_known ktys ?d0" "built row ktys [] ?d0" by (simp_all add: encoder_known_def built_def bucket_def)
  note b = build_cost_bound [OF assms(1,3) fresh(1) d1(1)]
  have "js_output d1 = []" using build_side [OF assms(1,3) order_refl fresh] d1(1) by auto
  then have "?cost ?d0 \<le> join_budget x ax ktys left_on right_on left right (js_output d)"
    using b(2) probe_cost_bound [OF assms(1,2) b(1) d1(2)] d1
    by (simp add: cost_bind_def effect_def join_budget_def output_bytes_def)
  then have "unat (qm_reserved m) + ?cost ?d0 \<le> unat (qm_limit m)" using assms(5) by linarith
  from with_budget_enough [OF pays this]
  have "fst (hash_join x ax left right jt left_on right_on s m) = rbind (?g ?d0) (\<lambda>(a, _). Inr a)"
    by (simp only: hash_join_def)
  also have "\<dots> = join_output x ax s (js_output d)"
    using d1 by (simp add: effect_def inspect_def rbind_assoc)
  finally show ?thesis .
qed

lemma hash_join_spec:
  assumes "keys_supported ax row ktys"
    and "side_ok x ls left_on ktys left" and "side_ok x rs right_on ktys right"
  shows "case hash_join x ax left right jt left_on right_on s m of (r, m') \<Rightarrow>
    let rows = nested_join jt (right_width left right s) (keyed_rows x ls left_on left) (keyed_rows x rs right_on right) in
    qm_reserved m' = qm_reserved m \<and> (exhausted r \<or> r = join_output x ax s rows)
    \<and> (unat (qm_reserved m) + join_budget x ax ktys left_on right_on left right rows \<le> unat (qm_limit m)
       \<longrightarrow> r = join_output x ax s rows)"
proof -
  obtain d where d: "join_pure x ax left right jt left_on right_on s = Inr d"
    "js_output d = nested_join jt (right_width left right s) (keyed_rows x ls left_on left) (keyed_rows x rs right_on right)"
    using join_pure_nested [OF assms, of jt s] by blast
  show ?thesis
    using hash_join_pure [of x ax left right jt left_on right_on s m] hash_join_enough [OF assms d(1), of m] d
    by (auto simp: Let_def split: prod.splits)
qed


text \<open>Join keys that are columns, and the batch made of the joined rows.\<close>

lemma column_keys:
  assumes "list_all plain_type (field_types s)" and "\<forall>b\<in>set bs. batch_ok s b"
    and "rmap (find_column s) names = Inr cs" and "\<forall>c\<in>set cs. c < length (field_types s)"
  shows "side_ok x s (map Column names) (map ((!) (field_types s)) cs) bs"
    and "keyed_rows x s (map Column names) bs
      = map (\<lambda>r. (map ((!) r) cs, row_values x (field_types s) r)) (concat (map batch_rows bs))"
proof -
  let ?on = "map Column names" and ?ktys = "map ((!) (field_types s)) cs"
  have b: "rmap (evaluate x b) ?on = Inr (map ((!) (rb_columns b)) cs)
      \<and> columns_ok ?ktys (rb_num_rows b) (map ((!) (rb_columns b)) cs)
      \<and> cell_rows (rb_num_rows b) (map ((!) (rb_columns b)) cs) = map (\<lambda>r. map ((!) r) cs) (batch_rows b)"
    if "b \<in> set bs" for b
  proof -
    have ok: "rb_schema b = s" "columns_ok (field_types s) (rb_num_rows b) (rb_columns b)"
      using assms(2) that by (auto simp: batch_ok_def)
    note cols = columns_okD [OF ok(2)]
    have "length names = length cs" using rmap_length [OF assms(3)] by simp
    moreover have "evaluate x b (Column (names ! i)) = Inr (rb_columns b ! (cs ! i))" if "i < length names" for i
      using rmap_nth [OF assms(3) that] assms(4) that cols(1) ok(1) calculation by (simp add: batch_column_def)
    ultimately have "rmap (evaluate x b) ?on = Inr (map ((!) (rb_columns b)) cs)"
      by (auto simp: rmap_eq_Inr list_all2_conv_all_nth)
    moreover have "columns_ok ?ktys (rb_num_rows b) (map ((!) (rb_columns b)) cs)"
      using assms(4) cols by (auto simp: columns_ok_def)
    moreover have "cell_rows (rb_num_rows b) (map ((!) (rb_columns b)) cs) = map (\<lambda>r. map ((!) r) cs) (batch_rows b)"
      unfolding batch_rows_def using assms(4) cols(1) by (intro cell_rows_nth_columns) simp
    ultimately show ?thesis by blast
  qed
  then show "side_ok x s ?on ?ktys bs" using assms(1,2) by (auto simp: side_ok_def)
  have "map (keyed_row_at x s ?on b) [0..<rb_num_rows b]
      = map (\<lambda>r. (map ((!) r) cs, row_values x (field_types s) r)) (batch_rows b)" if "b \<in> set bs" for b
    using b [OF that] by (auto simp: keyed_row_at_def key_columns_def batch_rows_def intro!: nth_equalityI)
  then show "keyed_rows x s ?on bs
      = map (\<lambda>r. (map ((!) r) cs, row_values x (field_types s) r)) (concat (map batch_rows bs))"
    by (simp add: keyed_rows_def map_concat comp_def cong: map_cong)
qed

definition rows_fit :: "externs \<Rightarrow> schema \<Rightarrow> scalar_value list list \<Rightarrow> bool" where
  "rows_fit x s rows \<longleftrightarrow>
     (\<forall>r\<in>set rows. length r = length (schema_fields s) \<and> row_admitted s (row_cells x s r))"

lemma join_output_rows:
  assumes "kernels_ok ax" and "buildable_schema s" and "rows_fit x s rows"
  shows "join_output x ax s rows = Inr (batch_of_rows s (map (row_cells x s) rows))"
proof -
  let ?n = "length (schema_fields s)"
  let ?col = "\<lambda>j. array_of (field_types s ! j) (map (\<lambda>r. cell_of_scalar x (field_types s ! j) (r ! j)) rows)"
  have len: "\<forall>r\<in>set rows. length r = ?n" using assms(3) by (simp add: rows_fit_def)
  have "scalars_to_array x (map (\<lambda>r. r ! j) (filter (\<lambda>r. j < length r) rows)) (field_type (schema_fields s ! j))
      = Inr (?col j)" if "j < ?n" for j
  proof -
    have "filter (\<lambda>r. j < length r) rows = rows" using len that by (intro filter_True) auto
    moreover have "buildable (field_type (schema_fields s ! j))"
      using assms(2) that by (auto simp: buildable_schema_def field_types_def list_all_iff)
    ultimately show ?thesis using that by (simp add: scalars_to_array_buildable field_types_def comp_def)
  qed
  then have "rmap (\<lambda>j. scalars_to_array x (map (\<lambda>r. r ! j) (filter (\<lambda>r. j < length r) rows))
      (field_type (schema_fields s ! j))) [0..<?n] = Inr (map ?col [0..<?n])"
    by (intro rmap_Inr_map) simp
  moreover have "map ?col [0..<?n] = columns_of (field_types s) (map (row_cells x s) rows)"
    using len by (auto simp: columns_of_def field_types_def row_cells_def comp_def array_of_def intro!: nth_equalityI)
  moreover have "ax_try_new ax s (columns_of (field_types s) (map (row_cells x s) rows))
      = Inr (batch_of_rows s (map (row_cells x s) rows))"
    using assms by (intro try_new_rows) (auto simp: rows_fit_def buildable_schema_def)
  ultimately show ?thesis using len by (auto simp: join_output_def list_ex_iff)
qed

section \<open>An instance\<close>

lemma sample_keys_supported: "keys_supported sample_ax sample_row [TInt64]"
  using sample_row_format by (simp add: keys_supported_def plain_type_def)

lemma sample_side:
  "side_ok sample_externs sample_schema [Column ''id''] [TInt64] [sample_batch]"
  "keyed_rows sample_externs sample_schema [Column ''id''] [sample_batch]
   = [([CI64 1], [SInt64 1, SBoolean True]), ([CI64 2], [SInt64 2, SNull]), ([CI64 1], [SInt64 1, SBoolean False])]"
proof -
  have "rmap (find_column sample_schema) [''id''] = Inr [0]" by (simp add: sample_id_resolves)
  note keys = column_keys [where x = sample_externs and bs = "[sample_batch]", OF _ _ this]
  show "side_ok sample_externs sample_schema [Column ''id''] [TInt64] [sample_batch]"
    using keys(1) sample_batch_ok by (simp add: sample_types plain_type_def)
  show "keyed_rows sample_externs sample_schema [Column ''id''] [sample_batch]
   = [([CI64 1], [SInt64 1, SBoolean True]), ([CI64 2], [SInt64 2, SNull]), ([CI64 1], [SInt64 1, SBoolean False])]"
    using keys(2) sample_batch_ok
    by (simp add: sample_types plain_type_def sample_rows_def row_values_def cell_value_def value_of_cell_def)
qed

abbreviation "sample_joined \<equiv>
  [[SInt64 1, SBoolean True, SInt64 1, SBoolean True], [SInt64 1, SBoolean True, SInt64 1, SBoolean False],
   [SInt64 2, SNull, SInt64 2, SNull],
   [SInt64 1, SBoolean False, SInt64 1, SBoolean True], [SInt64 1, SBoolean False, SInt64 1, SBoolean False]]"

lemma sample_side_keys:
  "side_keys sample_externs sample_ax [TInt64] [Column ''id''] sample_batch
   = Inr ([array_of TInt64 [CI64 1, CI64 2, CI64 1]], EncodedRows (map (sample_row [TInt64]) [[CI64 1], [CI64 2], [CI64 1]]))"
  by (simp add: side_keys_def batch_column_def sample_batch_columns sample_id_resolves the_encoder_def encode_rows_def
      sample_ax_def column_length_def cell_rows_def array_of_def numeral_3_eq_3)

lemma sample_sizes:
  "ax_sizeof_scalar sample_ax = 24" "ax_rows_size sample_ax keys = of_nat (sum_list (map length keys))"
  by (simp_all add: sample_ax_def)

lemma sample_vec_bytes:
  "scalar_vec_memory_bytes sample_ax [SInt64 a, SBoolean b] = 72" "scalar_vec_memory_bytes sample_ax [SInt64 a, SNull] = 72"
  "scalar_vec_memory_bytes sample_ax [SInt64 a, SBoolean b, SInt64 c, SBoolean d] = 120"
  "scalar_vec_memory_bytes sample_ax [SInt64 a, SNull, SInt64 c, SNull] = 120"
  by (simp_all add: scalar_vec_memory_bytes_def sample_sizes saturating_add_def)

lemma sample_row_length: "length (sample_row tys [CI64 1]) = 6" "length (sample_row tys [CI64 2]) = 7"
  by (simp_all add: sample_row_def nat_code_def)

lemma sample_row_scalars:
  "row_scalars sample_externs sample_batch 0 = Inr [SInt64 1, SBoolean True]"
  "row_scalars sample_externs sample_batch (Suc 0) = Inr [SInt64 2, SNull]"
  "row_scalars sample_externs sample_batch (Suc (Suc 0)) = Inr [SInt64 1, SBoolean False]"
  by (simp_all add: row_scalars_def sample_batch_columns array_of_def value_at_def value_of_cell_def)

lemma sample_join_budget:
  "join_budget sample_externs sample_ax [TInt64] [Column ''id''] [Column ''id''] [sample_batch] [sample_batch] sample_joined \<le> 3000"
  by (simp add: join_budget_def side_cost_def sample_side_keys build_row_cost_def upt_rec sample_batch_columns
      sample_row_scalars encoded_key_memory_bytes_def sample_row_length saturating_add_def sample_vec_bytes
      output_bytes_def sample_sizes)


end
