(* ===== verification/Grouping.thy ===== *)
theory Grouping
  imports Budget Btree_Map
begin

text \<open>
  A table of groups that is filled row by row, as the hash aggregation and the merge of partial
  aggregates fill theirs: a row with a new key starts a fresh entry, and every row updates the entry
  of its key.  The locale \<open>grouping\<close> is the contract of the entries; under it the table is known in
  closed form.
\<close>

definition group_step ::
  "('v \<Rightarrow> 's \<Rightarrow> 's result) \<Rightarrow> 's \<Rightarrow> ('k::linorder) \<times> 'v \<Rightarrow> ('k, 's) btree \<Rightarrow> ('k, 's) btree result" where
  "group_step upd new r d =
     rbind (upd (snd r) (case map_of d (fst r) of Some st \<Rightarrow> st | None \<Rightarrow> new)) (\<lambda>st. Inr (bt_insert (fst r) st d))"

definition values_of :: "'k \<Rightarrow> ('k \<times> 'v) list \<Rightarrow> 'v list" where
  "values_of k rows = map snd (filter (\<lambda>r. fst r = k) rows)"

lemma values_of_snoc: "values_of k (rows @ [r]) = (if fst r = k then values_of k rows @ [snd r] else values_of k rows)"
  by (simp add: values_of_def)

lemma values_of_append: "values_of k (rows @ rows') = values_of k rows @ values_of k rows'"
  by (simp add: values_of_def)

lemma values_of_Nil [simp]: "values_of k [] = []"
  by (simp add: values_of_def)

lemma values_of_map: "inj_on f (insert k (fst ` set rows)) \<Longrightarrow> values_of (f k) (map (apfst f) rows) = values_of k rows"
  by (induction rows) (auto simp: values_of_def inj_on_def)

lemma rfold_concat: "rfold f (concat xss) = rfold (rfold f) xss"
proof (induction xss)
  case (Cons xs xss)
  then show ?case by (intro ext) (simp add: rfold_append)
qed (simp add: fun_eq_iff)

text \<open>A loop whose body agrees with another one on the states it reaches.\<close>

lemma rfold_simulates:
  assumes "\<And>x d. x \<in> set xs \<Longrightarrow> P d \<Longrightarrow> f x d = g (h x) d"
    and "\<And>x d d'. x \<in> set xs \<Longrightarrow> P d \<Longrightarrow> g (h x) d = Inr d' \<Longrightarrow> P d'" and "P d"
  shows "rfold f xs d = rfold g (map h xs) d"
  using assms
proof (induction xs arbitrary: d)
  case (Cons x xs)
  show ?case
  proof (cases "g (h x) d")
    case (Inl e)
    then show ?thesis using Cons.prems(1) [of x d] Cons.prems(3) by simp
  next
    case (Inr d')
    have "rfold f xs d' = rfold g (map h xs) d'"
    proof (rule Cons.IH)
      show "f y e = g (h y) e" if "y \<in> set xs" "P e" for y e
        using Cons.prems(1) [of y e] that by simp
      show "P e'" if "y \<in> set xs" "P e" "g (h y) e = Inr e'" for y e e'
        using Cons.prems(2) [of y e e'] that by simp
      show "P d'" using Cons.prems(2) [of x d d'] Cons.prems(3) Inr by simp
    qed
    then show ?thesis using Inr Cons.prems(1) [of x d] Cons.prems(3) by simp
  qed
qed simp

locale grouping =
  fixes upd :: "'v \<Rightarrow> 's \<Rightarrow> 's result" and new :: 's and after :: "'v list \<Rightarrow> 's" and ok :: "'v list \<Rightarrow> bool"
  assumes after_nil: "after [] = new"
    and after_snoc: "ok (vs @ [v]) \<Longrightarrow> upd v (after vs) = Inr (after (vs @ [v]))"
    and ok_prefix: "ok (vs @ ws) \<Longrightarrow> ok vs"
begin

definition table :: "('k::linorder) set \<Rightarrow> ('k \<times> 'v) list \<Rightarrow> ('k, 's) btree" where
  "table B rows = map (\<lambda>k. (k, after (values_of k rows))) (sorted_list_of_set (B \<union> fst ` set rows))"

lemma table_sorted: "bt_ok (table B rows)"
  by (simp add: table_def bt_ok_def comp_def)

lemma map_of_table:
  "finite B \<Longrightarrow> map_of (table B rows) k = (if k \<in> B \<union> fst ` set rows then Some (after (values_of k rows)) else None)"
  by (simp add: table_def map_of_map_restrict restrict_map_def)

lemma table_step:
  assumes "finite B" and "ok (values_of (fst r) (rows @ [r]))"
  shows "group_step upd new r (table B rows) = Inr (table B (rows @ [r]))"
proof -
  have "(case map_of (table B rows) (fst r) of Some st \<Rightarrow> st | None \<Rightarrow> new) = after (values_of (fst r) rows)"
  proof (cases "fst r \<in> fst ` set rows")
    case False
    then have "values_of (fst r) rows = []" by (auto simp: values_of_def filter_empty_conv image_iff)
    then show ?thesis using assms(1) by (simp add: map_of_table after_nil)
  qed (use assms(1) in \<open>simp add: map_of_table\<close>)
  then have "group_step upd new r (table B rows)
      = Inr (bt_insert (fst r) (after (values_of (fst r) (rows @ [r]))) (table B rows))"
    using after_snoc [of "values_of (fst r) rows" "snd r"] assms(2) by (simp add: group_step_def values_of_snoc)
  moreover have "bt_insert (fst r) (after (values_of (fst r) (rows @ [r]))) (table B rows) = table B (rows @ [r])"
  proof -
    have "map_of (bt_insert (fst r) (after (values_of (fst r) (rows @ [r]))) (table B rows)) = map_of (table B (rows @ [r]))"
      using assms(1) by (auto simp: map_of_bt_insert map_of_table values_of_snoc fun_eq_iff)
    then show ?thesis by (rule bt_ext [OF bt_ok_insert [OF table_sorted] table_sorted])
  qed
  ultimately show ?thesis by simp
qed

lemma table_complete:
  assumes "finite B" and "\<And>k. ok (values_of k rows)"
  shows "rfold (group_step upd new) rows (table B []) = Inr (table B rows)"
  using assms(2)
proof (induction rows rule: rev_induct)
  case (snoc r rows)
  have "ok (values_of k rows)" for k
    using snoc.prems [of k] ok_prefix [of "values_of k rows" "[snd r]"] by (auto simp: values_of_snoc split: if_splits)
  then show ?case using snoc table_step [OF assms(1) snoc.prems] by (simp add: rfold_append)
qed simp

end

end
