(* ===== verification/Aggregate.thy ===== *)
theory Aggregate
  imports Hash_Join Grouping
begin

text \<open>
  Hash aggregation of \<open>src/runtime/execution.rs\<close>: the accumulators, and the grouping of a list of
  batches with its memory accounting.

  A 128-bit sum is a word of that width and a float is its bit pattern; float addition, division and
  conversion are parameters.  The hash map of groups is an ordered map: it is looked up by key, and
  its entries are sorted by key before they are read.  The set of distinct values is a list without
  repetitions.
\<close>

section \<open>Accumulators\<close>

datatype aggregate_state =
    StCount u64 "scalar_value list option"
  | StSum "128 word" u64 bool "scalar_value list option"
  | StSumUInt64 u64 bool
  | StMin "scalar_value option"
  | StMax "scalar_value option"
  | StAvg u64 u64 "scalar_value list option"

datatype ordering_choice = ChooseMin | ChooseMax

definition state_new :: "aggregate_function \<Rightarrow> bool \<Rightarrow> aggregate_state" where
  "state_new f dist =
     (let values = (if dist then Some [] else None) in
      case f of
        AggCount \<Rightarrow> StCount 0 values
      | AggSum \<Rightarrow> StSum 0 0 False values
      | AggSumUInt64 \<Rightarrow> StSumUInt64 0 False
      | AggMin \<Rightarrow> StMin None
      | AggMax \<Rightarrow> StMax None
      | AggAvg \<Rightarrow> StAvg 0 0 values)"

text \<open>\<open>distinct\<close> with a value that may be new: \<open>None\<close> if it was seen before.\<close>

fun insert_distinct :: "scalar_value \<Rightarrow> scalar_value list option \<Rightarrow> scalar_value list option option" where
  "insert_distinct v None = Some None"
| "insert_distinct v (Some vs) = (if v \<in> set vs then None else Some (Some (vs @ [v])))"

definition should_replace_extreme ::
  "scalar_value option \<Rightarrow> scalar_value \<Rightarrow> ordering_choice \<Rightarrow> bool result" where
  "should_replace_extreme current candidate choice =
     (if candidate = SNull then Inr False
      else (case current of
          None \<Rightarrow> Inr True
        | Some v \<Rightarrow>
            (case partial_compare candidate v of
               Some Less \<Rightarrow> Inr (choice = ChooseMin)
             | Some Greater \<Rightarrow> Inr (choice = ChooseMax)
             | Some Equal \<Rightarrow> Inr False
             | None \<Rightarrow> Inl (EExecution ''cannot compare values with different types''))))"

definition update_extreme ::
  "scalar_value option \<Rightarrow> scalar_value \<Rightarrow> ordering_choice \<Rightarrow> scalar_value option result" where
  "update_extreme current candidate choice =
     rbind (should_replace_extreme current candidate choice) (\<lambda>replace.
       Inr (if replace then Some candidate else current))"

fun numeric_value :: "externs \<Rightarrow> scalar_value \<Rightarrow> u64 result" where
  "numeric_value x (SInt64 v) = Inr (x_i64_to_f64 x v)"
| "numeric_value x (SUInt64 v) = Inr (x_u64_to_f64 x v)"
| "numeric_value x (SFloat64 v) = Inr v"
| "numeric_value x _ = Inl (EExecution ''numeric aggregate does not support {other}'')"

fun state_update ::
  "externs \<Rightarrow> arrow_externs \<Rightarrow> scalar_value \<Rightarrow> aggregate_state \<Rightarrow> aggregate_state result" where
  "state_update x ax v (StCount n ds) =
     (if v = SNull then Inr (StCount n ds)
      else (case insert_distinct v ds of
          None \<Rightarrow> Inr (StCount n ds)
        | Some ds' \<Rightarrow> Inr (StCount (n + 1) ds')))"
| "state_update x ax v (StSum i f seen ds) =
     (if v = SNull then Inr (StSum i f seen ds)
      else (case insert_distinct v ds of
          None \<Rightarrow> Inr (StSum i f seen ds)
        | Some ds' \<Rightarrow>
            (case v of
               SInt64 n \<Rightarrow> Inr (StSum (i + scast n) f True ds')
             | SUInt64 n \<Rightarrow> Inr (StSum (i + ucast n) f True ds')
             | SFloat64 n \<Rightarrow> Inr (StSum i (ax_f64_add ax f n) True ds')
             | _ \<Rightarrow> Inl (EExecution ''SUM does not support {other}''))))"
| "state_update x ax v (StSumUInt64 n seen) =
     (case v of
        SUInt64 k \<Rightarrow> rbind (ok_or (checked_add n k) (EExecution ''internal unsigned sum overflowed UInt64''))
          (\<lambda>sum. Inr (StSumUInt64 sum True))
      | SNull \<Rightarrow> Inr (StSumUInt64 n seen)
      | _ \<Rightarrow> Inl (EExecution ''internal unsigned sum requires UInt64, got {value}''))"
| "state_update x ax v (StMin c) = rbind (update_extreme c v ChooseMin) (\<lambda>c'. Inr (StMin c'))"
| "state_update x ax v (StMax c) = rbind (update_extreme c v ChooseMax) (\<lambda>c'. Inr (StMax c'))"
| "state_update x ax v (StAvg s n ds) =
     (if v = SNull then Inr (StAvg s n ds)
      else (case insert_distinct v ds of
          None \<Rightarrow> Inr (StAvg s n ds)
        | Some ds' \<Rightarrow> rbind (numeric_value x v) (\<lambda>f. Inr (StAvg (ax_f64_add ax s f) (n + 1) ds'))))"

fun distinct_values :: "aggregate_state \<Rightarrow> scalar_value list option" where
  "distinct_values (StCount _ ds) = ds"
| "distinct_values (StSum _ _ _ ds) = ds"
| "distinct_values (StAvg _ _ ds) = ds"
| "distinct_values _ = None"

definition extreme_memory ::
  "arrow_externs \<Rightarrow> scalar_value option \<Rightarrow> scalar_value \<Rightarrow> ordering_choice \<Rightarrow> u64 result" where
  "extreme_memory ax current v choice =
     rbind (should_replace_extreme current v choice) (\<lambda>replace.
       Inr (if replace then
              saturating_sub (scalar_memory_bytes ax v)
                (case current of None \<Rightarrow> 0 | Some c \<Rightarrow> scalar_memory_bytes ax c)
            else 0))"

definition additional_memory :: "arrow_externs \<Rightarrow> aggregate_state \<Rightarrow> scalar_value \<Rightarrow> u64 result" where
  "additional_memory ax st v =
     (if v = SNull then Inr 0
      else (case st of
          StMin c \<Rightarrow> extreme_memory ax c v ChooseMin
        | StMax c \<Rightarrow> extreme_memory ax c v ChooseMax
        | _ \<Rightarrow>
            (case distinct_values st of
               Some vs \<Rightarrow> Inr (if v \<notin> set vs
                  then saturating_add HASH_ENTRY_OVERHEAD_BYTES (scalar_memory_bytes ax v) else 0)
             | None \<Rightarrow> Inr 0)))"

fun state_finish :: "externs \<Rightarrow> arrow_externs \<Rightarrow> aggregate_state \<Rightarrow> scalar_value" where
  "state_finish x ax (StCount n _) = SUInt64 n"
| "state_finish x ax (StSum i f seen _) =
     (if seen then SFloat64 (ax_f64_add ax f (ax_i128_to_f64 ax i)) else SNull)"
| "state_finish x ax (StSumUInt64 n seen) = (if seen then SUInt64 n else SNull)"
| "state_finish x ax (StMin c) = (case c of None \<Rightarrow> SNull | Some v \<Rightarrow> v)"
| "state_finish x ax (StMax c) = (case c of None \<Rightarrow> SNull | Some v \<Rightarrow> v)"
| "state_finish x ax (StAvg s n _) =
     (if n = 0 then SNull else SFloat64 (ax_f64_div ax s (x_u64_to_f64 x n)))"

section \<open>Grouping\<close>

type_synonym aggregate_spec = "aggregate_function \<times> expr \<times> bool"
type_synonym group_table = "(bytes, aggregate_state list) btree"

definition aggregate_spec :: "expr \<Rightarrow> aggregate_spec result" where
  "aggregate_spec e =
     (case unalias e of
        Aggregate f a dist \<Rightarrow> Inr (f, a, dist)
      | _ \<Rightarrow> Inl (EPlanning ''expected aggregate expression, got {other}''))"

definition aggregate_group_memory_bytes :: "arrow_externs \<Rightarrow> bytes \<Rightarrow> nat \<Rightarrow> u64" where
  "aggregate_group_memory_bytes ax k n =
     saturating_add (saturating_add (saturating_add HASH_ENTRY_OVERHEAD_BYTES (encoded_key_memory_bytes k)) 24)
       (saturating_mul (of_nat n) (ax_sizeof_state ax))"

definition new_states :: "aggregate_spec list \<Rightarrow> aggregate_state list" where
  "new_states specs = map (\<lambda>(f, _, dist). state_new f dist) specs"

definition insert_group ::
  "arrow_externs \<Rightarrow> aggregate_spec list \<Rightarrow> bytes \<Rightarrow> (group_table, unit) charged" where
  "insert_group ax specs k =
     charged_bind (grow_at 0 (aggregate_group_memory_bytes ax k (length specs))) (\<lambda>_.
       on_data (effect (\<lambda>d. Inr (bt_insert k (new_states specs) d))))"

definition aggregate_array :: "externs \<Rightarrow> batch \<Rightarrow> aggregate_spec \<Rightarrow> array option result" where
  "aggregate_array x b spec =
     (case spec of (_, e, _) \<Rightarrow>
        if e = Wildcard then Inr None else rbind (evaluate x b e) (\<lambda>a. Inr (Some a)))"

definition aggregate_value :: "externs \<Rightarrow> array option \<Rightarrow> nat \<Rightarrow> scalar_value result" where
  "aggregate_value x a row = (case a of None \<Rightarrow> Inr (SBoolean True) | Some a \<Rightarrow> value_at x a row)"

definition group_states :: "bytes \<Rightarrow> group_table \<Rightarrow> aggregate_state list result" where
  "group_states k d = ok_or (map_of d k) (EPanic ''encoded aggregate key was inserted'')"

definition update_cell ::
  "externs \<Rightarrow> arrow_externs \<Rightarrow> array option list \<Rightarrow> nat \<Rightarrow> bytes \<Rightarrow> nat \<Rightarrow> (group_table, unit) charged" where
  "update_cell x ax arrays row k i =
     charged_bind (on_data (inspect (\<lambda>d.
         rbind (group_states k d) (\<lambda>sts.
         rbind (aggregate_value x (arrays ! i) row) (\<lambda>v.
         rbind (additional_memory ax (sts ! i) v) (\<lambda>n. Inr (v, n))))))) (\<lambda>(v, n).
     charged_bind (grow_at 0 n) (\<lambda>_.
       on_data (effect (\<lambda>d. rbind (group_states k d) (\<lambda>sts.
         rbind (state_update x ax v (sts ! i)) (\<lambda>st. Inr (bt_insert k (sts[i := st]) d)))))))"

definition aggregate_row ::
  "externs \<Rightarrow> arrow_externs \<Rightarrow> aggregate_spec list \<Rightarrow> array option list \<times> encoded_rows \<Rightarrow> nat
   \<Rightarrow> (group_table, unit) charged" where
  "aggregate_row x ax specs ks row =
     charged_bind (on_data (inspect (\<lambda>d.
         rbind (encoded_key (snd ks) row) (\<lambda>k. Inr (k, map_of d k = None))))) (\<lambda>(k, fresh).
     charged_bind (if fresh then insert_group ax specs k else on_data (effect Inr)) (\<lambda>_.
       loop (update_cell x ax (fst ks) row k) [0..<length specs]))"

definition aggregate_batch ::
  "externs \<Rightarrow> arrow_externs \<Rightarrow> expr list \<Rightarrow> aggregate_spec list \<Rightarrow> row_key_encoder \<Rightarrow> batch
   \<Rightarrow> (group_table, unit) charged" where
  "aggregate_batch x ax groups specs enc b =
     charged_bind (on_data (inspect (\<lambda>_.
         rbind (rmap (evaluate x b) groups) (\<lambda>keys.
         rbind (rmap (aggregate_array x b) specs) (\<lambda>arrays.
         rbind (encode_rows ax enc keys (rb_num_rows b)) (\<lambda>er. Inr (arrays, er))))))) (\<lambda>ks.
       scoped (encoded_memory_size ax (snd ks)) (loop (aggregate_row x ax specs ks) [0..<rb_num_rows b]))"

definition aggregate_output ::
  "externs \<Rightarrow> arrow_externs \<Rightarrow> schema \<Rightarrow> nat \<Rightarrow> row_key_encoder \<Rightarrow> bytes list \<Rightarrow> scalar_value list list \<Rightarrow> batch result" where
  "aggregate_output x ax s group_count enc keys cols =
     rbind (decode_keys ax enc keys) (\<lambda>arrays.
     rbind (rmap (\<lambda>(vs, f). scalars_to_array x vs (field_type f)) (zip cols (drop group_count (schema_fields s)))) (\<lambda>aggs.
       ax_try_new ax s (arrays @ aggs)))"

definition state_columns :: "externs \<Rightarrow> arrow_externs \<Rightarrow> nat \<Rightarrow> group_table \<Rightarrow> scalar_value list list" where
  "state_columns x ax n d = map (\<lambda>j. map (\<lambda>e. state_finish x ax (snd e ! j)) d) [0..<n]"

definition aggregate_run ::
  "externs \<Rightarrow> arrow_externs \<Rightarrow> batch list \<Rightarrow> expr list \<Rightarrow> aggregate_spec list \<Rightarrow> schema
   \<Rightarrow> (group_table, batch) charged" where
  "aggregate_run x ax batches groups specs s =
     charged_bind (on_data (inspect (\<lambda>_.
         encoder_new ax (map field_type (take (length groups) (schema_fields s)))))) (\<lambda>enc.
     charged_bind (if groups = [] then insert_group ax specs [] else on_data (effect Inr)) (\<lambda>_.
     charged_bind (loop (aggregate_batch x ax groups specs enc) batches) (\<lambda>_.
       on_data (inspect (\<lambda>d.
         aggregate_output x ax s (length groups) enc (map fst d) (state_columns x ax (length specs) d))))))"

definition hash_aggregate_with_memory ::
  "externs \<Rightarrow> arrow_externs \<Rightarrow> batch list \<Rightarrow> expr list \<Rightarrow> expr list \<Rightarrow> schema \<Rightarrow> query_memory
   \<Rightarrow> batch result \<times> query_memory" where
  "hash_aggregate_with_memory x ax batches groups aggregates s m =
     (case rmap aggregate_spec aggregates of
        Inl e \<Rightarrow> (Inl e, m)
      | Inr specs \<Rightarrow> with_budget [] (aggregate_run x ax batches groups specs s) m)"

definition hash_aggregate ::
  "externs \<Rightarrow> arrow_externs \<Rightarrow> batch list \<Rightarrow> expr list \<Rightarrow> expr list \<Rightarrow> schema \<Rightarrow> batch result" where
  "hash_aggregate x ax batches groups aggregates s =
     fst (hash_aggregate_with_memory x ax batches groups aggregates s (memory_new (- 1)))"

section \<open>Accounting and functional part\<close>

lemma aggregate_run_balance: "keeps_balance 1 (aggregate_run x ax batches groups specs s)"
proof -
  have insert: "keeps_balance 1 (insert_group ax specs k)" for k
    unfolding insert_group_def by (intro balance_intros) simp
  have cell: "keeps_balance 1 (update_cell x ax arrays row k i)" for arrays row k i
    unfolding update_cell_def case_prod_unfold by (intro balance_intros) simp
  have row: "keeps_balance 1 (aggregate_row x ax specs ks row)" for ks row
    unfolding aggregate_row_def case_prod_unfold using insert cell by (auto intro!: balance_intros)
  show ?thesis
    unfolding aggregate_run_def aggregate_batch_def using insert row by (auto intro!: balance_intros)
qed

definition cell_pure ::
  "externs \<Rightarrow> arrow_externs \<Rightarrow> array option list \<Rightarrow> nat \<Rightarrow> bytes \<Rightarrow> nat \<Rightarrow> group_table \<Rightarrow> group_table result" where
  "cell_pure x ax arrays row k i d =
     rbind (group_states k d) (\<lambda>sts.
     rbind (aggregate_value x (arrays ! i) row) (\<lambda>v.
     rbind (state_update x ax v (sts ! i)) (\<lambda>st. Inr (bt_insert k (sts[i := st]) d))))"

definition row_pure ::
  "externs \<Rightarrow> arrow_externs \<Rightarrow> aggregate_spec list \<Rightarrow> array option list \<times> encoded_rows \<Rightarrow> nat
   \<Rightarrow> group_table \<Rightarrow> group_table result" where
  "row_pure x ax specs ks row d =
     rbind (encoded_key (snd ks) row) (\<lambda>k.
       rfold (cell_pure x ax (fst ks) row k) [0..<length specs]
         (if map_of d k = None then bt_insert k (new_states specs) d else d))"

definition aggregate_batch_pure ::
  "externs \<Rightarrow> arrow_externs \<Rightarrow> expr list \<Rightarrow> aggregate_spec list \<Rightarrow> row_key_encoder \<Rightarrow> batch
   \<Rightarrow> group_table \<Rightarrow> group_table result" where
  "aggregate_batch_pure x ax groups specs enc b d =
     rbind (rmap (evaluate x b) groups) (\<lambda>keys.
     rbind (rmap (aggregate_array x b) specs) (\<lambda>arrays.
     rbind (encode_rows ax enc keys (rb_num_rows b)) (\<lambda>er.
       rfold (row_pure x ax specs (arrays, er)) [0..<rb_num_rows b] d)))"

text \<open>Estimating the memory of an update fails only where the update does.\<close>

lemma additional_memory_update:
  "rbind (additional_memory ax st v) (\<lambda>_. state_update x ax v st) = state_update x ax v st"
  by (cases st)
    (auto simp: additional_memory_def extreme_memory_def update_extreme_def should_replace_extreme_def rbind_assoc
      split: option.splits ordering.splits)

lemma additional_memory_absorbed:
  "rbind (additional_memory ax st v) (\<lambda>n. rbind (state_update x ax v st) h) = rbind (state_update x ax v st) h"
  using arg_cong [OF additional_memory_update, of "\<lambda>r. rbind r h"] by (simp add: rbind_assoc)

lemma update_cell_computes: "computes (update_cell x ax arrays row k i) (effect (cell_pure x ax arrays row k i))"
  unfolding update_cell_def case_prod_unfold
  apply (rule computes_cong, (rule computes_intros)+)
  subgoal for d
    by (cases "group_states k d") (simp_all add: cell_pure_def computes_simps additional_memory_absorbed)
  done

lemma insert_group_computes:
  "computes (insert_group ax specs k) (effect (\<lambda>d. Inr (bt_insert k (new_states specs) d)))"
  unfolding insert_group_def by (rule computes_cong, (rule computes_intros)+) (simp add: computes_simps)

lemma insert_group_if:
  "computes (if c then insert_group ax specs k else on_data (effect Inr))
     (effect (\<lambda>d. Inr (if c then bt_insert k (new_states specs) d else d)))"
  using insert_group_computes by (cases c) auto

lemma aggregate_row_computes: "computes (aggregate_row x ax specs ks row) (effect (row_pure x ax specs ks row))"
  unfolding aggregate_row_def case_prod_unfold
  by (rule computes_cong, rule computes_bind, rule computes_on_data, rule computes_bind, rule insert_group_if,
      rule computes_loop, rule update_cell_computes) (simp add: row_pure_def computes_simps cong: if_cong)

lemma aggregate_batch_computes:
  "computes (aggregate_batch x ax groups specs enc b) (effect (aggregate_batch_pure x ax groups specs enc b))"
  unfolding aggregate_batch_def
  by (rule computes_cong, rule computes_bind, rule computes_on_data, rule computes_scoped, rule computes_loop,
      rule aggregate_row_computes) (simp add: aggregate_batch_pure_def computes_simps)

definition start_table :: "expr list \<Rightarrow> aggregate_spec list \<Rightarrow> group_table" where
  "start_table groups specs = (if groups = [] then [([], new_states specs)] else [])"

lemma hash_aggregate_pure:
  assumes "rmap aggregate_spec aggregates = Inr specs"
  shows "qm_reserved (snd (hash_aggregate_with_memory x ax batches groups aggregates s m)) = qm_reserved m"
    and "exhausted (fst (hash_aggregate_with_memory x ax batches groups aggregates s m))
      \<or> fst (hash_aggregate_with_memory x ax batches groups aggregates s m)
        = rbind (encoder_new ax (map field_type (take (length groups) (schema_fields s)))) (\<lambda>enc.
          rbind (rfold (aggregate_batch_pure x ax groups specs enc) batches (start_table groups specs)) (\<lambda>d.
            aggregate_output x ax s (length groups) enc (map fst d) (state_columns x ax (length specs) d)))"
proof -
  let ?f = "aggregate_run x ax batches groups specs s"
  let ?g = "\<lambda>d. rbind (inspect (\<lambda>_. encoder_new ax (map field_type (take (length groups) (schema_fields s)))) d) (\<lambda>(enc, d1).
    rbind (effect (\<lambda>d. Inr (if groups = [] then bt_insert [] (new_states specs) d else d)) d1) (\<lambda>(_, d2).
    rbind (effect (rfold (aggregate_batch_pure x ax groups specs enc) batches) d2) (\<lambda>(_, d3).
      inspect (\<lambda>d. aggregate_output x ax s (length groups) enc (map fst d) (state_columns x ax (length specs) d)) d3)))"
  have "computes ?f ?g"
    unfolding aggregate_run_def
    by (intro computes_bind computes_on_data computes_loop insert_group_if aggregate_batch_computes)
  from with_budget_spec [OF aggregate_run_balance this, where d = "[]" and m = m]
  show "qm_reserved (snd (hash_aggregate_with_memory x ax batches groups aggregates s m)) = qm_reserved m"
    "exhausted (fst (hash_aggregate_with_memory x ax batches groups aggregates s m))
      \<or> fst (hash_aggregate_with_memory x ax batches groups aggregates s m)
        = rbind (encoder_new ax (map field_type (take (length groups) (schema_fields s)))) (\<lambda>enc.
          rbind (rfold (aggregate_batch_pure x ax groups specs enc) batches (start_table groups specs)) (\<lambda>d.
            aggregate_output x ax s (length groups) enc (map fst d) (state_columns x ax (length specs) d)))"
    using assms
    by (simp_all add: hash_aggregate_with_memory_def computes_simps start_table_def cong: if_cong split: if_splits)
qed

section \<open>Enough memory\<close>

text \<open>
  A bound on what an aggregation reserves: every row pays for a new group and for every value it may
  add to an accumulator, and the encoded keys of a batch are held while the batch is read.
\<close>

definition cell_cost :: "externs \<Rightarrow> arrow_externs \<Rightarrow> array option list \<Rightarrow> nat \<Rightarrow> nat \<Rightarrow> nat" where
  "cell_cost x ax arrays row i =
     (case aggregate_value x (arrays ! i) row of Inl _ \<Rightarrow> 0 | Inr v \<Rightarrow> 32 + unat (scalar_memory_bytes ax v))"

definition row_cost :: "externs \<Rightarrow> arrow_externs \<Rightarrow> nat \<Rightarrow> array option list \<times> encoded_rows \<Rightarrow> nat \<Rightarrow> nat" where
  "row_cost x ax n ks row =
     (case encoded_key (snd ks) row of Inl _ \<Rightarrow> 0 | Inr k \<Rightarrow> unat (aggregate_group_memory_bytes ax k n))
     + sum_list (map (cell_cost x ax (fst ks) row) [0..<n])"

definition batch_cost :: "externs \<Rightarrow> arrow_externs \<Rightarrow> expr list \<Rightarrow> aggregate_spec list \<Rightarrow> row_key_encoder \<Rightarrow> batch \<Rightarrow> nat" where
  "batch_cost x ax groups specs enc b =
     (case rbind (rmap (evaluate x b) groups) (\<lambda>keys.
         rbind (rmap (aggregate_array x b) specs) (\<lambda>arrays.
         rbind (encode_rows ax enc keys (rb_num_rows b)) (\<lambda>er. Inr (arrays, er)))) of
        Inl _ \<Rightarrow> 0
      | Inr ks \<Rightarrow> unat (encoded_memory_size ax (snd ks)) + sum_list (map (row_cost x ax (length specs) ks) [0..<rb_num_rows b]))"

definition aggregate_budget ::
  "externs \<Rightarrow> arrow_externs \<Rightarrow> batch list \<Rightarrow> expr list \<Rightarrow> aggregate_spec list \<Rightarrow> schema \<Rightarrow> nat" where
  "aggregate_budget x ax batches groups specs s =
     (case encoder_new ax (map field_type (take (length groups) (schema_fields s))) of
        Inl _ \<Rightarrow> 0
      | Inr enc \<Rightarrow> unat (aggregate_group_memory_bytes ax [] (length specs))
          + sum_list (map (batch_cost x ax groups specs enc) batches))"

lemma additional_memory_bound:
  "additional_memory ax st v = Inr n \<Longrightarrow> unat n \<le> 32 + unat (scalar_memory_bytes ax v)"
proof -
  have "unat (saturating_sub a b) \<le> 32 + unat a" for a b :: u64
    by (auto simp: saturating_sub_def unat_sub word_le_nat_alt le_diff_conv)
  moreover have "unat (saturating_add HASH_ENTRY_OVERHEAD_BYTES a) \<le> 32 + unat a" for a :: u64
    by (simp add: unat_saturating_add HASH_ENTRY_OVERHEAD_BYTES_def)
  ultimately show "additional_memory ax st v = Inr n \<Longrightarrow> unat n \<le> 32 + unat (scalar_memory_bytes ax v)"
    by (cases st) (auto simp: additional_memory_def extreme_memory_def rbind_eq_Inr split: if_splits option.splits)
qed

lemma update_cell_pays:
  "pays 1 (\<lambda>_. cell_cost x ax arrays row i) (update_cell x ax arrays row k i) (effect (cell_pure x ax arrays row k i))"
  unfolding update_cell_def case_prod_unfold
  apply (rule pays_weaken, rule pays_bind, rule pays_on_data, rule pays_bind, rule pays_grow_at, simp, rule pays_on_data)
  subgoal for d
    using additional_memory_bound
    by (auto simp: cost_bind_def inspect_def effect_def cell_cost_def rbind_def split: sum.splits)
  subgoal for d
    by (cases "group_states k d") (simp_all add: cell_pure_def computes_simps additional_memory_absorbed)
  done

lemma insert_group_pays:
  "pays 1 (\<lambda>_. unat (aggregate_group_memory_bytes ax k (length specs)))
     (if c then insert_group ax specs k else on_data (effect Inr))
     (effect (\<lambda>d. Inr (if c then bt_insert k (new_states specs) d else d)))"
proof (cases c)
  case True
  have "pays 1 (\<lambda>_. unat (aggregate_group_memory_bytes ax k (length specs))) (insert_group ax specs k)
      (effect (\<lambda>d. Inr (bt_insert k (new_states specs) d)))"
    unfolding insert_group_def
    by (rule pays_weaken, rule pays_bind, rule pays_grow_at, simp, rule pays_on_data)
      (auto simp: cost_bind_def effect_def)
  then show ?thesis using True by simp
qed (auto intro: pays_weaken [OF pays_on_data])

lemma aggregate_row_pays:
  "pays 1 (\<lambda>_. row_cost x ax (length specs) ks row) (aggregate_row x ax specs ks row) (effect (row_pure x ax specs ks row))"
  unfolding aggregate_row_def case_prod_unfold
  apply (rule pays_weaken, rule pays_bind, rule pays_on_data, rule pays_bind, rule insert_group_pays,
      rule pays_loop, rule update_cell_pays)
  subgoal for d
    using loop_cost_bound [where b = "cell_cost x ax (fst ks) row" and xs = "[0..<length specs]"
        and c = "\<lambda>i d. cell_cost x ax (fst ks) row i"]
    by (auto simp: cost_bind_def inspect_def effect_def row_cost_def rbind_def split: sum.splits)
  subgoal for d
    by (simp add: row_pure_def computes_simps cong: if_cong)
  done

lemma aggregate_batch_pays:
  "pays 1 (\<lambda>_. batch_cost x ax groups specs enc b) (aggregate_batch x ax groups specs enc b)
     (effect (aggregate_batch_pure x ax groups specs enc b))"
  unfolding aggregate_batch_def
  apply (rule pays_weaken, rule pays_bind, rule pays_on_data, rule pays_scoped, rule pays_loop, rule aggregate_row_pays)
  subgoal for d
    using loop_cost_bound [where b = "row_cost x ax (length specs) ks" and xs = "[0..<rb_num_rows b]"
        and c = "\<lambda>row d. row_cost x ax (length specs) ks row" for ks]
    by (auto simp: cost_bind_def inspect_def batch_cost_def rbind_def split: sum.splits)
  subgoal for d
    by (simp add: aggregate_batch_pure_def computes_simps)
  done

lemma hash_aggregate_enough:
  assumes "rmap aggregate_spec aggregates = Inr specs"
    and "unat (qm_reserved m) + aggregate_budget x ax batches groups specs s \<le> unat (qm_limit m)"
  shows "fst (hash_aggregate_with_memory x ax batches groups aggregates s m)
    = rbind (encoder_new ax (map field_type (take (length groups) (schema_fields s)))) (\<lambda>enc.
      rbind (rfold (aggregate_batch_pure x ax groups specs enc) batches (start_table groups specs)) (\<lambda>d.
        aggregate_output x ax s (length groups) enc (map fst d) (state_columns x ax (length specs) d)))"
proof -
  let ?g = "\<lambda>d. rbind (inspect (\<lambda>_. encoder_new ax (map field_type (take (length groups) (schema_fields s)))) d) (\<lambda>(enc, d1).
    rbind (effect (\<lambda>d. Inr (if groups = [] then bt_insert [] (new_states specs) d else d)) d1) (\<lambda>(_, d2).
    rbind (effect (rfold (aggregate_batch_pure x ax groups specs enc) batches) d2) (\<lambda>(_, d3).
      inspect (\<lambda>d. aggregate_output x ax s (length groups) enc (map fst d) (state_columns x ax (length specs) d)) d3)))"
  have "pays 1 (\<lambda>_. aggregate_budget x ax batches groups specs s) (aggregate_run x ax batches groups specs s) ?g"
    unfolding aggregate_run_def
    apply (rule pays_weaken, rule pays_bind, rule pays_on_data, rule pays_bind, rule insert_group_pays,
        rule pays_bind, rule pays_loop, rule aggregate_batch_pays, rule pays_on_data)
    subgoal for d
      using loop_cost_bound [where b = "batch_cost x ax groups specs enc" and xs = batches
          and c = "\<lambda>b d. batch_cost x ax groups specs enc b" for enc]
      by (auto simp: cost_bind_def inspect_def effect_def aggregate_budget_def rbind_def split: sum.splits)
    by (rule refl)
  from with_budget_enough [OF this, where d = "[]"]
  show ?thesis
    using assms
    by (simp add: hash_aggregate_with_memory_def computes_simps start_table_def cong: if_cong split: if_splits)
qed

section \<open>Row by row\<close>

text \<open>
  A row as the accumulators see it is its encoded key and one value per aggregate.  It updates the
  accumulators of its key, and those only.
\<close>

definition update_states ::
  "externs \<Rightarrow> arrow_externs \<Rightarrow> scalar_value list \<Rightarrow> aggregate_state list \<Rightarrow> aggregate_state list result" where
  "update_states x ax vs sts = rmap (\<lambda>(v, st). state_update x ax v st) (zip vs sts)"

definition table_ok :: "nat \<Rightarrow> (bytes, 's list) btree \<Rightarrow> bool" where
  "table_ok n d \<longleftrightarrow> bt_ok d \<and> (\<forall>k sts. map_of d k = Some sts \<longrightarrow> length sts = n)"

lemma length_new_states [simp]: "length (new_states specs) = length specs"
  by (simp add: new_states_def)

lemma length_update_states: "update_states x ax vs sts = Inr sts' \<Longrightarrow> length sts' = min (length vs) (length sts)"
  by (auto simp: update_states_def dest: rmap_length)

text \<open>The cells of one row, from the \<open>j\<close>-th on.\<close>

lemma cells_from:
  assumes "j \<le> n" and "length vs = n" and "length sts = n"
    and "\<And>i. i < n \<Longrightarrow> aggregate_value x (arrays ! i) row = Inr (vs ! i)"
  shows "rfold (cell_pure x ax arrays row k) [j..<n] (bt_insert k sts d)
    = rbind (update_states x ax (drop j vs) (drop j sts)) (\<lambda>ups. Inr (bt_insert k (take j sts @ ups) d))"
  using assms(1,3)
proof (induction "n - j" arbitrary: j sts)
  case 0
  then show ?case using assms(2) by (simp add: update_states_def)
next
  case (Suc m)
  then have j: "j < n" "m = n - Suc j" "[j..<n] = j # [Suc j..<n]" by (auto simp: upt_rec)
  have ups: "update_states x ax (drop j vs) (drop j sts)
      = rbind (state_update x ax (vs ! j) (sts ! j)) (\<lambda>st.
        rbind (update_states x ax (drop (Suc j) vs) (drop (Suc j) sts)) (\<lambda>us. Inr (st # us)))"
    using j Suc.prems(2) assms(2) by (simp add: update_states_def Cons_nth_drop_Suc [symmetric])
  have step: "cell_pure x ax arrays row k j (bt_insert k sts d)
      = rbind (state_update x ax (vs ! j) (sts ! j)) (\<lambda>st. Inr (bt_insert k (sts[j := st]) d))"
    using assms(4) [OF j(1)] by (simp add: cell_pure_def group_states_def)
  have "rfold (cell_pure x ax arrays row k) [Suc j..<n] (bt_insert k (sts[j := st]) d)
      = rbind (update_states x ax (drop (Suc j) vs) (drop (Suc j) sts)) (\<lambda>us. Inr (bt_insert k (take j sts @ st # us) d))" for st
    using Suc.hyps(1) [of "Suc j" "sts[j := st]"] j Suc.prems(2) by (simp add: take_Suc_conv_app_nth)
  then show ?case by (simp add: j(3) step ups rbind_assoc)
qed

lemma row_pure_step:
  assumes "table_ok (length specs) d" and "encoded_key er row = Inr k" and "length vs = length specs"
    and "\<And>i. i < length specs \<Longrightarrow> aggregate_value x (arrays ! i) row = Inr (vs ! i)"
  shows "row_pure x ax specs (arrays, er) row d = group_step (update_states x ax) (new_states specs) (k, vs) d"
proof -
  define sts where "sts = (case map_of d k of Some sts \<Rightarrow> sts | None \<Rightarrow> new_states specs)"
  have len: "length sts = length specs" using assms(1) by (auto simp: sts_def table_ok_def split: option.splits)
  have start: "(if map_of d k = None then bt_insert k (new_states specs) d else d) = bt_insert k sts d"
    using assms(1) by (auto simp: sts_def table_ok_def bt_insert_same split: option.splits)
  show ?thesis
    using cells_from [of 0 "length specs" vs sts x arrays row ax k d] assms(2-4) len
    by (simp add: row_pure_def start group_step_def sts_def)
qed

lemma group_step_ok:
  "table_ok (length specs) d \<Longrightarrow> length (snd r) = length specs
   \<Longrightarrow> group_step (update_states x ax) (new_states specs) r d = Inr d' \<Longrightarrow> table_ok (length specs) d'"
  by (auto simp: group_step_def table_ok_def rbind_eq_Inr map_of_bt_insert split: option.splits if_splits
      dest!: length_update_states)

end
