(* ===== verification/Aggregate_Props.thy ===== *)
theory Aggregate_Props
  imports Aggregate
begin

text \<open>
  What the accumulators of a hash aggregation compute, and that the aggregation of a list of batches
  is, group by group, the aggregate of exactly the rows with that key.
\<close>

section \<open>The values an aggregate considers\<close>

definition firsts :: "'a list \<Rightarrow> 'a list" where
  "firsts xs = rev (remdups (rev xs))"

lemma firsts_simps [simp]:
  "firsts [] = []"
  "firsts (xs @ [v]) = (if v \<in> set xs then firsts xs else firsts xs @ [v])"
  "set (firsts xs) = set xs"
  by (simp_all add: firsts_def)

definition considered :: "bool \<Rightarrow> scalar_value list \<Rightarrow> scalar_value list" where
  "considered dist vs = (let ws = filter (\<lambda>v. v \<noteq> SNull) vs in if dist then firsts ws else ws)"

lemma considered_simps [simp]:
  "considered dist [] = []"
  "considered dist (vs @ [SNull]) = considered dist vs"
  "v \<noteq> SNull \<Longrightarrow> considered False (vs @ [v]) = considered False vs @ [v]"
  "v \<noteq> SNull \<Longrightarrow> considered True (vs @ [v])
     = (if v \<in> set (considered True vs) then considered True vs else considered True vs @ [v])"
  "set (considered dist vs) = set vs - {SNull}"
  by (auto simp: considered_def Let_def)

lemma considered_append: "considered False (vs @ ws) = considered False vs @ considered False ws"
  by (simp add: considered_def Let_def)

lemma length_considered: "length (considered dist vs) \<le> length vs"
  using le_trans [OF length_remdups_leq [of "rev (filter (\<lambda>v. v \<noteq> SNull) vs)"], of "length vs"]
  by (auto simp: considered_def firsts_def Let_def)

fun integer_part :: "scalar_value \<Rightarrow> int" where
  "integer_part (SInt64 n) = sint n"
| "integer_part (SUInt64 n) = uint n"
| "integer_part _ = 0"

fun float_part :: "scalar_value \<Rightarrow> u64 list" where
  "float_part (SFloat64 f) = [f]"
| "float_part _ = []"

fun numeric :: "scalar_value \<Rightarrow> bool" where
  "numeric (SInt64 _) = True"
| "numeric (SUInt64 _) = True"
| "numeric (SFloat64 _) = True"
| "numeric _ = False"

definition as_float :: "externs \<Rightarrow> scalar_value \<Rightarrow> u64" where
  "as_float x v = (case numeric_value x v of Inr f \<Rightarrow> f | Inl _ \<Rightarrow> 0)"

lemma numeric_value_numeric: "numeric v \<Longrightarrow> numeric_value x v = Inr (as_float x v)"
  by (cases v) (simp_all add: as_float_def)

section \<open>Extremes\<close>

definition better :: "ordering_choice \<Rightarrow> ordering" where
  "better choice = (case choice of ChooseMin \<Rightarrow> Less | ChooseMax \<Rightarrow> Greater)"

definition pick :: "ordering_choice \<Rightarrow> scalar_value \<Rightarrow> scalar_value \<Rightarrow> scalar_value" where
  "pick choice u v = (if partial_compare v u = Some (better choice) then v else u)"

fun extreme :: "ordering_choice \<Rightarrow> scalar_value list \<Rightarrow> scalar_value option" where
  "extreme choice [] = None"
| "extreme choice (v # vs) = Some (foldl (pick choice) v vs)"

definition comparable :: "scalar_value list \<Rightarrow> bool" where
  "comparable vs \<longleftrightarrow> (\<forall>u\<in>set vs. \<forall>v\<in>set vs. partial_compare u v \<noteq> None)"

lemma extreme_snoc: "extreme choice (vs @ [v]) = Some (case extreme choice vs of None \<Rightarrow> v | Some u \<Rightarrow> pick choice u v)"
  by (cases vs) simp_all

lemma extreme_in: "extreme choice vs = Some u \<Longrightarrow> u \<in> set vs"
proof (induction vs arbitrary: u rule: rev_induct)
  case (snoc v vs)
  then show ?case by (auto simp: extreme_snoc pick_def split: option.splits if_splits)
qed simp

lemma extreme_None [simp]: "extreme choice vs = None \<longleftrightarrow> vs = []"
  by (cases vs) simp_all

lemma update_extreme_step:
  assumes "v \<noteq> SNull" and "comparable (vs @ [v])"
  shows "update_extreme (extreme choice vs) v choice = Inr (extreme choice (vs @ [v]))"
proof (cases "extreme choice vs")
  case None
  then show ?thesis using assms by (simp add: update_extreme_def should_replace_extreme_def extreme_snoc)
next
  case (Some u)
  then have "u \<in> set vs" by (rule extreme_in)
  then obtain c where "partial_compare v u = Some c"
    using assms(2) by (fastforce simp: comparable_def)
  then show ?thesis
    using assms Some
    by (cases c; cases choice)
      (simp_all add: update_extreme_def should_replace_extreme_def extreme_snoc pick_def better_def)
qed

section \<open>What an aggregate returns\<close>

definition aggregate_of ::
  "externs \<Rightarrow> arrow_externs \<Rightarrow> aggregate_function \<Rightarrow> bool \<Rightarrow> scalar_value list \<Rightarrow> scalar_value" where
  "aggregate_of x ax f dist vs =
     (let ws = considered dist vs; us = considered False vs in
      case f of
        AggCount \<Rightarrow> SUInt64 (of_nat (length ws))
      | AggSum \<Rightarrow>
          if ws = [] then SNull
          else SFloat64 (ax_f64_add ax (foldl (ax_f64_add ax) 0 (concat (map float_part ws)))
                 (ax_i128_to_f64 ax (word_of_int (sum_list (map integer_part ws)))))
      | AggSumUInt64 \<Rightarrow> if us = [] then SNull else SUInt64 (word_of_int (sum_list (map integer_part us)))
      | AggMin \<Rightarrow> (case extreme ChooseMin us of None \<Rightarrow> SNull | Some v \<Rightarrow> v)
      | AggMax \<Rightarrow> (case extreme ChooseMax us of None \<Rightarrow> SNull | Some v \<Rightarrow> v)
      | AggAvg \<Rightarrow>
          if ws = [] then SNull
          else SFloat64 (ax_f64_div ax (foldl (ax_f64_add ax) 0 (map (as_float x) ws))
                 (x_u64_to_f64 x (of_nat (length ws)))))"

text \<open>The arguments an aggregate accepts.\<close>

definition unsigned_arg :: "scalar_value \<Rightarrow> bool" where
  "unsigned_arg v = (case v of SUInt64 _ \<Rightarrow> True | SNull \<Rightarrow> True | _ \<Rightarrow> False)"

definition arguments_ok :: "aggregate_function \<Rightarrow> scalar_value list \<Rightarrow> bool" where
  "arguments_ok f vs \<longleftrightarrow> length vs < 2 ^ 64 \<and>
     (case f of
        AggCount \<Rightarrow> True
      | AggSum \<Rightarrow> \<forall>v\<in>set vs. v = SNull \<or> numeric v
      | AggSumUInt64 \<Rightarrow> (\<forall>v\<in>set vs. unsigned_arg v) \<and> sum_list (map integer_part vs) < 2 ^ 64
      | AggMin \<Rightarrow> comparable (considered False vs)
      | AggMax \<Rightarrow> comparable (considered False vs)
      | AggAvg \<Rightarrow> \<forall>v\<in>set vs. v = SNull \<or> numeric v)"

text \<open>The accumulator after the arguments \<open>vs\<close>.\<close>

definition state_after ::
  "externs \<Rightarrow> arrow_externs \<Rightarrow> aggregate_function \<Rightarrow> bool \<Rightarrow> scalar_value list \<Rightarrow> aggregate_state" where
  "state_after x ax f dist vs =
     (let ws = considered dist vs; us = considered False vs; ds = (if dist then Some ws else None) in
      case f of
        AggCount \<Rightarrow> StCount (of_nat (length ws)) ds
      | AggSum \<Rightarrow> StSum (word_of_int (sum_list (map integer_part ws)))
          (foldl (ax_f64_add ax) 0 (concat (map float_part ws))) (ws \<noteq> []) ds
      | AggSumUInt64 \<Rightarrow> StSumUInt64 (word_of_int (sum_list (map integer_part us))) (us \<noteq> [])
      | AggMin \<Rightarrow> StMin (extreme ChooseMin us)
      | AggMax \<Rightarrow> StMax (extreme ChooseMax us)
      | AggAvg \<Rightarrow> StAvg (foldl (ax_f64_add ax) 0 (map (as_float x) ws)) (of_nat (length ws)) ds)"

lemma state_after_nil: "state_after x ax f dist [] = state_new f dist"
  by (cases f) (simp_all add: state_after_def Let_def state_new_def)

lemma integer_part_unsigned: "unsigned_arg v \<Longrightarrow> 0 \<le> integer_part v"
  by (cases v) (simp_all add: unsigned_arg_def)

lemma unsigned_sum_nonneg: "\<forall>v\<in>set vs. unsigned_arg v \<Longrightarrow> 0 \<le> sum_list (map integer_part vs)"
  using integer_part_unsigned by (induction vs) fastforce+

lemma sum_considered: "sum_list (map integer_part (considered False vs)) = sum_list (map integer_part vs)"
  by (induction vs) (auto simp: considered_def Let_def)

lemma arguments_ok_prefix: "arguments_ok f (vs @ ws) \<Longrightarrow> arguments_ok f vs"
  using unsigned_sum_nonneg [of ws]
  by (cases f) (auto simp: arguments_ok_def considered_append comparable_def)

lemma word_sums:
  "(word_of_int (i + sint n) :: 128 word) = word_of_int i + scast (n :: u64)"
  "(word_of_int (i + uint n) :: 128 word) = word_of_int i + ucast (n :: u64)"
  "(word_of_int (i + uint n) :: u64) = word_of_int i + n"
  by (simp_all only: wi_hom_add [symmetric] scast_eq ucast_eq word_of_int_uint)

lemma checked_add_of_int:
  assumes "0 \<le> i" and "i + uint (n :: u64) < 2 ^ 64"
  shows "checked_add (word_of_int i) n = Some (word_of_int i + n)"
proof -
  have "i < 2 ^ 64" using assms(2) uint_ge_0 [of n] by linarith
  then have "unat (word_of_int i :: u64) = nat i"
    using assms(1) by (simp add: unat_eq_nat_uint uint_word_of_int)
  moreover have "unat n = nat (uint n)" by (rule unat_eq_nat_uint)
  moreover have "nat i + nat (uint n) < 2 ^ 64"
    using assms by (subst nat_add_distrib [symmetric]) simp_all
  ultimately show ?thesis by (simp add: checked_add_def)
qed

lemma state_update_step:
  assumes "arguments_ok f (vs @ [v])"
  shows "state_update x ax v (state_after x ax f dist vs) = Inr (state_after x ax f dist (vs @ [v]))"
proof (cases "v = SNull")
  case True
  then show ?thesis
    by (cases f) (simp_all add: state_after_def Let_def update_extreme_def should_replace_extreme_def)
next
  case False
  show ?thesis
  proof (cases f)
    case AggCount
    then show ?thesis using False by (cases dist) (auto simp: state_after_def Let_def)
  next
    case AggSum
    then have "numeric v" using assms False by (simp add: arguments_ok_def)
    then show ?thesis using False AggSum
      by (cases v; cases dist) (auto simp: state_after_def Let_def word_sums)
  next
    case AggSumUInt64
    then obtain n where v: "v = SUInt64 n"
      using assms False by (cases v) (auto simp: arguments_ok_def unsigned_arg_def)
    have "0 \<le> sum_list (map integer_part vs)" "sum_list (map integer_part vs) + uint n < 2 ^ 64"
      using assms AggSumUInt64 unsigned_sum_nonneg [of vs] v by (auto simp: arguments_ok_def)
    then show ?thesis using AggSumUInt64 v
      by (simp add: state_after_def Let_def sum_considered word_sums checked_add_of_int)
  next
    case AggMin
    then show ?thesis using False assms update_extreme_step [of v "considered False vs" ChooseMin]
      by (simp add: state_after_def Let_def arguments_ok_def)
  next
    case AggMax
    then show ?thesis using False assms update_extreme_step [of v "considered False vs" ChooseMax]
      by (simp add: state_after_def Let_def arguments_ok_def)
  next
    case AggAvg
    then have "numeric v" using assms False by (simp add: arguments_ok_def)
    then show ?thesis using False AggAvg
      by (cases dist) (auto simp: state_after_def Let_def numeric_value_numeric)
  qed
qed

lemma accumulate:
  assumes "arguments_ok f vs"
  shows "rfold (state_update x ax) vs (state_new f dist) = Inr (state_after x ax f dist vs)"
  using assms
proof (induction vs rule: rev_induct)
  case Nil
  then show ?case by (simp add: state_after_nil)
next
  case (snoc v vs)
  then show ?case using arguments_ok_prefix [of f vs "[v]"] state_update_step [of f vs v]
    by (simp add: rfold_append)
qed

lemma state_finish_after:
  assumes "arguments_ok f vs"
  shows "state_finish x ax (state_after x ax f dist vs) = aggregate_of x ax f dist vs"
proof -
  have "length (considered dist vs) < 2 ^ 64"
    using assms length_considered [of dist vs] by (simp add: arguments_ok_def)
  then have "(of_nat (length (considered dist vs)) :: u64) = 0 \<longleftrightarrow> considered dist vs = []"
    by (cases "considered dist vs") (auto simp: word_of_nat_eq_0_iff simp del: of_nat_Suc dest!: dvd_imp_le)
  then show ?thesis by (cases f) (simp_all add: state_after_def aggregate_of_def Let_def)
qed

section \<open>All accumulators of a group\<close>

definition column_at :: "nat \<Rightarrow> 'a list list \<Rightarrow> 'a list" where
  "column_at j vss = map (\<lambda>vs. vs ! j) vss"

definition states_after ::
  "externs \<Rightarrow> arrow_externs \<Rightarrow> aggregate_spec list \<Rightarrow> scalar_value list list \<Rightarrow> aggregate_state list" where
  "states_after x ax specs vss =
     map (\<lambda>j. case specs ! j of (f, _, dist) \<Rightarrow> state_after x ax f dist (column_at j vss)) [0..<length specs]"

definition group_ok :: "aggregate_spec list \<Rightarrow> scalar_value list list \<Rightarrow> bool" where
  "group_ok specs vss \<longleftrightarrow> (\<forall>vs\<in>set vss. length vs = length specs)
     \<and> (\<forall>j<length specs. arguments_ok (fst (specs ! j)) (column_at j vss))"

definition aggregates_of ::
  "externs \<Rightarrow> arrow_externs \<Rightarrow> aggregate_spec list \<Rightarrow> scalar_value list list \<Rightarrow> scalar_value list" where
  "aggregates_of x ax specs vss =
     map (\<lambda>j. case specs ! j of (f, _, dist) \<Rightarrow> aggregate_of x ax f dist (column_at j vss)) [0..<length specs]"

lemma group_ok_Nil: "group_ok specs []"
  by (simp add: group_ok_def column_at_def arguments_ok_def comparable_def split: aggregate_function.split)

interpretation agg: grouping "update_states x ax" "new_states specs" "states_after x ax specs" "group_ok specs" for x ax specs
proof
  show "states_after x ax specs [] = new_states specs"
    by (rule nth_equalityI)
      (auto simp: states_after_def new_states_def column_at_def state_after_nil split: prod.splits)
  show "group_ok specs vss" if "group_ok specs (vss @ wss)" for vss wss
    using that arguments_ok_prefix by (fastforce simp: group_ok_def column_at_def)
  show "update_states x ax vs (states_after x ax specs vss) = Inr (states_after x ax specs (vss @ [vs]))"
    if ok: "group_ok specs (vss @ [vs])" for vss vs
  proof -
    have "state_update x ax (vs ! j) (states_after x ax specs vss ! j) = Inr (states_after x ax specs (vss @ [vs]) ! j)"
      if j: "j < length specs" for j
    proof -
      obtain f e dist where spec: "specs ! j = (f, e, dist)" by (cases "specs ! j")
      have "arguments_ok f (column_at j vss @ [vs ! j])"
        using ok j spec by (fastforce simp: group_ok_def column_at_def)
      then show ?thesis using j spec state_update_step by (simp add: states_after_def column_at_def)
    qed
    then show ?thesis
      using ok
      by (auto simp: update_states_def rmap_eq_Inr list_all2_conv_all_nth group_ok_def states_after_def)
  qed
qed

lemma finish_states_after:
  assumes "group_ok specs vss"
  shows "map (state_finish x ax) (states_after x ax specs vss) = aggregates_of x ax specs vss"
proof -
  have "state_finish x ax (case specs ! j of (f, _, dist) \<Rightarrow> state_after x ax f dist (column_at j vss))
      = (case specs ! j of (f, _, dist) \<Rightarrow> aggregate_of x ax f dist (column_at j vss))" if "j < length specs" for j
  proof (cases "specs ! j")
    case (fields f e dist)
    then have "arguments_ok f (column_at j vss)" using assms that by (fastforce simp: group_ok_def)
    then show ?thesis using fields state_finish_after by simp
  qed
  then show ?thesis by (simp add: states_after_def aggregates_of_def)
qed

section \<open>The rows of the input\<close>

text \<open>
  Batches on which the grouping expressions evaluate to columns of the types \<open>ktys\<close>, and the argument
  of every aggregate to a column of a type the engine handles.
\<close>

definition argument_ok :: "batch \<Rightarrow> array option result \<Rightarrow> bool" where
  "argument_ok b a =
     (case a of Inl _ \<Rightarrow> False | Inr None \<Rightarrow> True
      | Inr (Some c) \<Rightarrow> array_ok c \<and> plain_type (arr_type c) \<and> length (arr_cells c) = rb_num_rows b)"

definition input_ok :: "externs \<Rightarrow> expr list \<Rightarrow> aggregate_spec list \<Rightarrow> data_type list \<Rightarrow> batch \<Rightarrow> bool" where
  "input_ok x groups specs ktys b \<longleftrightarrow>
     (\<exists>ks. rmap (evaluate x b) groups = Inr ks \<and> columns_ok ktys (rb_num_rows b) ks)
     \<and> (\<forall>spec\<in>set specs. argument_ok b (aggregate_array x b spec))"

definition argument_at :: "externs \<Rightarrow> batch \<Rightarrow> nat \<Rightarrow> aggregate_spec \<Rightarrow> scalar_value" where
  "argument_at x b i spec =
     (case aggregate_array x b spec of
        Inr (Some c) \<Rightarrow> cell_value x (arr_type c) (arr_cells c ! i) | _ \<Rightarrow> SBoolean True)"

definition input_row :: "externs \<Rightarrow> expr list \<Rightarrow> aggregate_spec list \<Rightarrow> batch \<Rightarrow> nat \<Rightarrow> keyed_row" where
  "input_row x groups specs b i =
     (cell_rows (rb_num_rows b) (key_columns x groups b) ! i, map (argument_at x b i) specs)"

definition input_rows :: "externs \<Rightarrow> expr list \<Rightarrow> aggregate_spec list \<Rightarrow> batch list \<Rightarrow> keyed_row list" where
  "input_rows x groups specs bs = concat (map (\<lambda>b. map (input_row x groups specs b) [0..<rb_num_rows b]) bs)"

lemma input_rows_append: "input_rows x groups specs (bs @ bs') = input_rows x groups specs bs @ input_rows x groups specs bs'"
  by (simp add: input_rows_def)

lemma input_rows_ok:
  assumes "\<forall>b\<in>set bs. input_ok x groups specs ktys b" and "r \<in> set (input_rows x groups specs bs)"
  shows "row_ok ktys (fst r)" and "length (snd r) = length specs"
  using assms cell_rows_ok
  by (fastforce simp: input_rows_def input_row_def input_ok_def key_columns_def)+

text \<open>A batch as a loop over its rows.\<close>

lemma aggregate_batch_steps:
  assumes "row_format ax row" and "list_all plain_type ktys" and "encoder_new ax ktys = Inr enc"
    and "input_ok x groups specs ktys b" and "table_ok (length specs) d"
  shows "aggregate_batch_pure x ax groups specs enc b d
    = rfold (group_step (update_states x ax) (new_states specs))
        (map (apfst (row_key row ktys)) (input_rows x groups specs [b])) d"
proof -
  have ks: "rmap (evaluate x b) groups = Inr (key_columns x groups b)"
    "columns_ok ktys (rb_num_rows b) (key_columns x groups b)"
    using assms(4) by (auto simp: input_ok_def key_columns_def)
  obtain er where er: "encode_rows ax enc (key_columns x groups b) (rb_num_rows b) = Inr er"
    "\<And>i. i < rb_num_rows b
      \<Longrightarrow> encoded_key er i = Inr (row_key row ktys (cell_rows (rb_num_rows b) (key_columns x groups b) ! i))"
    using encode_rows_keys [OF assms(1,2) ks(2) assms(3)] by metis
  define arrays where "arrays = map (\<lambda>spec. case aggregate_array x b spec of Inr a \<Rightarrow> a | Inl _ \<Rightarrow> None) specs"
  have arr: "rmap (aggregate_array x b) specs = Inr arrays"
    using assms(4) unfolding arrays_def
    by (intro rmap_Inr_map) (auto simp: input_ok_def argument_ok_def split: sum.splits)
  have vals: "aggregate_value x (arrays ! j) i = Inr (snd (input_row x groups specs b i) ! j)"
    if "i < rb_num_rows b" "j < length specs" for i j
    using assms(4) that value_at_ok
    by (auto simp: input_ok_def argument_ok_def arrays_def aggregate_value_def input_row_def argument_at_def
        split: sum.splits option.splits dest!: bspec [OF _ nth_mem])
  have "rfold (row_pure x ax specs (arrays, er)) [0..<rb_num_rows b] d
      = rfold (group_step (update_states x ax) (new_states specs))
          (map (\<lambda>i. apfst (row_key row ktys) (input_row x groups specs b i)) [0..<rb_num_rows b]) d"
  proof (rule rfold_simulates [where P = "table_ok (length specs)"])
    show "row_pure x ax specs (arrays, er) i d
        = group_step (update_states x ax) (new_states specs) (apfst (row_key row ktys) (input_row x groups specs b i)) d"
      if "i \<in> set [0..<rb_num_rows b]" "table_ok (length specs) d" for i d
      using row_pure_step [OF that(2), of er i] er(2) vals that by (simp add: input_row_def apfst_def map_prod_def)
    show "table_ok (length specs) d'"
      if "table_ok (length specs) d" "group_step (update_states x ax) (new_states specs)
          (apfst (row_key row ktys) (input_row x groups specs b i)) d = Inr d'" for i d d'
      using group_step_ok [OF that(1) _ that(2)] by (simp add: input_row_def)
  qed (rule assms(5))
  then show ?thesis
    by (simp add: aggregate_batch_pure_def ks arr er(1) input_rows_def comp_def)
qed

lemma aggregate_batches_steps:
  assumes "row_format ax row" and "list_all plain_type ktys" and "encoder_new ax ktys = Inr enc"
    and "\<forall>b\<in>set bs. input_ok x groups specs ktys b" and "table_ok (length specs) d"
  shows "rfold (aggregate_batch_pure x ax groups specs enc) bs d
    = rfold (group_step (update_states x ax) (new_states specs))
        (map (apfst (row_key row ktys)) (input_rows x groups specs bs)) d"
proof -
  let ?rows = "\<lambda>b. map (apfst (row_key row ktys)) (input_rows x groups specs [b])"
  have "rfold (aggregate_batch_pure x ax groups specs enc) bs d
      = rfold (rfold (group_step (update_states x ax) (new_states specs))) (map ?rows bs) d"
  proof (rule rfold_simulates [where P = "table_ok (length specs)"])
    show "aggregate_batch_pure x ax groups specs enc b d
        = rfold (group_step (update_states x ax) (new_states specs)) (?rows b) d"
      if "b \<in> set bs" "table_ok (length specs) d" for b d
      using aggregate_batch_steps [OF assms(1-3)] assms(4) that by blast
    show "table_ok (length specs) d'"
      if b: "b \<in> set bs" "table_ok (length specs) d"
        "rfold (group_step (update_states x ax) (new_states specs)) (?rows b) d = Inr d'" for b d d'
    proof (rule rfold_invariant [where P = "table_ok (length specs)", OF b(3,2)])
      fix r d d' assume "r \<in> set (?rows b)" "table_ok (length specs) d"
        "group_step (update_states x ax) (new_states specs) r d = Inr d'"
      then show "table_ok (length specs) d'"
        using group_step_ok input_rows_ok(2) [of "[b]" x groups specs ktys] assms(4) b(1) by fastforce
    qed
  qed (rule assms(5))
  also have "\<dots> = rfold (group_step (update_states x ax) (new_states specs))
      (map (apfst (row_key row ktys)) (input_rows x groups specs bs)) d"
    by (simp add: input_rows_def map_concat comp_def flip: rfold_concat)
  finally show ?thesis .
qed

section \<open>The result of an aggregation\<close>

text \<open>
  The reference: the distinct keys in the order of their encodings (a global aggregate has one group,
  also without rows), and for each of them the aggregates of the values of its rows.
\<close>

definition group_keys ::
  "(data_type list \<Rightarrow> cell list \<Rightarrow> bytes) \<Rightarrow> data_type list \<Rightarrow> (cell list \<times> 'v) list \<Rightarrow> cell list list" where
  "group_keys row ktys rows =
     (if ktys = [] then [[]] else sort_key (row_key row ktys) (remdups (map fst rows)))"

definition result_row :: "externs \<Rightarrow> schema \<Rightarrow> cell list \<Rightarrow> scalar_value list \<Rightarrow> cell list" where
  "result_row x s c vs = c @ map2 (cell_of_scalar x) (drop (length c) (field_types s)) vs"

definition aggregate_rows ::
  "externs \<Rightarrow> arrow_externs \<Rightarrow> (data_type list \<Rightarrow> cell list \<Rightarrow> bytes) \<Rightarrow> schema \<Rightarrow> data_type list
   \<Rightarrow> aggregate_spec list \<Rightarrow> keyed_row list \<Rightarrow> cell list list" where
  "aggregate_rows x ax row s ktys specs rows =
     map (\<lambda>c. result_row x s c (aggregates_of x ax specs (values_of c rows))) (group_keys row ktys rows)"

text \<open>The keys of the table are the encodings of the groups.\<close>

definition base_keys :: "data_type list \<Rightarrow> bytes set" where
  "base_keys ktys = (if ktys = [] then {[]} else {})"

lemma finite_base_keys [simp]: "finite (base_keys ktys)"
  by (simp add: base_keys_def)

lemma group_keys_ok:
  assumes "\<forall>r\<in>set rows. row_ok ktys (fst r)"
  shows "\<forall>c\<in>set (group_keys row ktys rows). row_ok ktys c"
  using assms by (auto simp: group_keys_def row_ok_def)

lemma encoded_group_keys:
  assumes "row_format ax row" and "list_all plain_type ktys" and "\<forall>r\<in>set rows. row_ok ktys (fst r)"
  shows "map (row_key row ktys) (group_keys row ktys rows)
    = sorted_list_of_set (base_keys ktys \<union> fst ` set (map (apfst (row_key row ktys)) rows))"
proof (cases "ktys = []")
  case True
  then have "fst ` set (map (apfst (row_key row ktys)) rows) \<subseteq> {[]}" by (auto simp: row_key_def)
  then have "base_keys ktys \<union> fst ` set (map (apfst (row_key row ktys)) rows) = {[]}"
    using True by (auto simp: base_keys_def)
  then show ?thesis using True by (simp only:) (simp add: group_keys_def row_key_def)
next
  case False
  let ?ks = "map (row_key row ktys) (group_keys row ktys rows)"
  have "inj_on (row_key row ktys) (fst ` set rows)"
    using assms(3) row_key_inj [OF assms(1,2)] by (auto simp: inj_on_def)
  then have "distinct ?ks" using False by (simp add: group_keys_def distinct_map)
  moreover have "sorted ?ks" using False by (simp add: group_keys_def)
  moreover have "set ?ks = base_keys ktys \<union> fst ` set (map (apfst (row_key row ktys)) rows)"
    using False by (simp add: group_keys_def base_keys_def image_image)
  ultimately show ?thesis using sorted_list_of_set.idem_if_sorted_distinct [of ?ks] by simp
qed

lemma values_of_encoded:
  assumes "row_format ax row" and "list_all plain_type ktys" and "\<forall>r\<in>set rows. row_ok ktys (fst r)" and "row_ok ktys c"
  shows "values_of (row_key row ktys c) (map (apfst (row_key row ktys)) rows) = values_of c rows"
  using assms(3,4) row_key_inj [OF assms(1,2)] by (intro values_of_map) (auto simp: inj_on_def)

text \<open>Values of a key that is not a key of the input: there are none.\<close>

lemma values_of_encoded_cases:
  assumes "row_format ax row" and "list_all plain_type ktys" and "\<forall>r\<in>set rows. row_ok ktys (fst r)"
  obtains c where "row_ok ktys c" "values_of k (map (apfst (row_key row ktys)) rows) = values_of c rows"
  | "values_of k (map (apfst (row_key row ktys)) rows) = []"
proof (cases "k \<in> row_key row ktys ` fst ` set rows")
  case True
  then obtain r where "r \<in> set rows" "k = row_key row ktys (fst r)" by blast
  then show thesis using that(1) [of "fst r"] assms values_of_encoded [OF assms] by blast
next
  case False
  then have "values_of k (map (apfst (row_key row ktys)) rows) = []"
    by (auto simp: values_of_def filter_empty_conv)
  then show thesis by (rule that(2))
qed

text \<open>A result schema: the key columns, then one column per value that a scalar list converts to.\<close>

definition result_schema :: "schema \<Rightarrow> data_type list \<Rightarrow> nat \<Rightarrow> bool" where
  "result_schema s ktys n \<longleftrightarrow> schema_fields s \<noteq> [] \<and> take (length ktys) (field_types s) = ktys
     \<and> length (field_types s) = length ktys + n \<and> list_all buildable (drop (length ktys) (field_types s))"

lemma result_columns:
  assumes "result_schema s ktys n" and "\<forall>c\<in>set cs. length c = length ktys \<and> length (f c) = n"
  shows "columns_of (field_types s) (map (\<lambda>c. result_row x s c (f c)) cs)
    = columns_of ktys cs
      @ map (\<lambda>j. array_of (field_types s ! (length ktys + j))
          (map (\<lambda>c. cell_of_scalar x (field_types s ! (length ktys + j)) (f c ! j)) cs)) [0..<n]"
proof -
  let ?g = "length ktys" and ?rows = "map (\<lambda>c. result_row x s c (f c)) cs"
  have len: "length (field_types s) = ?g + n" using assms(1) by (simp add: result_schema_def)
  have key: "j < ?g \<Longrightarrow> field_types s ! j = ktys ! j" for j
    using assms(1) by (auto simp: result_schema_def dest: arg_cong [where f = "\<lambda>xs. xs ! j"])
  have low: "map (\<lambda>r. r ! j) ?rows = map (\<lambda>c. c ! j) cs" if "j < ?g" for j
    using assms(2) that by (simp add: result_row_def nth_append)
  have high: "map (\<lambda>r. r ! (?g + j)) ?rows = map (\<lambda>c. cell_of_scalar x (field_types s ! (?g + j)) (f c ! j)) cs"
    if "j < n" for j
    using assms(2) that len by (simp add: result_row_def nth_append)
  let ?col = "\<lambda>j. array_of (field_types s ! j) (map (\<lambda>r. r ! j) ?rows)"
  have "columns_of (field_types s) ?rows = map ?col [0..<?g] @ map (\<lambda>j. ?col (?g + j)) [0..<n]"
    unfolding columns_of_def len
    by (auto simp: nth_append intro!: nth_equalityI)
  moreover have "map ?col [0..<?g] = columns_of ktys cs"
    unfolding columns_of_def by (rule map_cong [OF refl]) (simp only: key low set_upt atLeastLessThan_iff)
  moreover have "map (\<lambda>j. ?col (?g + j)) [0..<n] = map (\<lambda>j. array_of (field_types s ! (?g + j))
      (map (\<lambda>c. cell_of_scalar x (field_types s ! (?g + j)) (f c ! j)) cs)) [0..<n]"
    by (rule map_cong [OF refl]) (simp only: high set_upt atLeastLessThan_iff)
  ultimately show ?thesis by simp
qed

lemma aggregate_output_rows:
  assumes "kernels_ok ax" and "row_format ax row" and "list_all plain_type ktys" and "encoder_new ax ktys = Inr enc"
    and "result_schema s ktys n" and "\<forall>c\<in>set cs. row_ok ktys c \<and> length (f c) = n \<and> row_admitted s (result_row x s c (f c))"
  shows "aggregate_output x ax s (length ktys) enc (map (row_key row ktys) cs) (map (\<lambda>j. map (\<lambda>c. f c ! j) cs) [0..<n])
    = Inr (batch_of_rows s (map (\<lambda>c. result_row x s c (f c)) cs))"
proof -
  let ?g = "length ktys"
  have len: "length (schema_fields s) = ?g + n" using assms(5) by (simp add: result_schema_def field_types_def)
  have "rmap (\<lambda>(vs, f). scalars_to_array x vs (field_type f))
      (zip (map (\<lambda>j. map (\<lambda>c. f c ! j) cs) [0..<n]) (drop ?g (schema_fields s)))
    = Inr (map (\<lambda>j. array_of (field_types s ! (?g + j))
          (map (\<lambda>c. cell_of_scalar x (field_types s ! (?g + j)) (f c ! j)) cs)) [0..<n])"
    using assms(5) len
    by (auto simp: rmap_eq_Inr list_all2_conv_all_nth result_schema_def list_all_length field_types_def
        scalars_to_array_buildable comp_def)
  moreover have "decode_keys ax enc (map (row_key row ktys) cs) = Inr (columns_of ktys cs)"
    using assms(6) by (intro decode_keys_rows [OF assms(2,3) _ assms(4)]) simp
  moreover have "\<forall>c\<in>set cs. length c = ?g \<and> length (f c) = n"
    using assms(6) by (simp add: row_ok_def list_all2_conv_all_nth)
  moreover have "ax_try_new ax s (columns_of (field_types s) (map (\<lambda>c. result_row x s c (f c)) cs))
      = Inr (batch_of_rows s (map (\<lambda>c. result_row x s c (f c)) cs))"
    using assms(5,6) by (intro try_new_rows [OF assms(1)]) (auto simp: result_schema_def)
  ultimately show ?thesis by (simp add: aggregate_output_def result_columns [OF assms(5)])
qed

lemma aggregate_table:
  assumes "row_format ax row" and "list_all plain_type ktys" and "encoder_new ax ktys = Inr enc"
    and "length groups = length ktys" and "\<forall>b\<in>set bs. input_ok x groups specs ktys b"
    and "\<forall>c. group_ok specs (values_of c (input_rows x groups specs bs))"
  shows "rfold (aggregate_batch_pure x ax groups specs enc) bs (start_table groups specs)
    = Inr (map (\<lambda>c. (row_key row ktys c, states_after x ax specs (values_of c (input_rows x groups specs bs))))
        (group_keys row ktys (input_rows x groups specs bs)))"
proof -
  let ?rows = "input_rows x groups specs bs"
  let ?krows = "map (apfst (row_key row ktys)) ?rows"
  have ok: "\<forall>r\<in>set ?rows. row_ok ktys (fst r)" using input_rows_ok(1) [OF assms(5)] by blast
  have start: "start_table groups specs = agg.table x ax specs (base_keys ktys) []"
    using assms(4) agg.after_nil by (auto simp: start_table_def agg.table_def base_keys_def)
  have "table_ok (length specs) (start_table groups specs)" by (simp add: start_table_def table_ok_def bt_ok_def)
  then have "rfold (aggregate_batch_pure x ax groups specs enc) bs (start_table groups specs)
      = rfold (group_step (update_states x ax) (new_states specs)) ?krows (agg.table x ax specs (base_keys ktys) [])"
    using aggregate_batches_steps [OF assms(1-3,5)] start by simp
  also have "\<dots> = Inr (agg.table x ax specs (base_keys ktys) ?krows)"
  proof (rule agg.table_complete)
    show "group_ok specs (values_of k ?krows)" for k
      using assms(6) group_ok_Nil by (cases rule: values_of_encoded_cases [OF assms(1,2) ok, of k]) simp_all
  qed simp
  also have "agg.table x ax specs (base_keys ktys) ?krows
      = map (\<lambda>c. (row_key row ktys c, states_after x ax specs (values_of c ?rows))) (group_keys row ktys ?rows)"
    unfolding agg.table_def encoded_group_keys [OF assms(1,2) ok, symmetric]
    using group_keys_ok [OF ok, of row] values_of_encoded [OF assms(1,2) ok] by simp
  finally show ?thesis .
qed

lemma length_aggregates_of [simp]: "length (aggregates_of x ax specs vss) = length specs"
  by (simp add: aggregates_of_def)

lemma hash_aggregate_spec:
  assumes "kernels_ok ax" and "row_format ax row" and "list_all plain_type ktys" and "ax_rows_new ax ktys = Inr ()"
    and "rmap aggregate_spec aggregates = Inr specs" and "length groups = length ktys"
    and "\<forall>b\<in>set bs. input_ok x groups specs ktys b"
    and "\<forall>c. group_ok specs (values_of c (input_rows x groups specs bs))"
    and "result_schema s ktys (length specs)"
    and "\<forall>r\<in>set (aggregate_rows x ax row s ktys specs (input_rows x groups specs bs)). row_admitted s r"
  shows "qm_reserved (snd (hash_aggregate_with_memory x ax bs groups aggregates s m)) = qm_reserved m"
    and "exhausted (fst (hash_aggregate_with_memory x ax bs groups aggregates s m))
      \<or> fst (hash_aggregate_with_memory x ax bs groups aggregates s m)
        = Inr (batch_of_rows s (aggregate_rows x ax row s ktys specs (input_rows x groups specs bs)))"
    and "unat (qm_reserved m) + aggregate_budget x ax bs groups specs s \<le> unat (qm_limit m) \<Longrightarrow>
      fst (hash_aggregate_with_memory x ax bs groups aggregates s m)
        = Inr (batch_of_rows s (aggregate_rows x ax row s ktys specs (input_rows x groups specs bs)))"
proof -
  let ?rows = "input_rows x groups specs bs"
  have "\<exists>enc. encoder_new ax ktys = Inr enc" using assms(4) by (simp add: encoder_new_def)
  then obtain enc where enc: "encoder_new ax ktys = Inr enc" by blast
  have types: "map field_type (take (length groups) (schema_fields s)) = ktys"
    using assms(6,9) by (simp add: result_schema_def field_types_def take_map)
  have ok: "\<forall>c\<in>set (group_keys row ktys ?rows). row_ok ktys c"
    using group_keys_ok input_rows_ok(1) [OF assms(7)] by blast
  have fin: "map (state_finish x ax) (states_after x ax specs (values_of c ?rows)) = aggregates_of x ax specs (values_of c ?rows)" for c
    using finish_states_after assms(8) by blast
  have "state_finish x ax (states_after x ax specs (values_of c ?rows) ! j) = aggregates_of x ax specs (values_of c ?rows) ! j"
    if "j < length specs" for c j
    using that by (simp add: states_after_def flip: fin)
  then have cols: "state_columns x ax (length specs)
        (map (\<lambda>c. (row_key row ktys c, states_after x ax specs (values_of c ?rows))) (group_keys row ktys ?rows))
      = map (\<lambda>j. map (\<lambda>c. aggregates_of x ax specs (values_of c ?rows) ! j) (group_keys row ktys ?rows)) [0..<length specs]"
    by (simp add: state_columns_def comp_def)
  have out: "aggregate_output x ax s (length ktys) enc (map (row_key row ktys) (group_keys row ktys ?rows))
        (map (\<lambda>j. map (\<lambda>c. aggregates_of x ax specs (values_of c ?rows) ! j) (group_keys row ktys ?rows)) [0..<length specs])
      = Inr (batch_of_rows s (aggregate_rows x ax row s ktys specs ?rows))"
    unfolding aggregate_rows_def
    by (rule aggregate_output_rows [OF assms(1-3) enc assms(9)]) (use ok assms(10) in \<open>simp add: aggregate_rows_def\<close>)
  have "rbind (encoder_new ax (map field_type (take (length groups) (schema_fields s)))) (\<lambda>enc.
      rbind (rfold (aggregate_batch_pure x ax groups specs enc) bs (start_table groups specs)) (\<lambda>d.
        aggregate_output x ax s (length groups) enc (map fst d) (state_columns x ax (length specs) d)))
    = Inr (batch_of_rows s (aggregate_rows x ax row s ktys specs ?rows))"
    unfolding types enc rbind_Inr aggregate_table [OF assms(2,3) enc assms(6-8)] cols
    by (simp add: comp_def out assms(6))
  then show "exhausted (fst (hash_aggregate_with_memory x ax bs groups aggregates s m))
      \<or> fst (hash_aggregate_with_memory x ax bs groups aggregates s m)
        = Inr (batch_of_rows s (aggregate_rows x ax row s ktys specs ?rows))"
    and "unat (qm_reserved m) + aggregate_budget x ax bs groups specs s \<le> unat (qm_limit m) \<Longrightarrow>
      fst (hash_aggregate_with_memory x ax bs groups aggregates s m)
        = Inr (batch_of_rows s (aggregate_rows x ax row s ktys specs ?rows))"
    using hash_aggregate_pure(2) [OF assms(5), where x = x and ax = ax and batches = bs and groups = groups and s = s and m = m]
      hash_aggregate_enough [OF assms(5), of m x ax bs groups s]
    by simp_all
  show "qm_reserved (snd (hash_aggregate_with_memory x ax bs groups aggregates s m)) = qm_reserved m"
    by (rule hash_aggregate_pure(1) [OF assms(5)])
qed


text \<open>An instance: counting the flags per id.\<close>

definition count_schema :: schema where
  "count_schema = schema_new [field_new ''id'' TInt64 False, field_new ''n'' TUInt64 False]"

abbreviation "count_flags \<equiv> [Aggregate AggCount (Column ''flag'') False]"
abbreviation "count_specs \<equiv> [(AggCount, Column ''flag'', False)]"

lemma sample_input:
  "input_ok sample_externs [Column ''id''] count_specs [TInt64] sample_batch"
  "input_rows sample_externs [Column ''id''] count_specs [sample_batch]
   = [([CI64 1], [SBoolean True]), ([CI64 2], [SNull]), ([CI64 1], [SBoolean False])]"
proof -
  note cols = sample_batch_columns
  have found: "find_column sample_schema ''id'' = Inr 0" "find_column sample_schema ''flag'' = Inr 1"
    by (simp_all add: find_column_def resolve_field_index_def positions_def sample_schema_def schema_new_def field_new_def)
  show "input_ok sample_externs [Column ''id''] count_specs [TInt64] sample_batch"
    by (simp add: input_ok_def cols found batch_column_def columns_ok_def array_of_def array_ok_iff cell_ok_def
        argument_ok_def aggregate_array_def plain_type_def)
  show "input_rows sample_externs [Column ''id''] count_specs [sample_batch]
   = [([CI64 1], [SBoolean True]), ([CI64 2], [SNull]), ([CI64 1], [SBoolean False])]"
    by (simp add: input_rows_def cols found batch_column_def input_row_def key_columns_def cell_rows_def
        argument_at_def aggregate_array_def cell_value_def value_of_cell_def array_of_def upt_rec numeral_eq_Suc)
qed

lemma count_schema_types: "field_types count_schema = [TInt64, TUInt64]"
  by (simp add: count_schema_def schema_new_def field_new_def field_types_def)

lemma sample_count_rows:
  assumes "field_types s = [TInt64, TUInt64]"
  shows "aggregate_rows sample_externs sample_ax sample_row s [TInt64] count_specs
     (input_rows sample_externs [Column ''id''] count_specs [sample_batch])
   = [[CI64 1, CU64 2], [CI64 2, CU64 0]]"
proof -
  have "group_keys sample_row [TInt64] [([CI64 1], [SBoolean True]), ([CI64 2], [SNull]), ([CI64 1], [SBoolean False])]
      = [[CI64 1], [CI64 2]]"
    by code_simp
  then show ?thesis
    by (simp add: aggregate_rows_def sample_input(2) result_row_def assms aggregates_of_def aggregate_of_def values_of_def
        column_at_def considered_def Let_def cell_of_scalar_def)
qed

lemma sample_encoded:
  "encode_rows sample_ax (Some [TInt64]) [array_of TInt64 [CI64 1, CI64 2, CI64 1]] 3
   = Inr (EncodedRows (map (sample_row [TInt64]) [[CI64 1], [CI64 2], [CI64 1]]))"
  by (simp add: encode_rows_def sample_ax_def column_length_def cell_rows_def array_of_def numeral_3_eq_3)

lemma sample_flag_values:
  "aggregate_value sample_externs (Some (array_of TBoolean [CBool True, CNull, CBool False])) 0 = Inr (SBoolean True)"
  "aggregate_value sample_externs (Some (array_of TBoolean [CBool True, CNull, CBool False])) (Suc 0) = Inr SNull"
  "aggregate_value sample_externs (Some (array_of TBoolean [CBool True, CNull, CBool False])) (Suc (Suc 0)) = Inr (SBoolean False)"
  by (simp_all add: aggregate_value_def array_of_def value_at_def value_of_cell_def)

lemma sample_group_bytes:
  "aggregate_group_memory_bytes sample_ax [] (Suc 0) = 136"
  "aggregate_group_memory_bytes sample_ax (sample_row tys [CI64 1]) (Suc 0) = 142"
  "aggregate_group_memory_bytes sample_ax (sample_row tys [CI64 2]) (Suc 0) = 143"
  by (simp_all add: aggregate_group_memory_bytes_def HASH_ENTRY_OVERHEAD_BYTES_def encoded_key_memory_bytes_def
      sample_row_length saturating_add_def saturating_mul_def, simp_all add: sample_ax_def)

lemma sample_aggregate_budget:
  assumes "field_types s = [TInt64, TUInt64]"
  shows "aggregate_budget sample_externs sample_ax [sample_batch] [Column ''id''] count_specs s \<le> 3000"
proof -
  have "aggregate_array sample_externs sample_batch (AggCount, Column ''flag'', False)
      = Inr (Some (array_of TBoolean [CBool True, CNull, CBool False]))"
    by (simp add: aggregate_array_def batch_column_def sample_flag_column sample_batch_columns)
  moreover have "map field_type (take 1 (schema_fields s)) = [TInt64]"
    using assms unfolding field_types_def take_map [symmetric] by simp
  ultimately show ?thesis
    by (simp add: aggregate_budget_def batch_cost_def row_cost_def cell_cost_def upt_rec sample_batch_columns
        sample_sizes encoder_new_def batch_column_def sample_id_resolves sample_encoded sample_flag_values sample_group_bytes
        sample_row_length)
qed

lemma sample_group_ok:
  "group_ok count_specs (values_of c (input_rows sample_externs [Column ''id''] count_specs [sample_batch]))"
  by (simp add: sample_input(2) group_ok_def values_of_def column_at_def arguments_ok_def)


end
