(* ===== verification/Merge.thy ===== *)
theory Merge
  imports Aggregate_Props
begin

text \<open>
  The final merge of \<open>src/cluster/distributed.rs\<close>: the partial aggregates of the partitions are
  combined group by group.  The partial of an average is a sum and a count, in two columns.
\<close>

section \<open>Model\<close>

datatype merge_state =
    MCount u64
  | MSum u64 bool
  | MMin "scalar_value option"
  | MMax "scalar_value option"
  | MAvg u64 u64

type_synonym merge_table = "(bytes, merge_state list) btree"

fun as_f64 :: "externs \<Rightarrow> scalar_value \<Rightarrow> u64 result" where
  "as_f64 x (SFloat64 v) = Inr v"
| "as_f64 x (SInt64 v) = Inr (x_i64_to_f64 x v)"
| "as_f64 x (SUInt64 v) = Inr (x_u64_to_f64 x v)"
| "as_f64 x SNull = Inr 0"
| "as_f64 x _ = Inl (EExecution ''expected numeric partial, got {other}'')"

fun as_u64 :: "scalar_value \<Rightarrow> u64 result" where
  "as_u64 (SUInt64 v) = Inr v"
| "as_u64 (SInt64 v) =
     (if 0 \<le> sint v then Inr v else Inl (EExecution ''expected unsigned partial, got {other}''))"
| "as_u64 SNull = Inr 0"
| "as_u64 _ = Inl (EExecution ''expected unsigned partial, got {other}'')"

definition merge_extreme :: "scalar_value option \<Rightarrow> scalar_value \<Rightarrow> bool \<Rightarrow> scalar_value option result" where
  "merge_extreme current candidate minimum =
     (if candidate = SNull then Inr current
      else (case current of
          None \<Rightarrow> Inr (Some candidate)
        | Some v \<Rightarrow>
            (case partial_compare candidate v of
               Some Less \<Rightarrow> Inr (if minimum then Some candidate else current)
             | Some Greater \<Rightarrow> Inr (if \<not> minimum then Some candidate else current)
             | Some Equal \<Rightarrow> Inr current
             | None \<Rightarrow> Inl (EExecution ''partial aggregate types cannot be compared''))))"

definition new_merge_states :: "aggregate_function list \<Rightarrow> merge_state list" where
  "new_merge_states fs = map (\<lambda>f. case f of
       AggCount \<Rightarrow> MCount 0 | AggSum \<Rightarrow> MSum 0 False | AggSumUInt64 \<Rightarrow> MCount 0
     | AggMin \<Rightarrow> MMin None | AggMax \<Rightarrow> MMax None | AggAvg \<Rightarrow> MAvg 0 0) fs"

definition merge_group_memory_bytes :: "arrow_externs \<Rightarrow> bytes \<Rightarrow> nat \<Rightarrow> u64" where
  "merge_group_memory_bytes ax k n =
     saturating_add (saturating_add (saturating_add 32 (encoded_key_memory_bytes k)) 24)
       (saturating_mul (of_nat n) (ax_sizeof_merge ax))"

definition merge_function :: "expr \<Rightarrow> aggregate_function result" where
  "merge_function e =
     (case unalias e of
        Aggregate f _ _ \<Rightarrow> Inr f
      | _ \<Rightarrow> Inl (EPlanning ''expected aggregate expression, got {other}''))"

text \<open>
  One state and its partial, read from the column \<open>c\<close> of the current row; the second component is the
  column of the next state.
\<close>

fun merge_cell ::
  "externs \<Rightarrow> arrow_externs \<Rightarrow> (nat \<Rightarrow> scalar_value result) \<Rightarrow> aggregate_function \<Rightarrow> merge_state \<Rightarrow> nat
   \<Rightarrow> (merge_state \<times> nat) result" where
  "merge_cell x ax look AggCount (MCount t) c =
     rbind (rbind (look c) as_u64) (\<lambda>n. Inr (MCount (t + n), c + 1))"
| "merge_cell x ax look AggSum (MSum v seen) c =
     rbind (look c) (\<lambda>p.
       if p \<noteq> SNull then rbind (as_f64 x p) (\<lambda>f. Inr (MSum (ax_f64_add ax v f) True, c + 1))
       else Inr (MSum v seen, c + 1))"
| "merge_cell x ax look AggSumUInt64 (MCount t) c =
     rbind (rbind (look c) as_u64) (\<lambda>n.
     rbind (ok_or (checked_add t n) (EExecution ''partial unsigned sum overflowed UInt64'')) (\<lambda>t'.
       Inr (MCount t', c + 1)))"
| "merge_cell x ax look AggMin (MMin current) c =
     rbind (look c) (\<lambda>p. rbind (merge_extreme current p True) (\<lambda>v. Inr (MMin v, c + 1)))"
| "merge_cell x ax look AggMax (MMax current) c =
     rbind (look c) (\<lambda>p. rbind (merge_extreme current p False) (\<lambda>v. Inr (MMax v, c + 1)))"
| "merge_cell x ax look AggAvg (MAvg s n) c =
     rbind (rbind (look c) (as_f64 x)) (\<lambda>f.
     rbind (rbind (look (c + 1)) as_u64) (\<lambda>k. Inr (MAvg (ax_f64_add ax s f) (n + k), c + 2)))"
| "merge_cell x ax look _ _ c = Inl (EExecution ''invalid partial aggregate state'')"

fun merge_cells ::
  "externs \<Rightarrow> arrow_externs \<Rightarrow> (nat \<Rightarrow> scalar_value result) \<Rightarrow> aggregate_function list \<Rightarrow> merge_state list \<Rightarrow> nat
   \<Rightarrow> merge_state list result" where
  "merge_cells x ax look (f # fs) (st # sts) c =
     rbind (merge_cell x ax look f st c) (\<lambda>(st', c').
     rbind (merge_cells x ax look fs sts c') (\<lambda>sts'. Inr (st' # sts')))"
| "merge_cells x ax look _ sts c = Inr sts"

definition insert_merge_group ::
  "arrow_externs \<Rightarrow> aggregate_function list \<Rightarrow> bytes \<Rightarrow> (merge_table, unit) charged" where
  "insert_merge_group ax fs k =
     charged_bind (grow_at 0 (merge_group_memory_bytes ax k (length fs))) (\<lambda>_.
       on_data (effect (\<lambda>d. Inr (bt_insert k (new_merge_states fs) d))))"

definition partial_at :: "externs \<Rightarrow> batch \<Rightarrow> nat \<Rightarrow> nat \<Rightarrow> scalar_value result" where
  "partial_at x b row c = rbind (batch_column b c) (\<lambda>a. value_at x a row)"

definition merge_row ::
  "externs \<Rightarrow> arrow_externs \<Rightarrow> nat \<Rightarrow> aggregate_function list \<Rightarrow> batch \<Rightarrow> encoded_rows \<Rightarrow> nat
   \<Rightarrow> (merge_table, unit) charged" where
  "merge_row x ax group_count fs b er row =
     charged_bind (on_data (inspect (\<lambda>d.
         rbind (encoded_key er row) (\<lambda>k. Inr (k, map_of d k = None))))) (\<lambda>(k, fresh).
     charged_bind (if fresh then insert_merge_group ax fs k else on_data (effect Inr)) (\<lambda>_.
       on_data (effect (\<lambda>d.
         rbind (ok_or (map_of d k) (EPanic ''encoded merge key was inserted'')) (\<lambda>sts.
         rbind (merge_cells x ax (partial_at x b row) fs sts group_count) (\<lambda>sts'.
           Inr (bt_insert k sts' d)))))))"

definition key_slice :: "batch \<Rightarrow> nat \<Rightarrow> array list result" where
  "key_slice b n =
     (if n \<le> length (rb_columns b) then Inr (take n (rb_columns b)) else Inl (EPanic ''range end index out of range''))"

definition merge_batch ::
  "externs \<Rightarrow> arrow_externs \<Rightarrow> nat \<Rightarrow> aggregate_function list \<Rightarrow> row_key_encoder \<Rightarrow> batch \<Rightarrow> (merge_table, unit) charged" where
  "merge_batch x ax group_count fs enc b =
     charged_bind (on_data (inspect (\<lambda>_.
         rbind (key_slice b group_count) (\<lambda>keys. encode_rows ax enc keys (rb_num_rows b))))) (\<lambda>er.
       scoped (encoded_memory_size ax er) (loop (merge_row x ax group_count fs b er) [0..<rb_num_rows b]))"

fun merge_finish :: "externs \<Rightarrow> arrow_externs \<Rightarrow> merge_state \<Rightarrow> scalar_value" where
  "merge_finish x ax (MCount n) = SUInt64 n"
| "merge_finish x ax (MSum v seen) = (if seen then SFloat64 v else SNull)"
| "merge_finish x ax (MMin v) = (case v of None \<Rightarrow> SNull | Some c \<Rightarrow> c)"
| "merge_finish x ax (MMax v) = (case v of None \<Rightarrow> SNull | Some c \<Rightarrow> c)"
| "merge_finish x ax (MAvg s n) = (if n = 0 then SNull else SFloat64 (ax_f64_div ax s (x_u64_to_f64 x n)))"

text \<open>The keys are decoded and the columns assembled as at the end of a hash aggregation.\<close>

definition merge_run ::
  "externs \<Rightarrow> arrow_externs \<Rightarrow> batch list \<Rightarrow> nat \<Rightarrow> aggregate_function list \<Rightarrow> schema \<Rightarrow> (merge_table, batch) charged" where
  "merge_run x ax batches group_count fs s =
     charged_bind (on_data (inspect (\<lambda>_.
         encoder_new ax (map field_type (take group_count (schema_fields s)))))) (\<lambda>enc.
     charged_bind (if group_count = 0 then insert_merge_group ax fs [] else on_data (effect Inr)) (\<lambda>_.
     charged_bind (loop (merge_batch x ax group_count fs enc) batches) (\<lambda>_.
       on_data (inspect (\<lambda>d.
         aggregate_output x ax s group_count enc (map fst d)
           (map (\<lambda>j. map (\<lambda>e. merge_finish x ax (snd e ! j)) d) [0..<length fs]))))))"

definition merge_partials ::
  "externs \<Rightarrow> arrow_externs \<Rightarrow> batch list \<Rightarrow> nat \<Rightarrow> expr list \<Rightarrow> schema \<Rightarrow> query_memory
   \<Rightarrow> batch result \<times> query_memory" where
  "merge_partials x ax batches group_count aggregates s m =
     (case rmap merge_function aggregates of
        Inl e \<Rightarrow> (Inl e, m)
      | Inr fs \<Rightarrow> with_budget [] (merge_run x ax batches group_count fs s) m)"

section \<open>Accounting and functional part\<close>

lemma merge_run_balance: "keeps_balance 1 (merge_run x ax batches g fs s)"
proof -
  have insert: "keeps_balance 1 (insert_merge_group ax fs k)" for k
    unfolding insert_merge_group_def by (intro balance_intros) simp
  have row: "keeps_balance 1 (merge_row x ax g fs b er row)" for b er row
    unfolding merge_row_def case_prod_unfold using insert by (auto intro!: balance_intros)
  show ?thesis
    unfolding merge_run_def merge_batch_def using insert row by (auto intro!: balance_intros)
qed

definition merge_row_pure ::
  "externs \<Rightarrow> arrow_externs \<Rightarrow> nat \<Rightarrow> aggregate_function list \<Rightarrow> batch \<Rightarrow> encoded_rows \<Rightarrow> nat \<Rightarrow> merge_table \<Rightarrow> merge_table result" where
  "merge_row_pure x ax g fs b er row d =
     rbind (encoded_key er row) (\<lambda>k.
     rbind (merge_cells x ax (partial_at x b row) fs
         (case map_of d k of Some sts \<Rightarrow> sts | None \<Rightarrow> new_merge_states fs) g) (\<lambda>sts'.
       Inr (bt_insert k sts' d)))"

definition merge_batch_pure ::
  "externs \<Rightarrow> arrow_externs \<Rightarrow> nat \<Rightarrow> aggregate_function list \<Rightarrow> row_key_encoder \<Rightarrow> batch \<Rightarrow> merge_table \<Rightarrow> merge_table result" where
  "merge_batch_pure x ax g fs enc b d =
     rbind (key_slice b g) (\<lambda>keys.
     rbind (encode_rows ax enc keys (rb_num_rows b)) (\<lambda>er.
       rfold (merge_row_pure x ax g fs b er) [0..<rb_num_rows b] d))"

lemma insert_merge_group_if:
  "computes (if c then insert_merge_group ax fs k else on_data (effect Inr))
     (effect (\<lambda>d. Inr (if c then bt_insert k (new_merge_states fs) d else d)))"
proof -
  have "computes (insert_merge_group ax fs k) (effect (\<lambda>d. Inr (bt_insert k (new_merge_states fs) d)))"
    unfolding insert_merge_group_def by (rule computes_cong, (rule computes_intros)+) (simp add: computes_simps)
  then show ?thesis by (cases c) auto
qed

lemma merge_row_computes: "computes (merge_row x ax g fs b er row) (effect (merge_row_pure x ax g fs b er row))"
  unfolding merge_row_def case_prod_unfold
  apply (rule computes_cong, rule computes_bind, rule computes_on_data, rule computes_bind, rule insert_merge_group_if,
      rule computes_on_data)
  subgoal for d
    by (cases "encoded_key er row"; cases "map_of d (projr (encoded_key er row))")
      (simp_all add: merge_row_pure_def computes_simps map_of_bt_insert ok_or_def cong: if_cong)
  done

lemma merge_batch_computes:
  "computes (merge_batch x ax g fs enc b) (effect (merge_batch_pure x ax g fs enc b))"
  unfolding merge_batch_def
  by (rule computes_cong, rule computes_bind, rule computes_on_data, rule computes_scoped, rule computes_loop,
      rule merge_row_computes) (simp add: merge_batch_pure_def computes_simps)

definition merge_start :: "nat \<Rightarrow> aggregate_function list \<Rightarrow> merge_table" where
  "merge_start g fs = (if g = 0 then [([], new_merge_states fs)] else [])"

lemma merge_partials_pure:
  assumes "rmap merge_function aggregates = Inr fs"
  shows "qm_reserved (snd (merge_partials x ax batches g aggregates s m)) = qm_reserved m"
    and "exhausted (fst (merge_partials x ax batches g aggregates s m))
      \<or> fst (merge_partials x ax batches g aggregates s m)
        = rbind (encoder_new ax (map field_type (take g (schema_fields s)))) (\<lambda>enc.
          rbind (rfold (merge_batch_pure x ax g fs enc) batches (merge_start g fs)) (\<lambda>d.
            aggregate_output x ax s g enc (map fst d)
              (map (\<lambda>j. map (\<lambda>e. merge_finish x ax (snd e ! j)) d) [0..<length fs])))"
proof -
  let ?out = "\<lambda>enc d. aggregate_output x ax s g enc (map fst d)
      (map (\<lambda>j. map (\<lambda>e. merge_finish x ax (snd e ! j)) d) [0..<length fs])"
  let ?g = "\<lambda>d. rbind (inspect (\<lambda>_. encoder_new ax (map field_type (take g (schema_fields s)))) d) (\<lambda>(enc, d1).
    rbind (effect (\<lambda>d. Inr (if g = 0 then bt_insert [] (new_merge_states fs) d else d)) d1) (\<lambda>(_, d2).
    rbind (effect (rfold (merge_batch_pure x ax g fs enc) batches) d2) (\<lambda>(_, d3). inspect (?out enc) d3)))"
  have "computes (merge_run x ax batches g fs s) ?g"
    unfolding merge_run_def
    by (intro computes_bind computes_on_data computes_loop insert_merge_group_if merge_batch_computes)
  from with_budget_spec [OF merge_run_balance this, where d = "[]" and m = m]
  show "qm_reserved (snd (merge_partials x ax batches g aggregates s m)) = qm_reserved m"
    "exhausted (fst (merge_partials x ax batches g aggregates s m))
      \<or> fst (merge_partials x ax batches g aggregates s m)
        = rbind (encoder_new ax (map field_type (take g (schema_fields s)))) (\<lambda>enc.
          rbind (rfold (merge_batch_pure x ax g fs enc) batches (merge_start g fs)) (?out enc))"
    using assms
    by (simp_all add: merge_partials_def computes_simps merge_start_def cong: if_cong split: if_splits)
qed

section \<open>Enough memory\<close>

text \<open>A merge reserves the encoded keys of the batch it reads and, at most once per row, a new group.\<close>

definition merge_row_cost :: "arrow_externs \<Rightarrow> nat \<Rightarrow> encoded_rows \<Rightarrow> nat \<Rightarrow> nat" where
  "merge_row_cost ax n er row =
     (case encoded_key er row of Inl _ \<Rightarrow> 0 | Inr k \<Rightarrow> unat (merge_group_memory_bytes ax k n))"

definition merge_batch_cost :: "arrow_externs \<Rightarrow> nat \<Rightarrow> nat \<Rightarrow> row_key_encoder \<Rightarrow> batch \<Rightarrow> nat" where
  "merge_batch_cost ax g n enc b =
     (case rbind (key_slice b g) (\<lambda>keys. encode_rows ax enc keys (rb_num_rows b)) of
        Inl _ \<Rightarrow> 0
      | Inr er \<Rightarrow> unat (encoded_memory_size ax er) + sum_list (map (merge_row_cost ax n er) [0..<rb_num_rows b]))"

definition merge_budget :: "arrow_externs \<Rightarrow> batch list \<Rightarrow> nat \<Rightarrow> nat \<Rightarrow> schema \<Rightarrow> nat" where
  "merge_budget ax batches g n s =
     (case encoder_new ax (map field_type (take g (schema_fields s))) of
        Inl _ \<Rightarrow> 0
      | Inr enc \<Rightarrow> unat (merge_group_memory_bytes ax [] n) + sum_list (map (merge_batch_cost ax g n enc) batches))"

lemma insert_merge_group_pays:
  "pays 1 (\<lambda>_. unat (merge_group_memory_bytes ax k (length fs)))
     (if c then insert_merge_group ax fs k else on_data (effect Inr))
     (effect (\<lambda>d. Inr (if c then bt_insert k (new_merge_states fs) d else d)))"
proof (cases c)
  case True
  have "pays 1 (\<lambda>_. unat (merge_group_memory_bytes ax k (length fs))) (insert_merge_group ax fs k)
      (effect (\<lambda>d. Inr (bt_insert k (new_merge_states fs) d)))"
    unfolding insert_merge_group_def
    by (rule pays_weaken, rule pays_bind, rule pays_grow_at, simp, rule pays_on_data)
      (auto simp: cost_bind_def effect_def)
  then show ?thesis using True by simp
qed (auto intro: pays_weaken [OF pays_on_data])

lemma merge_row_pays:
  "pays 1 (\<lambda>_. merge_row_cost ax (length fs) er row) (merge_row x ax g fs b er row) (effect (merge_row_pure x ax g fs b er row))"
  unfolding merge_row_def case_prod_unfold
  apply (rule pays_weaken, rule pays_bind, rule pays_on_data, rule pays_bind, rule insert_merge_group_pays, rule pays_on_data)
  subgoal for d
    by (auto simp: cost_bind_def inspect_def effect_def merge_row_cost_def rbind_def split: sum.splits)
  subgoal for d
    by (cases "encoded_key er row"; cases "map_of d (projr (encoded_key er row))")
      (simp_all add: merge_row_pure_def computes_simps map_of_bt_insert ok_or_def cong: if_cong)
  done

lemma merge_batch_pays:
  "pays 1 (\<lambda>_. merge_batch_cost ax g (length fs) enc b) (merge_batch x ax g fs enc b)
     (effect (merge_batch_pure x ax g fs enc b))"
  unfolding merge_batch_def
  apply (rule pays_weaken, rule pays_bind, rule pays_on_data, rule pays_scoped, rule pays_loop, rule merge_row_pays)
  subgoal for d
    using loop_cost_bound [where b = "merge_row_cost ax (length fs) er" and xs = "[0..<rb_num_rows b]"
        and c = "\<lambda>row d. merge_row_cost ax (length fs) er row" for er]
    by (auto simp: cost_bind_def inspect_def merge_batch_cost_def rbind_def split: sum.splits)
  subgoal for d
    by (simp add: merge_batch_pure_def computes_simps)
  done

lemma merge_partials_enough:
  assumes "rmap merge_function aggregates = Inr fs"
    and "unat (qm_reserved m) + merge_budget ax batches g (length fs) s \<le> unat (qm_limit m)"
  shows "fst (merge_partials x ax batches g aggregates s m)
    = rbind (encoder_new ax (map field_type (take g (schema_fields s)))) (\<lambda>enc.
      rbind (rfold (merge_batch_pure x ax g fs enc) batches (merge_start g fs)) (\<lambda>d.
        aggregate_output x ax s g enc (map fst d)
          (map (\<lambda>j. map (\<lambda>e. merge_finish x ax (snd e ! j)) d) [0..<length fs])))"
proof -
  let ?out = "\<lambda>enc d. aggregate_output x ax s g enc (map fst d)
      (map (\<lambda>j. map (\<lambda>e. merge_finish x ax (snd e ! j)) d) [0..<length fs])"
  let ?g = "\<lambda>d. rbind (inspect (\<lambda>_. encoder_new ax (map field_type (take g (schema_fields s)))) d) (\<lambda>(enc, d1).
    rbind (effect (\<lambda>d. Inr (if g = 0 then bt_insert [] (new_merge_states fs) d else d)) d1) (\<lambda>(_, d2).
    rbind (effect (rfold (merge_batch_pure x ax g fs enc) batches) d2) (\<lambda>(_, d3). inspect (?out enc) d3)))"
  have "pays 1 (\<lambda>_. merge_budget ax batches g (length fs) s) (merge_run x ax batches g fs s) ?g"
    unfolding merge_run_def
    apply (rule pays_weaken, rule pays_bind, rule pays_on_data, rule pays_bind, rule insert_merge_group_pays,
        rule pays_bind, rule pays_loop, rule merge_batch_pays, rule pays_on_data)
    subgoal for d
      using loop_cost_bound [where b = "merge_batch_cost ax g (length fs) enc" and xs = batches
          and c = "\<lambda>b d. merge_batch_cost ax g (length fs) enc b" for enc]
      by (auto simp: cost_bind_def inspect_def effect_def merge_budget_def rbind_def split: sum.splits)
    by (rule refl)
  from with_budget_enough [OF this, where d = "[]"]
  show ?thesis
    using assms
    by (simp add: merge_partials_def computes_simps merge_start_def cong: if_cong split: if_splits)
qed

end
