(* ===== verification/Merge_Props.thy ===== *)
theory Merge_Props
  imports Merge
begin

text \<open>
  The merge of partial aggregates computes, group by group, the combination of the partials of that
  group; and the combination of the partials of several parts is the aggregate of the whole.
\<close>

section \<open>The partials of a row\<close>

definition partial_width :: "aggregate_function \<Rightarrow> nat" where
  "partial_width f = (if f = AggAvg then 2 else 1)"

fun chunks :: "aggregate_function list \<Rightarrow> 'a list \<Rightarrow> 'a list list" where
  "chunks [] vs = []"
| "chunks (f # fs) vs = take (partial_width f) vs # chunks fs (drop (partial_width f) vs)"

lemma length_chunks [simp]: "length (chunks fs vs) = length fs"
  by (induction fs arbitrary: vs) simp_all

lemma chunks_concat: "list_all2 (\<lambda>f ch. length ch = partial_width f) fs chs \<Longrightarrow> chunks fs (concat chs) = chs"
  by (induction rule: list_all2_induct) simp_all

definition merge_value ::
  "externs \<Rightarrow> arrow_externs \<Rightarrow> aggregate_function \<Rightarrow> scalar_value list \<Rightarrow> merge_state \<Rightarrow> merge_state result" where
  "merge_value x ax f ch st = rbind (merge_cell x ax (\<lambda>i. Inr (ch ! i)) f st 0) (\<lambda>r. Inr (fst r))"

lemma merge_cell_value:
  assumes "\<And>i. i < partial_width f \<Longrightarrow> look (c + i) = Inr (ch ! i)"
  shows "merge_cell x ax look f st c = rbind (merge_value x ax f ch st) (\<lambda>st'. Inr (st', c + partial_width f))"
proof -
  have "look c = Inr (ch ! 0)" using assms [of 0] by (simp add: partial_width_def)
  moreover have "f = AggAvg \<Longrightarrow> look (Suc c) = Inr (ch ! Suc 0)" using assms [of 1] by (simp add: partial_width_def)
  ultimately show ?thesis
    by (cases f; cases st) (simp_all add: merge_value_def partial_width_def rbind_assoc)
qed

definition update_merge ::
  "externs \<Rightarrow> arrow_externs \<Rightarrow> aggregate_function list \<Rightarrow> scalar_value list list \<Rightarrow> merge_state list \<Rightarrow> merge_state list result" where
  "update_merge x ax fs chs sts = rmap (\<lambda>(f, ch, st). merge_value x ax f ch st) (zip fs (zip chs sts))"

lemma merge_cells_update:
  assumes "length sts = length fs" and "\<And>i. i < sum_list (map partial_width fs) \<Longrightarrow> look (c + i) = Inr (vs ! i)"
    and "sum_list (map partial_width fs) \<le> length vs"
  shows "merge_cells x ax look fs sts c = update_merge x ax fs (chunks fs vs) sts"
  using assms
proof (induction fs arbitrary: sts c vs)
  case (Cons f fs)
  let ?w = "partial_width f"
  obtain st sts' where sts: "sts = st # sts'" using Cons.prems(1) by (cases sts) auto
  have "merge_cell x ax look f st c = rbind (merge_value x ax f (take ?w vs) st) (\<lambda>st'. Inr (st', c + ?w))"
    using Cons.prems by (intro merge_cell_value) simp
  moreover have "merge_cells x ax look fs sts' (c + ?w) = update_merge x ax fs (chunks fs (drop ?w vs)) sts'"
  proof (rule Cons.IH)
    show "look (c + ?w + i) = Inr (drop ?w vs ! i)" if "i < sum_list (map partial_width fs)" for i
      using Cons.prems(2) [of "?w + i"] Cons.prems(3) that by (simp add: add.assoc)
  qed (use Cons.prems sts in simp_all)
  ultimately show ?case by (simp add: sts update_merge_def rbind_assoc)
qed (simp add: update_merge_def)

section \<open>What a merge returns\<close>

definition f64_of :: "externs \<Rightarrow> scalar_value \<Rightarrow> u64" where
  "f64_of x p = (case as_f64 x p of Inr f \<Rightarrow> f | Inl _ \<Rightarrow> 0)"

definition u64_of :: "scalar_value \<Rightarrow> u64" where
  "u64_of p = (case as_u64 p of Inr n \<Rightarrow> n | Inl _ \<Rightarrow> 0)"

definition merged ::
  "externs \<Rightarrow> arrow_externs \<Rightarrow> aggregate_function \<Rightarrow> scalar_value list list \<Rightarrow> merge_state" where
  "merged x ax f chs =
     (let ps = considered False (map (\<lambda>ch. ch ! 0) chs) in
      case f of
        AggCount \<Rightarrow> MCount (sum_list (map (\<lambda>ch. u64_of (ch ! 0)) chs))
      | AggSum \<Rightarrow> MSum (foldl (ax_f64_add ax) 0 (map (f64_of x) ps)) (ps \<noteq> [])
      | AggSumUInt64 \<Rightarrow> MCount (sum_list (map (\<lambda>ch. u64_of (ch ! 0)) chs))
      | AggMin \<Rightarrow> MMin (extreme ChooseMin ps)
      | AggMax \<Rightarrow> MMax (extreme ChooseMax ps)
      | AggAvg \<Rightarrow> MAvg (foldl (ax_f64_add ax) 0 (map (\<lambda>ch. f64_of x (ch ! 0)) chs))
          (sum_list (map (\<lambda>ch. u64_of (ch ! 1)) chs)))"

text \<open>Partials of the types that a partial aggregation produces.\<close>

definition counter :: "scalar_value \<Rightarrow> bool" where
  "counter p = (case p of SUInt64 _ \<Rightarrow> True | SNull \<Rightarrow> True | _ \<Rightarrow> False)"

definition partials_ok :: "aggregate_function \<Rightarrow> scalar_value list list \<Rightarrow> bool" where
  "partials_ok f chs =
     (case f of
        AggCount \<Rightarrow> \<forall>ch\<in>set chs. counter (ch ! 0)
      | AggSum \<Rightarrow> \<forall>ch\<in>set chs. ch ! 0 = SNull \<or> numeric (ch ! 0)
      | AggSumUInt64 \<Rightarrow> (\<forall>ch\<in>set chs. counter (ch ! 0)) \<and> sum_list (map (\<lambda>ch. unat (u64_of (ch ! 0))) chs) < 2 ^ 64
      | AggMin \<Rightarrow> comparable (considered False (map (\<lambda>ch. ch ! 0) chs))
      | AggMax \<Rightarrow> comparable (considered False (map (\<lambda>ch. ch ! 0) chs))
      | AggAvg \<Rightarrow> \<forall>ch\<in>set chs. (ch ! 0 = SNull \<or> numeric (ch ! 0)) \<and> counter (ch ! 1))"

lemma as_u64_counter: "counter p \<Longrightarrow> as_u64 p = Inr (u64_of p)"
  by (cases p) (simp_all add: counter_def u64_of_def)

lemma as_f64_numeric: "p = SNull \<or> numeric p \<Longrightarrow> as_f64 x p = Inr (f64_of x p)"
  by (cases p) (simp_all add: f64_of_def)

lemma merge_extreme_update: "merge_extreme c p b = Inr v \<longleftrightarrow> update_extreme c p (if b then ChooseMin else ChooseMax) = Inr v"
  by (auto simp: merge_extreme_def update_extreme_def should_replace_extreme_def split: option.splits ordering.splits)

lemma merged_Nil: "[merged x ax f []] = new_merge_states [f]"
  by (cases f) (simp_all add: merged_def new_merge_states_def)

lemma partials_ok_prefix: "partials_ok f (chs @ chs') \<Longrightarrow> partials_ok f chs"
  by (cases f) (auto simp: partials_ok_def considered_append comparable_def)

lemma merge_extreme_step:
  assumes "comparable (considered False (ps @ [p]))"
  shows "merge_extreme (extreme ChooseMin (considered False ps)) p True = Inr (extreme ChooseMin (considered False (ps @ [p])))"
    and "merge_extreme (extreme ChooseMax (considered False ps)) p False = Inr (extreme ChooseMax (considered False (ps @ [p])))"
proof -
  have "merge_extreme (extreme (if b then ChooseMin else ChooseMax) (considered False ps)) p b
      = Inr (extreme (if b then ChooseMin else ChooseMax) (considered False (ps @ [p])))" for b
  proof (cases "p = SNull")
    case False
    then show ?thesis
      using assms update_extreme_step [of p "considered False ps" "if b then ChooseMin else ChooseMax"]
      by (simp add: merge_extreme_update)
  qed (simp add: merge_extreme_def)
  from this [of True] this [of False]
  show "merge_extreme (extreme ChooseMin (considered False ps)) p True = Inr (extreme ChooseMin (considered False (ps @ [p])))"
    "merge_extreme (extreme ChooseMax (considered False ps)) p False = Inr (extreme ChooseMax (considered False (ps @ [p])))"
    by simp_all
qed

lemma checked_sum_step:
  assumes "sum_list (map (\<lambda>ch. unat (g ch :: u64)) chs) + unat n < 2 ^ 64"
  shows "checked_add (sum_list (map g chs)) n = Some (sum_list (map g chs) + n)"
proof -
  have "unat (sum_list (map g chs)) \<le> sum_list (map (\<lambda>ch. unat (g ch)) chs)"
    by (induction chs) (auto simp: unat_word_ariths(1) intro: order_trans [OF mod_less_eq_dividend])
  then have "unat (sum_list (map g chs)) + unat n < 2 ^ 64" using assms by linarith
  then show ?thesis by (simp add: checked_add_def)
qed

lemma merge_value_step:
  assumes "partials_ok f (chs @ [ch])"
  shows "merge_value x ax f ch (merged x ax f chs) = Inr (merged x ax f (chs @ [ch]))"
proof (cases f)
  case AggSum
  then show ?thesis using assms as_f64_numeric [of "ch ! 0" x]
    by (cases "ch ! 0 = SNull") (auto simp: partials_ok_def merge_value_def merged_def Let_def)
next
  case AggSumUInt64
  then have "checked_add (sum_list (map (\<lambda>ch. u64_of (ch ! 0)) chs)) (u64_of (ch ! 0))
      = Some (sum_list (map (\<lambda>ch. u64_of (ch ! 0)) chs) + u64_of (ch ! 0))"
    using assms by (intro checked_sum_step) (simp add: partials_ok_def)
  then show ?thesis using AggSumUInt64 assms
    by (simp add: partials_ok_def merge_value_def merged_def Let_def as_u64_counter)
qed (use assms merge_extreme_step [of "map (\<lambda>ch. ch ! 0) chs" "ch ! 0"] in
    \<open>simp_all add: partials_ok_def merge_value_def merged_def Let_def as_u64_counter as_f64_numeric\<close>)

definition merged_states ::
  "externs \<Rightarrow> arrow_externs \<Rightarrow> aggregate_function list \<Rightarrow> scalar_value list list list \<Rightarrow> merge_state list" where
  "merged_states x ax fs ps = map (\<lambda>j. merged x ax (fs ! j) (column_at j ps)) [0..<length fs]"

definition all_partials_ok :: "aggregate_function list \<Rightarrow> scalar_value list list list \<Rightarrow> bool" where
  "all_partials_ok fs ps \<longleftrightarrow> (\<forall>p\<in>set ps. length p = length fs)
     \<and> (\<forall>j<length fs. partials_ok (fs ! j) (column_at j ps))"

lemma all_partials_ok_Nil: "all_partials_ok fs []"
  by (simp add: all_partials_ok_def column_at_def partials_ok_def comparable_def split: aggregate_function.split)

interpretation mrg: grouping "update_merge x ax fs" "new_merge_states fs" "merged_states x ax fs" "all_partials_ok fs" for x ax fs
proof
  show "merged_states x ax fs [] = new_merge_states fs"
  proof (rule nth_equalityI)
    show "merged_states x ax fs [] ! j = new_merge_states fs ! j" if "j < length (merged_states x ax fs [])" for j
      using merged_Nil [of x ax "fs ! j"] that by (simp add: merged_states_def new_merge_states_def column_at_def)
  qed (simp add: merged_states_def new_merge_states_def)
  show "all_partials_ok fs ps" if "all_partials_ok fs (ps @ qs)" for ps qs
    using that partials_ok_prefix by (fastforce simp: all_partials_ok_def column_at_def)
  show "update_merge x ax fs p (merged_states x ax fs ps) = Inr (merged_states x ax fs (ps @ [p]))"
    if ok: "all_partials_ok fs (ps @ [p])" for ps p
  proof -
    have "merge_value x ax (fs ! j) (p ! j) (merged x ax (fs ! j) (column_at j ps))
        = Inr (merged x ax (fs ! j) (column_at j (ps @ [p])))" if "j < length fs" for j
      using ok that merge_value_step [of "fs ! j" "column_at j ps" "p ! j"] by (simp add: all_partials_ok_def column_at_def)
    then show ?thesis
      using ok
      by (auto simp: update_merge_def rmap_eq_Inr list_all2_conv_all_nth all_partials_ok_def merged_states_def)
  qed
qed

section \<open>The rows of the partial batches\<close>

text \<open>A schema of partials: the key columns, then the columns of the partials of every function.\<close>

definition partial_schema_ok :: "schema \<Rightarrow> data_type list \<Rightarrow> aggregate_function list \<Rightarrow> bool" where
  "partial_schema_ok ps ktys fs \<longleftrightarrow> list_all plain_type (field_types ps) \<and> take (length ktys) (field_types ps) = ktys
     \<and> length (field_types ps) = length ktys + sum_list (map partial_width fs)"

definition merge_input ::
  "externs \<Rightarrow> schema \<Rightarrow> data_type list \<Rightarrow> aggregate_function list \<Rightarrow> cell list \<Rightarrow> cell list \<times> scalar_value list list" where
  "merge_input x ps ktys fs r =
     (take (length ktys) r, chunks fs (row_values x (drop (length ktys) (field_types ps)) (drop (length ktys) r)))"

definition merge_rows ::
  "externs \<Rightarrow> schema \<Rightarrow> data_type list \<Rightarrow> aggregate_function list \<Rightarrow> batch list
   \<Rightarrow> (cell list \<times> scalar_value list list) list" where
  "merge_rows x ps ktys fs bs = map (merge_input x ps ktys fs) (concat (map batch_rows bs))"

lemma merge_rows_ok:
  assumes "partial_schema_ok ps ktys fs" and "\<forall>b\<in>set bs. batch_ok ps b" and "r \<in> set (merge_rows x ps ktys fs bs)"
  shows "row_ok ktys (fst r)" and "length (snd r) = length fs"
proof -
  obtain c where c: "row_ok (field_types ps) c" "r = merge_input x ps ktys fs c"
    using assms(2,3) batch_rows_admitted row_admitted_ok by (auto simp: merge_rows_def) blast
  then show "row_ok ktys (fst r)"
    using assms(1) list_all2_takeI [of cell_ok "field_types ps" c "length ktys"]
    by (auto simp: merge_input_def row_ok_def partial_schema_ok_def)
  show "length (snd r) = length fs" using c by (simp add: merge_input_def)
qed

lemma partial_at_row:
  assumes "partial_schema_ok ps ktys fs" and "batch_ok ps b" and "row < rb_num_rows b" and "c < length (field_types ps)"
  shows "partial_at x b row c = Inr (cell_value x (field_types ps ! c) (batch_rows b ! row ! c))"
proof -
  have ok: "columns_ok (field_types ps) (rb_num_rows b) (rb_columns b)" using assms(2) by (simp add: batch_ok_def)
  note cols = columns_okD [OF ok]
  have "plain_type (field_types ps ! c)" using assms(1,4) by (simp add: partial_schema_ok_def list_all_length)
  then show ?thesis
    using assms(3,4) cols(1-4) value_at_ok [of "rb_columns b ! c" row x]
    by (simp add: partial_at_def batch_column_def batch_rows_def nth_cell_rows)
qed

lemma merge_row_step:
  assumes "partial_schema_ok ps ktys fs" and "batch_ok ps b" and "row < rb_num_rows b"
    and "encoded_key er row = Inr k" and "table_ok (length fs) d"
  shows "merge_row_pure x ax (length ktys) fs b er row d
    = group_step (update_merge x ax fs) (new_merge_states fs) (k, snd (merge_input x ps ktys fs (batch_rows b ! row))) d"
proof -
  let ?g = "length ktys" and ?r = "batch_rows b ! row"
  let ?vs = "row_values x (drop ?g (field_types ps)) (drop ?g ?r)"
  have r: "length ?r = length (field_types ps)"
    using assms(2,3) batch_rows_admitted [OF assms(2)] row_admitted_ok [of ps ?r]
    by (auto simp: row_ok_def batch_rows_def dest: list_all2_lengthD)
  have len: "length (field_types ps) = ?g + sum_list (map partial_width fs)"
    using assms(1) by (simp add: partial_schema_ok_def)
  have "length (case map_of d k of Some sts \<Rightarrow> sts | None \<Rightarrow> new_merge_states fs) = length fs"
    using assms(5) by (auto simp: table_ok_def new_merge_states_def split: option.splits)
  moreover have "partial_at x b row (?g + i) = Inr (?vs ! i)" if "i < sum_list (map partial_width fs)" for i
    using partial_at_row [OF assms(1-3)] that r len by (simp add: row_values_def)
  moreover have "sum_list (map partial_width fs) \<le> length ?vs" using r len by (simp add: row_values_def)
  ultimately have "merge_cells x ax (partial_at x b row) fs (case map_of d k of Some sts \<Rightarrow> sts | None \<Rightarrow> new_merge_states fs) ?g
      = update_merge x ax fs (chunks fs ?vs) (case map_of d k of Some sts \<Rightarrow> sts | None \<Rightarrow> new_merge_states fs)"
    by (rule merge_cells_update)
  then show ?thesis using assms(4) by (simp add: merge_row_pure_def group_step_def merge_input_def)
qed

lemma merge_step_ok:
  assumes "table_ok (length fs) d" and "length (snd r) = length fs"
    and "group_step (update_merge x ax fs) (new_merge_states fs) r d = Inr d'"
  shows "table_ok (length fs) d'"
proof -
  have "length sts = length fs" if "update_merge x ax fs (snd r) st = Inr sts" "length st = length fs" for st sts
    using rmap_length [OF that(1) [unfolded update_merge_def]] assms(2) that(2) by simp
  then show ?thesis
    using assms(1,3)
    by (auto simp: group_step_def table_ok_def rbind_eq_Inr map_of_bt_insert new_merge_states_def
        split: option.splits if_splits)
qed

lemma merge_batch_steps:
  assumes "row_format ax row" and "list_all plain_type ktys" and "encoder_new ax ktys = Inr enc"
    and "partial_schema_ok ps ktys fs" and "batch_ok ps b" and "table_ok (length fs) d"
  shows "merge_batch_pure x ax (length ktys) fs enc b d
    = rfold (group_step (update_merge x ax fs) (new_merge_states fs))
        (map (apfst (row_key row ktys)) (merge_rows x ps ktys fs [b])) d"
proof -
  let ?g = "length ktys" and ?n = "rb_num_rows b"
  have cols: "columns_ok (field_types ps) ?n (rb_columns b)" using assms(5) by (simp add: batch_ok_def)
  have g: "?g \<le> length (rb_columns b)" "take ?g (field_types ps) = ktys"
    using assms(4) columns_okD(1) [OF cols] by (simp_all add: partial_schema_ok_def)
  have keys: "columns_ok ktys ?n (take ?g (rb_columns b))"
    using cols g(2) by (auto simp: columns_ok_def simp flip: take_map dest: in_set_takeD)
  obtain er where er: "encode_rows ax enc (take ?g (rb_columns b)) ?n = Inr er"
    "\<And>i. i < ?n \<Longrightarrow> encoded_key er i = Inr (row_key row ktys (cell_rows ?n (take ?g (rb_columns b)) ! i))"
    using encode_rows_keys [OF assms(1,2) keys assms(3)] by metis
  have key_row: "cell_rows ?n (take ?g (rb_columns b)) ! i = fst (merge_input x ps ktys fs (batch_rows b ! i))" if "i < ?n" for i
    using that by (simp add: merge_input_def batch_rows_def nth_cell_rows take_map)
  have "rfold (merge_row_pure x ax ?g fs b er) [0..<?n] d
      = rfold (group_step (update_merge x ax fs) (new_merge_states fs))
          (map (\<lambda>i. apfst (row_key row ktys) (merge_input x ps ktys fs (batch_rows b ! i))) [0..<?n]) d"
  proof (rule rfold_simulates [where P = "table_ok (length fs)"])
    show "merge_row_pure x ax ?g fs b er i d = group_step (update_merge x ax fs) (new_merge_states fs)
        (apfst (row_key row ktys) (merge_input x ps ktys fs (batch_rows b ! i))) d"
      if "i \<in> set [0..<?n]" "table_ok (length fs) d" for i d
      using merge_row_step [OF assms(4,5) _ _ that(2), of i er] er(2) [of i] key_row [of i] that(1)
      by (simp add: apfst_def map_prod_def case_prod_unfold)
    show "table_ok (length fs) d'"
      if "table_ok (length fs) d" "group_step (update_merge x ax fs) (new_merge_states fs)
          (apfst (row_key row ktys) (merge_input x ps ktys fs (batch_rows b ! i))) d = Inr d'" for i d d'
      using merge_step_ok [OF that(1) _ that(2)] by (simp add: merge_input_def)
  qed (rule assms(6))
  moreover have "map (\<lambda>i. apfst (row_key row ktys) (merge_input x ps ktys fs (batch_rows b ! i))) [0..<?n]
      = map (apfst (row_key row ktys)) (merge_rows x ps ktys fs [b])"
    by (auto simp: merge_rows_def batch_rows_def intro!: nth_equalityI)
  ultimately show ?thesis by (simp add: merge_batch_pure_def key_slice_def g(1) er(1))
qed

lemma merge_batches_steps:
  assumes "row_format ax row" and "list_all plain_type ktys" and "encoder_new ax ktys = Inr enc"
    and "partial_schema_ok ps ktys fs" and "\<forall>b\<in>set bs. batch_ok ps b" and "table_ok (length fs) d"
  shows "rfold (merge_batch_pure x ax (length ktys) fs enc) bs d
    = rfold (group_step (update_merge x ax fs) (new_merge_states fs))
        (map (apfst (row_key row ktys)) (merge_rows x ps ktys fs bs)) d"
proof -
  let ?rows = "\<lambda>b. map (apfst (row_key row ktys)) (merge_rows x ps ktys fs [b])"
  have "rfold (merge_batch_pure x ax (length ktys) fs enc) bs d
      = rfold (rfold (group_step (update_merge x ax fs) (new_merge_states fs))) (map ?rows bs) d"
  proof (rule rfold_simulates [where P = "table_ok (length fs)"])
    show "merge_batch_pure x ax (length ktys) fs enc b d
        = rfold (group_step (update_merge x ax fs) (new_merge_states fs)) (?rows b) d"
      if "b \<in> set bs" "table_ok (length fs) d" for b d
      using merge_batch_steps [OF assms(1-4)] assms(5) that by blast
    show "table_ok (length fs) d'"
      if b: "b \<in> set bs" "table_ok (length fs) d"
        "rfold (group_step (update_merge x ax fs) (new_merge_states fs)) (?rows b) d = Inr d'" for b d d'
    proof (rule rfold_invariant [where P = "table_ok (length fs)", OF b(3,2)])
      fix r d d' assume "r \<in> set (?rows b)" "table_ok (length fs) d"
        "group_step (update_merge x ax fs) (new_merge_states fs) r d = Inr d'"
      then show "table_ok (length fs) d'"
        using merge_step_ok merge_rows_ok(2) [OF assms(4), of "[b]"] assms(5) b(1) by fastforce
    qed
  qed (rule assms(6))
  also have "\<dots> = rfold (group_step (update_merge x ax fs) (new_merge_states fs))
      (map (apfst (row_key row ktys)) (merge_rows x ps ktys fs bs)) d"
    by (simp add: merge_rows_def map_concat comp_def flip: rfold_concat)
  finally show ?thesis .
qed

definition merge_results ::
  "externs \<Rightarrow> arrow_externs \<Rightarrow> aggregate_function list \<Rightarrow> scalar_value list list list \<Rightarrow> scalar_value list" where
  "merge_results x ax fs ps = map (merge_finish x ax) (merged_states x ax fs ps)"

definition merged_rows ::
  "externs \<Rightarrow> arrow_externs \<Rightarrow> (data_type list \<Rightarrow> cell list \<Rightarrow> bytes) \<Rightarrow> schema \<Rightarrow> data_type list
   \<Rightarrow> aggregate_function list \<Rightarrow> (cell list \<times> scalar_value list list) list \<Rightarrow> cell list list" where
  "merged_rows x ax row s ktys fs rows =
     map (\<lambda>c. result_row x s c (merge_results x ax fs (values_of c rows))) (group_keys row ktys rows)"

lemma merge_table_rows:
  assumes "row_format ax row" and "list_all plain_type ktys" and "encoder_new ax ktys = Inr enc"
    and "partial_schema_ok ps ktys fs" and "\<forall>b\<in>set bs. batch_ok ps b"
    and "\<forall>c. all_partials_ok fs (values_of c (merge_rows x ps ktys fs bs))"
  shows "rfold (merge_batch_pure x ax (length ktys) fs enc) bs (merge_start (length ktys) fs)
    = Inr (map (\<lambda>c. (row_key row ktys c, merged_states x ax fs (values_of c (merge_rows x ps ktys fs bs))))
        (group_keys row ktys (merge_rows x ps ktys fs bs)))"
proof -
  let ?rows = "merge_rows x ps ktys fs bs"
  let ?krows = "map (apfst (row_key row ktys)) ?rows"
  have ok: "\<forall>r\<in>set ?rows. row_ok ktys (fst r)" using merge_rows_ok(1) [OF assms(4,5)] by blast
  have start: "merge_start (length ktys) fs = mrg.table x ax fs (base_keys ktys) []"
    using mrg.after_nil by (auto simp: merge_start_def mrg.table_def base_keys_def)
  have "table_ok (length fs) (merge_start (length ktys) fs)"
    by (simp add: merge_start_def table_ok_def bt_ok_def new_merge_states_def)
  then have "rfold (merge_batch_pure x ax (length ktys) fs enc) bs (merge_start (length ktys) fs)
      = rfold (group_step (update_merge x ax fs) (new_merge_states fs)) ?krows (mrg.table x ax fs (base_keys ktys) [])"
    using merge_batches_steps [OF assms(1-5)] start by simp
  also have "\<dots> = Inr (mrg.table x ax fs (base_keys ktys) ?krows)"
  proof (rule mrg.table_complete)
    show "all_partials_ok fs (values_of k ?krows)" for k
      using assms(6) all_partials_ok_Nil by (cases rule: values_of_encoded_cases [OF assms(1,2) ok, of k]) simp_all
  qed simp
  also have "mrg.table x ax fs (base_keys ktys) ?krows
      = map (\<lambda>c. (row_key row ktys c, merged_states x ax fs (values_of c ?rows))) (group_keys row ktys ?rows)"
    unfolding mrg.table_def encoded_group_keys [OF assms(1,2) ok, symmetric]
    using group_keys_ok [OF ok, of row] values_of_encoded [OF assms(1,2) ok] by simp
  finally show ?thesis .
qed

lemma merge_partials_spec:
  assumes "kernels_ok ax" and "row_format ax row" and "list_all plain_type ktys" and "ax_rows_new ax ktys = Inr ()"
    and "rmap merge_function aggregates = Inr fs" and "partial_schema_ok ps ktys fs" and "\<forall>b\<in>set bs. batch_ok ps b"
    and "\<forall>c. all_partials_ok fs (values_of c (merge_rows x ps ktys fs bs))"
    and "result_schema s ktys (length fs)"
    and "\<forall>r\<in>set (merged_rows x ax row s ktys fs (merge_rows x ps ktys fs bs)). row_admitted s r"
  shows "qm_reserved (snd (merge_partials x ax bs (length ktys) aggregates s m)) = qm_reserved m"
    and "exhausted (fst (merge_partials x ax bs (length ktys) aggregates s m))
      \<or> fst (merge_partials x ax bs (length ktys) aggregates s m)
        = Inr (batch_of_rows s (merged_rows x ax row s ktys fs (merge_rows x ps ktys fs bs)))"
    and "unat (qm_reserved m) + merge_budget ax bs (length ktys) (length fs) s \<le> unat (qm_limit m) \<Longrightarrow>
      fst (merge_partials x ax bs (length ktys) aggregates s m)
        = Inr (batch_of_rows s (merged_rows x ax row s ktys fs (merge_rows x ps ktys fs bs)))"
proof -
  let ?rows = "merge_rows x ps ktys fs bs"
  let ?f = "\<lambda>c. merge_results x ax fs (values_of c ?rows)"
  have "\<exists>enc. encoder_new ax ktys = Inr enc" using assms(4) by (simp add: encoder_new_def)
  then obtain enc where enc: "encoder_new ax ktys = Inr enc" by blast
  have types: "map field_type (take (length ktys) (schema_fields s)) = ktys"
    using assms(9) by (simp add: result_schema_def field_types_def take_map)
  have ok: "\<forall>c\<in>set (group_keys row ktys ?rows). row_ok ktys c"
    using group_keys_ok merge_rows_ok(1) [OF assms(6,7)] by blast
  have cols: "map (\<lambda>j. map (\<lambda>e. merge_finish x ax (snd e ! j))
        (map (\<lambda>c. (row_key row ktys c, merged_states x ax fs (values_of c ?rows))) (group_keys row ktys ?rows))) [0..<length fs]
      = map (\<lambda>j. map (\<lambda>c. ?f c ! j) (group_keys row ktys ?rows)) [0..<length fs]"
    by (simp add: merge_results_def merged_states_def comp_def)
  have out: "aggregate_output x ax s (length ktys) enc (map (row_key row ktys) (group_keys row ktys ?rows))
        (map (\<lambda>j. map (\<lambda>c. ?f c ! j) (group_keys row ktys ?rows)) [0..<length fs])
      = Inr (batch_of_rows s (merged_rows x ax row s ktys fs ?rows))"
    unfolding merged_rows_def
    by (rule aggregate_output_rows [OF assms(1-3) enc assms(9)])
      (use ok assms(10) in \<open>simp add: merged_rows_def merge_results_def merged_states_def\<close>)
  have "rbind (encoder_new ax (map field_type (take (length ktys) (schema_fields s)))) (\<lambda>enc.
      rbind (rfold (merge_batch_pure x ax (length ktys) fs enc) bs (merge_start (length ktys) fs)) (\<lambda>d.
        aggregate_output x ax s (length ktys) enc (map fst d)
          (map (\<lambda>j. map (\<lambda>e. merge_finish x ax (snd e ! j)) d) [0..<length fs])))
    = Inr (batch_of_rows s (merged_rows x ax row s ktys fs ?rows))"
    unfolding types enc rbind_Inr merge_table_rows [OF assms(2,3) enc assms(6-8)] cols
    by (simp add: comp_def out)
  then show "exhausted (fst (merge_partials x ax bs (length ktys) aggregates s m))
      \<or> fst (merge_partials x ax bs (length ktys) aggregates s m)
        = Inr (batch_of_rows s (merged_rows x ax row s ktys fs ?rows))"
    and "unat (qm_reserved m) + merge_budget ax bs (length ktys) (length fs) s \<le> unat (qm_limit m) \<Longrightarrow>
      fst (merge_partials x ax bs (length ktys) aggregates s m)
        = Inr (batch_of_rows s (merged_rows x ax row s ktys fs ?rows))"
    using merge_partials_pure(2) [OF assms(5), where x = x and ax = ax and batches = bs and g = "length ktys" and s = s and m = m]
      merge_partials_enough [OF assms(5), where x = x and ax = ax and batches = bs and g = "length ktys" and s = s and m = m]
    by simp_all
  show "qm_reserved (snd (merge_partials x ax bs (length ktys) aggregates s m)) = qm_reserved m"
    by (rule merge_partials_pure(1) [OF assms(5)])
qed

end
