(* ===== verification/Partials.thy ===== *)
theory Partials
  imports Merge_Props
begin

text \<open>
  Why partial aggregates can be merged: for each function, the combination of the partials of the
  parts of a list of values is the aggregate of the whole list.  Counts and extremes merge on any
  values; sums and averages are floats, so they merge on integers whose partial sums a float
  represents exactly.
\<close>

section \<open>The contract of a mergeable aggregate\<close>

locale mergeable =
  fixes partial :: "'v list \<Rightarrow> 'p" and combine :: "'p list \<Rightarrow> 'r" and whole :: "'v list \<Rightarrow> 'r" and ok :: "'v list \<Rightarrow> bool"
  assumes combine_parts: "parts \<noteq> [] \<Longrightarrow> ok (concat parts) \<Longrightarrow> combine (map partial parts) = whole (concat parts)"
begin

text \<open>Parts without a row of a group send no partial for it, and the others send one each.\<close>

lemma combine_groups:
  assumes "rows \<in> set parts" and "has rows" and "ok (values_of c (concat parts))"
    and "\<And>rows. \<not> has rows \<Longrightarrow> values_of c rows = []"
  shows "combine (map (\<lambda>rows. partial (values_of c rows)) (filter has parts)) = whole (values_of c (concat parts))"
proof -
  have "values_of c (concat parts) = concat (map (values_of c) (filter has parts))"
    using assms(4) by (induction parts) (simp_all add: values_of_append)
  moreover have "map (values_of c) (filter has parts) \<noteq> []" using assms(1,2) by (auto simp: filter_empty_conv)
  ultimately show ?thesis
    using combine_parts [of "map (values_of c) (filter has parts)"] assms(3) by (simp add: comp_def)
qed

end

section \<open>Counts\<close>

definition partial_chunk :: "externs \<Rightarrow> arrow_externs \<Rightarrow> aggregate_function \<Rightarrow> scalar_value list \<Rightarrow> scalar_value list" where
  "partial_chunk x ax f vs =
     (if f = AggAvg then [aggregate_of x ax AggSum False vs, aggregate_of x ax AggCount False vs]
      else [aggregate_of x ax f False vs])"

definition combined :: "externs \<Rightarrow> arrow_externs \<Rightarrow> aggregate_function \<Rightarrow> scalar_value list list \<Rightarrow> scalar_value" where
  "combined x ax f chs = merge_finish x ax (merged x ax f chs)"

lemma considered_concat: "considered False (concat parts) = concat (map (considered False) parts)"
  by (induction parts) (simp_all add: considered_append)

lemma sum_list_of_nat_lengths: "sum_list (map (\<lambda>vs. of_nat (length (g vs)) :: u64) parts) = of_nat (length (concat (map g parts)))"
  by (induction parts) simp_all

interpretation count: mergeable "partial_chunk x ax AggCount" "combined x ax AggCount" "aggregate_of x ax AggCount False" "\<lambda>_. True"
  for x ax
  by unfold_locales
    (simp add: combined_def partial_chunk_def merged_def aggregate_of_def u64_of_def comp_def Let_def
      considered_concat sum_list_of_nat_lengths)

section \<open>Extremes\<close>

lemma pick_assoc:
  assumes "comparable [u, v, w]"
  shows "pick choice (pick choice u v) w = pick choice u (pick choice v w)"
  using assms
  apply (cases u; cases v; cases w; simp add: comparable_def)
       apply (simp_all add: pick_def better_def compare_lin_def f64_partial_cmp_def
      split: ordering_choice.splits if_splits)
  apply auto
  done

lemma comparable_subset: "comparable vs \<Longrightarrow> set us \<subseteq> set vs \<Longrightarrow> comparable us"
  by (auto simp: comparable_def)

lemma extreme_append:
  assumes "comparable (vs @ ws)"
  shows "extreme choice (vs @ ws) =
    (case extreme choice vs of None \<Rightarrow> extreme choice ws
     | Some u \<Rightarrow> (case extreme choice ws of None \<Rightarrow> Some u | Some w \<Rightarrow> Some (pick choice u w)))"
  using assms
proof (induction ws rule: rev_induct)
  case (snoc z ws)
  then have IH: "extreme choice (vs @ ws) =
      (case extreme choice vs of None \<Rightarrow> extreme choice ws
       | Some u \<Rightarrow> (case extreme choice ws of None \<Rightarrow> Some u | Some w \<Rightarrow> Some (pick choice u w)))"
    by (auto simp: comparable_def)
  show ?case
  proof (cases "extreme choice vs")
    case (Some u)
    have "pick choice (pick choice u w) z = pick choice u (pick choice w z)" if "extreme choice ws = Some w" for w
      using extreme_in [OF Some] extreme_in [OF that] by (intro pick_assoc comparable_subset [OF snoc.prems]) auto
    then show ?thesis using IH Some extreme_snoc [of choice "vs @ ws" z] by (auto simp: extreme_snoc split: option.splits)
  qed simp
qed (simp split: option.splits)

text \<open>The extreme of a list of lists is the extreme of their extremes.\<close>

definition extremes :: "ordering_choice \<Rightarrow> scalar_value list list \<Rightarrow> scalar_value list" where
  "extremes choice parts = concat (map (\<lambda>vs. case extreme choice vs of None \<Rightarrow> [] | Some v \<Rightarrow> [v]) parts)"

lemma set_extremes: "set (extremes choice parts) \<subseteq> set (concat parts)"
  by (force simp: extremes_def dest: extreme_in [OF sym] split: option.splits)

lemma extreme_concat:
  assumes "comparable (concat parts)"
  shows "extreme choice (extremes choice parts) = extreme choice (concat parts)"
  using assms
proof (induction parts)
  case (Cons vs parts)
  have "comparable (concat parts)" using Cons.prems by (rule comparable_subset) auto
  note IH = Cons.IH [OF this]
  have split: "extremes choice (vs # parts) = extremes choice [vs] @ extremes choice parts" by (simp add: extremes_def)
  have "comparable (extremes choice [vs] @ extremes choice parts)"
    using set_extremes [of choice "vs # parts"] by (intro comparable_subset [OF Cons.prems]) (simp add: extremes_def)
  from extreme_append [OF this, of choice] extreme_append [of vs "concat parts" choice] Cons.prems IH
  show ?case by (auto simp: extremes_def split: option.splits)
qed (simp add: extremes_def)

lemma considered_map: "considered False (map g parts) = concat (map (\<lambda>p. considered False [g p]) parts)"
  by (induction parts) (simp_all add: considered_def Let_def)

lemma partial_extremes:
  assumes "f = AggMin \<and> choice = ChooseMin \<or> f = AggMax \<and> choice = ChooseMax"
    and "comparable (considered False (concat parts))"
  shows "extreme choice (considered False (map (\<lambda>vs. partial_chunk x ax f vs ! 0) parts))
    = extreme choice (considered False (concat parts))"
proof -
  have "considered False [partial_chunk x ax f vs ! 0]
      = (case extreme choice (considered False vs) of None \<Rightarrow> [] | Some v \<Rightarrow> [v])" for vs
  proof -
    have "partial_chunk x ax f vs ! 0 = (case extreme choice (considered False vs) of None \<Rightarrow> SNull | Some v \<Rightarrow> v)"
      using assms(1) by (auto simp: partial_chunk_def aggregate_of_def Let_def)
    moreover have "v \<noteq> SNull" if "extreme choice (considered False vs) = Some v" for v
      using extreme_in [OF that] by simp
    ultimately show ?thesis
      by (cases "extreme choice (considered False vs)") (simp_all add: considered_def [of False "[v]" for v])
  qed
  then have "considered False (map (\<lambda>vs. partial_chunk x ax f vs ! 0) parts) = extremes choice (map (considered False) parts)"
    by (subst considered_map) (simp add: extremes_def comp_def)
  then show ?thesis using extreme_concat [of "map (considered False) parts"] assms(2) by (simp add: considered_concat)
qed

interpretation minimum: mergeable "partial_chunk x ax AggMin" "combined x ax AggMin" "aggregate_of x ax AggMin False"
  "\<lambda>vs. comparable (considered False vs)" for x ax
  by unfold_locales
    (simp add: combined_def merged_def Let_def comp_def aggregate_of_def partial_extremes [where choice = ChooseMin])

interpretation maximum: mergeable "partial_chunk x ax AggMax" "combined x ax AggMax" "aggregate_of x ax AggMax False"
  "\<lambda>vs. comparable (considered False vs)" for x ax
  by unfold_locales
    (simp add: combined_def merged_def Let_def comp_def aggregate_of_def partial_extremes [where choice = ChooseMax])

section \<open>Sums and averages\<close>

text \<open>
  IEEE 754 doubles represent every integer up to \<open>2\<^sup>5\<^sup>3\<close> in absolute value, and adding two of them is
  exact when the result is such an integer.  \<open>fl\<close> is the double of an integer.
\<close>

definition exact :: "int \<Rightarrow> bool" where
  "exact i \<longleftrightarrow> \<bar>i\<bar> \<le> 2 ^ 53"

definition exact_floats :: "externs \<Rightarrow> arrow_externs \<Rightarrow> (int \<Rightarrow> u64) \<Rightarrow> bool" where
  "exact_floats x ax fl \<longleftrightarrow> fl 0 = 0
     \<and> (\<forall>i j. exact i \<and> exact j \<and> exact (i + j) \<longrightarrow> ax_f64_add ax (fl i) (fl j) = fl (i + j))
     \<and> (\<forall>i. exact i \<longrightarrow> ax_i128_to_f64 ax (word_of_int i) = fl i)
     \<and> (\<forall>n. exact (sint n) \<longrightarrow> x_i64_to_f64 x n = fl (sint n))
     \<and> (\<forall>n. exact (uint n) \<longrightarrow> x_u64_to_f64 x n = fl (uint n))"

lemma exact_floatsD:
  assumes "exact_floats x ax fl"
  shows "fl 0 = 0" and "exact i \<Longrightarrow> exact j \<Longrightarrow> exact (i + j) \<Longrightarrow> ax_f64_add ax (fl i) (fl j) = fl (i + j)"
    and "exact i \<Longrightarrow> ax_i128_to_f64 ax (word_of_int i) = fl i"
    and "exact (sint n) \<Longrightarrow> x_i64_to_f64 x n = fl (sint n)" and "exact (uint n) \<Longrightarrow> x_u64_to_f64 x n = fl (uint n)"
  using assms by (simp_all add: exact_floats_def)

text \<open>Integer values whose absolute values sum up to at most \<open>2\<^sup>5\<^sup>3\<close>.\<close>

definition whole_number :: "scalar_value \<Rightarrow> bool" where
  "whole_number v = (case v of SNull \<Rightarrow> True | SInt64 _ \<Rightarrow> True | SUInt64 _ \<Rightarrow> True | _ \<Rightarrow> False)"

definition magnitude :: "scalar_value list \<Rightarrow> int" where
  "magnitude vs = sum_list (map (\<lambda>v. \<bar>integer_part v\<bar>) vs)"

lemma magnitude_simps [simp]:
  "magnitude [] = 0" "magnitude (v # vs) = \<bar>integer_part v\<bar> + magnitude vs" "magnitude (vs @ ws) = magnitude vs + magnitude ws"
  by (simp_all add: magnitude_def)

lemma magnitude_nonneg [simp]: "0 \<le> magnitude vs"
  by (induction vs) simp_all

lemma magnitude_filter: "magnitude (filter P vs) \<le> magnitude vs"
  by (induction vs) (simp_all add: add_increasing)

lemma magnitude_concat_filter: "magnitude (concat (filter P parts)) \<le> magnitude (concat parts)"
  by (induction parts) (simp_all add: add_increasing)

definition summable :: "scalar_value list \<Rightarrow> bool" where
  "summable vs \<longleftrightarrow> list_all whole_number vs \<and> magnitude vs \<le> 2 ^ 53"

definition int_total :: "scalar_value list \<Rightarrow> int" where
  "int_total vs = sum_list (map integer_part vs)"

lemma int_total_simps [simp]: "int_total [] = 0" "int_total (v # vs) = integer_part v + int_total vs" "int_total (vs @ ws) = int_total vs + int_total ws"
  by (simp_all add: int_total_def)

lemma int_total_abs: "\<bar>int_total vs\<bar> \<le> magnitude vs"
  by (induction vs) (auto intro: order_trans [OF abs_triangle_ineq])

lemma summable_append: "summable (vs @ ws) \<Longrightarrow> summable vs \<and> summable ws"
  using magnitude_nonneg [of vs] magnitude_nonneg [of ws] unfolding summable_def magnitude_simps list_all_append by linarith

lemma summable_exact: "summable vs \<Longrightarrow> exact (int_total vs)"
  using int_total_abs [of vs] by (simp add: summable_def exact_def)

lemma summable_member:
  assumes "summable vs" and "v \<in> set vs"
  shows "exact (integer_part v)" and "whole_number v"
proof -
  obtain us ws where "vs = us @ [v] @ ws" using split_list [OF assms(2)] by auto
  then have "summable [v]" using assms(1) summable_append [of us "[v] @ ws"] summable_append [of "[v]" ws] by simp
  then show "exact (integer_part v)" "whole_number v" using summable_exact [of "[v]"] by (simp_all add: summable_def)
qed

lemma int_total_considered: "int_total (considered False vs) = int_total vs"
  by (simp add: int_total_def sum_considered)

lemma int_total_concat: "int_total (concat parts) = sum_list (map int_total parts)"
  by (induction parts) simp_all

lemma no_floats: "list_all whole_number vs \<Longrightarrow> concat (map float_part (considered False vs)) = []"
  by (induction vs) (auto simp: considered_def Let_def whole_number_def split: scalar_value.splits)

lemma exact_sum:
  assumes "exact_floats x ax fl" and "summable vs"
  shows "aggregate_of x ax AggSum False vs = (if considered False vs = [] then SNull else SFloat64 (fl (int_total vs)))"
proof -
  have "ax_f64_add ax 0 (ax_i128_to_f64 ax (word_of_int (int_total vs))) = fl (int_total vs)"
    using exact_floatsD(1,3) [OF assms(1)] exact_floatsD(2) [OF assms(1), of 0 "int_total vs"]
      summable_exact [OF assms(2)] by (simp add: exact_def)
  moreover have "concat (map float_part (considered False vs)) = []" using assms(2) by (intro no_floats) (simp add: summable_def)
  ultimately show ?thesis
    unfolding aggregate_of_def Let_def int_total_def by (simp add: sum_considered del: concat_eq_Nil_conv)
qed

text \<open>Adding the doubles of the totals of consecutive parts.\<close>

lemma exact_fold:
  assumes "exact_floats x ax fl" and "summable (concat parts)"
  shows "foldl (ax_f64_add ax) 0 (map (\<lambda>vs. fl (int_total vs)) parts) = fl (int_total (concat parts))"
  using assms(2)
proof (induction parts rule: rev_induct)
  case Nil
  then show ?case using exact_floatsD(1) [OF assms(1)] by simp
next
  case (snoc vs parts)
  then have ok: "summable (concat parts)" "summable vs" using summable_append [of "concat parts" vs] by simp_all
  then show ?case
    using snoc exact_floatsD(2) [OF assms(1) summable_exact [OF ok(1)] summable_exact [OF ok(2)]]
      summable_exact [OF snoc.prems] by simp
qed

lemma exact_partial_sums:
  assumes "exact_floats x ax fl" and "summable (concat parts)"
  shows "map (\<lambda>vs. f64_of x (aggregate_of x ax AggSum False vs)) parts = map (\<lambda>vs. fl (int_total vs)) parts"
    and "map (f64_of x) (considered False (map (aggregate_of x ax AggSum False) parts))
      = map (\<lambda>vs. fl (int_total vs)) (filter (\<lambda>vs. considered False vs \<noteq> []) parts)"
proof -
  have sum: "aggregate_of x ax AggSum False vs = (if considered False vs = [] then SNull else SFloat64 (fl (int_total vs)))"
    if mem: "vs \<in> set parts" for vs
  proof (rule exact_sum [OF assms(1)])
    obtain us ws where "parts = us @ [vs] @ ws" using split_list [OF mem] by auto
    then show "summable vs"
      using assms(2) summable_append [of "concat us" "vs @ concat ws"] summable_append [of vs "concat ws"] by simp
  qed
  have "fl (int_total vs) = 0" if "considered False vs = []" for vs
    using int_total_considered [of vs] that exact_floatsD(1) [OF assms(1)] by simp
  then show "map (\<lambda>vs. f64_of x (aggregate_of x ax AggSum False vs)) parts = map (\<lambda>vs. fl (int_total vs)) parts"
    using sum by (auto simp: f64_of_def)
  show "map (f64_of x) (considered False (map (aggregate_of x ax AggSum False) parts))
      = map (\<lambda>vs. fl (int_total vs)) (filter (\<lambda>vs. considered False vs \<noteq> []) parts)"
    using sum by (induction parts) (auto simp: considered_def Let_def f64_of_def)
qed

lemma considered_concat_filter:
  "considered False (concat parts) = considered False (concat (filter (\<lambda>vs. considered False vs \<noteq> []) parts))"
  by (induction parts) (simp_all add: considered_append)

lemma summable_filter: "summable (concat parts) \<Longrightarrow> summable (concat (filter P parts))"
  using magnitude_concat_filter [of P parts] by (auto simp: summable_def list_all_iff)

lemma summable_considered: "summable vs \<Longrightarrow> summable (considered False vs)"
  using magnitude_filter [of "\<lambda>v. v \<noteq> SNull" vs] by (auto simp: summable_def considered_def Let_def list_all_iff)

interpretation integer_sum: mergeable "partial_chunk x ax AggSum" "combined x ax AggSum" "aggregate_of x ax AggSum False"
  "\<lambda>vs. exact_floats x ax fl \<and> summable vs" for x ax fl
proof
  fix parts assume ok: "exact_floats x ax fl \<and> summable (concat parts)"
  let ?some = "filter (\<lambda>vs. considered False vs \<noteq> []) parts"
  have ps: "map (f64_of x) (considered False (map (aggregate_of x ax AggSum False) parts)) = map (\<lambda>vs. fl (int_total vs)) ?some"
    using ok exact_partial_sums(2) by blast
  have "foldl (ax_f64_add ax) 0 (map (\<lambda>vs. fl (int_total vs)) ?some) = fl (int_total (concat ?some))"
    using ok summable_filter by (intro exact_fold) auto
  also have "int_total (concat ?some) = int_total (concat parts)"
    using int_total_considered [of "concat parts"] int_total_considered [of "concat ?some"] considered_concat_filter [of parts] by simp
  finally have sum: "foldl (ax_f64_add ax) 0 (map (f64_of x) (considered False (map (aggregate_of x ax AggSum False) parts)))
      = fl (int_total (concat parts))" unfolding ps .
  have "considered False (map (aggregate_of x ax AggSum False) parts) = [] \<longleftrightarrow> considered False (concat parts) = []"
    using arg_cong [OF ps, of length] by (auto simp: considered_concat filter_empty_conv)
  then show "combined x ax AggSum (map (partial_chunk x ax AggSum) parts) = aggregate_of x ax AggSum False (concat parts)"
    using ok sum exact_sum [of x ax fl "concat parts"]
    by (simp add: combined_def merged_def partial_chunk_def Let_def comp_def)
qed

interpretation integer_avg: mergeable "partial_chunk x ax AggAvg" "combined x ax AggAvg" "aggregate_of x ax AggAvg False"
  "\<lambda>vs. exact_floats x ax fl \<and> summable vs \<and> length vs < 2 ^ 64" for x ax fl
proof
  fix parts assume ok: "exact_floats x ax fl \<and> summable (concat parts) \<and> length (concat parts) < 2 ^ 64"
  let ?ws = "considered False (concat parts)"
  have "as_float x v = fl (int_total [v])" if "v \<in> set ?ws" for v
    using ok that summable_member [of "concat parts" v] exact_floatsD(4,5) [of x ax fl]
    by (cases v) (auto simp: as_float_def whole_number_def)
  then have floats: "map (as_float x) ?ws = map (\<lambda>vs. fl (int_total vs)) (map (\<lambda>v. [v]) ?ws)" by simp
  have "summable (concat (map (\<lambda>v. [v]) ?ws))" using ok summable_considered by simp
  then have whole: "foldl (ax_f64_add ax) 0 (map (as_float x) ?ws) = fl (int_total (concat parts))"
    unfolding floats
    using ok exact_fold [of x ax fl "map (\<lambda>v. [v]) ?ws"] int_total_considered [of "concat parts"] by (simp del: map_map)
  have "foldl (ax_f64_add ax) 0 (map (\<lambda>vs. f64_of x (aggregate_of x ax AggSum False vs)) parts) = fl (int_total (concat parts))"
    using ok exact_fold [of x ax fl parts] by (simp only: exact_partial_sums(1) [of x ax fl parts])
  moreover have "length ?ws < 2 ^ 64" using ok length_considered [of False "concat parts"] by simp
  then have "(of_nat (length ?ws) :: u64) = 0 \<longleftrightarrow> ?ws = []"
    by (cases ?ws) (auto simp: word_of_nat_eq_0_iff simp del: of_nat_Suc dest!: dvd_imp_le)
  moreover have "sum_list (map (\<lambda>vs. u64_of (aggregate_of x ax AggCount False vs)) parts) = of_nat (length ?ws)"
    by (simp add: aggregate_of_def Let_def u64_of_def considered_concat sum_list_of_nat_lengths)
  ultimately show "combined x ax AggAvg (map (partial_chunk x ax AggAvg) parts) = aggregate_of x ax AggAvg False (concat parts)"
    using whole
    by (simp add: combined_def merged_def partial_chunk_def Let_def comp_def aggregate_of_def [where f = AggAvg])
qed

end
