(* ===== verification/Protocol.thy ===== *)
theory Protocol
  imports Plan_Codec
begin

text \<open>
  \<open>src/cluster/protocol.rs\<close>: the messages between the coordinator and its workers and their
  validation.  \<open>pb\<close> is the Protobuf decoder that the validation of a plan fragment needs.
\<close>

type_synonym query_id = string
type_synonym worker_id = string
type_synonym stage_id = u32
type_synonym partition_id = u32

definition PROTOCOL_VERSION :: u16 where
  "PROTOCOL_VERSION = 5"

definition stage_input_table_name :: "stage_id \<Rightarrow> string" where
  "stage_input_table_name s = ''__sparkx_stage_input_'' @ show_nat (unat s)"

definition protocol_error :: "string \<Rightarrow> sparkx_error" where
  "protocol_error m = EProtocol (''invalid distributed protocol message: '' @ m)"

definition validate_text_id :: "string \<Rightarrow> string \<Rightarrow> unit result" where
  "validate_text_id kind v =
     (if blank v then Inl (protocol_error (kind @ '' ID must not be empty''))
      else if 128 < length v then Inl (protocol_error (kind @ '' ID must not exceed 128 bytes''))
      else Inr ())"

definition validate_version :: "u16 \<Rightarrow> unit result" where
  "validate_version v =
     (if v \<noteq> PROTOCOL_VERSION
      then Inl (protocol_error ''unsupported protocol version {version}; expected {PROTOCOL_VERSION}'')
      else Inr ())"

definition query_id_validate :: "query_id \<Rightarrow> unit result" where
  "query_id_validate q = validate_text_id ''query'' q"

definition query_id_new :: "string \<Rightarrow> query_id result" where
  "query_id_new v = rbind (validate_text_id ''query'' v) (\<lambda>_. Inr v)"

definition worker_id_validate :: "worker_id \<Rightarrow> unit result" where
  "worker_id_validate w = validate_text_id ''worker'' w"

definition worker_id_new :: "string \<Rightarrow> worker_id result" where
  "worker_id_new v = rbind (validate_text_id ''worker'' v) (\<lambda>_. Inr v)"

section \<open>Stages\<close>

record hash_exchange =
  hx_columns :: "nat list"
  hx_partition_count :: u32

record stage_plan =
  sp_query_id :: query_id
  sp_stage_id :: stage_id
  sp_input_stages :: "stage_id list"
  sp_partition_count :: u32
  sp_plan_fragment :: bytes
  sp_output_exchange :: "hash_exchange option"
  sp_partitioned_input :: bool

fun validate_dependencies :: "stage_id \<Rightarrow> stage_id list \<Rightarrow> stage_id list \<Rightarrow> unit result" where
  "validate_dependencies own seen [] = Inr ()"
| "validate_dependencies own seen (d # ds) =
     (if d = own then Inl (protocol_error ''stage cannot depend on itself'')
      else if d \<in> set seen then Inl (protocol_error ''stage dependencies must be unique'')
      else validate_dependencies own (insort_insert d seen) ds)"

definition stage_plan_validate :: "pb_decoder \<Rightarrow> stage_plan \<Rightarrow> unit result" where
  "stage_plan_validate pb s =
     rbind (query_id_validate (sp_query_id s)) (\<lambda>_.
     rbind (require (sp_partition_count s \<noteq> 0)
              (protocol_error ''stage partition count must be greater than zero'')) (\<lambda>_.
     rbind (case sp_output_exchange s of
              None \<Rightarrow> Inr ()
            | Some ex \<Rightarrow> require (hx_partition_count ex \<noteq> 0 \<and> hx_columns ex \<noteq> [])
                (protocol_error ''hash exchange needs keys and a nonzero partition count'')) (\<lambda>_.
     rbind (require (\<not> (sp_partitioned_input s \<and> sp_input_stages s = []))
              (protocol_error ''partitioned input requires a dependency'')) (\<lambda>_.
     rbind (validate_fragment pb (sp_plan_fragment s)) (\<lambda>_.
       validate_dependencies (sp_stage_id s) [] (sp_input_stages s))))))"

definition stage_plan_from_physical_plan ::
  "pb_encoder \<Rightarrow> pb_decoder \<Rightarrow> query_id \<Rightarrow> stage_id \<Rightarrow> stage_id list \<Rightarrow> u32 \<Rightarrow> physical_plan
   \<Rightarrow> stage_plan result" where
  "stage_plan_from_physical_plan pe pb q s inputs n p =
     rbind (codec_encode pe p) (\<lambda>fragment.
       let stage = \<lparr>sp_query_id = q, sp_stage_id = s, sp_input_stages = inputs,
                    sp_partition_count = n, sp_plan_fragment = fragment,
                    sp_output_exchange = None, sp_partitioned_input = False\<rparr> in
       rbind (stage_plan_validate pb stage) (\<lambda>_. Inr stage))"

definition decode_physical_plan ::
  "externs \<Rightarrow> pb_decoder \<Rightarrow> stage_plan \<Rightarrow> catalog \<Rightarrow> physical_plan result" where
  "decode_physical_plan x pb s c =
     rbind (stage_plan_validate pb s) (\<lambda>_. codec_decode x pb (sp_plan_fragment s) c)"

section \<open>Tasks, leases and blocks\<close>

record task_attempt_id =
  ta_query_id :: query_id
  ta_stage_id :: stage_id
  ta_partition_id :: partition_id
  ta_attempt :: u32

definition task_validate :: "task_attempt_id \<Rightarrow> unit result" where
  "task_validate t = query_id_validate (ta_query_id t)"

definition task_validate_for :: "task_attempt_id \<Rightarrow> stage_plan \<Rightarrow> unit result" where
  "task_validate_for t s =
     rbind (task_validate t) (\<lambda>_.
     rbind (require (ta_query_id t = sp_query_id s)
              (protocol_error ''task query does not match its stage'')) (\<lambda>_.
     rbind (require (ta_stage_id t = sp_stage_id s)
              (protocol_error ''task stage does not match its stage plan'')) (\<lambda>_.
       require (ta_partition_id t < sp_partition_count s)
         (protocol_error ''task partition {} is outside stage partition count {}''))))"

record task_lease =
  lease_worker_id :: worker_id
  lease_issued_at_ms :: u64
  lease_expires_at_ms :: u64

definition lease_validate :: "task_lease \<Rightarrow> unit result" where
  "lease_validate l =
     rbind (worker_id_validate (lease_worker_id l)) (\<lambda>_.
       require (lease_issued_at_ms l < lease_expires_at_ms l)
         (protocol_error ''task lease must expire after it is issued''))"

datatype shuffle_location =
    WorkerLocation worker_id
  | FlightLocation worker_id string string
  | ObjectStoreLocation string

record shuffle_block =
  sb_producer :: task_attempt_id
  sb_output_partition :: partition_id
  sb_rows :: u64
  sb_bytes :: u64
  sb_checksum :: string
  sb_location :: shuffle_location

definition endpoint_authority :: "string \<Rightarrow> string option" where
  "endpoint_authority e =
     (case strip_prefix ''http://'' e of
        Some a \<Rightarrow> Some a
      | None \<Rightarrow> strip_prefix ''https://'' e)"

fun location_validate :: "shuffle_location \<Rightarrow> unit result" where
  "location_validate (WorkerLocation w) = worker_id_validate w"
| "location_validate (FlightLocation w endpoint ticket) =
     rbind (worker_id_validate w) (\<lambda>_.
     rbind (require (case endpoint_authority endpoint of
                       None \<Rightarrow> False
                     | Some a \<Rightarrow> \<not> blank a \<and> \<not> has_whitespace a)
              (protocol_error
                ''Flight shuffle endpoint must contain an http:// or https:// authority'')) (\<lambda>_.
       require (\<not> blank ticket) (protocol_error ''Flight shuffle ticket must not be empty'')))"
| "location_validate (ObjectStoreLocation uri) =
     require (\<not> blank uri) (protocol_error ''shuffle object-store location must not be empty'')"

definition block_validate :: "shuffle_block \<Rightarrow> unit result" where
  "block_validate b =
     rbind (task_validate (sb_producer b)) (\<lambda>_.
     rbind (require (\<not> blank (sb_checksum b))
              (protocol_error ''shuffle block checksum must not be empty'')) (\<lambda>_.
       location_validate (sb_location b)))"

definition block_validate_for :: "shuffle_block \<Rightarrow> task_attempt_id \<Rightarrow> worker_id \<Rightarrow> unit result" where
  "block_validate_for b t w =
     rbind (block_validate b) (\<lambda>_.
     rbind (require (sb_producer b = t)
              (protocol_error ''shuffle block producer does not match task update'')) (\<lambda>_.
       case sb_location b of
         WorkerLocation owner \<Rightarrow> require (owner = w)
           (protocol_error ''in-memory shuffle block must be owned by the reporting worker'')
       | FlightLocation owner _ _ \<Rightarrow> require (owner = w)
           (protocol_error ''Flight shuffle block must be owned by the reporting worker'')
       | ObjectStoreLocation _ \<Rightarrow> Inr ()))"

datatype task_state =
    Running u64
  | Succeeded u64 "shuffle_block list"
  | Failed u64 string bool
  | Cancelled u64 string

fun task_state_validate_for :: "task_state \<Rightarrow> task_attempt_id \<Rightarrow> worker_id \<Rightarrow> unit result" where
  "task_state_validate_for (Running _) t w = Inr ()"
| "task_state_validate_for (Succeeded _ blocks) t w = rall (\<lambda>b. block_validate_for b t w) blocks"
| "task_state_validate_for (Failed _ err _) t w =
     require (\<not> blank err) (protocol_error ''failed task must include an error'')"
| "task_state_validate_for (Cancelled _ reason) t w =
     require (\<not> blank reason) (protocol_error ''cancelled task must include a reason'')"

section \<open>Messages\<close>

record worker_registration =
  reg_worker_id :: worker_id
  reg_slots :: u32
  reg_memory_bytes :: u64

definition registration_validate :: "worker_registration \<Rightarrow> unit result" where
  "registration_validate r =
     rbind (worker_id_validate (reg_worker_id r)) (\<lambda>_.
     rbind (require (reg_slots r \<noteq> 0)
              (protocol_error ''worker must advertise at least one slot'')) (\<lambda>_.
       require (reg_memory_bytes r \<noteq> 0)
         (protocol_error ''worker must advertise non-zero memory'')))"

record worker_heartbeat =
  hb_worker_id :: worker_id
  hb_observed_at_ms :: u64
  hb_available_slots :: u32
  hb_available_memory_bytes :: u64

datatype coordinator_message =
    AssignTask u16 stage_plan task_attempt_id task_lease "shuffle_block list"
  | CancelQuery u16 query_id string

definition input_block_validate ::
  "stage_plan \<Rightarrow> task_attempt_id \<Rightarrow> shuffle_block \<Rightarrow> unit result" where
  "input_block_validate s t b =
     rbind (block_validate b) (\<lambda>_.
     rbind (require (\<not> (sp_partitioned_input s \<and> sb_output_partition b \<noteq> ta_partition_id t))
              (protocol_error ''input block targets a different partition'')) (\<lambda>_.
     rbind (require (ta_query_id (sb_producer b) = sp_query_id s)
              (protocol_error ''assignment input block belongs to a different query'')) (\<lambda>_.
       require (ta_stage_id (sb_producer b) \<in> set (sp_input_stages s))
         (protocol_error ''assignment input block was not produced by a dependency stage''))))"

fun coordinator_message_validate :: "pb_decoder \<Rightarrow> coordinator_message \<Rightarrow> unit result" where
  "coordinator_message_validate pb (AssignTask v s t l blocks) =
     rbind (validate_version v) (\<lambda>_.
     rbind (stage_plan_validate pb s) (\<lambda>_.
     rbind (task_validate_for t s) (\<lambda>_.
     rbind (lease_validate l) (\<lambda>_.
       rall (input_block_validate s t) blocks))))"
| "coordinator_message_validate pb (CancelQuery v q reason) =
     rbind (validate_version v) (\<lambda>_.
     rbind (query_id_validate q) (\<lambda>_.
       require (\<not> blank reason) (protocol_error ''query cancellation must include a reason'')))"

datatype worker_message =
    Register u16 worker_registration
  | Heartbeat u16 worker_heartbeat
  | TaskUpdate u16 worker_id task_attempt_id task_state

fun worker_message_validate :: "worker_message \<Rightarrow> unit result" where
  "worker_message_validate (Register v r) =
     rbind (validate_version v) (\<lambda>_. registration_validate r)"
| "worker_message_validate (Heartbeat v h) =
     rbind (validate_version v) (\<lambda>_. worker_id_validate (hb_worker_id h))"
| "worker_message_validate (TaskUpdate v w t st) =
     rbind (validate_version v) (\<lambda>_.
     rbind (worker_id_validate w) (\<lambda>_.
     rbind (query_id_validate (ta_query_id t)) (\<lambda>_.
       task_state_validate_for st t w)))"

section \<open>Facts\<close>

lemma validate_dependencies_ok:
  "validate_dependencies own seen ds = Inr u \<longleftrightarrow>
     own \<notin> set ds \<and> distinct ds \<and> set ds \<inter> set seen = {}"
  by (induction own seen ds rule: validate_dependencies.induct)
    (auto simp: set_insort_insert)

lemma lease_validate_ok:
  "lease_validate l = Inr u \<longleftrightarrow>
     is_ok (worker_id_validate (lease_worker_id l)) \<and> lease_issued_at_ms l < lease_expires_at_ms l"
  by (auto simp: lease_validate_def rbind_eq_Inr is_ok_iff)

lemma stage_plan_validate_ok:
  assumes "stage_plan_validate pb s = Inr u"
  shows "query_id_validate (sp_query_id s) = Inr ()" "sp_partition_count s \<noteq> 0"
    "\<And>ex. sp_output_exchange s = Some ex \<Longrightarrow> hx_partition_count ex \<noteq> 0"
    "sp_stage_id s \<notin> set (sp_input_stages s)" "distinct (sp_input_stages s)"
  using assms by (auto simp: stage_plan_validate_def rbind_eq_Inr validate_dependencies_ok
      split: option.splits)

end
