(* ===== verification/Distributed.thy ===== *)
theory Distributed
  imports Partials Protocol
begin

text \<open>
  Splitting an aggregation over the partitions of its input, \<open>src/cluster/distributed.rs\<close>: the
  partial expressions and schemas, the plan of the partial phase and that of the final phase, and the
  theorem that merging the partial results is aggregating everything at once.
\<close>

section \<open>Splitting a plan\<close>

fun is_distinct_aggregate :: "expr \<Rightarrow> bool" where
  "is_distinct_aggregate e = (case unalias e of Aggregate _ _ dist \<Rightarrow> dist | _ \<Rightarrow> False)"

fun contains_join :: "physical_plan \<Rightarrow> bool" where
  "contains_join (PHashJoin _ _ _ _ _ _ _) = True"
| "contains_join (PProjection _ p _ _) = contains_join p"
| "contains_join (PFilter _ p _ _) = contains_join p"
| "contains_join (PHashAggregate _ p _ _ _) = contains_join p"
| "contains_join (PSort _ p _ _) = contains_join p"
| "contains_join (PTopK _ p _ _ _) = contains_join p"
| "contains_join (PLimit _ p _ _) = contains_join p"
| "contains_join (PScan _ _ _ _ _ _) = False"

fun scan_partitions :: "physical_plan \<Rightarrow> nat option" where
  "scan_partitions (PScan _ _ t _ _ _) = Some (tp_partition_count t)"
| "scan_partitions (PProjection _ p _ _) = scan_partitions p"
| "scan_partitions (PFilter _ p _ _) = scan_partitions p"
| "scan_partitions (PHashAggregate _ p _ _ _) = scan_partitions p"
| "scan_partitions (PSort _ p _ _) = scan_partitions p"
| "scan_partitions (PTopK _ p _ _ _) = scan_partitions p"
| "scan_partitions (PLimit _ p _ _) = scan_partitions p"
| "scan_partitions (PHashJoin _ _ _ _ _ _ _) = None"

definition aggregate_schema :: "externs \<Rightarrow> schema \<Rightarrow> expr list \<Rightarrow> expr list \<Rightarrow> schema result" where
  "aggregate_schema x input groups aggregates =
     rbind (rmap (expr_field x input) (groups @ aggregates)) (\<lambda>fs. Inr (schema_new fs))"

fun partial_exprs_from :: "externs \<Rightarrow> nat \<Rightarrow> expr list \<Rightarrow> expr list result" where
  "partial_exprs_from x i [] = Inr []"
| "partial_exprs_from x i (e # es) =
     (case unalias e of
        Aggregate f a dist \<Rightarrow>
          rbind (partial_exprs_from x (i + 1) es) (\<lambda>ps.
            Inr ((if f = AggAvg
                  then [Alias (Aggregate AggSum a dist) (''__sparkx_avg_sum_'' @ show_nat i),
                        Alias (Aggregate AggCount a dist) (''__sparkx_avg_count_'' @ show_nat i)]
                  else [Alias (unalias e) (expr_name x e)]) @ ps))
      | _ \<Rightarrow> Inl (EPlanning ''expected aggregate expression, got {aggregate}''))"

definition partial_aggregate_exprs :: "externs \<Rightarrow> expr list \<Rightarrow> expr list result" where
  "partial_aggregate_exprs x aggregates = partial_exprs_from x 0 aggregates"

record partial_aggregate_plan =
  pa_worker_plan :: physical_plan
  pa_partition_count :: nat
  pa_group_count :: nat
  pa_aggregate_exprs :: "expr list"
  pa_output_schema :: schema
  pa_operator_id :: operator_id

definition split_mergeable_aggregate :: "externs \<Rightarrow> physical_plan \<Rightarrow> partial_aggregate_plan option result" where
  "split_mergeable_aggregate x plan =
     (case plan of
        PHashAggregate i input groups aggregates s \<Rightarrow>
          if list_ex is_distinct_aggregate aggregates then Inr None
          else (case scan_partitions input of
              None \<Rightarrow> Inr None
            | Some n \<Rightarrow>
                if n = 0 then Inl (EExecution ''distributed aggregate input exposes no scan partitions'')
                else
                  rbind (partial_aggregate_exprs x aggregates) (\<lambda>pexprs.
                  rbind (aggregate_schema x (physical_schema input) groups pexprs) (\<lambda>ps.
                    Inr (Some \<lparr>pa_worker_plan = PHashAggregate i input groups pexprs ps, pa_partition_count = n,
                      pa_group_count = length groups, pa_aggregate_exprs = aggregates, pa_output_schema = s,
                      pa_operator_id = i\<rparr>))))
      | _ \<Rightarrow> Inr None)"

text \<open>The final phase as a plan: merge the partial columns by name, then project the results.\<close>

definition aggregate_column :: "aggregate_function \<Rightarrow> string \<Rightarrow> string \<Rightarrow> expr" where
  "aggregate_column f column alias = Alias (Aggregate f (Column column) False) alias"

definition field_name_at :: "schema \<Rightarrow> nat \<Rightarrow> string result" where
  "field_name_at s i = rbind (schema_field s i) (\<lambda>f. Inr (field_name f))"

fun final_exprs_from ::
  "schema \<Rightarrow> schema \<Rightarrow> nat \<Rightarrow> nat \<Rightarrow> nat \<Rightarrow> expr list \<Rightarrow> (expr list \<times> expr list) result" where
  "final_exprs_from input output g i c [] = Inr ([], [])"
| "final_exprs_from input output g i c (e # es) =
     (case unalias e of
        Aggregate f _ _ \<Rightarrow>
          rbind (field_name_at output (g + i)) (\<lambda>output_name.
          rbind (field_name_at input c) (\<lambda>partial_name.
          (let merge_name = ''__sparkx_merge_'' @ show_nat i in
           if f = AggAvg then
             rbind (field_name_at input (c + 1)) (\<lambda>count_name.
             (let sum_name = ''__sparkx_merge_avg_sum_'' @ show_nat i;
                  count_merge = ''__sparkx_merge_avg_count_'' @ show_nat i in
              rbind (final_exprs_from input output g (i + 1) (c + 2) es) (\<lambda>(ms, ps).
                Inr (aggregate_column AggSum partial_name sum_name
                       # aggregate_column AggSumUInt64 count_name count_merge # ms,
                     Alias (Binary (Column sum_name) OpDivide (Column count_merge)) output_name # ps))))
           else
             rbind (final_exprs_from input output g (i + 1) (c + 1) es) (\<lambda>(ms, ps).
               Inr (aggregate_column (if f = AggCount then AggSumUInt64 else f) partial_name merge_name # ms,
                    Alias (Column merge_name) output_name # ps)))))
      | _ \<Rightarrow> Inl (EPlanning ''expected aggregate expression, got {aggregate}''))"

definition final_worker_plan :: "externs \<Rightarrow> partial_aggregate_plan \<Rightarrow> stage_id \<Rightarrow> physical_plan result" where
  "final_worker_plan x pa input_stage =
     (let input = physical_schema (pa_worker_plan pa); g = pa_group_count pa in
      rbind (memory_table_new x input [[]]) (\<lambda>t.
      (let scan = PScan (saturating_add (pa_operator_id pa) 2) (stage_input_table_name input_stage)
                    (memory_provider x t) None [] input;
           merge_groups = map (\<lambda>f. Column (field_name f)) (take g (schema_fields input));
           keys = map2 (\<lambda>i out. Alias (Column (field_name i)) (field_name out))
                    (take g (schema_fields input)) (take g (schema_fields (pa_output_schema pa))) in
       rbind (final_exprs_from input (pa_output_schema pa) g 0 g (pa_aggregate_exprs pa)) (\<lambda>(ms, ps).
       rbind (aggregate_schema x input merge_groups ms) (\<lambda>merge_schema.
         Inr (PProjection (pa_operator_id pa)
                (PHashAggregate (saturating_add (pa_operator_id pa) 1) scan merge_groups ms merge_schema)
                (keys @ ps) (pa_output_schema pa)))))))"

section \<open>Partial expressions\<close>

definition partial_specs :: "aggregate_spec \<Rightarrow> aggregate_spec list" where
  "partial_specs spec =
     (case spec of (f, e, dist) \<Rightarrow>
        if f = AggAvg then [(AggSum, e, dist), (AggCount, e, dist)] else [(f, e, dist)])"

lemma aggregate_spec_Inr: "aggregate_spec e = Inr (f, a, dist) \<longleftrightarrow> unalias e = Aggregate f a dist"
  by (auto simp: aggregate_spec_def split: expr.splits)

lemma aggregate_spec_Alias [simp]: "aggregate_spec (Alias (Aggregate f a dist) n) = Inr (f, a, dist)"
  by (simp add: aggregate_spec_def)

lemma partial_exprs_specs:
  assumes "rmap aggregate_spec aggregates = Inr specs"
  obtains pexprs where "partial_exprs_from x i aggregates = Inr pexprs"
    and "rmap aggregate_spec pexprs = Inr (concat (map partial_specs specs))"
  using assms
proof (induction aggregates arbitrary: i specs thesis)
  case (Cons e es)
  obtain f a dist specs' where e: "unalias e = Aggregate f a dist" "rmap aggregate_spec es = Inr specs'" "specs = (f, a, dist) # specs'"
    using Cons.prems(2) by (auto simp: rbind_eq_Inr aggregate_spec_Inr)
  obtain ps where ps: "partial_exprs_from x (i + 1) es = Inr ps" "rmap aggregate_spec ps = Inr (concat (map partial_specs specs'))"
    using Cons.IH [of "i + 1" specs'] e(2) by blast
  show ?case
    by (rule Cons.prems(1)) (use e ps in \<open>auto simp: partial_specs_def [of "(f, a, dist)"]\<close>)
qed simp

lemma merge_functions:
  "rmap aggregate_spec aggregates = Inr specs \<Longrightarrow> rmap merge_function aggregates = Inr (map fst specs)"
proof (induction aggregates arbitrary: specs)
  case (Cons e es)
  then show ?case by (auto simp: rbind_eq_Inr aggregate_spec_Inr merge_function_def)
qed simp

section \<open>Rows by argument\<close>

text \<open>A row as its key and the value of every argument expression; a list of specifications selects from it.\<close>

definition argument_of :: "externs \<Rightarrow> batch \<Rightarrow> nat \<Rightarrow> expr \<Rightarrow> scalar_value" where
  "argument_of x b i e = argument_at x b i (AggCount, e, False)"

definition input_args :: "externs \<Rightarrow> expr list \<Rightarrow> batch list \<Rightarrow> (cell list \<times> (expr \<Rightarrow> scalar_value)) list" where
  "input_args x groups bs = concat (map (\<lambda>b. map (\<lambda>i.
     (cell_rows (rb_num_rows b) (key_columns x groups b) ! i, argument_of x b i)) [0..<rb_num_rows b]) bs)"

definition select_args :: "aggregate_spec list \<Rightarrow> (expr \<Rightarrow> scalar_value) \<Rightarrow> scalar_value list" where
  "select_args specs a = map (\<lambda>(_, e, _). a e) specs"

lemma input_rows_args: "input_rows x groups specs bs = map (apsnd (select_args specs)) (input_args x groups bs)"
proof -
  have "input_row x groups specs b
      = (\<lambda>i. (cell_rows (rb_num_rows b) (key_columns x groups b) ! i, select_args specs (argument_of x b i)))" for b
    by (rule ext) (simp add: input_row_def select_args_def argument_of_def argument_at_def aggregate_array_def case_prod_unfold)
  then show ?thesis by (simp add: input_rows_def input_args_def map_concat comp_def)
qed

lemma values_of_apsnd: "values_of c (map (apsnd g) rows) = map g (values_of c rows)"
  by (induction rows) (auto simp: values_of_def)

lemma keys_apsnd: "group_keys row ktys (map (apsnd g) rows) = group_keys row ktys rows"
  by (simp add: group_keys_def comp_def)

definition spec_values :: "aggregate_spec \<Rightarrow> (expr \<Rightarrow> scalar_value) list \<Rightarrow> scalar_value list" where
  "spec_values spec args = map (\<lambda>a. a (fst (snd spec))) args"

lemma column_at_select: "j < length specs \<Longrightarrow> column_at j (map (select_args specs) args) = spec_values (specs ! j) args"
  by (simp add: column_at_def select_args_def spec_values_def case_prod_unfold)

lemma aggregates_of_select:
  "aggregates_of x ax specs (map (select_args specs) args)
   = map (\<lambda>spec. aggregate_of x ax (fst spec) (snd (snd spec)) (spec_values spec args)) specs"
  by (rule nth_equalityI) (simp_all add: aggregates_of_def column_at_select case_prod_unfold)

lemma group_ok_select:
  "group_ok specs (map (select_args specs) args) \<longleftrightarrow> (\<forall>spec\<in>set specs. arguments_ok (fst spec) (spec_values spec args))"
  by (auto simp: group_ok_def column_at_select all_set_conv_all_nth) (simp add: select_args_def)

text \<open>The partial of a row of aggregates.\<close>

lemma partial_specs_values:
  assumes "\<not> snd (snd spec)"
  shows "map (\<lambda>p. aggregate_of x ax (fst p) (snd (snd p)) (spec_values p args)) (partial_specs spec)
    = partial_chunk x ax (fst spec) (spec_values spec args)"
  using assms by (cases spec) (auto simp: partial_specs_def partial_chunk_def spec_values_def)

lemma partial_aggregates:
  assumes "\<forall>spec\<in>set specs. \<not> snd (snd spec)"
  shows "aggregates_of x ax (concat (map partial_specs specs)) (map (select_args (concat (map partial_specs specs))) args)
    = concat (map (\<lambda>spec. partial_chunk x ax (fst spec) (spec_values spec args)) specs)"
  using assms by (simp add: aggregates_of_select map_concat partial_specs_values comp_def cong: map_cong)

lemma length_partial_chunk: "length (partial_chunk x ax f vs) = partial_width f"
  by (simp add: partial_chunk_def partial_width_def)

lemma chunks_partials:
  "chunks (map fst specs) (concat (map (\<lambda>spec. partial_chunk x ax (fst spec) (vss spec)) specs))
   = map (\<lambda>spec. partial_chunk x ax (fst spec) (vss spec)) specs"
  by (rule chunks_concat) (simp add: list_all2_conv_all_nth length_partial_chunk)

section \<open>What can be merged\<close>

definition merge_ok :: "externs \<Rightarrow> arrow_externs \<Rightarrow> (int \<Rightarrow> u64) \<Rightarrow> aggregate_function \<Rightarrow> scalar_value list \<Rightarrow> bool" where
  "merge_ok x ax fl f vs \<longleftrightarrow> length vs < 2 ^ 64 \<and>
     (case f of
        AggCount \<Rightarrow> True
      | AggMin \<Rightarrow> comparable (considered False vs)
      | AggMax \<Rightarrow> comparable (considered False vs)
      | AggSum \<Rightarrow> exact_floats x ax fl \<and> summable vs
      | AggAvg \<Rightarrow> exact_floats x ax fl \<and> summable vs
      | AggSumUInt64 \<Rightarrow> False)"

lemma whole_number_numeric: "whole_number v \<Longrightarrow> v = SNull \<or> numeric v"
  by (cases v) (simp_all add: whole_number_def)

lemma merge_ok_arguments: "merge_ok x ax fl f vs \<Longrightarrow> arguments_ok f vs"
  using whole_number_numeric by (cases f) (auto simp: merge_ok_def arguments_ok_def summable_def list_all_iff)

lemma merge_ok_part:
  assumes "merge_ok x ax fl f (us @ vs @ ws)"
  shows "merge_ok x ax fl f vs"
proof -
  have "summable (us @ vs @ ws) \<Longrightarrow> summable vs" using summable_append by blast
  moreover have "comparable (considered False (us @ vs @ ws)) \<Longrightarrow> comparable (considered False vs)"
    by (erule comparable_subset) auto
  ultimately show ?thesis using assms by (auto simp: merge_ok_def split: aggregate_function.splits)
qed

lemma merge_ok_partial_specs:
  assumes "merge_ok x ax fl (fst spec) (spec_values spec args)" and "p \<in> set (partial_specs spec)"
  shows "arguments_ok (fst p) (spec_values p args)"
proof -
  obtain f e dist where spec: "spec = (f, e, dist)" by (cases spec)
  show ?thesis
  proof (cases "f = AggAvg")
    case True
    have "arguments_ok AggAvg (spec_values spec args)" using assms(1) True spec merge_ok_arguments by force
    then have "arguments_ok AggSum (spec_values spec args)" "arguments_ok AggCount (spec_values spec args)"
      by (simp_all add: arguments_ok_def)
    then show ?thesis using assms(2) True spec by (auto simp: partial_specs_def spec_values_def)
  next
    case False
    then show ?thesis using assms merge_ok_arguments spec by (auto simp: partial_specs_def)
  qed
qed

text \<open>Merging, for every function at once.\<close>

lemma combine_any:
  assumes "rows \<in> set parts" and "has rows" and "\<And>rows. \<not> has rows \<Longrightarrow> values_of c rows = []"
    and "merge_ok x ax fl f (values_of c (concat parts))"
  shows "combined x ax f (map (\<lambda>rows. partial_chunk x ax f (values_of c rows)) (filter has parts))
    = aggregate_of x ax f False (values_of c (concat parts))"
proof (cases f)
  case AggCount
  then show ?thesis using count.combine_groups [of rows parts has c, OF assms(1,2)] assms(3) by simp
next
  case AggMin
  then show ?thesis using minimum.combine_groups [of rows parts has c, OF assms(1,2)] assms(3,4) by (simp add: merge_ok_def)
next
  case AggMax
  then show ?thesis using maximum.combine_groups [of rows parts has c, OF assms(1,2)] assms(3,4) by (simp add: merge_ok_def)
next
  case AggSum
  then show ?thesis
    using integer_sum.combine_groups [of rows parts has x ax fl c, OF assms(1,2)] assms(3,4) by (simp add: merge_ok_def)
next
  case AggAvg
  then show ?thesis
    using integer_avg.combine_groups [of rows parts has x ax fl c, OF assms(1,2)] assms(3,4) by (simp add: merge_ok_def)
qed (use assms(4) in \<open>simp add: merge_ok_def\<close>)

lemma partials_ok_chunks:
  assumes "merge_ok x ax fl f (concat vss)"
  shows "partials_ok f (map (partial_chunk x ax f) vss)"
proof (cases f)
  case AggMin
  have "set (considered False (map (\<lambda>vs. aggregate_of x ax AggMin False vs) vss)) \<subseteq> set (considered False (concat vss))"
    by (auto simp: aggregate_of_def Let_def dest!: extreme_in split: option.splits if_splits; blast)
  then show ?thesis using assms AggMin comparable_subset by (auto simp: partials_ok_def merge_ok_def partial_chunk_def comp_def)
next
  case AggMax
  have "set (considered False (map (\<lambda>vs. aggregate_of x ax AggMax False vs) vss)) \<subseteq> set (considered False (concat vss))"
    by (auto simp: aggregate_of_def Let_def dest!: extreme_in split: option.splits if_splits; blast)
  then show ?thesis using assms AggMax comparable_subset by (auto simp: partials_ok_def merge_ok_def partial_chunk_def comp_def)
qed (use assms in \<open>auto simp: partials_ok_def merge_ok_def partial_chunk_def aggregate_of_def Let_def counter_def\<close>)

end
