(* ===== verification/Distributed_Props.thy ===== *)
theory Distributed_Props
  imports Distributed
begin

text \<open>
  Merging the partial aggregates of the partitions, in whatever order they arrive, is aggregating all
  their rows at once.
\<close>

section \<open>Group keys of several parts\<close>

lemma distinct_group_keys: "distinct (group_keys row ktys rows)"
  by (simp add: group_keys_def)

lemma set_group_keys: "ktys \<noteq> [] \<Longrightarrow> set (group_keys row ktys rows) = fst ` set rows"
  by (simp add: group_keys_def)

lemma fst_apfst: "fst ` set (map (apfst f) rows) = f ` fst ` set rows"
  by (simp add: image_image)

lemma group_keys_cong:
  assumes "row_format ax row" and "list_all plain_type ktys" and "\<forall>r\<in>set rows. row_ok ktys (fst r)"
    and "ktys \<noteq> [] \<Longrightarrow> fst ` set rows = fst ` set rows'"
  shows "group_keys row ktys rows = group_keys row ktys rows'"
proof (cases "ktys = []")
  case False
  have ok: "\<forall>r\<in>set rows'. row_ok ktys (fst r)" using assms(3,4) False by (metis image_iff)
  have "map (row_key row ktys) (group_keys row ktys rows) = map (row_key row ktys) (group_keys row ktys rows')"
    unfolding encoded_group_keys [OF assms(1-3)] encoded_group_keys [OF assms(1,2) ok]
    unfolding fst_apfst assms(4) [OF False] by (rule refl)
  moreover have "inj_on (row_key row ktys) (set (group_keys row ktys rows) \<union> set (group_keys row ktys rows'))"
    using group_keys_ok [OF assms(3), of row] group_keys_ok [OF ok, of row] row_key_inj [OF assms(1,2)]
    by (auto simp: inj_on_def)
  ultimately show ?thesis by (simp add: inj_on_map_eq_map)
qed (simp add: group_keys_def)

lemma values_of_parts:
  assumes "\<And>p. distinct (keys p)"
  shows "values_of c (concat (map (\<lambda>p. map (\<lambda>k. (k, g p k)) (keys p)) parts))
    = map (\<lambda>p. g p c) (filter (\<lambda>p. c \<in> set (keys p)) parts)"
proof (induction parts)
  case (Cons p parts)
  have "values_of c (map (\<lambda>k. (k, g p k)) ks) = (if c \<in> set ks then [g p c] else [])" if "distinct ks" for ks
    using that by (induction ks) (auto simp: values_of_def filter_empty_conv)
  then show ?case using Cons assms by (simp add: values_of_append)
qed simp

section \<open>The partial result of one partition\<close>

definition holds :: "externs \<Rightarrow> data_type \<Rightarrow> scalar_value \<Rightarrow> bool" where
  "holds x t v \<longleftrightarrow> cell_ok t (cell_of_scalar x t v) \<and> cell_value x t (cell_of_scalar x t v) = v"

definition partial_payload ::
  "externs \<Rightarrow> arrow_externs \<Rightarrow> aggregate_spec list \<Rightarrow> (expr \<Rightarrow> scalar_value) list \<Rightarrow> scalar_value list list" where
  "partial_payload x ax specs args = map (\<lambda>spec. partial_chunk x ax (fst spec) (spec_values spec args)) specs"

definition partial_rows ::
  "externs \<Rightarrow> arrow_externs \<Rightarrow> (data_type list \<Rightarrow> cell list \<Rightarrow> bytes) \<Rightarrow> data_type list \<Rightarrow> expr list \<Rightarrow> aggregate_spec list
   \<Rightarrow> batch list \<Rightarrow> (cell list \<times> scalar_value list list) list" where
  "partial_rows x ax row ktys groups specs bs =
     map (\<lambda>c. (c, partial_payload x ax specs (values_of c (input_args x groups bs)))) (group_keys row ktys (input_args x groups bs))"

text \<open>The assumptions on a split aggregation and on the input of one partition.\<close>

definition split_ok ::
  "externs \<Rightarrow> arrow_externs \<Rightarrow> (data_type list \<Rightarrow> cell list \<Rightarrow> bytes) \<Rightarrow> data_type list \<Rightarrow> expr list \<Rightarrow> aggregate_spec list
   \<Rightarrow> schema \<Rightarrow> bool" where
  "split_ok x ax row ktys groups specs ps \<longleftrightarrow> kernels_ok ax \<and> row_format ax row \<and> list_all plain_type ktys
     \<and> ax_rows_new ax ktys = Inr () \<and> length groups = length ktys \<and> (\<forall>spec\<in>set specs. \<not> snd (snd spec))
     \<and> list_all field_nullable (schema_fields ps)
     \<and> result_schema ps ktys (sum_list (map partial_width (map fst specs)))"

definition part_ok ::
  "externs \<Rightarrow> arrow_externs \<Rightarrow> (int \<Rightarrow> u64) \<Rightarrow> data_type list \<Rightarrow> expr list \<Rightarrow> aggregate_spec list \<Rightarrow> schema \<Rightarrow> batch list \<Rightarrow> bool" where
  "part_ok x ax fl ktys groups specs ps bs \<longleftrightarrow> (\<forall>b\<in>set bs. input_ok x groups specs ktys b)
     \<and> (\<forall>c. list_all2 (holds x) (drop (length ktys) (field_types ps))
           (concat (partial_payload x ax specs (values_of c (input_args x groups bs)))))
     \<and> (\<forall>c. \<forall>spec\<in>set specs. merge_ok x ax fl (fst spec) (spec_values spec (values_of c (input_args x groups bs))))"

lemma split_schema: "split_ok x ax row ktys groups specs ps \<Longrightarrow> partial_schema_ok ps ktys (map fst specs)"
proof -
  assume split: "split_ok x ax row ktys groups specs ps"
  then have "list_all plain_type (take (length ktys) (field_types ps) @ drop (length ktys) (field_types ps))"
    by (auto simp: split_ok_def result_schema_def list_all_iff buildable_def plain_type_def simp del: append_take_drop_id
        split: data_type.splits)
  then show ?thesis using split by (simp add: partial_schema_ok_def split_ok_def result_schema_def)
qed

lemma length_partial_specs: "length (concat (map partial_specs specs)) = sum_list (map partial_width (map fst specs))"
  by (induction specs) (auto simp: partial_specs_def partial_width_def split: prod.splits)

lemma input_ok_partial: "input_ok x groups specs ktys b \<Longrightarrow> input_ok x groups (concat (map partial_specs specs)) ktys b"
  by (fastforce simp: input_ok_def partial_specs_def argument_ok_def aggregate_array_def split: if_splits prod.splits)

lemma input_args_ok:
  assumes "\<forall>b\<in>set bs. input_ok x groups specs ktys b" and "r \<in> set (input_args x groups bs)"
  shows "row_ok ktys (fst r)"
  using input_rows_ok(1) [OF assms(1), of "apsnd (select_args specs) r"] assms(2) by (simp add: input_rows_args)

lemma partial_result:
  assumes "split_ok x ax row ktys groups specs ps" and "part_ok x ax fl ktys groups specs ps bs"
    and "rmap aggregate_spec pexprs = Inr (concat (map partial_specs specs))"
    and "fst (hash_aggregate_with_memory x ax bs groups pexprs ps m) = Inr pb"
  shows "batch_ok ps pb" and "merge_rows x ps ktys (map fst specs) [pb] = partial_rows x ax row ktys groups specs bs"
proof -
  let ?ps = "concat (map partial_specs specs)" and ?args = "input_args x groups bs" and ?g = "length ktys"
  let ?rows = "input_rows x groups ?ps bs"
  note split = assms(1) [unfolded split_ok_def] and part = assms(2) [unfolded part_ok_def]
  have vals: "aggregates_of x ax ?ps (values_of c ?rows) = concat (partial_payload x ax specs (values_of c ?args))" for c
    using partial_aggregates [of specs x ax "values_of c ?args"] split
    by (simp add: input_rows_args values_of_apsnd partial_payload_def)
  have keys: "group_keys row ktys ?rows = group_keys row ktys ?args" by (simp add: input_rows_args keys_apsnd)
  have rows: "aggregate_rows x ax row ps ktys ?ps ?rows
      = map (\<lambda>c. result_row x ps c (concat (partial_payload x ax specs (values_of c ?args)))) (group_keys row ktys ?args)"
    by (simp add: aggregate_rows_def vals keys)
  have key_ok: "\<forall>c\<in>set (group_keys row ktys ?args). row_ok ktys c"
    using input_args_ok part by (intro group_keys_ok) blast
  have types: "field_types ps = ktys @ drop ?g (field_types ps)"
    using split append_take_drop_id [of ?g "field_types ps"] by (simp add: result_schema_def)
  have cells: "row_ok (drop ?g (field_types ps)) (map2 (cell_of_scalar x) (drop ?g (field_types ps)) vs)
      \<and> row_values x (drop ?g (field_types ps)) (map2 (cell_of_scalar x) (drop ?g (field_types ps)) vs) = vs"
    if "list_all2 (holds x) (drop ?g (field_types ps)) vs" for vs
    using that by (auto simp: row_ok_def row_values_def holds_def list_all2_conv_all_nth intro!: nth_equalityI)
  have admitted: "row_admitted ps (result_row x ps c vs)"
    if c: "row_ok ktys c" and vs: "list_all2 (holds x) (drop ?g (field_types ps)) vs" for c vs
  proof -
    have len: "length c = ?g" using c by (simp add: row_ok_def list_all2_lengthD)
    have "row_ok (field_types ps) (result_row x ps c vs)"
      unfolding row_ok_def result_row_def len
      by (subst types, rule list_all2_appendI) (use c cells [OF vs] in \<open>simp_all add: row_ok_def\<close>)
    then show ?thesis
      using split by (auto simp: row_admitted_def row_ok_def field_types_def list_all2_conv_all_nth list_all_length)
  qed
  have group: "\<forall>c. group_ok ?ps (values_of c ?rows)"
    unfolding input_rows_args values_of_apsnd group_ok_select
  proof (intro allI ballI)
    fix c p assume "p \<in> set ?ps"
    then obtain spec where spec: "spec \<in> set specs" "p \<in> set (partial_specs spec)" by auto
    then have "merge_ok x ax fl (fst spec) (spec_values spec (values_of c ?args))" using part by blast
    then show "arguments_ok (fst p) (spec_values p (values_of c ?args))" using spec(2) by (rule merge_ok_partial_specs)
  qed
  have "exhausted (Inr pb :: batch result) \<or> Inr pb = (Inr (batch_of_rows ps (aggregate_rows x ax row ps ktys ?ps ?rows)) :: batch result)"
    unfolding assms(4) [symmetric]
  proof (rule hash_aggregate_spec(2) [OF _ _ _ _ assms(3)])
    show "\<forall>b\<in>set bs. input_ok x groups ?ps ktys b" using part input_ok_partial by blast
    show "\<forall>r\<in>set (aggregate_rows x ax row ps ktys ?ps ?rows). row_admitted ps r"
      using key_ok part admitted by (auto simp: rows)
    show "result_schema ps ktys (length ?ps)" unfolding length_partial_specs using split by simp
  qed (use split group in simp_all)
  then have pb: "pb = batch_of_rows ps (aggregate_rows x ax row ps ktys ?ps ?rows)" by (simp add: exhausted_def)
  have adm: "\<forall>r\<in>set (aggregate_rows x ax row ps ktys ?ps ?rows). row_admitted ps r"
    using key_ok part admitted by (auto simp: rows)
  show "batch_ok ps pb" unfolding pb by (rule batch_of_rows_ok(1) [OF adm])
  have "merge_input x ps ktys (map fst specs) (result_row x ps c (concat (partial_payload x ax specs (values_of c ?args))))
      = (c, partial_payload x ax specs (values_of c ?args))" if "row_ok ktys c" for c
  proof -
    have "length c = ?g" using that by (simp add: row_ok_def list_all2_lengthD)
    then show ?thesis
      using cells part chunks_partials [of specs x ax "\<lambda>spec. spec_values spec (values_of c ?args)"]
      by (simp add: merge_input_def result_row_def partial_payload_def)
  qed
  then show "merge_rows x ps ktys (map fst specs) [pb] = partial_rows x ax row ktys groups specs bs"
    using key_ok by (simp add: merge_rows_def pb batch_of_rows_ok(2) [OF adm, unfolded rows] rows partial_rows_def)
qed

section \<open>All partitions\<close>

definition parts_ok ::
  "externs \<Rightarrow> arrow_externs \<Rightarrow> (int \<Rightarrow> u64) \<Rightarrow> data_type list \<Rightarrow> expr list \<Rightarrow> aggregate_spec list \<Rightarrow> schema
   \<Rightarrow> batch list list \<Rightarrow> bool" where
  "parts_ok x ax fl ktys groups specs ps parts \<longleftrightarrow> parts \<noteq> []
     \<and> (\<forall>bs\<in>set parts. \<forall>b\<in>set bs. input_ok x groups specs ktys b)
     \<and> (\<forall>bs\<in>set parts. \<forall>c. list_all2 (holds x) (drop (length ktys) (field_types ps))
           (concat (partial_payload x ax specs (values_of c (input_args x groups bs)))))
     \<and> (\<forall>c. \<forall>spec\<in>set specs.
           merge_ok x ax fl (fst spec) (spec_values spec (values_of c (input_args x groups (concat parts)))))"

lemma input_args_append: "input_args x groups (bs @ bs') = input_args x groups bs @ input_args x groups bs'"
  by (simp add: input_args_def)

lemma input_args_concat: "input_args x groups (concat parts) = concat (map (input_args x groups) parts)"
  by (induction parts) (simp_all add: input_args_def)

lemma parts_ok_part:
  assumes "parts_ok x ax fl ktys groups specs ps parts" and "bs \<in> set parts"
  shows "part_ok x ax fl ktys groups specs ps bs"
proof -
  obtain us ws where parts: "parts = us @ bs # ws" using split_list [OF assms(2)] by blast
  have "merge_ok x ax fl (fst spec) (spec_values spec (values_of c (input_args x groups bs)))"
    if "spec \<in> set specs" for c spec
    using assms(1) that merge_ok_part [of x ax fl "fst spec" "spec_values spec (values_of c (input_args x groups (concat us)))"
        "spec_values spec (values_of c (input_args x groups bs))"
        "spec_values spec (values_of c (input_args x groups (concat ws)))"]
    by (simp add: parts_ok_def parts input_args_append values_of_append spec_values_def)
  then show ?thesis using assms by (simp add: part_ok_def parts_ok_def)
qed

text \<open>One spec of one group: the partials of the partitions with that group combine to its aggregate.\<close>

lemma combine_spec:
  assumes "parts_ok x ax fl ktys groups specs ps parts" and "spec \<in> set specs" and "\<not> snd (snd spec)"
    and "c \<in> set (group_keys row ktys (input_args x groups (concat parts)))"
  shows "combined x ax (fst spec) (map (\<lambda>bs. partial_chunk x ax (fst spec) (spec_values spec (values_of c (input_args x groups bs))))
      (filter (\<lambda>bs. c \<in> set (group_keys row ktys (input_args x groups bs))) parts))
    = aggregate_of x ax (fst spec) False (spec_values spec (values_of c (input_args x groups (concat parts))))"
proof -
  define rows where "rows bs = map (apsnd (\<lambda>a. a (fst (snd spec)))) (input_args x groups bs)" for bs
  define has where "has rs \<longleftrightarrow> ktys = [] \<and> c = [] \<or> c \<in> fst ` set rs" for rs :: "(cell list \<times> scalar_value) list"
  have vals: "spec_values spec (values_of c (input_args x groups bs)) = values_of c (rows bs)" for bs
    by (simp add: rows_def values_of_apsnd spec_values_def)
  have fst_rows: "fst ` set (rows bs) = fst ` set (input_args x groups bs)" for bs
    by (simp add: rows_def image_image)
  have keys: "c \<in> set (group_keys row ktys (input_args x groups bs)) \<longleftrightarrow> has (rows bs)" for bs
    using assms(4) by (cases "ktys = []") (simp_all add: has_def fst_rows group_keys_def)
  have whole: "rows (concat parts) = concat (map rows parts)" by (simp add: rows_def [abs_def] input_args_concat map_concat comp_def)
  have "has (concat (map rows parts))" using keys [of "concat parts"] assms(4) whole by simp
  then have "\<exists>bs\<in>set parts. has (rows bs)"
    using assms(1) by (cases parts) (auto simp: has_def parts_ok_def image_iff)
  then obtain bs where "bs \<in> set parts" "has (rows bs)" by blast
  moreover have "values_of c rs = []" if "\<not> has rs" for rs
    using that by (auto simp: has_def values_of_def filter_empty_conv image_iff)
  moreover have "merge_ok x ax fl (fst spec) (values_of c (concat (map rows parts)))"
    unfolding whole [symmetric] vals [symmetric] using assms(1,2) by (simp add: parts_ok_def)
  ultimately have "combined x ax (fst spec) (map (\<lambda>rs. partial_chunk x ax (fst spec) (values_of c rs)) (filter has (map rows parts)))
      = aggregate_of x ax (fst spec) False (values_of c (concat (map rows parts)))"
    by (intro combine_any [of "rows bs"]) auto
  then show ?thesis by (simp add: vals keys whole filter_map comp_def)
qed

lemma merge_rows_parts:
  assumes "list_all2 (\<lambda>bs pb. merge_rows x ps ktys fs [pb] = g bs) parts pbs"
  shows "merge_rows x ps ktys fs pbs = concat (map g parts)"
  using assms by (induction rule: list_all2_induct) (simp_all add: merge_rows_def)

lemma merged_groups:
  assumes "parts_ok x ax fl ktys groups specs ps parts" and "\<forall>spec\<in>set specs. \<not> snd (snd spec)"
    and "c \<in> set (group_keys row ktys (input_args x groups (concat parts)))"
  shows "merge_results x ax (map fst specs) (values_of c (concat (map (partial_rows x ax row ktys groups specs) parts)))
    = aggregates_of x ax specs (values_of c (input_rows x groups specs (concat parts)))"
proof -
  let ?some = "filter (\<lambda>bs. c \<in> set (group_keys row ktys (input_args x groups bs))) parts"
  have vals: "values_of c (concat (map (partial_rows x ax row ktys groups specs) parts))
      = map (\<lambda>bs. partial_payload x ax specs (values_of c (input_args x groups bs))) ?some"
    unfolding partial_rows_def [abs_def]
    by (rule values_of_parts [where g = "\<lambda>bs c. partial_payload x ax specs (values_of c (input_args x groups bs))"])
      (rule distinct_group_keys)
  have "merge_finish x ax (merged x ax (fst (specs ! j)) (column_at j (map (\<lambda>bs. partial_payload x ax specs (values_of c (input_args x groups bs))) ?some)))
      = aggregate_of x ax (fst (specs ! j)) False (spec_values (specs ! j) (values_of c (input_args x groups (concat parts))))"
    if "j < length specs" for j
    using combine_spec [OF assms(1) _ _ assms(3), of "specs ! j"] assms(2) that
    by (simp add: combined_def column_at_def partial_payload_def comp_def)
  then show ?thesis
    using assms(2)
    by (intro nth_equalityI)
      (simp_all add: merge_results_def merged_states_def vals input_rows_args values_of_apsnd aggregates_of_select)
qed

lemma aggregate_schema_nullable:
  "aggregate_schema x input groups aggregates = Inr s \<Longrightarrow> list_all field_nullable (schema_fields s)"
  by (auto simp: aggregate_schema_def rbind_eq_Inr rmap_eq_Inr list_all2_conv_all_nth list_all_length schema_new_def
      expr_field_def field_new_def) (metis field.select_convs(3))

lemma values_of_concat: "values_of c (concat rowss) = concat (map (values_of c) rowss)"
  by (induction rowss) (simp_all add: values_of_append)

lemma merge_ok_filter:
  assumes "merge_ok x ax fl f (concat (map g parts))"
  shows "merge_ok x ax fl f (concat (map g (filter P parts)))"
proof -
  have "length (concat (map g (filter P parts))) \<le> length (concat (map g parts))" by (induction parts) auto
  moreover have "magnitude (concat (map g (filter P parts))) \<le> magnitude (concat (map g parts))"
    by (induction parts) (simp_all add: add_increasing)
  moreover have "comparable (considered False (concat (map g parts))) \<Longrightarrow> comparable (considered False (concat (map g (filter P parts))))"
    by (erule comparable_subset) auto
  ultimately show ?thesis
    using assms by (auto simp: merge_ok_def summable_def list_all_iff split: aggregate_function.splits)
qed

lemma all_partials_ok_parts:
  assumes "parts_ok x ax fl ktys groups specs ps parts"
  shows "all_partials_ok (map fst specs) (values_of c (concat (map (partial_rows x ax row ktys groups specs) parts)))"
proof -
  let ?some = "filter (\<lambda>bs. c \<in> set (group_keys row ktys (input_args x groups bs))) parts"
  have vals: "values_of c (concat (map (partial_rows x ax row ktys groups specs) parts))
      = map (\<lambda>bs. partial_payload x ax specs (values_of c (input_args x groups bs))) ?some"
    unfolding partial_rows_def [abs_def]
    by (rule values_of_parts [where g = "\<lambda>bs c. partial_payload x ax specs (values_of c (input_args x groups bs))"])
      (rule distinct_group_keys)
  have "partials_ok (fst (specs ! j)) (map (partial_chunk x ax (fst (specs ! j)))
      (map (\<lambda>bs. spec_values (specs ! j) (values_of c (input_args x groups bs))) ?some))" if "j < length specs" for j
    using assms that
    by (intro partials_ok_chunks [where fl = fl] merge_ok_filter) (simp add: parts_ok_def input_args_concat values_of_concat spec_values_def map_concat comp_def)
  then show ?thesis
    by (simp add: all_partials_ok_def vals column_at_def partial_payload_def comp_def)
qed

lemma distributed_aggregate_spec:
  assumes "rmap aggregate_spec aggregates = Inr specs" and "split_ok x ax row ktys groups specs ps"
    and "rmap aggregate_spec pexprs = Inr (concat (map partial_specs specs))"
    and "parts_ok x ax fl ktys groups specs ps parts"
    and "list_all2 (\<lambda>bs pb. \<exists>m. fst (hash_aggregate_with_memory x ax bs groups pexprs ps m) = Inr pb) parts pbs"
    and "result_schema s ktys (length specs)"
    and "\<forall>r\<in>set (aggregate_rows x ax row s ktys specs (input_rows x groups specs (concat parts))). row_admitted s r"
  shows "qm_reserved (snd (merge_partials x ax pbs (length groups) aggregates s m)) = qm_reserved m"
    and "exhausted (fst (merge_partials x ax pbs (length groups) aggregates s m))
      \<or> fst (merge_partials x ax pbs (length groups) aggregates s m)
        = Inr (batch_of_rows s (aggregate_rows x ax row s ktys specs (input_rows x groups specs (concat parts))))"
    and "unat (qm_reserved m) + merge_budget ax pbs (length groups) (length specs) s \<le> unat (qm_limit m) \<Longrightarrow>
      fst (merge_partials x ax pbs (length groups) aggregates s m)
        = Inr (batch_of_rows s (aggregate_rows x ax row s ktys specs (input_rows x groups specs (concat parts))))"
proof -
  let ?fs = "map fst specs" and ?args = "input_args x groups (concat parts)"
  let ?mrows = "concat (map (partial_rows x ax row ktys groups specs) parts)"
  note split = assms(2) [unfolded split_ok_def]
  have each: "batch_ok ps pb \<and> merge_rows x ps ktys ?fs [pb] = partial_rows x ax row ktys groups specs bs"
    if "bs \<in> set parts" "fst (hash_aggregate_with_memory x ax bs groups pexprs ps m) = Inr pb" for bs pb m
    using partial_result [OF assms(2) parts_ok_part [OF assms(4) that(1)] assms(3) that(2)] by blast
  have "list_all2 (\<lambda>bs pb. batch_ok ps pb \<and> merge_rows x ps ktys ?fs [pb] = partial_rows x ax row ktys groups specs bs) parts pbs"
    using assms(5) unfolding list_all2_conv_all_nth using each [OF nth_mem] by metis
  then have pbs: "\<forall>pb\<in>set pbs. batch_ok ps pb" "merge_rows x ps ktys ?fs pbs = ?mrows"
    by (auto simp: list_all2_conv_all_nth in_set_conv_nth intro!: merge_rows_parts)
  have args_ok: "\<forall>r\<in>set ?args. row_ok ktys (fst r)"
    using assms(4) input_args_ok [of "concat parts" x groups specs ktys] by (auto simp: parts_ok_def)
  have keys: "group_keys row ktys ?mrows = group_keys row ktys (input_rows x groups specs (concat parts))"
  proof -
    have "fst ` set ?mrows = fst ` set ?args" if "ktys \<noteq> []"
      using set_group_keys [OF that, of row]
      by (auto simp: partial_rows_def input_args_concat image_Union image_image)
    then have "group_keys row ktys ?args = group_keys row ktys ?mrows"
      using split args_ok by (intro group_keys_cong [of ax]) auto
    then show ?thesis by (simp add: input_rows_args keys_apsnd)
  qed
  have "merged_rows x ax row s ktys ?fs ?mrows = aggregate_rows x ax row s ktys specs (input_rows x groups specs (concat parts))"
    unfolding merged_rows_def aggregate_rows_def keys
    using merged_groups [OF assms(4), of _ row] split by (simp add: input_rows_args keys_apsnd)
  then have rows: "merged_rows x ax row s ktys ?fs (merge_rows x ps ktys ?fs pbs)
      = aggregate_rows x ax row s ktys specs (input_rows x groups specs (concat parts))" by (simp add: pbs(2))
  have g: "length groups = length ktys" using split by blast
  have ok: "\<forall>c. all_partials_ok ?fs (values_of c (merge_rows x ps ktys ?fs pbs))"
    using all_partials_ok_parts [OF assms(4)] by (simp add: pbs(2))
  note merge = merge_partials_spec [of ax row ktys aggregates ?fs ps pbs x s m, unfolded rows,
      OF _ _ _ _ merge_functions [OF assms(1)] split_schema [OF assms(2)] pbs(1) ok _ assms(7)]
  show "qm_reserved (snd (merge_partials x ax pbs (length groups) aggregates s m)) = qm_reserved m"
    "exhausted (fst (merge_partials x ax pbs (length groups) aggregates s m))
      \<or> fst (merge_partials x ax pbs (length groups) aggregates s m)
        = Inr (batch_of_rows s (aggregate_rows x ax row s ktys specs (input_rows x groups specs (concat parts))))"
    "unat (qm_reserved m) + merge_budget ax pbs (length groups) (length specs) s \<le> unat (qm_limit m) \<Longrightarrow>
      fst (merge_partials x ax pbs (length groups) aggregates s m)
        = Inr (batch_of_rows s (aggregate_rows x ax row s ktys specs (input_rows x groups specs (concat parts))))"
    using merge split assms(6) by (simp_all add: g)
qed

text \<open>The whole input in one place, under the same assumptions.\<close>

lemma single_aggregate_spec:
  assumes "rmap aggregate_spec aggregates = Inr specs" and "split_ok x ax row ktys groups specs ps"
    and "parts_ok x ax fl ktys groups specs ps parts" and "result_schema s ktys (length specs)"
    and "\<forall>r\<in>set (aggregate_rows x ax row s ktys specs (input_rows x groups specs (concat parts))). row_admitted s r"
  shows "exhausted (fst (hash_aggregate_with_memory x ax (concat parts) groups aggregates s m))
      \<or> fst (hash_aggregate_with_memory x ax (concat parts) groups aggregates s m)
        = Inr (batch_of_rows s (aggregate_rows x ax row s ktys specs (input_rows x groups specs (concat parts))))"
proof (rule hash_aggregate_spec(2) [OF _ _ _ _ assms(1) _ _ _ assms(4,5)])
  note split = assms(2) [unfolded split_ok_def] and parts = assms(3) [unfolded parts_ok_def]
  show "kernels_ok ax" "row_format ax row" "list_all plain_type ktys" "ax_rows_new ax ktys = Inr ()" "length groups = length ktys"
    using split by simp_all
  show "\<forall>b\<in>set (concat parts). input_ok x groups specs ktys b" using parts by auto
  show "\<forall>c. group_ok specs (values_of c (input_rows x groups specs (concat parts)))"
    unfolding input_rows_args values_of_apsnd group_ok_select using parts merge_ok_arguments by blast
qed

lemma split_worker_plan:
  assumes "split_mergeable_aggregate x (PHashAggregate i input groups aggregates s) = Inr (Some pa)"
    and "pa_worker_plan pa = PHashAggregate j input' groups' pexprs ps" and "rmap aggregate_spec aggregates = Inr specs"
  shows "groups' = groups" and "input' = input" and "pa_group_count pa = length groups" and "pa_aggregate_exprs pa = aggregates"
    and "pa_output_schema pa = s" and "rmap aggregate_spec pexprs = Inr (concat (map partial_specs specs))"
    and "\<forall>spec\<in>set specs. \<not> snd (snd spec)" and "list_all field_nullable (schema_fields ps)"
proof -
  obtain pexprs0 where p0: "partial_exprs_from x 0 aggregates = Inr pexprs0"
    "rmap aggregate_spec pexprs0 = Inr (concat (map partial_specs specs))" by (rule partial_exprs_specs [OF assms(3)])
  have pa: "aggregate_schema x (physical_schema input) groups pexprs0 = Inr ps" "pexprs = pexprs0" "\<not> list_ex is_distinct_aggregate aggregates"
    "groups' = groups" "input' = input" "pa_group_count pa = length groups" "pa_aggregate_exprs pa = aggregates" "pa_output_schema pa = s"
    using assms(1,2) p0(1)
    by (auto simp: split_mergeable_aggregate_def partial_aggregate_exprs_def rbind_eq_Inr split: if_splits option.splits)
  then show "groups' = groups" "input' = input" "pa_group_count pa = length groups" "pa_aggregate_exprs pa = aggregates"
    "pa_output_schema pa = s" "rmap aggregate_spec pexprs = Inr (concat (map partial_specs specs))"
    "list_all field_nullable (schema_fields ps)"
    using p0(2) aggregate_schema_nullable by auto
  show "\<forall>spec\<in>set specs. \<not> snd (snd spec)"
  proof
    fix spec assume "spec \<in> set specs"
    then obtain e where "e \<in> set aggregates" "aggregate_spec e = Inr spec"
      using assms(3) unfolding rmap_eq_Inr list_all2_conv_all_nth in_set_conv_nth by metis
    then show "\<not> snd (snd spec)"
      using pa(3) by (cases spec) (auto simp: aggregate_spec_Inr list_ex_iff)
  qed
qed


text \<open>An instance: the flags per id of two partitions with the same rows.\<close>

definition count_partials :: schema where
  "count_partials = schema_new [field_new ''id'' TInt64 True, field_new (expr_name sample_externs (hd count_flags)) TUInt64 True]"

abbreviation "pair_scan \<equiv> PScan 1 ''t'' pair_provider None [] sample_schema"
abbreviation "count_worker \<equiv> PHashAggregate 0 pair_scan [Column ''id'']
  [Alias (hd count_flags) (expr_name sample_externs (hd count_flags))] count_partials"
abbreviation "count_split \<equiv> \<lparr>pa_worker_plan = count_worker, pa_partition_count = 2, pa_group_count = 1,
  pa_aggregate_exprs = count_flags, pa_output_schema = count_schema, pa_operator_id = 0\<rparr>"

lemma count_partials_types: "field_types count_partials = [TInt64, TUInt64]"
  by (simp add: count_partials_def field_types_def schema_new_def field_new_def)

lemma sample_id_field: "find_field sample_schema ''id'' = Inr (field_new ''id'' TInt64 False)"
  by (simp add: find_field_def resolve_field_index_def positions_def sample_schema_def schema_new_def field_new_def
      schema_field_def)

lemma sample_split:
  "split_mergeable_aggregate sample_externs (PHashAggregate 0 pair_scan [Column ''id''] count_flags count_schema)
   = Inr (Some count_split)"
  by (simp add: split_mergeable_aggregate_def partial_aggregate_exprs_def aggregate_schema_def expr_field_def
      sample_id_field count_partials_def field_new_def unqualified_def)

lemma sample_partial:
  "fst (hash_aggregate_with_memory sample_externs sample_ax [sample_batch] [Column ''id'']
     [Alias (hd count_flags) (expr_name sample_externs (hd count_flags))] count_partials (memory_new 3000))
   = Inr (batch_of_rows count_partials [[CI64 1, CU64 2], [CI64 2, CU64 0]])"
proof -
  have "result_schema count_partials [TInt64] 1"
    by (simp add: result_schema_def count_partials_types buildable_def, simp add: count_partials_def schema_new_def)
  moreover have "\<forall>r\<in>set [[CI64 1, CU64 2], [CI64 2, CU64 0]]. row_admitted count_partials r"
    by (simp add: row_admitted_def count_partials_def schema_new_def field_new_def cell_ok_def)
  ultimately show ?thesis
    using hash_aggregate_spec(3) [OF sample_kernels sample_row_format, of "[TInt64]"
        "[Alias (hd count_flags) (expr_name sample_externs (hd count_flags))]" count_specs "[Column ''id'']" "[sample_batch]"
        sample_externs count_partials "memory_new 3000"]
      sample_aggregate_budget [OF count_partials_types] sample_group_ok
    by (simp add: sample_count_rows count_partials_types sample_input(1) plain_type_def memory_new_def)
qed

lemma sample_args:
  "input_args sample_externs [Column ''id''] [sample_batch]
   = [([CI64 1], argument_of sample_externs sample_batch 0), ([CI64 2], argument_of sample_externs sample_batch 1),
      ([CI64 1], argument_of sample_externs sample_batch 2)]"
proof -
  have "key_columns sample_externs [Column ''id''] sample_batch = [array_of TInt64 [CI64 1, CI64 2, CI64 1]]"
    by (simp add: key_columns_def batch_column_def sample_batch_columns sample_id_resolves)
  moreover have "[0..<3] = [0, 1, 2::nat]" by (simp add: upt_rec)
  ultimately show ?thesis
    by (simp add: input_args_def sample_batch_columns(2) cell_rows_def array_of_def)
qed

lemma sample_flag_args:
  "map (\<lambda>i. argument_of sample_externs sample_batch i (Column ''flag'')) [0, 1, 2] = [SBoolean True, SNull, SBoolean False]"
  by (simp add: argument_of_def argument_at_def aggregate_array_def batch_column_def sample_batch_columns
      sample_flag_column array_of_def cell_value_def value_of_cell_def)

lemma pair_count_rows:
  "aggregate_rows sample_externs sample_ax sample_row count_schema [TInt64] count_specs
     (input_rows sample_externs [Column ''id''] count_specs [sample_batch, sample_batch])
   = [[CI64 1, CU64 4], [CI64 2, CU64 0]]"
proof -
  let ?rows = "[([CI64 1], [SBoolean True]), ([CI64 2], [SNull]), ([CI64 1], [SBoolean False])]"
  have "group_keys sample_row [TInt64] (?rows @ ?rows) = [[CI64 1], [CI64 2]]" by code_simp
  moreover have "input_rows sample_externs [Column ''id''] count_specs [sample_batch, sample_batch] = ?rows @ ?rows"
    using sample_input(2) by (simp add: input_rows_def)
  ultimately show ?thesis
    by (simp add: aggregate_rows_def result_row_def count_schema_types aggregates_of_def aggregate_of_def values_of_def
        column_at_def considered_def Let_def cell_of_scalar_def)
qed

lemma pair_parts_ok:
  "parts_ok sample_externs sample_ax fl [TInt64] [Column ''id''] count_specs count_partials [[sample_batch], [sample_batch]]"
proof -
  have "list_all2 (holds sample_externs) (drop 1 (field_types count_partials)) (concat (partial_payload sample_externs sample_ax count_specs args))" for args
    by (simp add: count_partials_types partial_payload_def partial_chunk_def aggregate_of_def Let_def holds_def
        cell_of_scalar_def cell_ok_def cell_value_def value_of_cell_def)
  moreover have "length (values_of c (input_args sample_externs [Column ''id''] [sample_batch, sample_batch])) < 2 ^ 64" for c
  proof -
    have "length (values_of c (input_args sample_externs [Column ''id''] [sample_batch, sample_batch]))
        \<le> length (input_args sample_externs [Column ''id''] ([sample_batch] @ [sample_batch]))"
      by (simp add: values_of_def)
    also have "\<dots> = 6" unfolding input_args_append sample_args by simp
    finally show ?thesis by simp
  qed
  ultimately show ?thesis
    by (simp add: parts_ok_def sample_input(1) merge_ok_def spec_values_def)
qed

lemma pair_split_ok: "split_ok sample_externs sample_ax sample_row [TInt64] [Column ''id''] count_specs count_partials"
  by (simp add: split_ok_def sample_kernels sample_row_format plain_type_def result_schema_def count_partials_types buildable_def
      partial_width_def, simp add: count_partials_def schema_new_def field_new_def)

lemma sample_merge_bytes:
  "merge_group_memory_bytes sample_ax [] (Suc 0) = 104"
  "merge_group_memory_bytes sample_ax (sample_row tys [CI64 1]) (Suc 0) = 110"
  "merge_group_memory_bytes sample_ax (sample_row tys [CI64 2]) (Suc 0) = 111"
  by (simp_all add: merge_group_memory_bytes_def encoded_key_memory_bytes_def sample_row_length saturating_add_def
      saturating_mul_def, simp_all add: sample_ax_def)

abbreviation "count_partial \<equiv> batch_of_rows count_partials [[CI64 1, CU64 2], [CI64 2, CU64 0]]"

lemma pair_merge_budget: "merge_budget sample_ax [count_partial, count_partial] 1 1 count_schema \<le> 3000"
proof -
  have "key_slice count_partial 1 = Inr [array_of TInt64 [CI64 1, CI64 2]]"
    by (simp add: key_slice_def batch_of_rows_def columns_of_def count_partials_types)
  moreover have "encode_rows sample_ax (Some [TInt64]) [array_of TInt64 [CI64 1, CI64 2]] 2
      = Inr (EncodedRows (map (sample_row [TInt64]) [[CI64 1], [CI64 2]]))"
    by (simp add: encode_rows_def sample_ax_def column_length_def cell_rows_def array_of_def numeral_2_eq_2)
  moreover have "map field_type (take 1 (schema_fields count_schema)) = [TInt64]"
    by (simp add: count_schema_def schema_new_def field_new_def)
  moreover have "rb_num_rows count_partial = 2" by (simp add: batch_of_rows_def)
  ultimately show ?thesis
    by (simp add: merge_budget_def merge_batch_cost_def merge_row_cost_def encoder_new_def upt_rec
        sample_sizes sample_row_length sample_merge_bytes)
qed


end
