(* ===== verification/Block_Store.thy ===== *)
theory Block_Store
  imports Protocol Grpc_Status
begin

text \<open>
  \<open>src/cluster/block_store.rs\<close>: the two stores of immutable blocks, in memory and in a directory,
  and the part of \<open>src/cluster/data_plane.rs\<close> that describes a block.

  The trait \<open>BlockStorage\<close> is the record \<open>block_ops\<close> of its methods and the locale
  \<open>block_storage\<close> of what its users rely on; both stores are interpretations.  The directory of
  the disk store is a map from file names to contents.  Every system call the store makes may
  fail, and a write that fails may leave any prefix of its bytes: which calls fail is the argument
  \<open>io\<close>.  Arrow's stream format, the checksum function and the JSON text of a header are the
  fields of \<open>block_externs\<close>.
\<close>

section \<open>Blocks\<close>

record stored_block =
  st_schema :: schema
  st_batches :: "batch list"
  st_checksum :: string
  st_charged_bytes :: u64

record block_header =
  bh_version :: u16
  bh_ticket :: string
  bh_checksum :: string

record block_externs =
  bx_ipc_write :: "schema \<Rightarrow> batch list \<Rightarrow> bytes result"
  bx_ipc_read :: "bytes \<Rightarrow> (schema \<times> batch list) result"
  bx_crc32 :: "bytes \<Rightarrow> u32"
  bx_batch_bytes :: "batch \<Rightarrow> u64"
  bx_header_json :: "block_header \<Rightarrow> bytes result"
  bx_parse_header :: "bytes \<Rightarrow> block_header result"

text \<open>The format \<open>{:08x}\<close>.\<close>

definition hex_digit :: "nat \<Rightarrow> char" where
  "hex_digit d = (if d < 10 then char_of (d + 48) else char_of (d + 87))"

fun hex_digits :: "nat \<Rightarrow> nat \<Rightarrow> string" where
  "hex_digits 0 n = []"
| "hex_digits (Suc k) n = hex_digits k (n div 16) @ [hex_digit (n mod 16)]"

definition hex8 :: "u32 \<Rightarrow> string" where
  "hex8 w = hex_digits 8 (unat w)"

text \<open>
  The sums run in 64 bits and wrap around, as an optimised build computes them.  The writer hands
  every byte of the stream to the checksum.
\<close>

definition block_metadata ::
  "block_externs \<Rightarrow> schema \<Rightarrow> batch list \<Rightarrow> (u64 \<times> u64 \<times> string) result" where
  "block_metadata bx s bs =
     (let rows = sum_list (map (\<lambda>b. of_nat (rb_num_rows b)) bs);
          bytes = sum_list (map (bx_batch_bytes bx) bs) in
      rbind (bx_ipc_write bx s bs) (\<lambda>stream.
        Inr (rows, bytes, ''crc32:'' @ hex8 (bx_crc32 bx stream))))"

definition validate_capacity :: "u64 \<Rightarrow> unit result" where
  "validate_capacity capacity =
     require (capacity \<noteq> 0) (EPlanning ''data-plane storage capacity must be greater than zero'')"

definition same_checksum :: "string \<Rightarrow> string \<Rightarrow> unit result" where
  "same_checksum l r = require (l = r) (EProtocol ''immutable block checksum mismatch'')"

definition block_full :: sparkx_error where
  "block_full = EResourceExhausted ''data-plane storage capacity exceeded''"

definition block_missing :: sparkx_error where
  "block_missing = ENotFound ''data-plane block does not exist''"

section \<open>The trait\<close>

record 's block_ops =
  bo_available_bytes :: "'s \<Rightarrow> u64"
  bo_upload_budget :: "'s \<Rightarrow> string \<Rightarrow> u64"
  bo_insert :: "string \<Rightarrow> stored_block \<Rightarrow> 's \<Rightarrow> unit result \<times> 's"
  bo_get :: "string \<Rightarrow> 's \<Rightarrow> stored_block result"
  bo_remove :: "string \<Rightarrow> 's \<Rightarrow> unit result \<times> 's"

section \<open>Blocks in memory\<close>

record memory_block_store =
  mbs_capacity :: u64
  mbs_used :: u64
  mbs_blocks :: "(string, stored_block) btree"

definition memory_store_new :: "u64 \<Rightarrow> memory_block_store result" where
  "memory_store_new capacity =
     rbind (validate_capacity capacity) (\<lambda>_.
       Inr \<lparr>mbs_capacity = capacity, mbs_used = 0, mbs_blocks = []\<rparr>)"

definition memory_available_bytes :: "memory_block_store \<Rightarrow> u64" where
  "memory_available_bytes s = saturating_sub (mbs_capacity s) (mbs_used s)"

definition memory_upload_budget :: "memory_block_store \<Rightarrow> string \<Rightarrow> u64" where
  "memory_upload_budget s ticket =
     saturating_add (memory_available_bytes s)
       (case map_of (mbs_blocks s) ticket of None \<Rightarrow> 0 | Some b \<Rightarrow> st_charged_bytes b)"

definition memory_insert ::
  "string \<Rightarrow> stored_block \<Rightarrow> memory_block_store \<Rightarrow> unit result \<times> memory_block_store" where
  "memory_insert ticket block s =
     (case map_of (mbs_blocks s) ticket of
        Some existing \<Rightarrow> (same_checksum (st_checksum existing) (st_checksum block), s)
      | None \<Rightarrow>
          if memory_available_bytes s < st_charged_bytes block then (Inl block_full, s)
          else (Inr (), s\<lparr>mbs_used := mbs_used s + st_charged_bytes block,
                         mbs_blocks := bt_insert ticket block (mbs_blocks s)\<rparr>))"

definition memory_get :: "string \<Rightarrow> memory_block_store \<Rightarrow> stored_block result" where
  "memory_get ticket s = ok_or (map_of (mbs_blocks s) ticket) block_missing"

definition memory_remove ::
  "string \<Rightarrow> memory_block_store \<Rightarrow> unit result \<times> memory_block_store" where
  "memory_remove ticket s =
     (case map_of (mbs_blocks s) ticket of
        None \<Rightarrow> (Inl block_missing, s)
      | Some block \<Rightarrow> (Inr (), s\<lparr>mbs_used := mbs_used s - st_charged_bytes block,
                                mbs_blocks := bt_remove ticket (mbs_blocks s)\<rparr>))"

definition memory_ops :: "memory_block_store block_ops" where
  "memory_ops = \<lparr>bo_available_bytes = memory_available_bytes,
     bo_upload_budget = memory_upload_budget, bo_insert = memory_insert,
     bo_get = memory_get, bo_remove = memory_remove\<rparr>"

section \<open>Blocks in a directory\<close>

text \<open>The system calls that can fail, and how many bytes a failing write leaves.\<close>

datatype io_op =
    IoLock | IoList | IoMetadata | IoOpen | IoRead | IoCreate | IoWrite | IoSync | IoRename
  | IoSyncDirectory | IoRemove

record io_faults =
  io_fails :: "io_op \<Rightarrow> bool"
  io_torn :: nat

definition no_faults :: io_faults where
  "no_faults = \<lparr>io_fails = (\<lambda>_. False), io_torn = 0\<rparr>"

definition io_call :: "io_faults \<Rightarrow> io_op \<Rightarrow> unit result" where
  "io_call io op = require (\<not> io_fails io op) (EIo ''io error'')"

type_synonym directory = "(string, bytes) btree"

record disk_entry =
  de_path :: string
  de_bytes :: u64
  de_checksum :: string

record disk_block_store =
  dbs_capacity :: u64
  dbs_used :: u64
  dbs_blocks :: "(string, disk_entry) btree"
  dbs_files :: directory

definition le_bytes :: "u32 \<Rightarrow> bytes" where
  "le_bytes w = map (\<lambda>i. of_nat (unat w div 256 ^ i)) [0..<4]"

fun from_le_bytes :: "bytes \<Rightarrow> nat" where
  "from_le_bytes [] = 0"
| "from_le_bytes (b # bs) = unat b + 256 * from_le_bytes bs"

definition file_length :: "bytes \<Rightarrow> u64" where
  "file_length content = of_nat (min (length content) (2 ^ 64 - 1))"

definition read_block ::
  "block_externs \<Rightarrow> io_faults \<Rightarrow> directory \<Rightarrow> string \<Rightarrow> (block_header \<times> stored_block) result" where
  "read_block bx io files path =
     rbind (io_call io IoOpen) (\<lambda>_.
     rbind (ok_or (map_of files path) (EIo ''no such file'')) (\<lambda>content.
     rbind (io_call io IoRead) (\<lambda>_.
     rbind (require (4 \<le> length content) (EIo ''failed to fill whole buffer'')) (\<lambda>_.
     let size = from_le_bytes (take 4 content) in
     rbind (require (size \<le> 4096) (EProtocol ''invalid persisted block header length'')) (\<lambda>_.
     rbind (require (4 + size \<le> length content) (EIo ''failed to fill whole buffer'')) (\<lambda>_.
     rbind (bx_parse_header bx (take size (drop 4 content))) (\<lambda>header.
     rbind (require (bh_version header = PROTOCOL_VERSION)
              (EProtocol ''persisted block version mismatch'')) (\<lambda>_.
     rbind (bx_ipc_read bx (drop (4 + size) content)) (\<lambda>(schema, batches).
     rbind (block_metadata bx schema batches) (\<lambda>(_, bytes, checksum).
     rbind (same_checksum (bh_checksum header) checksum) (\<lambda>_.
       Inr (header, \<lparr>st_schema = schema, st_batches = batches, st_checksum = checksum,
                     st_charged_bytes = max bytes 1\<rparr>))))))))))))"

definition disk_available_bytes :: "disk_block_store \<Rightarrow> u64" where
  "disk_available_bytes s = saturating_sub (dbs_capacity s) (dbs_used s)"

definition disk_upload_budget :: "disk_block_store \<Rightarrow> string \<Rightarrow> u64" where
  "disk_upload_budget s ticket =
     saturating_add (disk_available_bytes s)
       (case map_of (dbs_blocks s) ticket of None \<Rightarrow> 0 | Some e \<Rightarrow> de_bytes e)"

text \<open>The loop of \<open>open\<close> over the entries of the directory, in the order the system lists them.\<close>

definition ends_with :: "string \<Rightarrow> string \<Rightarrow> bool" where
  "ends_with s p \<longleftrightarrow> length p \<le> length s \<and> drop (length s - length p) s = p"

definition disk_load ::
  "block_externs \<Rightarrow> io_faults \<Rightarrow> string \<Rightarrow> disk_block_store \<Rightarrow> unit result \<times> disk_block_store" where
  "disk_load bx io name s =
     (if strip_prefix ''sparkx-'' name = None then (Inr (), s)
      else if ends_with name ''.pending'' then
        (case io_call io IoRemove of
           Inl e \<Rightarrow> (Inl e, s)
         | Inr _ \<Rightarrow> (Inr (), s\<lparr>dbs_files := bt_remove name (dbs_files s)\<rparr>))
      else if \<not> ends_with name ''.block'' then (Inr (), s)
      else
        (case rbind (io_call io IoMetadata) (\<lambda>_.
              rbind (ok_or (map_of (dbs_files s) name) (EIo ''no such file'')) (\<lambda>content.
              let bytes = file_length content in
              rbind (require (bytes \<le> disk_available_bytes s) block_full) (\<lambda>_.
              rbind (read_block bx io (dbs_files s) name) (\<lambda>(header, _).
              rbind (require (map_of (dbs_blocks s) (bh_ticket header) = None)
                       (EProtocol ''duplicate persisted block ticket'')) (\<lambda>_.
                Inr (header, bytes)))))) of
           Inl e \<Rightarrow> (Inl e, s)
         | Inr (header, bytes) \<Rightarrow>
             (Inr (), s\<lparr>dbs_used := dbs_used s + bytes,
                       dbs_blocks := bt_insert (bh_ticket header)
                         \<lparr>de_path = name, de_bytes = bytes, de_checksum = bh_checksum header\<rparr>
                         (dbs_blocks s)\<rparr>)))"

fun disk_load_all ::
  "block_externs \<Rightarrow> io_faults \<Rightarrow> string list \<Rightarrow> disk_block_store \<Rightarrow> unit result \<times> disk_block_store" where
  "disk_load_all bx io [] s = (Inr (), s)"
| "disk_load_all bx io (name # names) s =
     (case disk_load bx io name s of
        (Inl e, s') \<Rightarrow> (Inl e, s')
      | (Inr _, s') \<Rightarrow> disk_load_all bx io names s')"

definition disk_open ::
  "block_externs \<Rightarrow> io_faults \<Rightarrow> string list \<Rightarrow> u64 \<Rightarrow> directory \<Rightarrow> disk_block_store result \<times> directory" where
  "disk_open bx io listing capacity files =
     (case rbind (validate_capacity capacity) (\<lambda>_.
           rbind (require (\<not> io_fails io IoLock)
                    (EExecution ''shuffle directory is already in use: {error}'')) (\<lambda>_.
             io_call io IoList)) of
        Inl e \<Rightarrow> (Inl e, files)
      | Inr _ \<Rightarrow>
          (case disk_load_all bx io listing
                  \<lparr>dbs_capacity = capacity, dbs_used = 0, dbs_blocks = [], dbs_files = files\<rparr> of
             (Inl e, s) \<Rightarrow> (Inl e, dbs_files s)
           | (Inr _, s) \<Rightarrow> (Inr s, dbs_files s)))"

text \<open>
  The closure \<open>write\<close> of \<open>insert\<close>: the header, the length check against the dry run, the file
  under its temporary name, the rename.  It returns the directory as it is when the closure ends.
\<close>

definition block_payload ::
  "block_externs \<Rightarrow> string \<Rightarrow> stored_block \<Rightarrow> (bytes \<times> bytes) result" where
  "block_payload bx ticket block =
     rbind (bx_header_json bx \<lparr>bh_version = PROTOCOL_VERSION, bh_ticket = ticket,
                               bh_checksum = st_checksum block\<rparr>) (\<lambda>header.
     rbind (bx_ipc_write bx (st_schema block) (st_batches block)) (\<lambda>stream.
       Inr (header, stream)))"

definition block_file :: "bytes \<times> bytes \<Rightarrow> bytes" where
  "block_file = (\<lambda>(header, stream). le_bytes (of_nat (length header)) @ header @ stream)"

definition needed_bytes :: "bytes \<times> bytes \<Rightarrow> u64" where
  "needed_bytes = (\<lambda>(header, stream).
     saturating_add (saturating_add (file_length stream) (of_nat (length header))) 4)"

definition disk_write ::
  "block_externs \<Rightarrow> io_faults \<Rightarrow> string \<Rightarrow> string \<Rightarrow> stored_block \<Rightarrow> u64 \<Rightarrow> directory
   \<Rightarrow> u64 result \<times> directory" where
  "disk_write bx io name ticket block available files =
     (let pending = name @ ''.pending''; path = name @ ''.block'' in
      if io_fails io IoCreate \<or> map_of files pending \<noteq> None
      then (Inl (EIo ''create_new''), files)
      else
        (case rbind (block_payload bx ticket block) (\<lambda>payload.
              rbind (require (needed_bytes payload \<le> available) block_full) (\<lambda>_.
                Inr (block_file payload))) of
           Inl e \<Rightarrow> (Inl e, bt_insert pending [] files)
         | Inr content \<Rightarrow>
             if io_fails io IoWrite
             then (Inl (EIo ''write_all''), bt_insert pending (take (io_torn io) content) files)
             else
               let written = bt_insert pending content files; bytes = file_length content in
               case rbind (io_call io IoMetadata) (\<lambda>_.
                    rbind (require (bytes \<le> available) block_full) (\<lambda>_.
                    rbind (io_call io IoSync) (\<lambda>_. io_call io IoRename))) of
                 Inl e \<Rightarrow> (Inl e, written)
               | Inr _ \<Rightarrow>
                   (rbind (io_call io IoSyncDirectory) (\<lambda>_. Inr bytes),
                    bt_insert path content (bt_remove pending written))))"

definition block_name :: "block_externs \<Rightarrow> string \<Rightarrow> string" where
  "block_name bx ticket = ''sparkx-'' @ hex8 (bx_crc32 bx (as_bytes ticket))"

definition disk_insert ::
  "block_externs \<Rightarrow> io_faults \<Rightarrow> string \<Rightarrow> stored_block \<Rightarrow> disk_block_store
   \<Rightarrow> unit result \<times> disk_block_store" where
  "disk_insert bx io ticket block s =
     (case map_of (dbs_blocks s) ticket of
        Some existing \<Rightarrow> (same_checksum (de_checksum existing) (st_checksum block), s)
      | None \<Rightarrow>
          let name = block_name bx ticket; path = name @ ''.block'' in
          if map_of (dbs_files s) path \<noteq> None
          then (Inl (EProtocol ''persistent block filename collision''), s)
          else
            (case disk_write bx io name ticket block (disk_available_bytes s) (dbs_files s) of
               (Inl e, files) \<Rightarrow>
                 (Inl e, s\<lparr>dbs_files := (if io_fails io IoRemove then files
                                       else bt_remove (name @ ''.pending'') files)\<rparr>)
             | (Inr bytes, files) \<Rightarrow>
                 (Inr (), s\<lparr>dbs_used := dbs_used s + bytes,
                           dbs_blocks := bt_insert ticket
                             \<lparr>de_path = path, de_bytes = bytes, de_checksum = st_checksum block\<rparr>
                             (dbs_blocks s),
                           dbs_files := files\<rparr>)))"

definition disk_get ::
  "block_externs \<Rightarrow> io_faults \<Rightarrow> string \<Rightarrow> disk_block_store \<Rightarrow> stored_block result" where
  "disk_get bx io ticket s =
     rbind (ok_or (map_of (dbs_blocks s) ticket) block_missing) (\<lambda>entry.
     rbind (read_block bx io (dbs_files s) (de_path entry)) (\<lambda>(header, block).
     rbind (require (bh_ticket header = ticket)
              (EProtocol ''persisted block ticket mismatch'')) (\<lambda>_.
     rbind (same_checksum (de_checksum entry) (st_checksum block)) (\<lambda>_. Inr block))))"

definition disk_remove ::
  "io_faults \<Rightarrow> string \<Rightarrow> disk_block_store \<Rightarrow> unit result \<times> disk_block_store" where
  "disk_remove io ticket s =
     (case map_of (dbs_blocks s) ticket of
        None \<Rightarrow> (Inl block_missing, s)
      | Some entry \<Rightarrow>
          if io_fails io IoRemove \<or> map_of (dbs_files s) (de_path entry) = None
          then (Inl (EIo ''remove_file''), s)
          else
            let removed = s\<lparr>dbs_files := bt_remove (de_path entry) (dbs_files s)\<rparr> in
            (case io_call io IoSyncDirectory of
               Inl e \<Rightarrow> (Inl e, removed)
             | Inr _ \<Rightarrow> (Inr (), removed\<lparr>dbs_used := dbs_used s - de_bytes entry,
                                        dbs_blocks := bt_remove ticket (dbs_blocks s)\<rparr>)))"

definition disk_ops :: "block_externs \<Rightarrow> io_faults \<Rightarrow> disk_block_store block_ops" where
  "disk_ops bx io = \<lparr>bo_available_bytes = disk_available_bytes,
     bo_upload_budget = disk_upload_budget, bo_insert = disk_insert bx io,
     bo_get = disk_get bx io, bo_remove = disk_remove io\<rparr>"

section \<open>What the users of a store rely on\<close>

text \<open>A block as its readers see it: the charge is private to the store.\<close>

definition block_content :: "stored_block \<Rightarrow> schema \<times> batch list \<times> string" where
  "block_content b = (st_schema b, st_batches b, st_checksum b)"

locale block_storage =
  fixes ops :: "'s block_ops"
    and inv :: "'s \<Rightarrow> bool"
    and view :: "'s \<Rightarrow> string \<Rightarrow> (schema \<times> batch list \<times> string) option"
    and wf :: "string \<Rightarrow> stored_block \<Rightarrow> bool"
  assumes get_law: "inv s \<Longrightarrow>
      (case bo_get ops t s of
         Inr b \<Rightarrow> view s t = Some (block_content b)
       | Inl e \<Rightarrow> e = block_missing \<and> view s t = None)"
    and insert_ok: "inv s \<Longrightarrow> wf t b \<Longrightarrow> bo_insert ops t b s = (Inr (), s') \<Longrightarrow> view s t = None \<Longrightarrow>
      inv s' \<and> view s' = (view s)(t \<mapsto> block_content b)"
    and insert_err: "inv s \<Longrightarrow> bo_insert ops t b s = (Inl e, s') \<Longrightarrow> inv s' \<and> view s' = view s"
    and insert_again: "inv s \<Longrightarrow> view s t = Some (sc, bs, c) \<Longrightarrow>
      bo_insert ops t b s = (same_checksum c (st_checksum b), s)"
    and remove_law: "inv s \<Longrightarrow>
      (case bo_remove ops t s of
         (Inr _, s') \<Rightarrow> inv s' \<and> view s t \<noteq> None \<and> view s' = (view s)(t := None)
       | (Inl e, s') \<Rightarrow> e = block_missing \<and> view s t = None \<and> s' = s)"
    and retry_budget: "inv s \<Longrightarrow> view s t = None \<Longrightarrow> bo_insert ops t b s = (Inr (), s') \<Longrightarrow>
      bo_upload_budget ops s' t = bo_upload_budget ops s t"
begin

lemma insert_inv: "inv s \<Longrightarrow> wf t b \<Longrightarrow> bo_insert ops t b s = (r, s') \<Longrightarrow> inv s'"
  using insert_ok [of s t b s'] insert_err [of s t b _ s'] insert_again [of s t]
  by (cases r; cases "view s t") auto

lemma remove_inv: "inv s \<Longrightarrow> bo_remove ops t s = (r, s') \<Longrightarrow> inv s'"
  using remove_law [of s t] by (cases r) auto

text \<open>A block that was accepted can be read until it is removed, whatever else happens.\<close>

lemma insert_get:
  assumes "inv s" and "wf t b" and "bo_insert ops t b s = (Inr (), s')"
  shows "\<exists>b'. bo_get ops t s' = Inr b' \<and> st_checksum b' = st_checksum b
      \<and> (view s t = None \<longrightarrow> block_content b' = block_content b)"
proof (cases "view s t")
  case None
  then have "inv s'" "view s' t = Some (block_content b)" using insert_ok [OF assms] by auto
  then show ?thesis
    using get_law [of s' t] by (auto simp: block_content_def split: sum.splits)
next
  case (Some v)
  obtain sc bs c where v: "v = (sc, bs, c)" by (cases v)
  then have "s' = s" "c = st_checksum b"
    using insert_again [OF assms(1), of t sc bs c b] Some assms(3)
    by (auto simp: same_checksum_def require_def split: if_splits)
  then show ?thesis
    using get_law [OF assms(1), of t] Some v by (auto simp: block_content_def split: sum.splits)
qed

lemma insert_other:
  assumes "inv s" and "wf t b" and "bo_insert ops t b s = (r, s')" and "u \<noteq> t"
  shows "view s' u = view s u"
proof (cases r)
  case (Inl e)
  then show ?thesis using insert_err [OF assms(1)] assms(3) by simp
next
  case (Inr x)
  then show ?thesis
    using insert_ok [OF assms(1,2)] insert_again [OF assms(1)] assms(3,4)
    by (cases "view s t") auto
qed

text \<open>The life of a block: it is read back, protected against other content, and removed once.\<close>

lemma lifecycle:
  assumes "inv s" and "wf t b" and "view s t = None" and ins: "bo_insert ops t b s = (Inr (), s')"
  shows "(\<exists>b'. bo_get ops t s' = Inr b' \<and> block_content b' = block_content b)
    \<and> (\<forall>u. u \<noteq> t \<longrightarrow> view s' u = view s u)
    \<and> (\<forall>c. bo_insert ops t c s' = (same_checksum (st_checksum b) (st_checksum c), s'))
    \<and> (\<exists>s''. bo_remove ops t s' = (Inr (), s'') \<and> view s'' = view s
          \<and> bo_get ops t s'' = Inl block_missing \<and> bo_remove ops t s'' = (Inl block_missing, s''))"
proof -
  have s': "inv s'" "view s' = (view s)(t \<mapsto> block_content b)"
    using insert_ok [OF assms(1,2) ins assms(3)] by auto
  then obtain s'' where s'': "bo_remove ops t s' = (Inr (), s'')" "inv s''" "view s'' = (view s')(t := None)"
    using remove_law [OF s'(1), of t] by (cases "bo_remove ops t s'") (auto split: sum.splits)
  have gone: "view s'' t = None" using s'' by simp
  have "view s'' = view s" using s''(3) s'(2) assms(3) by auto
  moreover have "bo_get ops t s'' = Inl block_missing"
    using get_law [OF s''(2), of t] gone by (auto split: sum.splits)
  moreover have "bo_remove ops t s'' = (Inl block_missing, s'')"
    using remove_law [OF s''(2), of t] gone by (cases "bo_remove ops t s''") (auto split: sum.splits)
  moreover have "bo_insert ops t c s' = (same_checksum (st_checksum b) (st_checksum c), s')" for c
    by (rule insert_again [OF s'(1)]) (simp add: s'(2) block_content_def)
  ultimately show ?thesis
    using insert_get [OF assms(1,2) ins] assms(3) s''(1) s'(2) by auto
qed

lemma immutable:
  assumes "inv s" and "wf t b" and "bo_insert ops t b s = (r, s')" and "view s t = Some v"
  shows "view s' t = Some v"
  using insert_again [OF assms(1)] assms by (cases v) auto

end

section \<open>The store in memory\<close>

definition memory_store_inv :: "memory_block_store \<Rightarrow> bool" where
  "memory_store_inv s \<longleftrightarrow> bt_ok (mbs_blocks s)
     \<and> unat (mbs_used s) = (\<Sum>(_, b)\<leftarrow>mbs_blocks s. unat (st_charged_bytes b))
     \<and> mbs_used s \<le> mbs_capacity s"

definition memory_view ::
  "memory_block_store \<Rightarrow> string \<Rightarrow> (schema \<times> batch list \<times> string) option" where
  "memory_view s t = map_option block_content (map_of (mbs_blocks s) t)"

lemma sum_list_bt_remove:
  fixes h :: "'v \<Rightarrow> nat"
  assumes "bt_ok m" and "map_of m k = Some v"
  shows "(\<Sum>(_, x)\<leftarrow>bt_remove k m. h x) + h v = (\<Sum>(_, x)\<leftarrow>m. h x)"
  using assms
proof (induction m)
  case (Cons e m)
  obtain k' v' where e: "e = (k', v')" by force
  from Cons.prems have ok: "bt_ok m" and fresh: "k' = k \<Longrightarrow> k \<notin> fst ` set m"
    by (auto simp: bt_ok_def e)
  have "bt_remove k m = m" if "k' = k"
    using fresh [OF that] by (force simp: bt_remove_def filter_id_conv)
  then show ?case
    using Cons.IH [OF ok] Cons.prems(2) e by (cases "k' = k") (auto simp: bt_remove_def)
qed simp

lemma sum_list_bt_member:
  fixes h :: "'v \<Rightarrow> nat"
  shows "map_of m k = Some v \<Longrightarrow> h v \<le> (\<Sum>(_, x)\<leftarrow>m. h x)"
  by (induction m) (auto split: if_splits)

lemma charge_fits:
  fixes used capacity n :: u64
  assumes "used \<le> capacity" and "n \<le> saturating_sub capacity used"
  shows "unat (used + n) = unat used + unat n" and "used + n \<le> capacity"
proof -
  have le: "unat used + unat n \<le> unat capacity"
    using assms unat_saturating_sub [of capacity used] by (simp add: word_le_nat_alt)
  then have "unat used + unat n < 2 ^ LENGTH(64)"
    using unsigned_less [of capacity, where 'a = nat] by linarith
  then show add: "unat (used + n) = unat used + unat n"
    using unat_add_lem [of used n] by simp
  show "used + n \<le> capacity" using add le by (simp add: word_le_nat_alt)
qed

text \<open>The budget for a ticket counts its own block as free, so it is the same once it is stored.\<close>

lemma budget_after_charge:
  fixes used capacity n :: u64
  assumes "used \<le> capacity" and "n \<le> saturating_sub capacity used"
  shows "saturating_add (saturating_sub capacity (used + n)) n = saturating_add (saturating_sub capacity used) 0"
proof -
  have "unat capacity < 2 ^ LENGTH(64)" by (rule unsigned_less)
  moreover have "unat n \<le> unat capacity - unat used"
    using assms(2) by (simp add: word_le_nat_alt unat_saturating_sub)
  ultimately have "unat (saturating_add (saturating_sub capacity (used + n)) n)
      = unat (saturating_add (saturating_sub capacity used) 0)"
    using charge_fits(1) [OF assms] assms(1)
    by (simp add: unat_saturating_add unat_saturating_sub word_le_nat_alt min_def)
  then show ?thesis by (simp add: word_unat_eq_iff)
qed

lemma memory_insert_inv:
  assumes "memory_store_inv s" and "memory_insert t b s = (r, s')"
  shows "memory_store_inv s'"
proof (cases "map_of (mbs_blocks s) t = None \<and> st_charged_bytes b \<le> memory_available_bytes s")
  case True
  then have s': "s' = s\<lparr>mbs_used := mbs_used s + st_charged_bytes b,
      mbs_blocks := bt_insert t b (mbs_blocks s)\<rparr>"
    using assms(2) by (simp add: memory_insert_def not_less [symmetric])
  have "st_charged_bytes b \<le> saturating_sub (mbs_capacity s) (mbs_used s)"
    using True by (simp add: memory_available_bytes_def)
  note fits = charge_fits [OF _ this]
  show ?thesis
    using assms(1) True fits 
      sum_list_bt_insert_fresh [of "mbs_blocks s" t, where h = "\<lambda>b. unat (st_charged_bytes b)" and v = b]
    by (simp add: memory_store_inv_def s')
next
  case False
  then show ?thesis
    using assms by (auto simp: memory_insert_def split: option.splits if_splits)
qed

lemma memory_remove_inv:
  assumes inv: "memory_store_inv s" and "memory_remove t s = (r, s')"
  shows "memory_store_inv s'"
proof (cases "map_of (mbs_blocks s) t")
  case None
  then show ?thesis using assms by (simp add: memory_remove_def)
next
  case (Some b)
  then have s': "s' = s\<lparr>mbs_used := mbs_used s - st_charged_bytes b,
      mbs_blocks := bt_remove t (mbs_blocks s)\<rparr>"
    using assms(2) by (simp add: memory_remove_def)
  note I = inv [unfolded memory_store_inv_def]
  note sums = sum_list_bt_remove [OF _ Some, of "\<lambda>b. unat (st_charged_bytes b)"]
  have le: "st_charged_bytes b \<le> mbs_used s"
    using I sum_list_bt_member [OF Some, of "\<lambda>b. unat (st_charged_bytes b)"]
    by (simp add: word_le_nat_alt)
  then have "unat (mbs_used s - st_charged_bytes b) = unat (mbs_used s) - unat (st_charged_bytes b)"
    by (rule unat_sub)
  then show ?thesis
    using I sums by (auto simp: memory_store_inv_def s' word_le_nat_alt)
qed

interpretation mems: block_storage memory_ops memory_store_inv memory_view "\<lambda>_ _. True"
proof
  fix s t b s' e sc bs c
  assume inv: "memory_store_inv s"
  show "case bo_get memory_ops t s of
         Inr b \<Rightarrow> memory_view s t = Some (block_content b)
       | Inl e \<Rightarrow> e = block_missing \<and> memory_view s t = None"
    by (simp add: memory_ops_def memory_get_def memory_view_def ok_or_def split: option.splits sum.splits)
  show "memory_store_inv s' \<and> memory_view s' = (memory_view s)(t \<mapsto> block_content b)"
    if ok: "bo_insert memory_ops t b s = (Inr (), s')" "memory_view s t = None"
    using memory_insert_inv [OF inv, of t b "Inr ()" s'] ok
    by (auto simp: memory_ops_def memory_insert_def memory_view_def split: if_splits)
  show "memory_store_inv s' \<and> memory_view s' = memory_view s"
    if "bo_insert memory_ops t b s = (Inl e, s')"
    using that inv by (auto simp: memory_ops_def memory_insert_def split: option.splits if_splits)
  show "bo_insert memory_ops t b s = (same_checksum c (st_checksum b), s)"
    if "memory_view s t = Some (sc, bs, c)"
    using that by (auto simp: memory_ops_def memory_insert_def memory_view_def block_content_def)
  show "case bo_remove memory_ops t s of
         (Inr _, s') \<Rightarrow> memory_store_inv s' \<and> memory_view s t \<noteq> None
           \<and> memory_view s' = (memory_view s)(t := None)
       | (Inl e, s') \<Rightarrow> e = block_missing \<and> memory_view s t = None \<and> s' = s"
    using memory_remove_inv [OF inv, of t]
    by (cases "map_of (mbs_blocks s) t") (auto simp: memory_ops_def memory_remove_def memory_view_def)
  show "bo_upload_budget memory_ops s' t = bo_upload_budget memory_ops s t"
    if "memory_view s t = None" "bo_insert memory_ops t b s = (Inr (), s')"
    using that inv budget_after_charge [of "mbs_used s" "mbs_capacity s" "st_charged_bytes b"]
    by (auto simp: memory_ops_def memory_insert_def memory_view_def memory_upload_budget_def
        memory_available_bytes_def memory_store_inv_def not_less split: if_splits)
qed

section \<open>The store in a directory\<close>

text \<open>
  What is documented of the external formats: parsing inverts printing for headers, and reading
  inverts writing for streams.
\<close>

definition codec_ok :: "block_externs \<Rightarrow> bool" where
  "codec_ok bx \<longleftrightarrow>
     (\<forall>h j. bx_header_json bx h = Inr j \<longrightarrow> bx_parse_header bx j = Inr h)
     \<and> (\<forall>s bs w. bx_ipc_write bx s bs = Inr w \<longrightarrow> bx_ipc_read bx w = Inr (s, bs))"

text \<open>A block whose checksum is its own, and whose header fits the limit that readers enforce.\<close>

definition block_ok :: "block_externs \<Rightarrow> stored_block \<Rightarrow> bool" where
  "block_ok bx b \<longleftrightarrow>
     (\<exists>rows bytes. block_metadata bx (st_schema b) (st_batches b) = Inr (rows, bytes, st_checksum b))"

definition header_of :: "string \<Rightarrow> string \<Rightarrow> block_header" where
  "header_of t c = \<lparr>bh_version = PROTOCOL_VERSION, bh_ticket = t, bh_checksum = c\<rparr>"

definition disk_wf :: "block_externs \<Rightarrow> string \<Rightarrow> stored_block \<Rightarrow> bool" where
  "disk_wf bx t b \<longleftrightarrow> block_ok bx b
     \<and> (case bx_header_json bx (header_of t (st_checksum b)) of Inr h \<Rightarrow> length h \<le> 4096 | Inl _ \<Rightarrow> True)"

definition block_path :: "string \<Rightarrow> bool" where
  "block_path p \<longleftrightarrow> strip_prefix ''sparkx-'' p \<noteq> None \<and> ends_with p ''.block''"

definition entry_ok :: "block_externs \<Rightarrow> directory \<Rightarrow> string \<Rightarrow> disk_entry \<Rightarrow> bool" where
  "entry_ok bx files t e \<longleftrightarrow> block_path (de_path e)
     \<and> (\<exists>content. map_of files (de_path e) = Some content \<and> de_bytes e = file_length content)
     \<and> (\<exists>h b. read_block bx no_faults files (de_path e) = Inr (h, b)
          \<and> bh_ticket h = t \<and> bh_checksum h = de_checksum e)"

definition disk_inv :: "block_externs \<Rightarrow> disk_block_store \<Rightarrow> bool" where
  "disk_inv bx s \<longleftrightarrow> codec_ok bx \<and> dbs_capacity s \<noteq> 0 \<and> bt_ok (dbs_blocks s)
     \<and> unat (dbs_used s) = (\<Sum>(_, e)\<leftarrow>dbs_blocks s. unat (de_bytes e))
     \<and> dbs_used s \<le> dbs_capacity s
     \<and> (\<forall>t e. map_of (dbs_blocks s) t = Some e \<longrightarrow> entry_ok bx (dbs_files s) t e)"

definition disk_view ::
  "block_externs \<Rightarrow> disk_block_store \<Rightarrow> string \<Rightarrow> (schema \<times> batch list \<times> string) option" where
  "disk_view bx s t =
     (case map_of (dbs_blocks s) t of
        None \<Rightarrow> None
      | Some e \<Rightarrow> (case read_block bx no_faults (dbs_files s) (de_path e) of
          Inl _ \<Rightarrow> None | Inr (_, b) \<Rightarrow> Some (block_content b)))"

subsection \<open>Files\<close>

lemma length_le_bytes [simp]: "length (le_bytes w) = 4"
  by (simp add: le_bytes_def)

lemma from_le_bytes_digits: "from_le_bytes (map (\<lambda>i. of_nat (n div 256 ^ i)) [0..<k]) = n mod 256 ^ k"
proof (induction k arbitrary: n)
  case (Suc k)
  have "map (\<lambda>i. of_nat (n div 256 ^ i)) [0..<Suc k]
      = (of_nat n :: u8) # map (\<lambda>i. of_nat (n div 256 div 256 ^ i)) [0..<k]"
    by (simp add: map_upt_Suc div_mult2_eq [symmetric] del: upt_Suc)
  then show ?case
    using Suc.IH [of "n div 256"] mod_mult2_eq [of n 256 "256 ^ k"]
    by (simp add: unsigned_of_nat take_bit_eq_mod del: upt_Suc)
qed simp

lemma from_le_bytes_le_bytes [simp]: "from_le_bytes (le_bytes w) = unat w"
proof -
  have "unat w < 2 ^ LENGTH(32)" by (rule unsigned_less)
  then show ?thesis by (simp only: le_bytes_def from_le_bytes_digits) simp
qed

lemma read_block_cong:
  "map_of files p = map_of files' p \<Longrightarrow> read_block bx io files p = read_block bx io files' p"
  by (simp add: read_block_def)

lemma io_call_no_faults [simp]: "io_call no_faults op = Inr ()" "io_fails no_faults op = False"
  by (simp_all add: io_call_def no_faults_def)

lemma read_block_checksum: "read_block bx io files p = Inr (h, b) \<Longrightarrow> st_checksum b = bh_checksum h"
  by (auto simp: read_block_def rbind_eq_Inr Let_def same_checksum_def)

lemma read_block_written:
  assumes "codec_ok bx" and "disk_wf bx t b" and "block_payload bx t b = Inr payload"
    and "map_of files p = Some (block_file payload)"
  shows "\<exists>b'. read_block bx no_faults files p = Inr (header_of t (st_checksum b), b')
      \<and> block_content b' = block_content b"
proof -
  obtain h w where pay: "payload = (h, w)" and h: "bx_header_json bx (header_of t (st_checksum b)) = Inr h"
    and w: "bx_ipc_write bx (st_schema b) (st_batches b) = Inr w"
    using assms(3) by (auto simp: block_payload_def rbind_eq_Inr header_of_def)
  have len: "length h \<le> 4096" and ok: "block_ok bx b" using assms(2) h by (simp_all add: disk_wf_def)
  have size: "unat (of_nat (length h) :: u32) = length h"
    using len by (intro unat_of_nat_small) simp
  have "bx_parse_header bx h = Inr (header_of t (st_checksum b))"
    "bx_ipc_read bx w = Inr (st_schema b, st_batches b)"
    using assms(1) h w by (simp_all add: codec_ok_def)
  moreover obtain rows bytes where
    "block_metadata bx (st_schema b) (st_batches b) = Inr (rows, bytes, st_checksum b)"
    using ok by (auto simp: block_ok_def)
  ultimately show ?thesis
    using assms(4) len size
    by (simp add: read_block_def pay block_file_def Let_def same_checksum_def header_of_def block_content_def)
qed

lemma ends_with_append [simp]: "ends_with (s @ p) p"
  by (simp add: ends_with_def)

lemma pending_not_block: "\<not> ends_with (n @ ''.pending'') ''.block''"
  by (simp add: ends_with_def)

lemma block_path_not_pending: "block_path p \<Longrightarrow> p \<noteq> n @ ''.pending''"
  using pending_not_block by (auto simp: block_path_def)

lemma block_name_path: "block_path (block_name bx t @ ''.block'')"
  using ends_with_append [of "block_name bx t" "''.block''"]
  by (simp add: block_path_def block_name_def strip_prefix_def)

lemma entry_ok_cong:
  "entry_ok bx files t e \<Longrightarrow> (\<And>p. block_path p \<Longrightarrow> map_of files p \<noteq> None \<Longrightarrow> map_of files' p = map_of files p)
   \<Longrightarrow> entry_ok bx files' t e"
  unfolding entry_ok_def using read_block_cong [of files "de_path e" files'] by auto

subsection \<open>Insertion\<close>

text \<open>
  However the writes fail, only the two names of the ticket are touched, and the block file is
  either as it was or complete.
\<close>

lemma disk_write_outcome:
  assumes "disk_write bx io name t b available files = (r, files')"
  obtains (unpublished) e where "r = Inl e"
      "\<And>p. p \<noteq> name @ ''.pending'' \<Longrightarrow> map_of files' p = map_of files p"
  | (published) payload where "block_payload bx t b = Inr payload"
      "file_length (block_file payload) \<le> available"
      "r = Inr (file_length (block_file payload)) \<or> (\<exists>e. r = Inl e)"
      "map_of files' (name @ ''.block'') = Some (block_file payload)"
      "\<And>p. p \<noteq> name @ ''.pending'' \<Longrightarrow> p \<noteq> name @ ''.block'' \<Longrightarrow> map_of files' p = map_of files p"
proof (cases "io_fails io IoCreate \<or> map_of files (name @ ''.pending'') \<noteq> None")
  case True
  then show thesis using assms by (intro unpublished) (auto simp: disk_write_def Let_def)
next
  case create: False
  define pay where "pay = rbind (block_payload bx t b) (\<lambda>payload.
      rbind (require (needed_bytes payload \<le> available) block_full) (\<lambda>_. Inr (block_file payload)))"
  show thesis
  proof (cases pay)
    case (Inl e)
    then show thesis
      using assms create by (intro unpublished) (auto simp: disk_write_def Let_def pay_def)
  next
    case (Inr content)
    then obtain payload where payload: "block_payload bx t b = Inr payload" "content = block_file payload"
      by (auto simp: pay_def rbind_eq_Inr)
    define sync where "sync = rbind (io_call io IoMetadata) (\<lambda>_.
        rbind (require (file_length content \<le> available) block_full) (\<lambda>_.
        rbind (io_call io IoSync) (\<lambda>_. io_call io IoRename)))"
    show thesis
    proof (cases "io_fails io IoWrite")
      case True
      then show thesis
        using assms create Inr by (intro unpublished) (auto simp: disk_write_def pay_def [symmetric])
    next
      case wr: False
      then have run: "disk_write bx io name t b available files =
          (case sync of Inl e \<Rightarrow> (Inl e, bt_insert (name @ ''.pending'') content files)
           | Inr _ \<Rightarrow> (rbind (io_call io IoSyncDirectory) (\<lambda>_. Inr (file_length content)),
               bt_insert (name @ ''.block'') content (bt_remove (name @ ''.pending'')
                 (bt_insert (name @ ''.pending'') content files))))"
        using create Inr by (simp add: disk_write_def Let_def pay_def [symmetric] sync_def)
      show thesis
      proof (cases sync)
        case (Inl e)
        then show thesis using run assms by (intro unpublished) auto
      next
        case (Inr u)
        then have "file_length content \<le> available" by (auto simp: sync_def rbind_eq_Inr)
        then show thesis
          using run Inr assms payload
          by (cases "io_call io IoSyncDirectory"; intro published [of payload]) auto
      qed
    qed
  qed
qed

definition disk_published ::
  "block_externs \<Rightarrow> string \<Rightarrow> stored_block \<Rightarrow> disk_block_store \<Rightarrow> directory \<Rightarrow> disk_block_store" where
  "disk_published bx t b s files =
     (let path = block_name bx t @ ''.block'';
          bytes = (case map_of files path of None \<Rightarrow> 0 | Some content \<Rightarrow> file_length content) in
      s\<lparr>dbs_used := dbs_used s + bytes,
        dbs_blocks := bt_insert t \<lparr>de_path = path, de_bytes = bytes, de_checksum = st_checksum b\<rparr>
          (dbs_blocks s), dbs_files := files\<rparr>)"

lemma disk_insert_outcome:
  assumes "map_of (dbs_blocks s) t = None" and "disk_insert bx io t b s = (r, s')"
  obtains (kept) e where "r = Inl e" "dbs_blocks s' = dbs_blocks s" "dbs_used s' = dbs_used s"
      "dbs_capacity s' = dbs_capacity s" "\<And>p. block_path p \<Longrightarrow> map_of (dbs_files s') p = map_of (dbs_files s) p"
  | (stored) payload where "block_payload bx t b = Inr payload"
      "file_length (block_file payload) \<le> disk_available_bytes s"
      "map_of (dbs_files s') (block_name bx t @ ''.block'') = Some (block_file payload)"
      "map_of (dbs_files s) (block_name bx t @ ''.block'') = None"
      "\<And>p. block_path p \<Longrightarrow> p \<noteq> block_name bx t @ ''.block'' \<Longrightarrow> map_of (dbs_files s') p = map_of (dbs_files s) p"
      "r = Inr () \<and> s' = disk_published bx t b s (dbs_files s')
       \<or> (\<exists>e. r = Inl e) \<and> s' = s\<lparr>dbs_files := dbs_files s'\<rparr>"
proof (cases "map_of (dbs_files s) (block_name bx t @ ''.block'')")
  case (Some c)
  then show thesis using assms by (intro kept) (auto simp: disk_insert_def Let_def)
next
  case None
  let ?name = "block_name bx t"
  obtain w files where w: "disk_write bx io ?name t b (disk_available_bytes s) (dbs_files s) = (w, files)"
    by force
  have np: "p \<noteq> ?name @ ''.pending''" if "block_path p" for p
    using block_path_not_pending [OF that] by blast
  from w show thesis
  proof (cases rule: disk_write_outcome)
    case (unpublished e)
    then show thesis
      using assms None w np by (intro kept) (auto simp: disk_insert_def Let_def)
  next
    case (published payload)
    have path: "block_path (?name @ ''.block'')" by (rule block_name_path)
    show thesis
    proof (cases w)
      case (Inl e)
      then have "r = Inl e" "s' = s\<lparr>dbs_files := (if io_fails io IoRemove then files
          else bt_remove (?name @ ''.pending'') files)\<rparr>"
        using assms None w by (auto simp: disk_insert_def Let_def)
      then show thesis using published np None by (intro stored [of payload]) auto
    next
      case (Inr n)
      then have "r = Inr ()" "s' = disk_published bx t b s files"
        using assms None w published by (auto simp: disk_insert_def Let_def disk_published_def)
      then show thesis using published np None
        by (intro stored [of payload]) (auto simp: disk_published_def Let_def)
    qed
  qed
qed

lemma disk_inv_files:
  assumes "disk_inv bx s" and "dbs_blocks s' = dbs_blocks s" "dbs_used s' = dbs_used s"
    "dbs_capacity s' = dbs_capacity s"
    and "\<And>p. block_path p \<Longrightarrow> map_of (dbs_files s) p \<noteq> None \<Longrightarrow> map_of (dbs_files s') p = map_of (dbs_files s) p"
  shows "disk_inv bx s' \<and> disk_view bx s' = disk_view bx s"
proof -
  have ok: "entry_ok bx (dbs_files s) t e" if "map_of (dbs_blocks s) t = Some e" for t e
    using assms(1) that by (simp add: disk_inv_def)
  have "disk_view bx s' t = disk_view bx s t" for t
  proof (cases "map_of (dbs_blocks s) t")
    case (Some e)
    then have "map_of (dbs_files s') (de_path e) = map_of (dbs_files s) (de_path e)"
      using ok [OF Some] assms(5) by (auto simp: entry_ok_def)
    note same = read_block_cong [OF this, of bx no_faults]
    show ?thesis using Some assms(2) by (simp add: disk_view_def same)
  qed (simp add: disk_view_def assms(2))
  moreover have ok': "entry_ok bx (dbs_files s') t e" if "map_of (dbs_blocks s) t = Some e" for t e
    by (rule entry_ok_cong [OF ok [OF that]]) (rule assms(5))
  then have "disk_inv bx s'"
    using assms(1-4) ok' by (auto simp: disk_inv_def)
  ultimately show ?thesis by auto
qed

lemma disk_published_inv:
  assumes inv: "disk_inv bx s" and wf: "disk_wf bx t b" and new: "map_of (dbs_blocks s) t = None"
    and pay: "block_payload bx t b = Inr payload" "file_length (block_file payload) \<le> disk_available_bytes s"
    and files: "map_of files (block_name bx t @ ''.block'') = Some (block_file payload)"
      "map_of (dbs_files s) (block_name bx t @ ''.block'') = None"
      "\<And>p. block_path p \<Longrightarrow> p \<noteq> block_name bx t @ ''.block'' \<Longrightarrow> map_of files p = map_of (dbs_files s) p"
  shows "disk_inv bx (disk_published bx t b s files)
    \<and> disk_view bx (disk_published bx t b s files) = (disk_view bx s)(t \<mapsto> block_content b)"
proof -
  let ?path = "block_name bx t @ ''.block''" and ?bytes = "file_length (block_file payload)"
  let ?s = "s\<lparr>dbs_files := files\<rparr>"
  note I = inv [unfolded disk_inv_def]
  have same: "map_of files p = map_of (dbs_files s) p"
    if "block_path p" "map_of (dbs_files s) p \<noteq> None" for p
    using files(2,3) that by (cases "p = ?path") auto
  have old: "disk_inv bx ?s \<and> disk_view bx ?s = disk_view bx s"
    by (rule disk_inv_files [OF inv]) (use same in auto)
  obtain b' where rd: "read_block bx no_faults files ?path = Inr (header_of t (st_checksum b), b')"
    and b': "block_content b' = block_content b"
    using read_block_written [OF _ wf pay(1) files(1)] I by blast
  have pub: "disk_published bx t b s files = s\<lparr>dbs_used := dbs_used s + ?bytes,
      dbs_blocks := bt_insert t \<lparr>de_path = ?path, de_bytes = ?bytes, de_checksum = st_checksum b\<rparr>
        (dbs_blocks s), dbs_files := files\<rparr>"
    using files(1) by (simp add: disk_published_def Let_def)
  have entry: "entry_ok bx files t \<lparr>de_path = ?path, de_bytes = ?bytes, de_checksum = st_checksum b\<rparr>"
    using rd files(1) by (simp add: entry_ok_def block_name_path header_of_def)
  have "?bytes \<le> saturating_sub (dbs_capacity s) (dbs_used s)"
    using pay(2) by (simp add: disk_available_bytes_def)
  note fits = charge_fits [OF _ this]
  have "disk_inv bx (disk_published bx t b s files)"
    using I fits entry old sum_list_bt_insert_fresh [OF new, where h = "\<lambda>e. unat (de_bytes e)"]
    by (auto simp: pub disk_inv_def)
  moreover have "disk_view bx (disk_published bx t b s files) u = ((disk_view bx ?s)(t \<mapsto> block_content b)) u" for u
    using rd b' by (cases "u = t") (auto simp: disk_view_def pub split: option.splits)
  ultimately show ?thesis using old by (metis ext)
qed

lemma disk_insert_refused:
  assumes inv: "disk_inv bx s" and new: "map_of (dbs_blocks s) t = None"
    and run: "disk_insert bx io t b s = (Inl e, s')"
  shows "disk_inv bx s' \<and> disk_view bx s' = disk_view bx s"
  using new run
proof (cases rule: disk_insert_outcome)
  case (kept e)
  show ?thesis by (rule disk_inv_files [OF inv]) (use kept in auto)
next
  case (stored payload)
  then have s': "s' = s\<lparr>dbs_files := dbs_files s'\<rparr>" by blast
  show ?thesis
  proof (rule disk_inv_files [OF inv])
    show "dbs_blocks s' = dbs_blocks s" "dbs_used s' = dbs_used s" "dbs_capacity s' = dbs_capacity s"
      by (subst s', simp)+
    show "map_of (dbs_files s') p = map_of (dbs_files s) p"
      if "block_path p" "map_of (dbs_files s) p \<noteq> None" for p
      using that stored(4,5) by (cases "p = block_name bx t @ ''.block''") auto
  qed
qed

lemma disk_insert_inv:
  assumes inv: "disk_inv bx s" and wf: "disk_wf bx t b" and new: "map_of (dbs_blocks s) t = None"
    and run: "disk_insert bx io t b s = (r, s')"
  shows "disk_inv bx s' \<and> disk_view bx s' = (if r = Inr () then (disk_view bx s)(t \<mapsto> block_content b) else disk_view bx s)"
proof (cases r)
  case (Inl e)
  then show ?thesis using disk_insert_refused [OF inv new] run by simp
next
  case (Inr u)
  from new run show ?thesis
  proof (cases rule: disk_insert_outcome)
    case (stored payload)
    then have "disk_published bx t b s (dbs_files s') = s'" using Inr by simp
    then show ?thesis using disk_published_inv [OF inv wf new stored(1-5)] Inr by simp
  qed (use Inr in simp)
qed

subsection \<open>Lookup and removal\<close>

lemma disk_view_entry:
  assumes "disk_inv bx s" and "map_of (dbs_blocks s) t = Some e"
  shows "\<exists>h b. read_block bx no_faults (dbs_files s) (de_path e) = Inr (h, b) \<and> bh_ticket h = t
    \<and> st_checksum b = de_checksum e \<and> disk_view bx s t = Some (block_content b)"
proof -
  have "entry_ok bx (dbs_files s) t e" using assms by (simp add: disk_inv_def)
  then obtain h b where rd: "read_block bx no_faults (dbs_files s) (de_path e) = Inr (h, b)"
    and h: "bh_ticket h = t" "bh_checksum h = de_checksum e"
    by (auto simp: entry_ok_def)
  moreover have "st_checksum b = de_checksum e" using read_block_checksum [OF rd] h by simp
  moreover have "disk_view bx s t = Some (block_content b)" using assms(2) rd by (simp add: disk_view_def)
  ultimately show ?thesis by blast
qed

lemma disk_view_None:
  assumes "disk_inv bx s"
  shows "disk_view bx s t = None \<longleftrightarrow> map_of (dbs_blocks s) t = None"
proof (cases "map_of (dbs_blocks s) t")
  case None
  then show ?thesis by (simp add: disk_view_def)
next
  case (Some e)
  then show ?thesis using disk_view_entry [OF assms Some] Some by fastforce
qed

lemma disk_path_inj:
  assumes "disk_inv bx s" and "map_of (dbs_blocks s) t = Some e" and "map_of (dbs_blocks s) u = Some f"
    and "de_path e = de_path f"
  shows "t = u"
proof -
  obtain h b where "read_block bx no_faults (dbs_files s) (de_path e) = Inr (h, b)" "bh_ticket h = t"
    using disk_view_entry [OF assms(1,2)] by blast
  moreover obtain h' b' where "read_block bx no_faults (dbs_files s) (de_path f) = Inr (h', b')" "bh_ticket h' = u"
    using disk_view_entry [OF assms(1,3)] by blast
  ultimately show ?thesis using assms(4) by simp
qed

lemma disk_remove_inv:
  assumes inv: "disk_inv bx s" and e: "map_of (dbs_blocks s) t = Some e"
  shows "\<exists>s'. disk_remove no_faults t s = (Inr (), s') \<and> disk_inv bx s'
    \<and> disk_view bx s' = (disk_view bx s)(t := None)"
proof -
  note I = inv [unfolded disk_inv_def]
  define s' where "s' = s\<lparr>dbs_files := bt_remove (de_path e) (dbs_files s),
      dbs_used := dbs_used s - de_bytes e, dbs_blocks := bt_remove t (dbs_blocks s)\<rparr>"
  have "map_of (dbs_files s) (de_path e) \<noteq> None" using I e by (auto simp: entry_ok_def)
  then have run: "disk_remove no_faults t s = (Inr (), s')"
    using e by (simp add: disk_remove_def s'_def Let_def)
  have path: "map_of (dbs_files s') (de_path f) = map_of (dbs_files s) (de_path f)"
    if "map_of (dbs_blocks s) u = Some f" "u \<noteq> t" for u f
    using disk_path_inj [OF inv e that(1)] that(2) by (auto simp: s'_def)
  have reads: "read_block bx no_faults (dbs_files s') (de_path f) = read_block bx no_faults (dbs_files s) (de_path f)"
    if "map_of (dbs_blocks s) u = Some f" "u \<noteq> t" for u f
    by (rule read_block_cong) (rule path [OF that])
  have "entry_ok bx (dbs_files s') u f" if "map_of (dbs_blocks s) u = Some f" "u \<noteq> t" for u f
    using I that path [OF that] reads [OF that] by (auto simp: entry_ok_def)
  moreover have "de_bytes e \<le> dbs_used s"
    using I sum_list_bt_member [OF e, of "\<lambda>e. unat (de_bytes e)"] by (simp add: word_le_nat_alt)
  then have "unat (dbs_used s - de_bytes e) = unat (dbs_used s) - unat (de_bytes e)" by (rule unat_sub)
  ultimately have "disk_inv bx s'"
    using I sum_list_bt_remove [OF _ e, of "\<lambda>e. unat (de_bytes e)"]
    by (auto simp: disk_inv_def s'_def word_le_nat_alt)
  moreover have "disk_view bx s' u = ((disk_view bx s)(t := None)) u" for u
    using reads [of u] by (cases "map_of (dbs_blocks s) u") (auto simp: disk_view_def s'_def)
  ultimately show ?thesis using run by (metis ext)
qed

interpretation disk: block_storage "disk_ops bx no_faults" "disk_inv bx" "disk_view bx" "disk_wf bx" for bx
proof
  fix s t b s' e sc bs c
  assume inv: "disk_inv bx s"
  show "case bo_get (disk_ops bx no_faults) t s of
         Inr b \<Rightarrow> disk_view bx s t = Some (block_content b)
       | Inl e \<Rightarrow> e = block_missing \<and> disk_view bx s t = None"
  proof (cases "map_of (dbs_blocks s) t")
    case None
    then show ?thesis by (simp add: disk_ops_def disk_get_def disk_view_def)
  next
    case (Some e)
    obtain h b where "read_block bx no_faults (dbs_files s) (de_path e) = Inr (h, b)" "bh_ticket h = t"
      "st_checksum b = de_checksum e" "disk_view bx s t = Some (block_content b)"
      using disk_view_entry [OF inv Some] by blast
    then show ?thesis using Some by (simp add: disk_ops_def disk_get_def same_checksum_def)
  qed
  show "disk_inv bx s' \<and> disk_view bx s' = (disk_view bx s)(t \<mapsto> block_content b)"
    if "disk_wf bx t b" "bo_insert (disk_ops bx no_faults) t b s = (Inr (), s')" "disk_view bx s t = None"
    using disk_insert_inv [OF inv that(1), of no_faults "Inr ()" s'] that(2,3) disk_view_None [OF inv]
    by (simp add: disk_ops_def)
  show "disk_inv bx s' \<and> disk_view bx s' = disk_view bx s"
    if run: "bo_insert (disk_ops bx no_faults) t b s = (Inl e, s')"
  proof (cases "map_of (dbs_blocks s) t")
    case None
    then show ?thesis using disk_insert_refused [OF inv None] run by (simp add: disk_ops_def)
  next
    case (Some f)
    then show ?thesis using run inv by (auto simp: disk_ops_def disk_insert_def)
  qed
  show "bo_insert (disk_ops bx no_faults) t b s = (same_checksum c (st_checksum b), s)"
    if "disk_view bx s t = Some (sc, bs, c)"
  proof (cases "map_of (dbs_blocks s) t")
    case None
    then show ?thesis using that by (simp add: disk_view_def)
  next
    case (Some f)
    have "c = de_checksum f" using disk_view_entry [OF inv Some] that by (auto simp: block_content_def)
    then show ?thesis using Some by (simp add: disk_ops_def disk_insert_def)
  qed
  show "case bo_remove (disk_ops bx no_faults) t s of
         (Inr _, s') \<Rightarrow> disk_inv bx s' \<and> disk_view bx s t \<noteq> None
           \<and> disk_view bx s' = (disk_view bx s)(t := None)
       | (Inl e, s') \<Rightarrow> e = block_missing \<and> disk_view bx s t = None \<and> s' = s"
  proof (cases "map_of (dbs_blocks s) t")
    case None
    then show ?thesis by (simp add: disk_ops_def disk_remove_def disk_view_def)
  next
    case (Some e)
    from disk_remove_inv [OF inv Some] disk_view_None [OF inv, of t] Some show ?thesis
      by (auto simp: disk_ops_def)
  qed
  show "bo_upload_budget (disk_ops bx no_faults) s' t = bo_upload_budget (disk_ops bx no_faults) s t"
    if "disk_view bx s t = None" "bo_insert (disk_ops bx no_faults) t b s = (Inr (), s')"
  proof -
    have new: "map_of (dbs_blocks s) t = None" using that(1) disk_view_None [OF inv] by simp
    have "disk_insert bx no_faults t b s = (Inr (), s')" using that(2) by (simp add: disk_ops_def)
    with new show ?thesis
    proof (cases rule: disk_insert_outcome)
      case (stored payload)
      then have s': "disk_published bx t b s (dbs_files s') = s'" by simp
      have "disk_upload_budget (disk_published bx t b s (dbs_files s')) t = disk_upload_budget s t"
        using stored(2,3) inv new
          budget_after_charge [of "dbs_used s" "dbs_capacity s" "file_length (block_file payload)"]
        by (simp add: disk_published_def Let_def disk_upload_budget_def disk_available_bytes_def disk_inv_def)
      then show ?thesis unfolding s' by (simp add: disk_ops_def)
    qed simp
  qed
qed

section \<open>Reopening the directory\<close>

text \<open>The committed block files of a directory are those of the registered entries.\<close>

definition tidy :: "disk_block_store \<Rightarrow> bool" where
  "tidy s \<longleftrightarrow> (\<forall>p content. map_of (dbs_files s) p = Some content \<longrightarrow> block_path p \<longrightarrow>
     (\<exists>t e. map_of (dbs_blocks s) t = Some e \<and> de_path e = p))"

lemma ends_with_iff: "ends_with s p \<longleftrightarrow> (\<exists>q. s = q @ p)"
  unfolding ends_with_def by (metis append_take_drop_id append_same_eq diff_add_inverse2 drop_append
      append_eq_conv_conj length_append le_add2)

lemma block_not_pending: "ends_with p ''.block'' \<Longrightarrow> \<not> ends_with p ''.pending''"
proof
  assume "ends_with p ''.block''" "ends_with p ''.pending''"
  then obtain q r where "p = q @ ''.block''" "p = r @ ''.pending''" by (auto simp: ends_with_iff)
  then have "last (q @ ''.block'') = last (r @ ''.pending'')" by metis
  then show False by simp
qed

definition entries_at :: "string set \<Rightarrow> (string, disk_entry) btree \<Rightarrow> (string, disk_entry) btree" where
  "entries_at D m = filter (\<lambda>(_, e). de_path e \<in> D) m"

lemma entries_at_ok: "bt_ok m \<Longrightarrow> bt_ok (entries_at D m)"
  by (induction m) (auto simp: bt_ok_def entries_at_def)

lemma entries_at_lookup:
  "bt_ok m \<Longrightarrow> map_of (entries_at D m) t =
     (case map_of m t of None \<Rightarrow> None | Some e \<Rightarrow> if de_path e \<in> D then Some e else None)"
proof (induction m)
  case (Cons x m)
  obtain k e where x: "x = (k, e)" by force
  from Cons.prems have "bt_ok m" and "k \<notin> fst ` set m" by (auto simp: bt_ok_def x)
  moreover from this(2) have "map_of m k = None" by (simp add: map_of_eq_None_iff)
  ultimately show ?case using Cons.IH x by (auto simp: entries_at_def)
qed (simp add: entries_at_def)

lemma entries_at_skip:
  "(\<And>t e. map_of m t = Some e \<Longrightarrow> de_path e \<noteq> n) \<Longrightarrow> bt_ok m \<Longrightarrow> entries_at (insert n D) m = entries_at D m"
  by (rule bt_ext) (auto simp: entries_at_ok entries_at_lookup fun_eq_iff split: option.splits)

definition charge :: "(string, disk_entry) btree \<Rightarrow> nat" where
  "charge m = (\<Sum>(_, e)\<leftarrow>m. unat (de_bytes e))"

lemma charge_Nil: "charge [] = 0"
  by (simp add: charge_def)

lemma charge_entries_at: "charge (entries_at D m) \<le> charge m"
  by (induction m) (auto simp: entries_at_def charge_def)

text \<open>The store while it is being reloaded: the files in \<open>D\<close> have been seen.\<close>

definition reloading :: "disk_block_store \<Rightarrow> string set \<Rightarrow> directory \<Rightarrow> disk_block_store" where
  "reloading s D files =
     \<lparr>dbs_capacity = dbs_capacity s, dbs_used = of_nat (charge (entries_at D (dbs_blocks s))),
      dbs_blocks = entries_at D (dbs_blocks s), dbs_files = files\<rparr>"

definition pending_removed :: "string \<Rightarrow> directory \<Rightarrow> directory" where
  "pending_removed n files =
     (if strip_prefix ''sparkx-'' n \<noteq> None \<and> ends_with n ''.pending'' then bt_remove n files else files)"

lemma disk_load_block:
  assumes inv: "disk_inv bx s" and e: "map_of (dbs_blocks s) t = Some e" "de_path e = n"
    and D: "n \<notin> D" and files: "map_of files n = map_of (dbs_files s) n"
  shows "disk_load bx no_faults n (reloading s D files) = (Inr (), reloading s (insert n D) files)"
proof -
  note I = inv [unfolded disk_inv_def]
  have eok: "entry_ok bx (dbs_files s) t e" using I e by simp
  then obtain content h b where c: "map_of files n = Some content" "de_bytes e = file_length content"
    and rd: "read_block bx no_faults (dbs_files s) n = Inr (h, b)"
    and h: "bh_ticket h = t" "bh_checksum h = de_checksum e" and path: "block_path n"
    using files e(2) by (auto simp: entry_ok_def)
  have rd': "read_block bx no_faults files n = Inr (h, b)" using read_block_cong [OF files] rd by simp
  have fresh: "map_of (entries_at D (dbs_blocks s)) t = None"
    using I e D by (simp add: entries_at_lookup)
  have new: "entries_at (insert n D) (dbs_blocks s) = bt_insert t e (entries_at D (dbs_blocks s))"
  proof (rule bt_ext)
    have "map_of (entries_at (insert n D) (dbs_blocks s)) u
        = map_of (bt_insert t e (entries_at D (dbs_blocks s))) u" for u
    proof (cases "map_of (dbs_blocks s) u")
      case None
      then show ?thesis using I e by (cases "u = t") (simp_all add: entries_at_lookup)
    next
      case (Some f)
      then have "u \<noteq> t \<Longrightarrow> de_path f \<noteq> n" using disk_path_inj [OF inv e(1) Some] e(2) by auto
      then show ?thesis using I e Some by (cases "u = t") (simp_all add: entries_at_lookup)
    qed
    then show "map_of (entries_at (insert n D) (dbs_blocks s))
        = map_of (bt_insert t e (entries_at D (dbs_blocks s)))" ..
  qed (use I in \<open>simp_all add: entries_at_ok\<close>)
  let ?c = "charge (entries_at D (dbs_blocks s))"
  have sum: "charge (entries_at (insert n D) (dbs_blocks s)) = unat (de_bytes e) + ?c"
    using sum_list_bt_insert_fresh [OF fresh, where h = "\<lambda>e. unat (de_bytes e)" and v = e]
    by (simp add: new charge_def)
  have le: "unat (de_bytes e) + ?c \<le> unat (dbs_capacity s)"
    using I charge_entries_at [of "insert n D" "dbs_blocks s"] sum
    by (simp add: charge_def word_le_nat_alt)
  then have "?c < 2 ^ LENGTH(64)" using unsigned_less [of "dbs_capacity s", where 'a = nat] by linarith
  then have "unat (of_nat ?c :: u64) = ?c" by (rule unat_of_nat_small)
  then have "de_bytes e \<le> disk_available_bytes (reloading s D files)"
    using le by (simp add: disk_available_bytes_def reloading_def word_le_nat_alt unat_saturating_sub)
  then have avail: "file_length content \<le> disk_available_bytes (reloading s D files)" using c by simp
  have eta: "\<lparr>de_path = n, de_bytes = file_length content, de_checksum = de_checksum e\<rparr> = e"
    using e(2) c(2) by simp
  have "disk_load bx no_faults n (reloading s D files) = (Inr (), (reloading s D files)
      \<lparr>dbs_used := of_nat ?c + file_length content, dbs_blocks := bt_insert t e (entries_at D (dbs_blocks s))\<rparr>)"
    using path block_not_pending [of n] c(1) rd' h fresh avail eta
    by (auto simp: disk_load_def block_path_def reloading_def)
  then show ?thesis using new sum c(2) by (simp add: reloading_def add.commute)
qed

lemma disk_load_one:
  assumes inv: "disk_inv bx s" and tidy: "tidy s" and D: "n \<notin> D"
    and files: "\<And>p. block_path p \<Longrightarrow> map_of files p = map_of (dbs_files s) p"
    and n: "map_of (dbs_files s) n \<noteq> None"
  shows "disk_load bx no_faults n (reloading s D files)
    = (Inr (), reloading s (insert n D) (pending_removed n files))"
proof (cases "block_path n")
  case True
  then obtain t e where "map_of (dbs_blocks s) t = Some e" "de_path e = n"
    using tidy n by (auto simp: tidy_def)
  moreover have "pending_removed n files = files"
    using True block_not_pending by (auto simp: pending_removed_def block_path_def)
  ultimately show ?thesis using disk_load_block [OF inv _ _ D files [OF True]] by simp
next
  case False
  have "de_path e \<noteq> n" if "map_of (dbs_blocks s) t = Some e" for t e
    using inv that False by (auto simp: disk_inv_def entry_ok_def)
  then have "entries_at (insert n D) (dbs_blocks s) = entries_at D (dbs_blocks s)"
    using inv by (intro entries_at_skip) (auto simp: disk_inv_def)
  then show ?thesis
    using False by (auto simp: disk_load_def reloading_def pending_removed_def block_path_def)
qed

lemma disk_load_all_reloads:
  assumes inv: "disk_inv bx s" and tidy: "tidy s"
  shows "distinct names \<Longrightarrow> set names \<inter> D = {} \<Longrightarrow> (\<forall>n\<in>set names. map_of (dbs_files s) n \<noteq> None) \<Longrightarrow>
    (\<And>p. block_path p \<Longrightarrow> map_of files p = map_of (dbs_files s) p) \<Longrightarrow>
    disk_load_all bx no_faults names (reloading s D files)
      = (Inr (), reloading s (D \<union> set names) (fold pending_removed names files))"
proof (induction names arbitrary: D files)
  case (Cons n names)
  have "map_of (pending_removed n files) p = map_of (dbs_files s) p" if "block_path p" for p
    using Cons.prems(4) [OF that] that block_not_pending
    by (auto simp: pending_removed_def block_path_def)
  then show ?case
    using Cons.IH [of "insert n D" "pending_removed n files"] Cons.prems disk_load_one [OF inv tidy, of n D files]
    by simp
qed simp

lemma disk_reopen:
  assumes inv: "disk_inv bx s" and tidy: "tidy s"
    and listing: "distinct names" "set names = dom (map_of (dbs_files s))"
  shows "disk_open bx no_faults names (dbs_capacity s) (dbs_files s)
    = (Inr (s\<lparr>dbs_files := fold pending_removed names (dbs_files s)\<rparr>),
       fold pending_removed names (dbs_files s))"
proof -
  note I = inv [unfolded disk_inv_def]
  have none: "entries_at {} (dbs_blocks s) = []" by (simp add: entries_at_def)
  have "de_path e \<in> set names" if "(t, e) \<in> set (dbs_blocks s)" for t e
  proof -
    have "entry_ok bx (dbs_files s) t e" using that I bt_in_set_iff [of "dbs_blocks s" t e] by simp
    then show ?thesis using listing(2) by (auto simp: entry_ok_def)
  qed
  then have all: "entries_at (set names) (dbs_blocks s) = dbs_blocks s"
    by (auto simp: entries_at_def filter_id_conv)
  have "charge (dbs_blocks s) = unat (dbs_used s)" using I by (simp add: charge_def)
  then have used: "of_nat (charge (dbs_blocks s)) = dbs_used s" by simp
  have "disk_load_all bx no_faults names (reloading s {} (dbs_files s))
      = (Inr (), reloading s (set names) (fold pending_removed names (dbs_files s)))"
    using disk_load_all_reloads [OF inv tidy listing(1), of "{}" "dbs_files s"] listing(2) by auto
  then show ?thesis
    using I by (simp add: disk_open_def validate_capacity_def reloading_def none all used charge_Nil)
qed

section \<open>Properties of the stores\<close>

subsection \<open>A small instance of the external formats\<close>

definition sample_stream :: bytes where
  "sample_stream = [1, 2, 3]"

definition sample_header :: bytes where
  "sample_header = [9, 9]"

definition sample_checksum :: string where
  "sample_checksum = ''crc32:'' @ hex8 0"

text \<open>One ticket has a short header, one a header of 5000 bytes.\<close>

definition sample_bx :: block_externs where
  "sample_bx =
     \<lparr>bx_ipc_write = (\<lambda>s bs. if s = schema_new [] \<and> bs = [] then Inr sample_stream else Inl (EArrow ''write'')),
      bx_ipc_read = (\<lambda>w. if w = sample_stream then Inr (schema_new [], []) else Inl (EArrow ''read'')),
      bx_crc32 = (\<lambda>_. 0), bx_batch_bytes = (\<lambda>_. 1),
      bx_header_json = (\<lambda>h. if h = header_of ''t'' sample_checksum then Inr sample_header
        else if h = header_of ''long'' sample_checksum then Inr (replicate 5000 0)
        else Inl (EProtocol ''json'')),
      bx_parse_header = (\<lambda>j. if j = sample_header then Inr (header_of ''t'' sample_checksum)
        else if j = replicate 5000 0 then Inr (header_of ''long'' sample_checksum)
        else Inl (EProtocol ''json''))\<rparr>"

definition sample_block :: stored_block where
  "sample_block = \<lparr>st_schema = schema_new [], st_batches = [], st_checksum = sample_checksum,
     st_charged_bytes = 1\<rparr>"

definition empty_disk :: disk_block_store where
  "empty_disk = \<lparr>dbs_capacity = 10000, dbs_used = 0, dbs_blocks = [], dbs_files = []\<rparr>"

lemma sample_headers_differ: "replicate 5000 0 \<noteq> sample_header"
proof
  assume "replicate 5000 0 = sample_header"
  then have "length (replicate 5000 (0 :: u8)) = length sample_header" by (rule arg_cong)
  then show False by (simp add: sample_header_def)
qed

lemma sample_codec_ok: "codec_ok sample_bx"
  using sample_headers_differ by (auto simp: codec_ok_def sample_bx_def split: if_splits)

lemma sample_wf: "disk_wf sample_bx ''t'' sample_block"
  by (simp add: disk_wf_def block_ok_def block_metadata_def sample_bx_def sample_block_def
      sample_checksum_def sample_header_def)

lemma empty_disk_inv: "codec_ok bx \<Longrightarrow> disk_inv bx empty_disk"
  by (simp add: disk_inv_def empty_disk_def)

lemma empty_disk_tidy: "tidy empty_disk"
  by (simp add: tidy_def empty_disk_def)

definition sample_file :: string where
  "sample_file = ''sparkx-00000000.block''"

lemma hex8_zero: "hex8 0 = ''00000000''"
  by code_simp

lemma sample_block_name: "block_name sample_bx t = ''sparkx-00000000''"
  by (simp add: block_name_def sample_bx_def hex8_zero)

definition sample_content :: bytes where
  "sample_content = le_bytes 2 @ sample_header @ sample_stream"

lemma sample_payload: "block_payload sample_bx ''t'' sample_block = Inr (sample_header, sample_stream)"
  by (simp add: block_payload_def sample_bx_def sample_block_def header_of_def)

definition sample_disk :: disk_block_store where
  "sample_disk = \<lparr>dbs_capacity = 10000, dbs_used = 9,
     dbs_blocks = [(''t'', \<lparr>de_path = sample_file, de_bytes = 9, de_checksum = sample_checksum\<rparr>)],
     dbs_files = [(sample_file, sample_content)]\<rparr>"

lemma sample_checksum_of: "st_checksum sample_block = sample_checksum"
  by (simp add: sample_block_def)

lemma sample_insert: "disk_insert sample_bx no_faults ''t'' sample_block empty_disk = (Inr (), sample_disk)"
  by (simp add: disk_insert_def empty_disk_def sample_disk_def sample_block_name disk_write_def sample_payload
      block_file_def needed_bytes_def file_length_def disk_available_bytes_def sample_header_def sample_stream_def
      sample_content_def sample_file_def sample_checksum_of saturating_add_def saturating_sub_def bt_remove_def Let_def)

subsection \<open>Crashes\<close>

lemma pending_removed_block: "block_path p \<Longrightarrow> map_of (fold pending_removed names files) p = map_of files p"
proof (induction names arbitrary: files)
  case (Cons n names)
  then have "map_of (pending_removed n files) p = map_of files p"
    using block_not_pending by (auto simp: pending_removed_def block_path_def)
  with Cons show ?case by simp
qed simp

lemma reopen_keeps:
  assumes "disk_inv bx s" and "tidy s" and "distinct names" and "set names = dom (map_of (dbs_files s))"
  shows "\<exists>s2. disk_open bx no_faults names (dbs_capacity s) (dbs_files s) = (Inr s2, dbs_files s2)
    \<and> disk_inv bx s2 \<and> tidy s2 \<and> disk_view bx s2 = disk_view bx s"
proof -
  let ?s2 = "s\<lparr>dbs_files := fold pending_removed names (dbs_files s)\<rparr>"
  have "disk_inv bx ?s2 \<and> disk_view bx ?s2 = disk_view bx s"
    by (rule disk_inv_files [OF assms(1)]) (simp_all add: pending_removed_block)
  moreover have "tidy ?s2" using assms(2) by (auto simp: tidy_def pending_removed_block)
  ultimately show ?thesis using disk_reopen [OF assms] by (metis disk_block_store.select_convs(4)
      disk_block_store.surjective disk_block_store.update_convs(4))
qed

lemma tidy_kept:
  assumes "tidy s" and "dbs_blocks s' = dbs_blocks s"
    and "\<And>p. block_path p \<Longrightarrow> map_of (dbs_files s') p = map_of (dbs_files s) p"
  shows "tidy s'"
  using assms by (auto simp: tidy_def)

lemma tidy_published:
  assumes "tidy s" and new: "map_of (dbs_blocks s) t = None"
    and files: "\<And>p. block_path p \<Longrightarrow> p \<noteq> block_name bx t @ ''.block'' \<Longrightarrow> map_of files p = map_of (dbs_files s) p"
  shows "tidy (disk_published bx t b s files)"
  unfolding tidy_def
proof (intro allI impI)
  fix p content
  assume p: "map_of (dbs_files (disk_published bx t b s files)) p = Some content" "block_path p"
  show "\<exists>u e. map_of (dbs_blocks (disk_published bx t b s files)) u = Some e \<and> de_path e = p"
  proof (cases "p = block_name bx t @ ''.block''")
    case True
    then show ?thesis by (intro exI [of _ t]) (simp add: disk_published_def Let_def)
  next
    case False
    then obtain u e where "map_of (dbs_blocks s) u = Some e" "de_path e = p"
      using assms(1) files [of p] p by (auto simp: tidy_def disk_published_def Let_def)
    then show ?thesis using new by (intro exI [of _ u] exI [of _ e]) (auto simp: disk_published_def Let_def)
  qed
qed


text \<open>The system dies after renaming the file and before it has synchronised the directory.\<close>

definition late_fault :: io_faults where
  "late_fault = \<lparr>io_fails = (\<lambda>op. op = IoSyncDirectory \<or> op = IoRemove), io_torn = 0\<rparr>"

lemma late_insert: "disk_insert sample_bx late_fault ''t'' sample_block empty_disk
    = (Inl (EIo ''io error''), empty_disk\<lparr>dbs_files := [(sample_file, sample_content)]\<rparr>)"
  by (simp add: disk_insert_def empty_disk_def late_fault_def sample_block_name disk_write_def sample_payload
      block_file_def needed_bytes_def file_length_def disk_available_bytes_def sample_header_def sample_stream_def
      sample_content_def sample_file_def io_call_def saturating_add_def saturating_sub_def bt_remove_def Let_def)


text \<open>
  A stored block lives as an immutable value.  After an accepted insertion of a new ticket the
  store returns exactly the schema, batches and checksum inserted; no other ticket is affected; a
  second upload under the ticket changes nothing and is accepted only with the same checksum; and
  it is removed exactly once, after which the store holds what it held before.
\<close>

theorem disk_block_lifecycle:
  assumes "disk_inv bx s" and "disk_wf bx t b" and "disk_view bx s t = None"
    and "disk_insert bx no_faults t b s = (Inr (), s')"
  shows "(\<exists>b'. disk_get bx no_faults t s' = Inr b' \<and> block_content b' = block_content b)
    \<and> (\<forall>u. u \<noteq> t \<longrightarrow> disk_view bx s' u = disk_view bx s u)
    \<and> (\<forall>c. disk_insert bx no_faults t c s' = (same_checksum (st_checksum b) (st_checksum c), s'))
    \<and> (\<exists>s''. disk_remove no_faults t s' = (Inr (), s'') \<and> disk_view bx s'' = disk_view bx s
          \<and> disk_get bx no_faults t s'' = Inl block_missing
          \<and> disk_remove no_faults t s'' = (Inl block_missing, s''))"
  using disk.lifecycle [OF assms(1-3), of s'] assms(4) by (simp add: disk_ops_def)

theorem disk_block_lifecycle_witness:
  "(\<exists>b'. disk_get sample_bx no_faults ''t'' sample_disk = Inr b'
      \<and> block_content b' = (schema_new [], [], sample_checksum))
   \<and> (\<exists>s''. disk_remove no_faults ''t'' sample_disk = (Inr (), s''))"
  using disk_block_lifecycle [OF empty_disk_inv [OF sample_codec_ok] sample_wf _ sample_insert]
  by (auto simp: disk_view_def empty_disk_def block_content_def sample_block_def)

subsection \<open>Two ways to lose a block\<close>

text \<open>
  C33: When the directory cannot be synchronised after a block file was deleted, the removal reports
  an error and keeps the entry, whose file is gone.  From then on an upload of the same block is
  acknowledged without storing anything, the block cannot be read, and it cannot be removed.
\<close>

theorem failed_remove_loses_block:
  assumes inv: "disk_inv bx s" and e: "map_of (dbs_blocks s) t = Some e"
    and b: "st_checksum b = de_checksum e"
    and io: "\<not> io_fails io IoRemove" "io_fails io IoSyncDirectory"
  shows "\<exists>s'. disk_remove io t s = (Inl (EIo ''io error''), s')
    \<and> disk_insert bx no_faults t b s' = (Inr (), s')
    \<and> disk_get bx no_faults t s' = Inl (EIo ''no such file'')
    \<and> disk_remove no_faults t s' = (Inl (EIo ''remove_file''), s')"
proof -
  let ?s = "s\<lparr>dbs_files := bt_remove (de_path e) (dbs_files s)\<rparr>"
  have "map_of (dbs_files s) (de_path e) \<noteq> None" using inv e by (auto simp: disk_inv_def entry_ok_def)
  then have "disk_remove io t s = (Inl (EIo ''io error''), ?s)"
    using e io by (simp add: disk_remove_def io_call_def Let_def)
  moreover have "disk_insert bx no_faults t b ?s = (Inr (), ?s)"
    using e b by (simp add: disk_insert_def same_checksum_def)
  moreover have "disk_get bx no_faults t ?s = Inl (EIo ''no such file'')"
    using e by (simp add: disk_get_def read_block_def)
  moreover have "disk_remove no_faults t ?s = (Inl (EIo ''remove_file''), ?s)"
    using e by (simp add: disk_remove_def)
  ultimately show ?thesis by blast
qed

theorem failed_remove_loses_block_witness:
  "\<exists>s'. disk_remove \<lparr>io_fails = (\<lambda>op. op = IoSyncDirectory), io_torn = 0\<rparr> ''t'' sample_disk
      = (Inl (EIo ''io error''), s')
    \<and> disk_insert sample_bx no_faults ''t'' sample_block s' = (Inr (), s')"
proof -
  have "disk_inv sample_bx sample_disk"
    using disk.insert_inv [OF empty_disk_inv [OF sample_codec_ok] sample_wf, of "Inr ()" sample_disk] sample_insert
    by (simp add: disk_ops_def)
  then show ?thesis
    using failed_remove_loses_block [of sample_bx sample_disk "''t''" _ sample_block
        "\<lparr>io_fails = (\<lambda>op. op = IoSyncDirectory), io_torn = 0\<rparr>"]
    by (auto simp: sample_disk_def sample_block_def)
qed

text \<open>
  C34: Writers do not enforce the limit of 4096 bytes that readers put on the header.  A block
  whose header is longer is accepted, although it can never be read, and the directory can no
  longer be opened when its file is among the entries listed first.
\<close>

theorem long_header_poisons_store:
  assumes new: "map_of (dbs_blocks s) t = None" "map_of (dbs_files s) (block_name bx t @ ''.block'') = None"
      "map_of (dbs_files s) (block_name bx t @ ''.pending'') = None"
    and pay: "block_payload bx t b = Inr (h, w)" "4096 < length h" "length h < 2 ^ 32"
    and fits: "needed_bytes (h, w) \<le> disk_available_bytes s"
      "file_length (block_file (h, w)) \<le> disk_available_bytes s"
    and cap: "dbs_capacity s \<noteq> 0"
  shows "\<exists>s'. disk_insert bx no_faults t b s = (Inr (), s')
    \<and> disk_get bx no_faults t s' = Inl (EProtocol ''invalid persisted block header length'')
    \<and> fst (disk_open bx no_faults ((block_name bx t @ ''.block'') # names) (dbs_capacity s) (dbs_files s'))
        = Inl (EProtocol ''invalid persisted block header length'')"
proof -
  let ?path = "block_name bx t @ ''.block''" and ?c = "block_file (h, w)"
  let ?e = "\<lparr>de_path = ?path, de_bytes = file_length ?c, de_checksum = st_checksum b\<rparr>"
  define files where "files = bt_insert ?path ?c (bt_remove (block_name bx t @ ''.pending'')
      (bt_insert (block_name bx t @ ''.pending'') ?c (dbs_files s)))"
  let ?s = "s\<lparr>dbs_used := dbs_used s + file_length ?c, dbs_blocks := bt_insert t ?e (dbs_blocks s), dbs_files := files\<rparr>"
  have "disk_write bx no_faults (block_name bx t) t b (disk_available_bytes s) (dbs_files s) = (Inr (file_length ?c), files)"
    using new(3) pay(1) fits by (simp add: disk_write_def files_def Let_def)
  then have ins: "disk_insert bx no_faults t b s = (Inr (), ?s)"
    using new by (simp add: disk_insert_def Let_def)
  have "unat (of_nat (length h) :: u32) = length h" using pay(3) by (intro unat_of_nat_small) simp
  then have rd: "read_block bx no_faults files ?path = Inl (EProtocol ''invalid persisted block header length'')"
    using pay(2) by (simp add: read_block_def files_def block_file_def)
  then have "disk_get bx no_faults t ?s = Inl (EProtocol ''invalid persisted block header length'')"
    by (simp add: disk_get_def)
  moreover have "file_length ?c \<le> saturating_sub (dbs_capacity s) 0"
    using fits(2) by (simp add: disk_available_bytes_def word_le_nat_alt unat_saturating_sub)
  then have "fst (disk_open bx no_faults (?path # names) (dbs_capacity s) files)
      = Inl (EProtocol ''invalid persisted block header length'')"
    using cap rd block_name_path [of bx t] block_not_pending [of ?path]
    by (auto simp: disk_open_def validate_capacity_def disk_load_def disk_available_bytes_def block_path_def files_def)
  ultimately show ?thesis using ins by auto
qed

theorem long_header_poisons_store_witness:
  "\<exists>s'. disk_insert sample_bx no_faults ''long'' sample_block empty_disk = (Inr (), s')
    \<and> disk_get sample_bx no_faults ''long'' s' = Inl (EProtocol ''invalid persisted block header length'')"
proof -
  have "block_payload sample_bx ''long'' sample_block = Inr (replicate 5000 0, sample_stream)"
    by (simp add: block_payload_def sample_bx_def sample_block_def header_of_def)
  moreover have "needed_bytes (replicate 5000 0, sample_stream) \<le> disk_available_bytes empty_disk"
    by (simp add: needed_bytes_def file_length_def sample_stream_def disk_available_bytes_def empty_disk_def
        saturating_add_def saturating_sub_def)
  moreover have "file_length (block_file (replicate 5000 0, sample_stream)) \<le> disk_available_bytes empty_disk"
    by (simp add: block_file_def file_length_def sample_stream_def disk_available_bytes_def empty_disk_def saturating_sub_def)
  ultimately show ?thesis
    using long_header_poisons_store [of empty_disk "''long''" sample_bx sample_block "replicate 5000 0" sample_stream "[]"]
    by (auto simp: empty_disk_def)
qed

end
