(* ===== verification/Data_Plane.thy ===== *)
theory Data_Plane
  imports Block_Store Memory
begin

text \<open>
  \<open>src/cluster/data_plane.rs\<close>: the Flight service that stores the output blocks of tasks, and its
  client.

  The service is a function of the trait object it holds, a record \<open>block_ops\<close>, and of the state
  behind it.  The upload handler takes the lock twice, for the budget and for the insertion; it is
  split there, and the properties allow any valid state at the second point.  The JSON texts and
  the Flight encoding are the fields of \<open>flight_externs\<close>; \<open>fx_transfer\<close> is what a receiver decodes
  of the batches a sender encodes, since the encoder may split them.  The network between client
  and service carries a request and its reply faithfully, or the client sees a transport error.
\<close>

section \<open>Tickets\<close>

record block_ticket =
  tk_version :: u16
  tk_worker_id :: worker_id
  tk_producer :: task_attempt_id
  tk_output_partition :: partition_id

record upload_ack =
  ua_rows :: u64
  ua_bytes :: u64
  ua_checksum :: string
  ua_ticket :: string

record flight_externs =
  fx_ticket_json :: "block_ticket \<Rightarrow> string result"
  fx_parse_ticket :: "string \<Rightarrow> block_ticket result"
  fx_ack_json :: "upload_ack \<Rightarrow> bytes option"
  fx_parse_ack :: "bytes \<Rightarrow> upload_ack result"
  fx_transfer :: "schema \<Rightarrow> batch list \<Rightarrow> (flight_error + batch) list \<times> schema option"

definition ticket_validate :: "block_ticket \<Rightarrow> unit result" where
  "ticket_validate t =
     rbind (require (tk_version t = PROTOCOL_VERSION)
       (EProtocol ''unsupported data-plane protocol version {}; expected {PROTOCOL_VERSION}'')) (\<lambda>_.
     rbind (worker_id_new (tk_worker_id t)) (\<lambda>_. task_validate (tk_producer t)))"

definition decode_ticket :: "flight_externs \<Rightarrow> string \<Rightarrow> block_ticket result" where
  "decode_ticket fx ticket =
     rbind (fx_parse_ticket fx ticket) (\<lambda>t. rbind (ticket_validate t) (\<lambda>_. Inr t))"

section \<open>Errors on the wire\<close>

fun data_map_status :: "sparkx_error \<Rightarrow> status" where
  "data_map_status (EProtocol m) = (SCInvalidArgument, m)"
| "data_map_status (EPlanning m) = (SCInvalidArgument, m)"
| "data_map_status (ENotFound m) = (SCNotFound, m)"
| "data_map_status (EResourceExhausted m) = (SCResourceExhausted, m)"
| "data_map_status _ = (SCInternal, ''{other}'')"

fun data_map_flight_error :: "flight_error \<Rightarrow> sparkx_error" where
  "data_map_flight_error (TonicError (code, m)) =
     (case code of
        SCInvalidArgument \<Rightarrow> EProtocol m
      | SCNotFound \<Rightarrow> ENotFound m
      | SCResourceExhausted \<Rightarrow> EResourceExhausted m
      | _ \<Rightarrow> ETransport ''Flight data-plane {action}: {status}'')"
| "data_map_flight_error (OtherFlightError m) = ETransport ''Flight data-plane {action}: {other}''"

definition to_status :: "'a result \<Rightarrow> status + 'a" where
  "to_status r = (case r of Inl e \<Rightarrow> Inl (data_map_status e) | Inr x \<Rightarrow> Inr x)"

section \<open>The service\<close>

text \<open>
  A put request as the handler reads it: the descriptor of the first message, if there is a first
  message and it has one, with the flag for command bytes; then the decoded batches and the schema.
\<close>

record put_request =
  pr_first :: "(bool \<times> bytes) option option"
  pr_batches :: "(flight_error + batch) list"
  pr_schema :: "schema option"

fun receive_batches ::
  "block_externs \<Rightarrow> u64 \<Rightarrow> u64 \<Rightarrow> (flight_error + batch) list \<Rightarrow> status + batch list" where
  "receive_batches bx available decoded [] = Inr []"
| "receive_batches bx available decoded (item # items) =
     (case item of
        Inl _ \<Rightarrow> Inl (SCInvalidArgument, ''{error}'')
      | Inr batch \<Rightarrow>
          let decoded' = saturating_add decoded (bx_batch_bytes bx batch) in
          if available < max decoded' 1
          then Inl (SCResourceExhausted,
            ''data-plane block needs more than the {available_bytes} available bytes'')
          else (case receive_batches bx available decoded' items of
                  Inl e \<Rightarrow> Inl e | Inr bs \<Rightarrow> Inr (batch # bs)))"

text \<open>The handler up to the insertion: the first lock is held for the budget only.\<close>

definition put_ticket :: "flight_externs \<Rightarrow> put_request \<Rightarrow> status + string" where
  "put_ticket fx req =
     (case pr_first req of
        None \<Rightarrow> Inl (SCInvalidArgument, ''block upload must not be empty'')
      | Some None \<Rightarrow> Inl (SCInvalidArgument, ''block upload requires a descriptor'')
      | Some (Some (is_cmd, cmd)) \<Rightarrow>
          if \<not> is_cmd then Inl (SCInvalidArgument, ''block upload descriptor must use command bytes'')
          else (case from_utf8 cmd of
                  None \<Rightarrow> Inl (SCInvalidArgument, ''block descriptor must be UTF-8 JSON'')
                | Some ticket \<Rightarrow>
                    (case to_status (decode_ticket fx ticket) of Inl e \<Rightarrow> Inl e | Inr _ \<Rightarrow> Inr ticket)))"

definition put_receive ::
  "block_externs \<Rightarrow> flight_externs \<Rightarrow> u64 \<Rightarrow> put_request \<Rightarrow> status + (u64 \<times> u64 \<times> stored_block)" where
  "put_receive bx fx available req =
     (if available = 0
      then Inl (SCResourceExhausted, ''data-plane storage has no available capacity'')
      else case receive_batches bx available 0 (pr_batches req) of
        Inl e \<Rightarrow> Inl e
      | Inr batches \<Rightarrow>
          (case pr_schema req of
             None \<Rightarrow> Inl (SCInvalidArgument, ''block upload requires an Arrow schema'')
           | Some schema \<Rightarrow>
               (case to_status (block_metadata bx schema batches) of
                  Inl e \<Rightarrow> Inl e
                | Inr (rows, bytes, checksum) \<Rightarrow>
                    Inr (rows, bytes, \<lparr>st_schema = schema, st_batches = batches,
                      st_checksum = checksum, st_charged_bytes = max bytes 1\<rparr>))))"

definition put_commit ::
  "flight_externs \<Rightarrow> 's block_ops \<Rightarrow> string \<Rightarrow> u64 \<times> u64 \<times> stored_block \<Rightarrow> 's
   \<Rightarrow> (status + bytes list) \<times> 's" where
  "put_commit fx ops ticket received s =
     (let (rows, bytes, block) = received; (r, s') = bo_insert ops ticket block s in
      (case to_status r of
         Inl e \<Rightarrow> Inl e
       | Inr _ \<Rightarrow>
           (case fx_ack_json fx \<lparr>ua_rows = rows, ua_bytes = bytes, ua_checksum = st_checksum block,
                                ua_ticket = ticket\<rparr> of
              None \<Rightarrow> Inl (SCInternal, ''encode upload response: {error}'')
            | Some metadata \<Rightarrow> Inr [metadata]), s'))"

text \<open>The whole handler, with the store in state \<open>s\<close> at the first lock and \<open>s'\<close> at the second.\<close>

definition do_put ::
  "block_externs \<Rightarrow> flight_externs \<Rightarrow> 's block_ops \<Rightarrow> put_request \<Rightarrow> 's \<Rightarrow> 's
   \<Rightarrow> (status + bytes list) \<times> 's" where
  "do_put bx fx ops req s s' =
     (case put_ticket fx req of
        Inl e \<Rightarrow> (Inl e, s')
      | Inr ticket \<Rightarrow>
          (case put_receive bx fx (bo_upload_budget ops s ticket) req of
             Inl e \<Rightarrow> (Inl e, s')
           | Inr received \<Rightarrow> put_commit fx ops ticket received s'))"

definition wire_ticket :: "flight_externs \<Rightarrow> bytes \<Rightarrow> status + string" where
  "wire_ticket fx body =
     (case from_utf8 body of
        None \<Rightarrow> Inl (SCInvalidArgument, ''data-plane ticket must be UTF-8'')
      | Some ticket \<Rightarrow>
          (case to_status (decode_ticket fx ticket) of Inl e \<Rightarrow> Inl e | Inr _ \<Rightarrow> Inr ticket))"

definition do_get ::
  "flight_externs \<Rightarrow> 's block_ops \<Rightarrow> bytes \<Rightarrow> 's \<Rightarrow> status + ((flight_error + batch) list \<times> schema option)" where
  "do_get fx ops body s =
     (case wire_ticket fx body of
        Inl e \<Rightarrow> Inl e
      | Inr ticket \<Rightarrow>
          (case to_status (bo_get ops ticket s) of
             Inl e \<Rightarrow> Inl e
           | Inr block \<Rightarrow> Inr (fx_transfer fx (st_schema block) (st_batches block))))"

definition ACTION_DELETE_BLOCK :: string where
  "ACTION_DELETE_BLOCK = ''sparkx.data.delete-block''"

definition data_do_action ::
  "flight_externs \<Rightarrow> 's block_ops \<Rightarrow> string \<Rightarrow> bytes \<Rightarrow> 's \<Rightarrow> (status + string list) \<times> 's" where
  "data_do_action fx ops kind body s =
     (if kind \<noteq> ACTION_DELETE_BLOCK
      then (Inl (SCInvalidArgument, ''unsupported SparkX data-plane action {}''), s)
      else case wire_ticket fx body of
        Inl e \<Rightarrow> (Inl e, s)
      | Inr ticket \<Rightarrow>
          (case bo_remove ops ticket s of
             (r, s') \<Rightarrow> ((case to_status r of Inl e \<Rightarrow> Inl e | Inr _ \<Rightarrow> Inr [''deleted'']), s')))"

section \<open>The client\<close>

definition flight_reply :: "status + 'a \<Rightarrow> 'a result" where
  "flight_reply r = (case r of Inl e \<Rightarrow> Inl (data_map_flight_error (TonicError e)) | Inr x \<Rightarrow> Inr x)"

definition upload_request ::
  "flight_externs \<Rightarrow> worker_id \<Rightarrow> task_attempt_id \<Rightarrow> partition_id \<Rightarrow> schema \<Rightarrow> batch list
   \<Rightarrow> (string \<times> put_request) result" where
  "upload_request fx w producer part schema batches =
     (let ticket = \<lparr>tk_version = PROTOCOL_VERSION, tk_worker_id = w, tk_producer = producer,
                    tk_output_partition = part\<rparr> in
      rbind (ticket_validate ticket) (\<lambda>_.
      rbind (fx_ticket_json fx ticket) (\<lambda>descriptor.
        let (items, received) = fx_transfer fx schema batches in
        Inr (descriptor, \<lparr>pr_first = Some (Some (True, as_bytes descriptor)),
                          pr_batches = items, pr_schema = received\<rparr>))))"

definition upload_result ::
  "flight_externs \<Rightarrow> string \<Rightarrow> worker_id \<Rightarrow> task_attempt_id \<Rightarrow> partition_id \<Rightarrow> string \<Rightarrow> status + bytes list
   \<Rightarrow> shuffle_block result" where
  "upload_result fx endpoint w producer part expected reply =
     rbind (flight_reply reply) (\<lambda>results.
     rbind (require (length results = 1)
       (EProtocol ''data-plane upload returned {} acknowledgements; expected one'')) (\<lambda>_.
     rbind (fx_parse_ack fx (hd results)) (\<lambda>ack.
     rbind (require (ua_ticket ack = expected)
       (EProtocol ''data-plane upload acknowledgement returned a different ticket'')) (\<lambda>_.
       Inr \<lparr>sb_producer = producer, sb_output_partition = part, sb_rows = ua_rows ack,
            sb_bytes = ua_bytes ack, sb_checksum = ua_checksum ack,
            sb_location = FlightLocation w endpoint (ua_ticket ack)\<rparr>))))"

definition upload ::
  "block_externs \<Rightarrow> flight_externs \<Rightarrow> 's block_ops \<Rightarrow> string \<Rightarrow> worker_id \<Rightarrow> task_attempt_id \<Rightarrow> partition_id
   \<Rightarrow> schema \<Rightarrow> batch list \<Rightarrow> 's \<Rightarrow> 's \<Rightarrow> shuffle_block result \<times> 's" where
  "upload bx fx ops endpoint w producer part schema batches s s' =
     (case upload_request fx w producer part schema batches of
        Inl e \<Rightarrow> (Inl e, s')
      | Inr (ticket, req) \<Rightarrow>
          (case do_put bx fx ops req s s' of
             (reply, s'') \<Rightarrow> (upload_result fx endpoint w producer part ticket reply, s'')))"

fun download_batches ::
  "block_externs \<Rightarrow> (flight_error + batch) list \<Rightarrow> memory_reservation \<Rightarrow> query_memory
   \<Rightarrow> batch list result \<times> memory_reservation \<times> query_memory" where
  "download_batches bx [] r m = (Inr [], r, m)"
| "download_batches bx (item # items) r m =
     (case item of
        Inl e \<Rightarrow> (Inl (data_map_flight_error e), r, m)
      | Inr batch \<Rightarrow>
          (case try_grow (bx_batch_bytes bx batch) r m of
             (Inl e, r', m') \<Rightarrow> (Inl e, r', m')
           | (Inr _, r', m') \<Rightarrow>
               (case download_batches bx items r' m' of
                  (Inl e, r'', m'') \<Rightarrow> (Inl e, r'', m'')
                | (Inr bs, r'', m'') \<Rightarrow> (Inr (batch # bs), r'', m''))))"

definition flight_location :: "string \<Rightarrow> string \<Rightarrow> shuffle_block \<Rightarrow> string result" where
  "flight_location action endpoint block =
     (case sb_location block of
        FlightLocation w e ticket \<Rightarrow>
          if e \<noteq> endpoint
          then Inl (EProtocol ''block belongs to {endpoint}, but client is connected to {}'')
          else Inr ticket
      | _ \<Rightarrow> Inl (EProtocol (''cannot '' @ action @ '' a non-Flight shuffle block with the Flight client'')))"

definition download_reserved ::
  "block_externs \<Rightarrow> flight_externs \<Rightarrow> 's block_ops \<Rightarrow> string \<Rightarrow> shuffle_block \<Rightarrow> 's
   \<Rightarrow> memory_reservation \<Rightarrow> query_memory
   \<Rightarrow> (schema \<times> batch list) result \<times> memory_reservation \<times> query_memory" where
  "download_reserved bx fx ops endpoint block s r m =
     (case rbind (flight_location ''download'' endpoint block) (\<lambda>ticket.
             flight_reply (do_get fx ops (as_bytes ticket) s)) of
        Inl e \<Rightarrow> (Inl e, r, m)
      | Inr (items, received) \<Rightarrow>
          (case download_batches bx items r m of
             (Inl e, r', m') \<Rightarrow> (Inl e, r', m')
           | (Inr batches, r', m') \<Rightarrow>
               (rbind (ok_or received (EProtocol ''downloaded block contained no Arrow schema'')) (\<lambda>schema.
                rbind (block_metadata bx schema batches) (\<lambda>(rows, bytes, checksum).
                rbind (require (rows = sb_rows block \<and> bytes = sb_bytes block \<and> checksum = sb_checksum block)
                  (EProtocol ''downloaded block metadata mismatch: expected rows={} bytes={} checksum={}, got rows={rows} bytes={bytes} checksum={checksum}'')) (\<lambda>_.
                  Inr (schema, batches)))), r', m')))"

definition download_with_schema ::
  "block_externs \<Rightarrow> flight_externs \<Rightarrow> 's block_ops \<Rightarrow> string \<Rightarrow> shuffle_block \<Rightarrow> 's
   \<Rightarrow> (schema \<times> batch list) result" where
  "download_with_schema bx fx ops endpoint block s =
     (case try_reserve 0 (memory_new (- 1)) of
        (Inl e, _) \<Rightarrow> Inl e
      | (Inr r, m) \<Rightarrow> fst (download_reserved bx fx ops endpoint block s r m))"

definition download ::
  "block_externs \<Rightarrow> flight_externs \<Rightarrow> 's block_ops \<Rightarrow> string \<Rightarrow> shuffle_block \<Rightarrow> 's \<Rightarrow> batch list result" where
  "download bx fx ops endpoint block s =
     rbind (download_with_schema bx fx ops endpoint block s) (\<lambda>(_, batches). Inr batches)"

definition delete ::
  "flight_externs \<Rightarrow> 's block_ops \<Rightarrow> string \<Rightarrow> shuffle_block \<Rightarrow> 's \<Rightarrow> unit result \<times> 's" where
  "delete fx ops endpoint block s =
     (case flight_location ''delete'' endpoint block of
        Inl e \<Rightarrow> (Inl e, s)
      | Inr ticket \<Rightarrow>
          (case data_do_action fx ops ACTION_DELETE_BLOCK (as_bytes ticket) s of
             (reply, s') \<Rightarrow>
               (rbind (flight_reply reply) (\<lambda>results.
                require (results \<noteq> []) (EProtocol ''block deletion returned no response'')), s')))"

section \<open>What is documented of the external formats\<close>

text \<open>
  JSON texts are UTF-8 and parse to what was printed; batches that came out of one transfer come
  out of another one unchanged, for the encoder only splits batches that are too large.
\<close>

definition flight_ok :: "flight_externs \<Rightarrow> bool" where
  "flight_ok fx \<longleftrightarrow>
     (\<forall>t j. fx_ticket_json fx t = Inr j \<longrightarrow> fx_parse_ticket fx j = Inr t \<and> utf8_valid (as_bytes j))
     \<and> (\<forall>a j. fx_ack_json fx a = Some j \<longrightarrow> fx_parse_ack fx j = Inr a)
     \<and> (\<forall>s bs s' bs'. fx_transfer fx s bs = (map Inr bs', Some s') \<longrightarrow>
          fx_transfer fx s' bs' = (map Inr bs', Some s'))"

section \<open>The handlers\<close>

lemma to_status_simps [simp]: "to_status (Inr x) = Inr x" "to_status (Inl e) = Inl (data_map_status e)"
  by (simp_all add: to_status_def)

lemma to_status_eq_Inr [simp]: "to_status r = Inr x \<longleftrightarrow> r = Inr x"
  by (cases r) simp_all

lemma wire_ticket_json:
  assumes "flight_ok fx" and "fx_ticket_json fx t = Inr j" and "ticket_validate t = Inr u"
  shows "wire_ticket fx (as_bytes j) = Inr j"
  using assms by (simp add: wire_ticket_def flight_ok_def from_utf8_as_bytes decode_ticket_def)

lemma upload_request_ticket:
  assumes "flight_ok fx" and "upload_request fx w producer part schema batches = Inr (j, req)"
  shows "put_ticket fx req = Inr j" and "wire_ticket fx (as_bytes j) = Inr j"
    and "(pr_batches req, pr_schema req) = fx_transfer fx schema batches"
proof -
  let ?t = "\<lparr>tk_version = PROTOCOL_VERSION, tk_worker_id = w, tk_producer = producer, tk_output_partition = part\<rparr>"
  from assms(2) have v: "ticket_validate ?t = Inr ()" and j: "fx_ticket_json fx ?t = Inr j"
    and req: "pr_first req = Some (Some (True, as_bytes j))"
      "(pr_batches req, pr_schema req) = fx_transfer fx schema batches"
    by (cases "fx_transfer fx schema batches"; auto simp: upload_request_def Let_def rbind_eq_Inr)+
  from wire_ticket_json [OF assms(1) j v] show w: "wire_ticket fx (as_bytes j) = Inr j" .
  then show "put_ticket fx req = Inr j"
    by (auto simp: put_ticket_def req(1) wire_ticket_def split: option.splits)
  show "(pr_batches req, pr_schema req) = fx_transfer fx schema batches" by (rule req)
qed

lemma receive_batches_Inr:
  "receive_batches bx available decoded items = Inr bs \<Longrightarrow> items = map Inr bs"
proof (induction items arbitrary: decoded bs)
  case (Cons item items)
  then show ?case by (cases item) (auto simp: Let_def split: if_splits sum.splits)
qed simp

lemma put_receive_Inr:
  assumes "put_receive bx fx available req = Inr (rows, bytes, b)"
  shows "pr_batches req = map Inr (st_batches b)" and "pr_schema req = Some (st_schema b)"
    and "block_metadata bx (st_schema b) (st_batches b) = Inr (rows, bytes, st_checksum b)"
  using assms
  by (auto simp: put_receive_def split: if_splits sum.splits option.splits dest: receive_batches_Inr)

text \<open>What a successful upload did: the block it returns describes the value it inserted.\<close>

lemma upload_Inr:
  assumes fx: "flight_ok fx" and up: "upload bx fx ops endpoint w producer part schema batches s s' = (Inr blk, s'')"
  obtains t b where "bo_insert ops t b s' = (Inr (), s'')"
    "fx_transfer fx schema batches = (map Inr (st_batches b), Some (st_schema b))"
    "block_metadata bx (st_schema b) (st_batches b) = Inr (sb_rows blk, sb_bytes blk, st_checksum b)"
    "sb_checksum blk = st_checksum b" "sb_location blk = FlightLocation w endpoint t"
    "wire_ticket fx (as_bytes t) = Inr t"
proof -
  obtain t req where rq: "upload_request fx w producer part schema batches = Inr (t, req)"
    using up by (cases "upload_request fx w producer part schema batches") (auto simp: upload_def)
  note tk = upload_request_ticket [OF fx rq]
  obtain reply where put: "do_put bx fx ops req s s' = (reply, s'')"
    and res: "upload_result fx endpoint w producer part t reply = Inr blk"
    using up rq by (auto simp: upload_def split: prod.splits)
  obtain results ack where ok: "reply = Inr results" "length results = 1" "fx_parse_ack fx (hd results) = Inr ack"
    and blk: "sb_rows blk = ua_rows ack" "sb_bytes blk = ua_bytes ack" "sb_checksum blk = ua_checksum ack"
      "sb_location blk = FlightLocation w endpoint t"
    using res by (cases reply) (auto simp: upload_result_def flight_reply_def rbind_eq_Inr)
  obtain rows bytes b where rec: "put_receive bx fx (bo_upload_budget ops s t) req = Inr (rows, bytes, b)"
    and com: "put_commit fx ops t (rows, bytes, b) s' = (reply, s'')"
    using put tk(1) ok(1) by (auto simp: do_put_def split: sum.splits)
  obtain md where "bo_insert ops t b s' = (Inr (), s'')" and md: "results = [md]"
    "fx_ack_json fx \<lparr>ua_rows = rows, ua_bytes = bytes, ua_checksum = st_checksum b, ua_ticket = t\<rparr> = Some md"
    using com ok(1)
    by (cases "bo_insert ops t b s'") (auto simp: put_commit_def to_status_def split: sum.splits option.splits)
  moreover have "ack = \<lparr>ua_rows = rows, ua_bytes = bytes, ua_checksum = st_checksum b, ua_ticket = t\<rparr>"
    using fx ok(3) md by (auto simp: flight_ok_def)
  ultimately show thesis
    using that [of t b] put_receive_Inr [OF rec] tk blk by simp
qed

lemma upload_Inr_metadata:
  assumes fx: "flight_ok fx" and up: "upload bx fx ops endpoint w producer part schema batches s s' = (Inr blk, s'')"
    and rq: "upload_request fx w producer part schema batches = Inr (t, req)"
    and rec: "put_receive bx fx (bo_upload_budget ops s t) req = Inr (rows, bytes, b)"
  shows "block_metadata bx (st_schema b) (st_batches b) = Inr (sb_rows blk, sb_bytes blk, st_checksum b)
    \<and> st_checksum b = sb_checksum blk"
proof -
  note r = put_receive_Inr [OF rec] and tk = upload_request_ticket [OF fx rq]
  obtain t' b' where "bo_insert ops t' b' s' = (Inr (), s'')"
    "fx_transfer fx schema batches = (map Inr (st_batches b'), Some (st_schema b'))"
    "block_metadata bx (st_schema b') (st_batches b') = Inr (sb_rows blk, sb_bytes blk, st_checksum b')"
    "sb_checksum blk = st_checksum b'" "sb_location blk = FlightLocation w endpoint t'"
    "wire_ticket fx (as_bytes t') = Inr t'"
    using up by (rule upload_Inr [OF fx])
  moreover have "(map Inr xs = (map Inr ys :: (flight_error + batch) list)) = (xs = ys)" for xs ys
    by (rule inj_map_eq_map) simp
  ultimately have "st_batches b = st_batches b'" "st_schema b = st_schema b'"
    using tk(3) unfolding r(1,2) by (simp_all only: prod.inject option.inject)
  then show ?thesis
    using r(3) \<open>block_metadata bx (st_schema b') (st_batches b') = _\<close> \<open>sb_checksum blk = st_checksum b'\<close>
    by simp
qed

lemma download_batches_fits:
  assumes "unat r \<le> unat (qm_reserved m)"
    and "unat (qm_reserved m) + (\<Sum>b\<leftarrow>bs. unat (bx_batch_bytes bx b)) \<le> unat (qm_limit m)"
  shows "\<exists>r' m'. download_batches bx (map Inr bs) r m = (Inr bs, r', m')
    \<and> unat r' = unat r + (\<Sum>b\<leftarrow>bs. unat (bx_batch_bytes bx b))
    \<and> unat (qm_reserved m') = unat (qm_reserved m) + (\<Sum>b\<leftarrow>bs. unat (bx_batch_bytes bx b))"
  using assms
proof (induction bs arbitrary: r m)
  case (Cons b bs)
  let ?n = "bx_batch_bytes bx b" and ?m = "granted (bx_batch_bytes bx b) m"
  have fits: "unat (qm_reserved m) + unat ?n \<le> unat (qm_limit m)" "unat r + unat ?n \<le> unat (qm_limit m)"
    using Cons.prems by auto
  have grow: "try_grow ?n r m = (Inr (), r + ?n, ?m)"
    using memory_reserve_granted [OF fits(1)] fits_no_overflow(1) [OF fits(2)] by (simp add: try_grow_def)
  have sums: "unat (r + ?n) = unat r + unat ?n" "unat (qm_reserved ?m) = unat (qm_reserved m) + unat ?n"
    using fits_no_overflow(2) [OF fits(1)] fits_no_overflow(2) [OF fits(2)] by simp_all
  obtain r' m' where "download_batches bx (map Inr bs) (r + ?n) ?m = (Inr bs, r', m')"
    "unat r' = unat (r + ?n) + (\<Sum>b\<leftarrow>bs. unat (bx_batch_bytes bx b))"
    "unat (qm_reserved m') = unat (qm_reserved ?m) + (\<Sum>b\<leftarrow>bs. unat (bx_batch_bytes bx b))"
    using Cons.IH [of "r + ?n" ?m] Cons.prems sums by auto
  then show ?case using grow sums by simp
qed simp

lemma try_grow_Inr:
  assumes "try_grow n r m = (Inr u, r', m')"
  shows "unat r' = unat r + unat n" and "unat (qm_reserved m') = unat (qm_reserved m) + unat n"
    and "qm_reserved m' \<le> qm_limit m" and "qm_limit m' = qm_limit m"
proof -
  have ok: "checked_add r n = Some r'" "memory_reserve n m = (Inr (), m')"
    using assms by (auto simp: try_grow_def split: option.splits prod.splits sum.splits)
  then show "unat r' = unat r + unat n" by (simp add: checked_add_Some_iff)
  have fits: "unat (qm_reserved m) + unat n \<le> unat (qm_limit m)"
    using memory_reserve_refused [of m n] ok(2) by fastforce
  then have "m' = granted n m" using memory_reserve_granted ok(2) by simp
  then show "unat (qm_reserved m') = unat (qm_reserved m) + unat n" "qm_reserved m' \<le> qm_limit m"
      "qm_limit m' = qm_limit m"
    using fits_no_overflow [OF fits] fits by (simp_all add: word_le_nat_alt)
qed

lemma download_batches_charges:
  "download_batches bx items r m = (Inr bs, r', m') \<Longrightarrow>
     unat r' = unat r + (\<Sum>b\<leftarrow>bs. unat (bx_batch_bytes bx b))
     \<and> unat (qm_reserved m') = unat (qm_reserved m) + (\<Sum>b\<leftarrow>bs. unat (bx_batch_bytes bx b))
     \<and> qm_limit m' = qm_limit m \<and> (qm_reserved m \<le> qm_limit m \<longrightarrow> qm_reserved m' \<le> qm_limit m)"
proof (induction items arbitrary: r m bs)
  case (Cons item items)
  obtain b where item: "item = Inr b" using Cons.prems by (cases item) auto
  obtain u r1 m1 where g: "try_grow (bx_batch_bytes bx b) r m = (Inr u, r1, m1)"
    using Cons.prems item by (auto split: prod.splits sum.splits)
  obtain cs where "download_batches bx items r1 m1 = (Inr cs, r', m')" "bs = b # cs"
    using Cons.prems item g by (auto split: prod.splits sum.splits)
  then show ?case using Cons.IH try_grow_Inr [OF g] by fastforce
qed simp

section \<open>Upload, download, delete over any store\<close>

context block_storage
begin

text \<open>A block that was uploaded under a new ticket is downloaded as it was received, then deleted.\<close>

lemma transfer_lifecycle:
  assumes fx: "flight_ok fx" and inv: "inv s'"
    and up: "upload bx fx ops endpoint w producer part schema batches s s' = (Inr blk, s'')"
    and wf: "\<And>t b. sb_location blk = FlightLocation w endpoint t \<Longrightarrow>
      block_metadata bx (st_schema b) (st_batches b) = Inr (sb_rows blk, sb_bytes blk, st_checksum b) \<Longrightarrow>
      st_checksum b = sb_checksum blk \<Longrightarrow> wf t b"
    and new: "\<And>t. sb_location blk = FlightLocation w endpoint t \<Longrightarrow> view s' t = None"
  shows "\<exists>sch bs. fx_transfer fx schema batches = (map Inr bs, Some sch)
    \<and> (unat r \<le> unat (qm_reserved m) \<longrightarrow>
       unat (qm_reserved m) + (\<Sum>b\<leftarrow>bs. unat (bx_batch_bytes bx b)) \<le> unat (qm_limit m) \<longrightarrow>
       fst (download_reserved bx fx ops endpoint blk s'' r m) = Inr (sch, bs))
    \<and> (\<exists>s3. delete fx ops endpoint blk s'' = (Inr (), s3) \<and> inv s3 \<and> view s3 = view s'
        \<and> fst (download_reserved bx fx ops endpoint blk s3 r m) = Inl block_missing)"
proof -
  obtain t b where ins: "bo_insert ops t b s' = (Inr (), s'')"
    and tr: "fx_transfer fx schema batches = (map Inr (st_batches b), Some (st_schema b))"
    and md: "block_metadata bx (st_schema b) (st_batches b) = Inr (sb_rows blk, sb_bytes blk, st_checksum b)"
    and blk: "sb_checksum blk = st_checksum b" "sb_location blk = FlightLocation w endpoint t"
    and tk: "wire_ticket fx (as_bytes t) = Inr t"
    using up by (rule upload_Inr [OF fx])
  note life = lifecycle [OF inv wf [OF blk(2) md blk(1) [symmetric]] new [OF blk(2)] ins]
  have loc: "flight_location a endpoint blk = Inr t" for a using blk(2) by (simp add: flight_location_def)
  obtain b' where get: "bo_get ops t s'' = Inr b'" "st_schema b' = st_schema b" "st_batches b' = st_batches b"
    using life by (auto simp: block_content_def)
  have again: "fx_transfer fx (st_schema b) (st_batches b) = (map Inr (st_batches b), Some (st_schema b))"
    using fx tr by (auto simp: flight_ok_def)
  have dl: "fst (download_reserved bx fx ops endpoint blk s'' r m) = Inr (st_schema b, st_batches b)"
    if fits: "unat r \<le> unat (qm_reserved m)"
      "unat (qm_reserved m) + (\<Sum>b\<leftarrow>st_batches b. unat (bx_batch_bytes bx b)) \<le> unat (qm_limit m)"
  proof -
    obtain r' m' where "download_batches bx (map Inr (st_batches b)) r m = (Inr (st_batches b), r', m')"
      using download_batches_fits [OF fits] by blast
    then show ?thesis
      using md blk(1) by (simp add: download_reserved_def loc do_get_def tk get again flight_reply_def)
  qed
  obtain s3 where s3: "bo_remove ops t s'' = (Inr (), s3)" "view s3 = view s'" "bo_get ops t s3 = Inl block_missing"
    using life by auto
  have "inv s''" using insert_ok [OF inv wf [OF blk(2) md blk(1) [symmetric]] ins new [OF blk(2)]] by simp
  then have "inv s3" using remove_inv s3(1) by blast
  moreover have "delete fx ops endpoint blk s'' = (Inr (), s3)"
    by (simp add: delete_def loc data_do_action_def tk s3(1) flight_reply_def)
  moreover have "fst (download_reserved bx fx ops endpoint blk s3 r m) = Inl block_missing"
    by (simp add: download_reserved_def loc do_get_def tk s3(3) flight_reply_def block_missing_def)
  ultimately show ?thesis using dl tr s3(2) by blast
qed

text \<open>A client that lost the acknowledgement may upload again: the reply is the same.\<close>

lemma upload_again:
  assumes fx: "flight_ok fx" and inv: "inv s"
    and up: "upload bx fx ops endpoint w producer part schema batches s s = (Inr blk, s')"
    and wf: "\<And>t b. sb_location blk = FlightLocation w endpoint t \<Longrightarrow>
      block_metadata bx (st_schema b) (st_batches b) = Inr (sb_rows blk, sb_bytes blk, st_checksum b) \<Longrightarrow>
      st_checksum b = sb_checksum blk \<Longrightarrow> wf t b"
  shows "upload bx fx ops endpoint w producer part schema batches s' s' = (Inr blk, s')"
proof -
  obtain t req where rq: "upload_request fx w producer part schema batches = Inr (t, req)"
    using up by (cases "upload_request fx w producer part schema batches") (auto simp: upload_def)
  note tk = upload_request_ticket [OF fx rq]
  obtain reply where put: "do_put bx fx ops req s s = (reply, s')"
    and res: "upload_result fx endpoint w producer part t reply = Inr blk"
    using up rq by (auto simp: upload_def split: prod.splits)
  have ok: "\<exists>results. reply = Inr results" and loc: "sb_location blk = FlightLocation w endpoint t"
    using res by (cases reply; auto simp: upload_result_def flight_reply_def rbind_eq_Inr)+
  obtain rows bytes b where rec: "put_receive bx fx (bo_upload_budget ops s t) req = Inr (rows, bytes, b)"
    and com: "put_commit fx ops t (rows, bytes, b) s = (reply, s')"
    using put tk(1) ok by (auto simp: do_put_def split: sum.splits)
  have ins: "bo_insert ops t b s = (Inr (), s')"
    using com ok by (cases "bo_insert ops t b s") (auto simp: put_commit_def to_status_def split: sum.splits)
  have "wf t b" using wf [OF loc] upload_Inr_metadata [OF fx up rq rec] by simp
  have again: "bo_insert ops t b s' = (Inr (), s') \<and> bo_upload_budget ops s' t = bo_upload_budget ops s t"
  proof (cases "view s t")
    case None
    then show ?thesis
      using lifecycle [OF inv \<open>wf t b\<close> None ins] retry_budget [OF inv None ins]
      by (simp add: same_checksum_def)
  next
    case (Some v)
    then have "s' = s" using insert_again [OF inv, of t] ins by (cases v) auto
    then show ?thesis using ins by simp
  qed
  then have "do_put bx fx ops req s' s' = (reply, s')"
    using com ins by (auto simp: do_put_def tk(1) rec put_commit_def)
  then show ?thesis using rq res by (simp add: upload_def)
qed

end

section \<open>Properties\<close>

text \<open>A small instance of the external formats: one ticket, and transfers that keep the batches.\<close>

definition sample_ticket :: block_ticket where
  "sample_ticket = \<lparr>tk_version = PROTOCOL_VERSION, tk_worker_id = ''w'',
     tk_producer = \<lparr>ta_query_id = ''q'', ta_stage_id = 0, ta_partition_id = 0, ta_attempt = 0\<rparr>,
     tk_output_partition = 0\<rparr>"

definition sample_ack :: upload_ack where
  "sample_ack = \<lparr>ua_rows = 0, ua_bytes = 0, ua_checksum = sample_checksum, ua_ticket = ''t''\<rparr>"

definition sample_fx :: flight_externs where
  "sample_fx =
     \<lparr>fx_ticket_json = (\<lambda>t. if t = sample_ticket then Inr ''t'' else Inl (EProtocol ''json'')),
      fx_parse_ticket = (\<lambda>j. if j = ''t'' then Inr sample_ticket else Inl (EProtocol ''json'')),
      fx_ack_json = (\<lambda>a. if a = sample_ack then Some [1] else None),
      fx_parse_ack = (\<lambda>j. if j = [1] then Inr sample_ack else Inl (EProtocol ''json'')),
      fx_transfer = (\<lambda>s bs. (map Inr bs, Some s))\<rparr>"

lemma sample_flight_ok: "flight_ok sample_fx"
proof -
  have "utf8_valid (as_bytes ''t'')" by code_simp
  then show ?thesis by (auto simp: flight_ok_def sample_fx_def split: if_splits)
qed

definition sample_store :: memory_block_store where
  "sample_store = \<lparr>mbs_capacity = 100, mbs_used = 0, mbs_blocks = []\<rparr>"

definition sample_shuffle :: shuffle_block where
  "sample_shuffle = \<lparr>sb_producer = tk_producer sample_ticket, sb_output_partition = 0, sb_rows = 0, sb_bytes = 0,
     sb_checksum = sample_checksum, sb_location = FlightLocation ''w'' ''http://h'' ''t''\<rparr>"

definition sample_stored :: memory_block_store where
  "sample_stored = \<lparr>mbs_capacity = 100, mbs_used = 1, mbs_blocks = [(''t'', sample_block)]\<rparr>"

lemma sample_ticket_ok: "ticket_validate sample_ticket = Inr ()"
  by (simp add: ticket_validate_def sample_ticket_def worker_id_new_def validate_text_id_def task_validate_def
      query_id_validate_def blank_letter byte_of_def)

lemma sample_request:
  "upload_request sample_fx ''w'' (tk_producer sample_ticket) 0 (schema_new []) []
     = Inr (''t'', \<lparr>pr_first = Some (Some (True, as_bytes ''t'')), pr_batches = [], pr_schema = Some (schema_new [])\<rparr>)"
proof -
  have t: "\<lparr>tk_version = PROTOCOL_VERSION, tk_worker_id = ''w'', tk_producer = tk_producer sample_ticket,
      tk_output_partition = 0\<rparr> = sample_ticket"
    by (simp add: sample_ticket_def)
  show ?thesis unfolding upload_request_def t Let_def by (simp add: sample_ticket_ok) (simp add: sample_fx_def)
qed

lemma sample_metadata: "block_metadata sample_bx (schema_new []) [] = Inr (0, 0, sample_checksum)"
  by (simp add: block_metadata_def sample_bx_def sample_checksum_def)

lemma sample_upload:
  "upload sample_bx sample_fx memory_ops ''http://h'' ''w'' (tk_producer sample_ticket) 0 (schema_new []) []
     sample_store sample_store = (Inr sample_shuffle, sample_stored)"
proof -
  note rq = upload_request_ticket [OF sample_flight_ok sample_request]
  have "do_put sample_bx sample_fx memory_ops
      \<lparr>pr_first = Some (Some (True, as_bytes ''t'')), pr_batches = [], pr_schema = Some (schema_new [])\<rparr>
      sample_store sample_store = (Inr [[1]], sample_stored)"
    by (simp add: do_put_def rq(1) put_receive_def sample_metadata)
      (simp add: put_commit_def memory_ops_def memory_insert_def memory_upload_budget_def memory_available_bytes_def
        sample_store_def sample_stored_def sample_block_def sample_fx_def sample_ack_def saturating_add_def
        saturating_sub_def)
  then show ?thesis
    by (simp add: upload_def sample_request upload_result_def flight_reply_def)
      (simp add: sample_fx_def sample_ack_def sample_shuffle_def)
qed



text \<open>
  Uploading is idempotent.  A worker that repeats an upload because the acknowledgement was lost
  gets the same description of the block and leaves the store on disk unchanged, even when the
  first upload took the last free bytes, for the budget counts the ticket's own block as free.
\<close>

theorem upload_retry_idempotent:
  assumes "flight_ok fx" and "disk_inv bx s"
    and up: "upload bx fx (disk_ops bx no_faults) endpoint w producer part schema batches s s = (Inr blk, s')"
    and short: "\<forall>t h. sb_location blk = FlightLocation w endpoint t \<longrightarrow>
      bx_header_json bx (header_of t (sb_checksum blk)) = Inr h \<longrightarrow> length h \<le> 4096"
  shows "upload bx fx (disk_ops bx no_faults) endpoint w producer part schema batches s' s' = (Inr blk, s')"
proof (rule disk.upload_again [OF assms(1-3)])
  fix t and b :: stored_block
  assume "sb_location blk = FlightLocation w endpoint t"
    and md: "block_metadata bx (st_schema b) (st_batches b) = Inr (sb_rows blk, sb_bytes blk, st_checksum b)"
    and "st_checksum b = sb_checksum blk"
  then show "disk_wf bx t b"
    using short by (auto simp: disk_wf_def block_ok_def split: sum.split)
qed

lemma sample_disk_upload:
  "upload sample_bx sample_fx (disk_ops sample_bx no_faults) ''http://h'' ''w'' (tk_producer sample_ticket) 0
     (schema_new []) [] empty_disk empty_disk = (Inr sample_shuffle, sample_disk)"
proof -
  have budget: "bo_upload_budget (disk_ops sample_bx no_faults) empty_disk ''t'' = 10000"
    by (simp add: disk_ops_def disk_upload_budget_def disk_available_bytes_def empty_disk_def saturating_add_def
        saturating_sub_def)
  have ins: "bo_insert (disk_ops sample_bx no_faults) ''t'' sample_block empty_disk = (Inr (), sample_disk)"
    using sample_insert by (simp add: disk_ops_def)
  have "do_put sample_bx sample_fx (disk_ops sample_bx no_faults)
      \<lparr>pr_first = Some (Some (True, as_bytes ''t'')), pr_batches = [], pr_schema = Some (schema_new [])\<rparr>
      empty_disk empty_disk = (Inr [[1]], sample_disk)"
    using ins
    by (simp add: do_put_def upload_request_ticket(1) [OF sample_flight_ok sample_request] put_receive_def
        sample_metadata budget sample_block_def put_commit_def)
      (simp add: sample_fx_def sample_ack_def)
  then show ?thesis
    by (simp add: upload_def sample_request upload_result_def flight_reply_def)
      (simp add: sample_fx_def sample_ack_def sample_shuffle_def)
qed

theorem upload_retry_idempotent_witness:
  "upload sample_bx sample_fx (disk_ops sample_bx no_faults) ''http://h'' ''w'' (tk_producer sample_ticket) 0
     (schema_new []) [] sample_disk sample_disk = (Inr sample_shuffle, sample_disk)"
proof (rule upload_retry_idempotent [OF sample_flight_ok empty_disk_inv [OF sample_codec_ok] sample_disk_upload])
  show "\<forall>t h. sb_location sample_shuffle = FlightLocation ''w'' ''http://h'' t \<longrightarrow>
      bx_header_json sample_bx (header_of t (sb_checksum sample_shuffle)) = Inr h \<longrightarrow> length h \<le> 4096"
    by (simp add: sample_shuffle_def sample_bx_def sample_header_def)
qed

text \<open>
  C31: A download either fails or returns batches with exactly the row count, byte count and checksum
  that the producer reported for the block, whatever the store and the network did; and it has
  charged the batches, no more and no less, to the reservation and to the query's budget.
\<close>

theorem download_integrity:
  assumes "download_reserved bx fx ops endpoint block s r m = (Inr (schema, batches), r', m')"
  shows "block_metadata bx schema batches = Inr (sb_rows block, sb_bytes block, sb_checksum block)
    \<and> unat r' = unat r + (\<Sum>b\<leftarrow>batches. unat (bx_batch_bytes bx b))
    \<and> unat (qm_reserved m') = unat (qm_reserved m) + (\<Sum>b\<leftarrow>batches. unat (bx_batch_bytes bx b))
    \<and> (qm_reserved m \<le> qm_limit m \<longrightarrow> qm_reserved m' \<le> qm_limit m)"
proof -
  obtain items where dl: "download_batches bx items r m = (Inr batches, r', m')"
    and "block_metadata bx schema batches = Inr (sb_rows block, sb_bytes block, sb_checksum block)"
    using assms by (auto simp: download_reserved_def rbind_eq_Inr split: sum.splits prod.splits)
  then show ?thesis using download_batches_charges [OF dl] by simp
qed

theorem download_integrity_witness:
  "block_metadata sample_bx (schema_new []) [] =
     Inr (sb_rows sample_shuffle, sb_bytes sample_shuffle, sb_checksum sample_shuffle)"
proof -
  note rq = upload_request_ticket(2) [OF sample_flight_ok sample_request]
  have "download_reserved sample_bx sample_fx memory_ops ''http://h'' sample_shuffle sample_stored 0 (memory_new 50)
      = (Inr (schema_new [], []), 0, memory_new 50)"
    by (simp add: download_reserved_def flight_location_def sample_shuffle_def do_get_def rq)
      (simp add: memory_ops_def memory_get_def sample_stored_def flight_reply_def sample_block_def sample_fx_def
        block_metadata_def sample_bx_def sample_checksum_def)
  from download_integrity [OF this] show ?thesis by simp
qed

end
