(* ===== verification/Coordinator.thy ===== *)
theory Coordinator
  imports Protocol
begin

text \<open>
  \<open>src/cluster/coordinator.rs\<close>: the scheduler's state machine.

  An operation that takes \<open>&mut self\<close> returns its result together with the state it leaves, also
  when it fails: \<open>handle_worker_message\<close> advances time before it looks at the message, and
  \<open>assign_to_worker\<close> validates the assignment after it has recorded it.  \<open>self.stages[&key]\<close>,
  indexing and \<open>expect\<close> panic where the source panics.
\<close>

section \<open>State\<close>

record coordinator_config =
  cfg_lease_duration_ms :: u64
  cfg_heartbeat_timeout_ms :: u64
  cfg_max_task_attempts :: u32
  cfg_max_stage_partitions :: u32

definition default_config :: coordinator_config where
  "default_config = \<lparr>cfg_lease_duration_ms = 30000, cfg_heartbeat_timeout_ms = 15000,
     cfg_max_task_attempts = 3, cfg_max_stage_partitions = 100000\<rparr>"

datatype stage_status =
    StageBlocked | StageReady | StageRunning | StageSucceeded | StageFailed | StageCancelled

datatype partition_status =
    StatusPending u32
  | StatusRunning u32
  | StatusCancelling u32
  | StatusSucceeded u32
  | StatusFailed u32 string bool
  | StatusCancelled

record worker_runtime =
  wr_registration :: worker_registration
  wr_last_observed_at_ms :: u64
  wr_last_received_at_ms :: u64
  wr_available_slots :: u32
  wr_available_memory_bytes :: u64
  wr_alive :: bool

datatype partition_runtime =
    PtPending u32
  | PtActive task_attempt_id worker_id task_lease "u64 option"
  | PtCancelling task_attempt_id worker_id task_lease
  | PtSucceeded task_attempt_id "shuffle_block list"
  | PtFailed u32 string bool
  | PtCancelled

record stage_runtime =
  st_plan :: stage_plan
  st_partitions :: "partition_runtime list"

type_synonym stage_key = "query_id \<times> stage_id"

record coordinator =
  co_config :: coordinator_config
  co_workers :: "(worker_id, worker_runtime) btree"
  co_stages :: "(stage_key, stage_runtime) btree"
  co_cancelled :: "(query_id, string) btree"

definition coordinator_error :: "string \<Rightarrow> sparkx_error" where
  "coordinator_error m = EProtocol (''invalid coordinator transition: '' @ m)"

definition stage_not_found :: sparkx_error where
  "stage_not_found = ENotFound ''query {} stage {} is not registered with the coordinator''"

definition query_not_found :: sparkx_error where
  "query_not_found = ENotFound ''query {} is not registered with the coordinator''"

definition config_validate :: "coordinator_config \<Rightarrow> coordinator_config result" where
  "config_validate cfg =
     (if cfg_lease_duration_ms cfg = 0
      then Inl (coordinator_error ''lease duration must be greater than zero'')
      else if cfg_heartbeat_timeout_ms cfg = 0
      then Inl (coordinator_error ''heartbeat timeout must be greater than zero'')
      else if cfg_max_task_attempts cfg = 0
      then Inl (coordinator_error ''maximum task attempts must be greater than zero'')
      else if cfg_max_stage_partitions cfg = 0
      then Inl (coordinator_error ''maximum stage partitions must be greater than zero'')
      else Inr cfg)"

definition coordinator_new :: "coordinator_config \<Rightarrow> coordinator result" where
  "coordinator_new cfg =
     rbind (config_validate cfg) (\<lambda>cfg.
       Inr \<lparr>co_config = cfg, co_workers = [], co_stages = [], co_cancelled = []\<rparr>)"

section \<open>Queries of the state\<close>

definition worker_count :: "coordinator \<Rightarrow> nat" where
  "worker_count c = length (co_workers c)"

definition worker_available_slots :: "coordinator \<Rightarrow> worker_id \<Rightarrow> u32 option" where
  "worker_available_slots c w =
     (case map_of (co_workers c) w of
        None \<Rightarrow> None
      | Some wr \<Rightarrow> if wr_alive wr then Some (wr_available_slots wr) else None)"

definition query_registered :: "coordinator \<Rightarrow> query_id \<Rightarrow> bool" where
  "query_registered c q = list_ex (\<lambda>(k, _). fst k = q) (co_stages c)"

definition active_owner :: "partition_runtime \<Rightarrow> worker_id list" where
  "active_owner p = (case p of PtActive _ w _ _ \<Rightarrow> [w] | _ \<Rightarrow> [])"

definition active_workers_for_query :: "coordinator \<Rightarrow> query_id \<Rightarrow> worker_id list result" where
  "active_workers_for_query c q =
     (if \<not> query_registered c q then Inl query_not_found
      else Inr (remdups_adj (sort (concat (map (\<lambda>(k, st).
        if fst k = q then concat (map active_owner (st_partitions st)) else []) (co_stages c))))))"

definition is_succeeded :: "partition_runtime \<Rightarrow> bool" where
  "is_succeeded p = (case p of PtSucceeded _ _ \<Rightarrow> True | _ \<Rightarrow> False)"

definition is_failed :: "partition_runtime \<Rightarrow> bool" where
  "is_failed p = (case p of PtFailed _ _ _ \<Rightarrow> True | _ \<Rightarrow> False)"

definition is_active :: "partition_runtime \<Rightarrow> bool" where
  "is_active p = (case p of PtActive _ _ _ _ \<Rightarrow> True | _ \<Rightarrow> False)"

definition owned_by :: "worker_id \<Rightarrow> partition_runtime \<Rightarrow> bool" where
  "owned_by w p =
     (case p of PtActive _ v _ _ \<Rightarrow> v = w | PtCancelling _ v _ \<Rightarrow> v = w | _ \<Rightarrow> False)"

definition dependencies_succeeded :: "coordinator \<Rightarrow> stage_runtime \<Rightarrow> bool" where
  "dependencies_succeeded c st =
     list_all (\<lambda>d. case map_of (co_stages c) (sp_query_id (st_plan st), d) of
                     None \<Rightarrow> False
                   | Some dep \<Rightarrow> list_all is_succeeded (st_partitions dep))
       (sp_input_stages (st_plan st))"

definition stage_status :: "coordinator \<Rightarrow> query_id \<Rightarrow> stage_id \<Rightarrow> stage_status result" where
  "stage_status c q s =
     (case map_of (co_stages c) (q, s) of
        None \<Rightarrow> Inl stage_not_found
      | Some st \<Rightarrow>
          if map_of (co_cancelled c) q \<noteq> None then Inr StageCancelled
          else if list_ex is_failed (st_partitions st) then Inr StageFailed
          else if list_all is_succeeded (st_partitions st) then Inr StageSucceeded
          else if list_ex is_active (st_partitions st) then Inr StageRunning
          else if dependencies_succeeded c st then Inr StageReady
          else Inr StageBlocked)"

fun status_of_partition :: "partition_runtime \<Rightarrow> partition_status" where
  "status_of_partition (PtPending n) = StatusPending n"
| "status_of_partition (PtActive t _ _ _) = StatusRunning (ta_attempt t)"
| "status_of_partition (PtCancelling t _ _) = StatusCancelling (ta_attempt t)"
| "status_of_partition (PtSucceeded t _) = StatusSucceeded (ta_attempt t)"
| "status_of_partition (PtFailed a e r) = StatusFailed a e r"
| "status_of_partition PtCancelled = StatusCancelled"

definition partition_status ::
  "coordinator \<Rightarrow> query_id \<Rightarrow> stage_id \<Rightarrow> partition_id \<Rightarrow> partition_status result" where
  "partition_status c q s p =
     (case map_of (co_stages c) (q, s) of
        None \<Rightarrow> Inl stage_not_found
      | Some st \<Rightarrow>
          if unat p < length (st_partitions st)
          then Inr (status_of_partition (st_partitions st ! unat p))
          else Inl (ENotFound ''partition {} does not exist in query {} stage {}''))"

definition committed_blocks :: "partition_runtime \<Rightarrow> shuffle_block list" where
  "committed_blocks p = (case p of PtSucceeded _ bs \<Rightarrow> bs | _ \<Rightarrow> [])"

definition stage_output_blocks ::
  "coordinator \<Rightarrow> query_id \<Rightarrow> stage_id \<Rightarrow> shuffle_block list result" where
  "stage_output_blocks c q s =
     (case map_of (co_stages c) (q, s) of
        None \<Rightarrow> Inl stage_not_found
      | Some st \<Rightarrow>
          if map_of (co_cancelled c) q = None \<and> \<not> list_all is_succeeded (st_partitions st)
          then Inl (coordinator_error ''query {} stage {} has not succeeded'')
          else Inr (concat (map committed_blocks (st_partitions st))))"

definition active_count :: "coordinator \<Rightarrow> worker_id \<Rightarrow> nat" where
  "active_count c w =
     length (filter (owned_by w) (concat (map (\<lambda>(_, st). st_partitions st) (co_stages c))))"

definition active_tasks_for_worker :: "coordinator \<Rightarrow> worker_id \<Rightarrow> u32" where
  "active_tasks_for_worker c w =
     (if active_count c w < 2 ^ 32 then of_nat (active_count c w) else - 1)"

section \<open>Operations\<close>

type_synonym 'a co_step = "'a result \<times> coordinator"

text \<open>\<open>self.stages.get_mut(key).partitions[i] = p\<close>\<close>

definition set_partition ::
  "stage_key \<Rightarrow> nat \<Rightarrow> partition_runtime \<Rightarrow> coordinator \<Rightarrow> coordinator" where
  "set_partition k i p c =
     c\<lparr>co_stages := bt_update k (\<lambda>st. st\<lparr>st_partitions := (st_partitions st)[i := p]\<rparr>) (co_stages c)\<rparr>"

definition set_worker ::
  "worker_id \<Rightarrow> (worker_runtime \<Rightarrow> worker_runtime) \<Rightarrow> coordinator \<Rightarrow> coordinator" where
  "set_worker w f c = c\<lparr>co_workers := bt_update w f (co_workers c)\<rparr>"

definition release_slot :: "worker_runtime \<Rightarrow> worker_runtime" where
  "release_slot wr =
     (if wr_alive wr
      then wr\<lparr>wr_available_slots :=
             min (saturating_add (wr_available_slots wr) 1) (reg_slots (wr_registration wr))\<rparr>
      else wr)"

definition release_worker_slot :: "worker_id \<Rightarrow> coordinator \<Rightarrow> coordinator" where
  "release_worker_slot w c = set_worker w release_slot c"

definition retry_or_fail :: "u32 \<Rightarrow> u32 \<Rightarrow> string \<Rightarrow> partition_runtime" where
  "retry_or_fail max_attempts attempt err =
     (let next_attempt = saturating_add attempt 1 in
      if next_attempt < max_attempts then PtPending next_attempt else PtFailed attempt err True)"

definition validate_reported_time :: "string \<Rightarrow> u64 \<Rightarrow> task_lease \<Rightarrow> u64 \<Rightarrow> unit result" where
  "validate_reported_time event ts l received =
     rbind (require (\<not> ts < lease_issued_at_ms l)
              (coordinator_error (''task '' @ event @ '' before its lease was issued''))) (\<lambda>_.
     rbind (require (\<not> lease_expires_at_ms l \<le> ts)
              (coordinator_error (''task '' @ event @ '' after its lease expired''))) (\<lambda>_.
       require (\<not> received < ts)
         (coordinator_error
           (''task '' @ event @ '' time is later than the coordinator receive time''))))"

subsection \<open>Submitting a stage\<close>

definition check_partitioned_dependency ::
  "coordinator \<Rightarrow> stage_plan \<Rightarrow> stage_id \<Rightarrow> unit result" where
  "check_partitioned_dependency c s d =
     (case map_of (co_stages c) (sp_query_id s, d) of
        None \<Rightarrow> Inl (EPanic ''stage index'')
      | Some up \<Rightarrow>
          require (map_option hx_partition_count (sp_output_exchange (st_plan up))
                     = Some (sp_partition_count s))
            (coordinator_error ''partitioned dependency must use matching hash exchange''))"

definition submit_checks :: "pb_decoder \<Rightarrow> coordinator \<Rightarrow> stage_plan \<Rightarrow> unit result" where
  "submit_checks pb c s =
     rbind (stage_plan_validate pb s) (\<lambda>_.
     rbind (require (\<not> cfg_max_stage_partitions (co_config c) < sp_partition_count s)
              (coordinator_error ''stage has {} partitions but the configured maximum is {}'')) (\<lambda>_.
     rbind (require (map_of (co_cancelled c) (sp_query_id s) = None)
              (coordinator_error ''query {} is already cancelled'')) (\<lambda>_.
     rbind (require (map_of (co_stages c) (sp_query_id s, sp_stage_id s) = None)
              (coordinator_error ''stage {} for query {} is already submitted'')) (\<lambda>_.
     rbind (rall (\<lambda>d. require (map_of (co_stages c) (sp_query_id s, d) \<noteq> None)
              (coordinator_error ''stage {} depends on unsubmitted stage {}''))
              (sp_input_stages s)) (\<lambda>_.
     rbind (if sp_partitioned_input s
            then rall (check_partitioned_dependency c s) (sp_input_stages s) else Inr ()) (\<lambda>_.
       require (case sp_output_exchange s of
                  None \<Rightarrow> True
                | Some ex \<Rightarrow> \<not> cfg_max_stage_partitions (co_config c) < hx_partition_count ex)
         (coordinator_error ''exchange exceeds configured partition maximum'')))))))"

definition submit_stage :: "pb_decoder \<Rightarrow> stage_plan \<Rightarrow> coordinator \<Rightarrow> unit co_step" where
  "submit_stage pb s c =
     (case submit_checks pb c s of
        Inl e \<Rightarrow> (Inl e, c)
      | Inr _ \<Rightarrow>
          (Inr (), c\<lparr>co_stages := bt_insert (sp_query_id s, sp_stage_id s)
             \<lparr>st_plan = s, st_partitions = replicate (unat (sp_partition_count s)) (PtPending 0)\<rparr>
             (co_stages c)\<rparr>))"

subsection \<open>Time\<close>

definition timed_out :: "coordinator \<Rightarrow> u64 \<Rightarrow> worker_runtime \<Rightarrow> bool" where
  "timed_out c now wr \<longleftrightarrow>
     wr_alive wr
     \<and> cfg_heartbeat_timeout_ms (co_config c) < saturating_sub now (wr_last_received_at_ms wr)"

definition timed_out_workers :: "coordinator \<Rightarrow> u64 \<Rightarrow> worker_id list" where
  "timed_out_workers c now = map fst (filter (\<lambda>(_, wr). timed_out c now wr) (co_workers c))"

definition kill_worker :: "worker_runtime \<Rightarrow> worker_runtime" where
  "kill_worker wr =
     wr\<lparr>wr_alive := False, wr_available_slots := 0, wr_available_memory_bytes := 0\<rparr>"

record expired_task =
  ex_key :: stage_key
  ex_index :: nat
  ex_attempt :: u32
  ex_worker :: worker_id
  ex_timed_out :: bool
  ex_cancelling :: bool

definition expired_entry ::
  "worker_id list \<Rightarrow> u64 \<Rightarrow> stage_key \<Rightarrow> nat \<times> partition_runtime \<Rightarrow> expired_task list" where
  "expired_entry dead now k ip =
     (let entry = (\<lambda>t w l cancelling.
        if w \<in> set dead \<or> lease_expires_at_ms l \<le> now
        then [\<lparr>ex_key = k, ex_index = fst ip, ex_attempt = ta_attempt t, ex_worker = w,
               ex_timed_out = (w \<in> set dead), ex_cancelling = cancelling\<rparr>]
        else [])
      in case snd ip of
           PtActive t w l _ \<Rightarrow> entry t w l False
         | PtCancelling t w l \<Rightarrow> entry t w l True
         | _ \<Rightarrow> [])"

definition expired_tasks :: "worker_id list \<Rightarrow> u64 \<Rightarrow> coordinator \<Rightarrow> expired_task list" where
  "expired_tasks dead now c =
     concat (map (\<lambda>(k, st). concat (map (expired_entry dead now k) (enumerate 0 (st_partitions st))))
       (co_stages c))"

definition expire_task :: "expired_task \<Rightarrow> coordinator \<Rightarrow> coordinator" where
  "expire_task e c =
     (let c' = (if ex_timed_out e then c else release_worker_slot (ex_worker e) c);
          replacement =
            (if ex_cancelling e then PtCancelled
             else retry_or_fail (cfg_max_task_attempts (co_config c)) (ex_attempt e)
               (if ex_timed_out e then ''worker heartbeat timed out'' else ''task lease expired''))
      in set_partition (ex_key e) (ex_index e) replacement c')"

definition advance_time :: "u64 \<Rightarrow> coordinator \<Rightarrow> coordinator" where
  "advance_time now c =
     (let dead = timed_out_workers c now;
          c' = fold (\<lambda>w. set_worker w kill_worker) dead c
      in fold expire_task (expired_tasks dead now c') c')"

subsection \<open>Assigning tasks\<close>

fun first_pending :: "nat \<Rightarrow> partition_runtime list \<Rightarrow> (nat \<times> u32) option" where
  "first_pending i [] = None"
| "first_pending i (p # ps) =
     (case p of PtPending n \<Rightarrow> Some (i, n) | _ \<Rightarrow> first_pending (i + 1) ps)"

fun pending_in :: "coordinator \<Rightarrow> (stage_key \<times> stage_runtime) list \<Rightarrow> (stage_key \<times> nat \<times> u32) option"
where
  "pending_in c [] = None"
| "pending_in c ((k, st) # rest) =
     (if map_of (co_cancelled c) (fst k) \<noteq> None \<or> \<not> dependencies_succeeded c st
      then pending_in c rest
      else (case first_pending 0 (st_partitions st) of
          Some (i, n) \<Rightarrow> Some (k, i, n)
        | None \<Rightarrow> pending_in c rest))"

definition next_pending_partition :: "coordinator \<Rightarrow> (stage_key \<times> nat \<times> u32) option" where
  "next_pending_partition c = pending_in c (co_stages c)"

definition succeeded_blocks :: "partition_runtime \<Rightarrow> shuffle_block list result" where
  "succeeded_blocks p =
     (case p of
        PtSucceeded _ bs \<Rightarrow> Inr bs
      | _ \<Rightarrow> Inl (coordinator_error ''stage {} was selected before dependency {} succeeded''))"

definition dependency_blocks :: "coordinator \<Rightarrow> query_id \<Rightarrow> stage_id \<Rightarrow> shuffle_block list result" where
  "dependency_blocks c q d =
     (case map_of (co_stages c) (q, d) of
        None \<Rightarrow> Inl (EPanic ''submitted stage dependency must exist'')
      | Some dep \<Rightarrow>
          rbind (rmap succeeded_blocks (st_partitions dep)) (\<lambda>bss. Inr (concat bss)))"

definition dependency_output_blocks :: "coordinator \<Rightarrow> stage_key \<Rightarrow> shuffle_block list result" where
  "dependency_output_blocks c k =
     (case map_of (co_stages c) k of
        None \<Rightarrow> Inl (EPanic ''selected stage must exist'')
      | Some st \<Rightarrow>
          rbind (rmap (dependency_blocks c (fst k)) (sp_input_stages (st_plan st))) (\<lambda>bss.
            Inr (concat bss)))"

definition assign_to_worker ::
  "pb_decoder \<Rightarrow> worker_id \<Rightarrow> u64 \<Rightarrow> coordinator \<Rightarrow> coordinator_message option co_step" where
  "assign_to_worker pb w now c =
     (case next_pending_partition c of
        None \<Rightarrow> (Inr None, c)
      | Some (k, i, attempt) \<Rightarrow>
          (case checked_add now (cfg_lease_duration_ms (co_config c)) of
             None \<Rightarrow> (Inl (coordinator_error ''task lease timestamp overflowed''), c)
           | Some expires \<Rightarrow>
               if 2 ^ 32 \<le> i then (Inl (coordinator_error ''partition index exceeds u32''), c)
               else
                 (let task = \<lparr>ta_query_id = fst k, ta_stage_id = snd k,
                              ta_partition_id = of_nat i, ta_attempt = attempt\<rparr>;
                      lease = \<lparr>lease_worker_id = w, lease_issued_at_ms = now,
                               lease_expires_at_ms = expires\<rparr>
                  in case dependency_output_blocks c k of
                       Inl e \<Rightarrow> (Inl e, c)
                     | Inr blocks \<Rightarrow>
                         (case map_of (co_stages c) k of
                            None \<Rightarrow> (Inl (EPanic ''selected stage must exist''), c)
                          | Some st \<Rightarrow>
                              (let input_blocks =
                                     (if sp_partitioned_input (st_plan st)
                                      then filter (\<lambda>b. sb_output_partition b = ta_partition_id task)
                                             blocks
                                      else blocks);
                                   c' = set_partition k i (PtActive task w lease None) c
                               in if map_of (co_workers c) w = None
                                  then (Inl (EPanic ''selected worker must exist''), c')
                                  else
                                    (let c'' = set_worker w (\<lambda>wr. wr\<lparr>wr_available_slots :=
                                                   wr_available_slots wr - 1\<rparr>) c';
                                         assignment = AssignTask PROTOCOL_VERSION (st_plan st) task
                                                        lease input_blocks
                                     in case coordinator_message_validate pb assignment of
                                          Inl e \<Rightarrow> (Inl e, c'')
                                        | Inr _ \<Rightarrow> (Inr (Some assignment), c'')))))))"

definition next_assignment ::
  "pb_decoder \<Rightarrow> u64 \<Rightarrow> coordinator \<Rightarrow> coordinator_message option co_step" where
  "next_assignment pb now c0 =
     (let c = advance_time now c0 in
      case find (\<lambda>(_, wr). wr_alive wr \<and> 0 < wr_available_slots wr) (co_workers c) of
        None \<Rightarrow> (Inr None, c)
      | Some (w, _) \<Rightarrow> assign_to_worker pb w now c)"

definition next_assignment_for ::
  "pb_decoder \<Rightarrow> worker_id \<Rightarrow> u64 \<Rightarrow> coordinator \<Rightarrow> coordinator_message option co_step" where
  "next_assignment_for pb w now c0 =
     (let c = advance_time now c0 in
      case map_of (co_workers c) w of
        None \<Rightarrow> (Inl (coordinator_error ''unregistered worker {} requested an assignment''), c)
      | Some wr \<Rightarrow>
          if \<not> wr_alive wr \<or> wr_available_slots wr = 0 then (Inr None, c)
          else assign_to_worker pb w now c)"

subsection \<open>Cancelling a query\<close>

fun cancel_partition :: "partition_runtime \<Rightarrow> partition_runtime" where
  "cancel_partition (PtActive t w l _) = PtCancelling t w l"
| "cancel_partition (PtSucceeded t bs) = PtSucceeded t bs"
| "cancel_partition _ = PtCancelled"

definition cancel_stage :: "query_id \<Rightarrow> stage_key \<Rightarrow> stage_runtime \<Rightarrow> stage_runtime" where
  "cancel_stage q k st =
     (if fst k = q then st\<lparr>st_partitions := map cancel_partition (st_partitions st)\<rparr> else st)"

definition cancel_query ::
  "pb_decoder \<Rightarrow> query_id \<Rightarrow> string \<Rightarrow> coordinator \<Rightarrow> coordinator_message co_step" where
  "cancel_query pb q reason c =
     (let message = CancelQuery PROTOCOL_VERSION q reason in
      case coordinator_message_validate pb message of
        Inl e \<Rightarrow> (Inl e, c)
      | Inr _ \<Rightarrow>
          if \<not> query_registered c q then (Inl query_not_found, c)
          else (case map_of (co_cancelled c) q of
              Some existing \<Rightarrow>
                if existing = reason then (Inr message, c)
                else (Inl (coordinator_error
                       ''query {} was already cancelled for a different reason''), c)
            | None \<Rightarrow>
                (Inr message,
                 c\<lparr>co_stages := map (\<lambda>(k, st). (k, cancel_stage q k st)) (co_stages c),
                   co_cancelled := bt_insert q reason (co_cancelled c)\<rparr>)))"

subsection \<open>Worker messages\<close>

definition register_worker :: "worker_registration \<Rightarrow> u64 \<Rightarrow> coordinator \<Rightarrow> unit co_step" where
  "register_worker r received c =
     (if map_of (co_workers c) (reg_worker_id r) \<noteq> None
      then (Inl (coordinator_error ''worker {} is already registered''), c)
      else (Inr (), c\<lparr>co_workers := bt_insert (reg_worker_id r)
              \<lparr>wr_registration = r, wr_last_observed_at_ms = 0, wr_last_received_at_ms = received,
               wr_available_slots = reg_slots r, wr_available_memory_bytes = reg_memory_bytes r,
               wr_alive = True\<rparr> (co_workers c)\<rparr>))"

definition record_heartbeat :: "worker_heartbeat \<Rightarrow> u64 \<Rightarrow> coordinator \<Rightarrow> unit co_step" where
  "record_heartbeat h received c =
     (case map_of (co_workers c) (hb_worker_id h) of
        None \<Rightarrow> (Inl (coordinator_error ''heartbeat came from unregistered worker {}''), c)
      | Some wr \<Rightarrow>
          if hb_observed_at_ms h < wr_last_observed_at_ms wr
          then (Inl (coordinator_error ''worker {} heartbeat time moved backwards''), c)
          else if saturating_sub (reg_slots (wr_registration wr))
                    (active_tasks_for_worker c (hb_worker_id h)) < hb_available_slots h
          then (Inl (coordinator_error
                 ''worker {} reports {} available slots but at most {} are possible''), c)
          else if reg_memory_bytes (wr_registration wr) < hb_available_memory_bytes h
          then (Inl (coordinator_error ''worker {} reports more memory than it registered''), c)
          else (Inr (), set_worker (hb_worker_id h) (\<lambda>wr.
                 wr\<lparr>wr_last_observed_at_ms := hb_observed_at_ms h,
                    wr_last_received_at_ms := received,
                    wr_available_slots := hb_available_slots h,
                    wr_available_memory_bytes := hb_available_memory_bytes h,
                    wr_alive := True\<rparr>) c))"

fun superseded :: "task_attempt_id \<Rightarrow> partition_runtime \<Rightarrow> bool" where
  "superseded t (PtPending n) = (ta_attempt t < n)"
| "superseded t (PtActive cur _ _ _) = (ta_attempt t < ta_attempt cur)"
| "superseded t (PtCancelling cur _ _) = (ta_attempt t < ta_attempt cur)"
| "superseded t (PtSucceeded cur _) = (ta_attempt t < ta_attempt cur)"
| "superseded t (PtFailed a _ _) = (ta_attempt t \<le> a)"
| "superseded t PtCancelled = True"

definition exchange_blocks_ok :: "hash_exchange \<Rightarrow> shuffle_block list \<Rightarrow> bool" where
  "exchange_blocks_ok ex bs \<longleftrightarrow>
     length bs = unat (hx_partition_count ex)
     \<and> length (remdups (map sb_output_partition bs)) = unat (hx_partition_count ex)
     \<and> list_all (\<lambda>b. sb_output_partition b < hx_partition_count ex) bs"

definition check_exchange_output :: "stage_plan \<Rightarrow> task_state \<Rightarrow> unit result" where
  "check_exchange_output plan state =
     (case (sp_output_exchange plan, state) of
        (Some ex, Succeeded _ bs) \<Rightarrow>
          require (exchange_blocks_ok ex bs)
            (coordinator_error ''hash exchange must commit exactly one block per destination'')
      | _ \<Rightarrow> Inr ())"

fun finished_time :: "task_state \<Rightarrow> u64" where
  "finished_time (Running ts) = ts"
| "finished_time (Succeeded ts _) = ts"
| "finished_time (Failed ts _ _) = ts"
| "finished_time (Cancelled ts _) = ts"

text \<open>
  The effect of an update on its partition: the new partition state and whether the worker's slot
  is released.
\<close>

definition update_cancelling ::
  "worker_id \<Rightarrow> task_attempt_id \<Rightarrow> task_state \<Rightarrow> u64 \<Rightarrow> task_attempt_id \<Rightarrow> worker_id \<Rightarrow> task_lease
   \<Rightarrow> (partition_runtime \<times> bool) result" where
  "update_cancelling w t state received cur owner l =
     rbind (require (cur = t)
              (coordinator_error ''task update does not match the cancelling attempt'')) (\<lambda>_.
     rbind (require (owner = w \<and> lease_worker_id l = w)
              (coordinator_error
                ''task cancellation came from a worker that does not own its lease'')) (\<lambda>_.
       case state of
         Running started \<Rightarrow>
           rbind (validate_reported_time ''started'' started l received) (\<lambda>_.
             Inr (PtCancelling cur owner l, False))
       | _ \<Rightarrow>
           rbind (validate_reported_time ''finished'' (finished_time state) l received) (\<lambda>_.
             Inr (PtCancelled, True))))"

definition update_active ::
  "coordinator_config \<Rightarrow> worker_id \<Rightarrow> task_attempt_id \<Rightarrow> task_state \<Rightarrow> u64
   \<Rightarrow> task_attempt_id \<Rightarrow> worker_id \<Rightarrow> task_lease \<Rightarrow> u64 option
   \<Rightarrow> (partition_runtime \<times> bool) result" where
  "update_active cfg w t state received cur owner l started =
     rbind (require (cur = t)
              (coordinator_error ''task update does not match the active attempt'')) (\<lambda>_.
     rbind (require (owner = w \<and> lease_worker_id l = w)
              (coordinator_error
                ''task update came from a worker that does not own its lease'')) (\<lambda>_.
     rbind (require (\<not> lease_expires_at_ms l \<le> received)
              (coordinator_error ''task update arrived after its lease expired'')) (\<lambda>_.
       case state of
         Running reported \<Rightarrow>
           rbind (validate_reported_time ''started'' reported l received) (\<lambda>_.
             case started of
               Some existing \<Rightarrow>
                 if existing \<noteq> reported
                 then Inl (coordinator_error ''task start time changed between updates'')
                 else Inr (PtActive cur owner l started, False)
             | None \<Rightarrow> Inr (PtActive cur owner l (Some reported), False))
       | Succeeded finished bs \<Rightarrow>
           rbind (validate_reported_time ''finished'' finished l received) (\<lambda>_.
             Inr (PtSucceeded t bs, True))
       | Failed finished err retryable \<Rightarrow>
           rbind (validate_reported_time ''finished'' finished l received) (\<lambda>_.
             Inr (if retryable then retry_or_fail (cfg_max_task_attempts cfg) (ta_attempt t) err
                  else PtFailed (ta_attempt t) err False, True))
       | Cancelled finished _ \<Rightarrow>
           rbind (validate_reported_time ''finished'' finished l received) (\<lambda>_.
             Inr (PtCancelled, True)))))"

definition update_partition ::
  "coordinator_config \<Rightarrow> stage_plan \<Rightarrow> worker_id \<Rightarrow> task_attempt_id \<Rightarrow> task_state \<Rightarrow> u64
   \<Rightarrow> partition_runtime \<Rightarrow> (partition_runtime \<times> bool) result" where
  "update_partition cfg plan w t state received p =
     (if superseded t p then Inl ETaskSuperseded
      else
        rbind (check_exchange_output plan state) (\<lambda>_.
          case p of
            PtCancelling cur owner l \<Rightarrow> update_cancelling w t state received cur owner l
          | PtActive cur owner l started \<Rightarrow> update_active cfg w t state received cur owner l started
          | _ \<Rightarrow> Inl (coordinator_error ''task update is stale or was not assigned'')))"

definition record_task_update ::
  "worker_id \<Rightarrow> task_attempt_id \<Rightarrow> task_state \<Rightarrow> u64 \<Rightarrow> coordinator \<Rightarrow> unit co_step" where
  "record_task_update w t state received c =
     (if map_of (co_workers c) w = None
      then (Inl (coordinator_error ''task update came from unregistered worker {}''), c)
      else (let k = (ta_query_id t, ta_stage_id t); i = unat (ta_partition_id t) in
        case map_of (co_stages c) k of
          None \<Rightarrow> (Inl stage_not_found, c)
        | Some st \<Rightarrow>
            (case task_validate_for t (st_plan st) of
               Inl e \<Rightarrow> (Inl e, c)
             | Inr _ \<Rightarrow>
                 if \<not> i < length (st_partitions st) then (Inl (EPanic ''index out of bounds''), c)
                 else (case update_partition (co_config c) (st_plan st) w t state received
                              (st_partitions st ! i) of
                     Inl e \<Rightarrow> (Inl e, c)
                   | Inr (p, release) \<Rightarrow>
                       (let c' = set_partition k i p c in
                        (Inr (), if release then release_worker_slot w c' else c'))))))"

definition handle_worker_message :: "worker_message \<Rightarrow> u64 \<Rightarrow> coordinator \<Rightarrow> unit co_step" where
  "handle_worker_message m received c0 =
     (case worker_message_validate m of
        Inl e \<Rightarrow> (Inl e, c0)
      | Inr _ \<Rightarrow>
          (let c = advance_time received c0 in
           case m of
             Register _ r \<Rightarrow> register_worker r received c
           | Heartbeat _ h \<Rightarrow> record_heartbeat h received c
           | TaskUpdate _ w t state \<Rightarrow> record_task_update w t state received c))"

section \<open>Runs\<close>

text \<open>One call of a public mutating method, whatever it returns.\<close>

inductive co_step :: "pb_decoder \<Rightarrow> coordinator \<Rightarrow> coordinator \<Rightarrow> bool" for pb where
  submit: "submit_stage pb s c = (r, c') \<Longrightarrow> co_step pb c c'"
| message: "handle_worker_message m now c = (r, c') \<Longrightarrow> co_step pb c c'"
| assign: "next_assignment pb now c = (r, c') \<Longrightarrow> co_step pb c c'"
| assign_for: "next_assignment_for pb w now c = (r, c') \<Longrightarrow> co_step pb c c'"
| cancel: "cancel_query pb q reason c = (r, c') \<Longrightarrow> co_step pb c c'"
| advance: "co_step pb c (advance_time now c)"

definition co_init :: "coordinator \<Rightarrow> bool" where
  "co_init c \<longleftrightarrow> (\<exists>cfg. coordinator_new cfg = Inr c)"

definition reachable :: "pb_decoder \<Rightarrow> coordinator \<Rightarrow> bool" where
  "reachable pb c \<longleftrightarrow> (\<exists>c0. co_init c0 \<and> (co_step pb)\<^sup>*\<^sup>* c0 c)"

end
