(* ===== verification/Coordinator_Inv.thy ===== *)
theory Coordinator_Inv
  imports Coordinator
begin

text \<open>
  The invariant of the coordinator's state and its preservation by every operation of
  \<open>src/cluster/coordinator.rs\<close>.

  The stages are seen through two lookups, \<open>part\<close> for the state of a partition and \<open>plan\<close> for the
  plan of a stage.  \<open>co_static\<close> is the part of the invariant that also holds in the middle of
  \<open>advance_time\<close>, between the moment a worker is declared dead and the moment its tasks are
  expired; \<open>co_inv\<close> adds that only live workers own tasks.
\<close>

section \<open>Lookups\<close>

definition part :: "coordinator \<Rightarrow> stage_key \<Rightarrow> nat \<Rightarrow> partition_runtime option" where
  "part c k i =
     (case map_of (co_stages c) k of
        None \<Rightarrow> None
      | Some st \<Rightarrow> if i < length (st_partitions st) then Some (st_partitions st ! i) else None)"

definition plan :: "coordinator \<Rightarrow> stage_key \<Rightarrow> stage_plan option" where
  "plan c k = map_option st_plan (map_of (co_stages c) k)"

definition task_at :: "stage_key \<Rightarrow> nat \<Rightarrow> task_attempt_id \<Rightarrow> bool" where
  "task_at k i t \<longleftrightarrow>
     ta_query_id t = fst k \<and> ta_stage_id t = snd k \<and> unat (ta_partition_id t) = i"

section \<open>The invariant\<close>

fun part_ok :: "coordinator_config \<Rightarrow> stage_key \<Rightarrow> nat \<Rightarrow> stage_plan \<Rightarrow> partition_runtime \<Rightarrow> bool" where
  "part_ok cfg k i pl (PtPending n) = (n < cfg_max_task_attempts cfg)"
| "part_ok cfg k i pl (PtActive t w l s) =
     (task_at k i t \<and> ta_attempt t < cfg_max_task_attempts cfg \<and> lease_worker_id l = w
      \<and> lease_issued_at_ms l < lease_expires_at_ms l)"
| "part_ok cfg k i pl (PtCancelling t w l) =
     (task_at k i t \<and> ta_attempt t < cfg_max_task_attempts cfg \<and> lease_worker_id l = w
      \<and> lease_issued_at_ms l < lease_expires_at_ms l)"
| "part_ok cfg k i pl (PtSucceeded t bs) =
     (task_at k i t \<and> ta_attempt t < cfg_max_task_attempts cfg
      \<and> (\<forall>b\<in>set bs. block_validate b = Inr () \<and> sb_producer b = t)
      \<and> (\<forall>ex. sp_output_exchange pl = Some ex \<longrightarrow> exchange_blocks_ok ex bs))"
| "part_ok cfg k i pl (PtFailed a e r) = (a < cfg_max_task_attempts cfg)"
| "part_ok cfg k i pl PtCancelled = True"

definition cancel_consistent :: "bool \<Rightarrow> partition_runtime \<Rightarrow> bool" where
  "cancel_consistent cancelled p =
     (case p of
        PtCancelling _ _ _ \<Rightarrow> cancelled
      | PtSucceeded _ _ \<Rightarrow> True
      | PtCancelled \<Rightarrow> True
      | _ \<Rightarrow> \<not> cancelled)"

definition plan_ok :: "pb_decoder \<Rightarrow> coordinator \<Rightarrow> stage_key \<Rightarrow> stage_plan \<Rightarrow> bool" where
  "plan_ok pb c k pl \<longleftrightarrow>
     sp_query_id pl = fst k \<and> sp_stage_id pl = snd k
     \<and> stage_plan_validate pb pl = Inr ()
     \<and> sp_partition_count pl \<le> cfg_max_stage_partitions (co_config c)
     \<and> (\<forall>d\<in>set (sp_input_stages pl). \<exists>up. plan c (fst k, d) = Some up
          \<and> (sp_partitioned_input pl \<longrightarrow>
              map_option hx_partition_count (sp_output_exchange up) = Some (sp_partition_count pl)))"

definition worker_ok :: "coordinator \<Rightarrow> worker_id \<Rightarrow> worker_runtime \<Rightarrow> bool" where
  "worker_ok c w wr \<longleftrightarrow>
     reg_worker_id (wr_registration wr) = w
     \<and> registration_validate (wr_registration wr) = Inr ()
     \<and> (if wr_alive wr
        then unat (wr_available_slots wr) + active_count c w \<le> unat (reg_slots (wr_registration wr))
        else wr_available_slots wr = 0)"

definition co_static :: "pb_decoder \<Rightarrow> coordinator \<Rightarrow> bool" where
  "co_static pb c \<longleftrightarrow>
     config_validate (co_config c) = Inr (co_config c)
     \<and> bt_ok (co_workers c) \<and> bt_ok (co_stages c) \<and> bt_ok (co_cancelled c)
     \<and> (\<forall>k st. map_of (co_stages c) k = Some st \<longrightarrow>
           length (st_partitions st) = unat (sp_partition_count (st_plan st)))
     \<and> (\<forall>k pl. plan c k = Some pl \<longrightarrow> plan_ok pb c k pl)
     \<and> (\<forall>k i p pl. part c k i = Some p \<longrightarrow> plan c k = Some pl \<longrightarrow>
           part_ok (co_config c) k i pl p
           \<and> cancel_consistent (map_of (co_cancelled c) (fst k) \<noteq> None) p)
     \<and> (\<forall>w wr. map_of (co_workers c) w = Some wr \<longrightarrow> worker_ok c w wr)"

definition owners_alive :: "coordinator \<Rightarrow> bool" where
  "owners_alive c \<longleftrightarrow>
     (\<forall>k i p w. part c k i = Some p \<longrightarrow> owned_by w p \<longrightarrow>
        (\<exists>wr. map_of (co_workers c) w = Some wr \<and> wr_alive wr))"

definition co_inv :: "pb_decoder \<Rightarrow> coordinator \<Rightarrow> bool" where
  "co_inv pb c \<longleftrightarrow> co_static pb c \<and> owners_alive c"

declare split_paired_All [simp del] split_paired_Ex [simp del]

lemma owners_aliveD:
  "owners_alive c \<Longrightarrow> part c k i = Some p \<Longrightarrow> owned_by w p \<Longrightarrow>
   \<exists>wr. map_of (co_workers c) w = Some wr \<and> wr_alive wr"
  unfolding owners_alive_def by blast

section \<open>Lookups after updates\<close>

lemma co_simps [simp]:
  "co_config (set_partition k i p c) = co_config c"
  "co_workers (set_partition k i p c) = co_workers c"
  "co_cancelled (set_partition k i p c) = co_cancelled c"
  "co_config (set_worker w f c) = co_config c"
  "co_stages (set_worker w f c) = co_stages c"
  "co_cancelled (set_worker w f c) = co_cancelled c"
  "co_workers (set_worker w f c) = bt_update w f (co_workers c)"
  "bt_ok (co_stages (set_partition k i p c)) = bt_ok (co_stages c)"
  by (simp_all add: set_partition_def set_worker_def)

lemma part_set_worker [simp]: "part (set_worker w f c) = part c"
  by (simp add: part_def fun_eq_iff)

lemma plan_set_worker [simp]: "plan (set_worker w f c) = plan c"
  by (simp add: plan_def fun_eq_iff)

lemma active_count_set_worker [simp]: "active_count (set_worker w f c) = active_count c"
  by (simp add: active_count_def fun_eq_iff)

lemma plan_set_partition [simp]: "plan (set_partition k i p c) = plan c"
  by (simp add: plan_def set_partition_def fun_eq_iff option.map_comp comp_def)

lemma part_set_partition:
  "part (set_partition k i p c) k' j =
     (if k' = k \<and> j = i \<and> part c k i \<noteq> None then Some p else part c k' j)"
  by (auto simp: part_def set_partition_def nth_list_update split: option.splits)

lemma length_set_partition:
  "map_of (co_stages (set_partition k i p c)) k' = Some st \<Longrightarrow>
   \<exists>st0. map_of (co_stages c) k' = Some st0 \<and> st_plan st = st_plan st0
     \<and> length (st_partitions st) = length (st_partitions st0)"
  by (auto simp: set_partition_def split: if_splits)

lemma part_SomeD:
  assumes "part c k i = Some p"
  obtains st where "map_of (co_stages c) k = Some st" "i < length (st_partitions st)"
    "st_partitions st ! i = p" "plan c k = Some (st_plan st)"
  using assms by (auto simp: part_def plan_def split: option.splits if_splits)

section \<open>Counting tasks\<close>

lemma active_count_sum:
  "active_count c w = (\<Sum>(_, st)\<leftarrow>co_stages c. length (filter (owned_by w) (st_partitions st)))"
  by (simp add: active_count_def filter_concat length_concat comp_def case_prod_unfold)

lemma active_set_partition:
  assumes "bt_ok (co_stages c)" and "part c k i = Some q"
  shows "active_count (set_partition k i p c) w + of_bool (owned_by w q)
    = active_count c w + of_bool (owned_by w p)"
proof -
  from assms(2) obtain st where st: "map_of (co_stages c) k = Some st"
    "i < length (st_partitions st)" "st_partitions st ! i = q" by (rule part_SomeD)
  from sum_list_bt_update [OF assms(1) st(1), where
      f = "\<lambda>st. st\<lparr>st_partitions := (st_partitions st)[i := p]\<rparr>" and
      h = "\<lambda>st. length (filter (owned_by w) (st_partitions st))"]
    length_filter_update [OF st(2), of "owned_by w" p] st(3)
  show ?thesis by (simp add: active_count_sum set_partition_def)
qed

lemma active_count_pos:
  assumes "bt_ok (co_stages c)" and "part c k i = Some p" and "owned_by w p"
  shows "0 < active_count c w"
  using active_set_partition [OF assms(1,2), of PtCancelled w] assms(3)
  by (simp add: owned_by_def)

section \<open>Consequences of the invariant\<close>

lemma plan_of_part: "part c k i = Some p \<Longrightarrow> \<exists>pl. plan c k = Some pl"
  by (auto elim: part_SomeD)

lemma co_staticD:
  assumes "co_static pb c"
  shows "config_validate (co_config c) = Inr (co_config c)"
    "bt_ok (co_workers c)" "bt_ok (co_stages c)" "bt_ok (co_cancelled c)"
    "\<And>k st. map_of (co_stages c) k = Some st \<Longrightarrow>
       length (st_partitions st) = unat (sp_partition_count (st_plan st))"
    "\<And>k pl. plan c k = Some pl \<Longrightarrow> plan_ok pb c k pl"
    "\<And>k i p pl. part c k i = Some p \<Longrightarrow> plan c k = Some pl \<Longrightarrow> part_ok (co_config c) k i pl p"
    "\<And>k i p. part c k i = Some p \<Longrightarrow>
       cancel_consistent (map_of (co_cancelled c) (fst k) \<noteq> None) p"
    "\<And>w wr. map_of (co_workers c) w = Some wr \<Longrightarrow> worker_ok c w wr"
  using assms plan_of_part [of c] unfolding co_static_def by blast+

lemma set_worker_set_partition:
  "set_worker w f (set_partition k i p c) = set_partition k i p (set_worker w f c)"
  by (simp add: set_worker_def set_partition_def)

lemma plan_ok_cong:
  "plan c' = plan c \<Longrightarrow> co_config c' = co_config c \<Longrightarrow> plan_ok pb c' k pl = plan_ok pb c k pl"
  by (simp add: plan_ok_def)

lemma unat_le_min_word: "unat (min a b) = min (unat a) (unat (b :: 'a::len word))"
  by (simp add: min_def word_le_nat_alt)

section \<open>Changing one partition or one worker\<close>

lemma co_static_set_worker:
  assumes c: "co_static pb c"
    and w: "\<And>wr. map_of (co_workers c) w = Some wr \<Longrightarrow> worker_ok c w (f wr)"
  shows "co_static pb (set_worker w f c)"
proof -
  have "worker_ok (set_worker w f c) v wr" if "map_of (bt_update w f (co_workers c)) v = Some wr" for v wr
    using that w co_staticD(9) [OF c] by (auto simp: worker_ok_def split: if_splits)
  then show ?thesis
    using c unfolding co_static_def
    by (simp add: plan_ok_cong [of "set_worker w f c" c])
qed

lemma co_static_partition_parts:
  assumes c: "co_static pb c" and q: "part c k i = Some q" and pl: "plan c k = Some pl"
    and p: "part_ok (co_config c) k i pl p"
      "cancel_consistent (map_of (co_cancelled c) (fst k) \<noteq> None) p"
    and wk: "\<And>w wr. map_of (co_workers c') w = Some wr \<Longrightarrow> worker_ok c' w wr"
    and c': "co_config c' = co_config c" "co_cancelled c' = co_cancelled c"
      "co_stages c' = co_stages (set_partition k i p c)" "bt_ok (co_workers c')"
  shows "co_static pb c'"
proof -
  have "plan c' = plan (set_partition k i p c)"
    by (intro ext) (simp only: plan_def c'(3))
  moreover have "part c' = part (set_partition k i p c)"
    by (intro ext) (simp only: part_def c'(3))
  ultimately have same: "plan c' = plan c" "part c' = part (set_partition k i p c)" by simp_all
  have "length (st_partitions st) = unat (sp_partition_count (st_plan st))"
    if "map_of (co_stages c') k' = Some st" for k' st
    using that c'(3) length_set_partition co_staticD(5) [OF c] by metis
  moreover have "part_ok (co_config c) k' j pl' p' \<and>
      cancel_consistent (map_of (co_cancelled c) (fst k') \<noteq> None) p'"
    if "part c' k' j = Some p'" "plan c k' = Some pl'" for k' j p' pl'
    using that same co_staticD(7,8) [OF c] p pl by (auto simp: part_set_partition split: if_splits)
  moreover have "plan_ok pb c' k' pl'" if "plan c' k' = Some pl'" for k' pl'
    using that same co_staticD(6) [OF c] c'(1) by (simp add: plan_ok_cong [of c' c])
  ultimately show ?thesis
    using co_staticD(1-4) [OF c] c' wk same unfolding co_static_def by simp
qed

lemma co_static_set_partition:
  assumes c: "co_static pb c" and q: "part c k i = Some q" and pl: "plan c k = Some pl"
    and p: "part_ok (co_config c) k i pl p"
      "cancel_consistent (map_of (co_cancelled c) (fst k) \<noteq> None) p"
    and owner: "\<And>w. owned_by w p \<Longrightarrow> owned_by w q"
  shows "co_static pb (set_partition k i p c)"
proof (rule co_static_partition_parts [OF c q pl p])
  fix w wr assume "map_of (co_workers (set_partition k i p c)) w = Some wr"
  then have "worker_ok c w wr" using co_staticD(9) [OF c] by simp
  moreover have "active_count (set_partition k i p c) w \<le> active_count c w"
    using active_set_partition [OF co_staticD(3) [OF c] q, of p w] owner [of w]
    by (auto simp: of_bool_def split: if_splits)
  ultimately show "worker_ok (set_partition k i p c) w wr"
    by (auto simp: worker_ok_def)
qed (use co_staticD(2) [OF c] in simp_all)

lemma worker_ok_release:
  assumes "worker_ok c w wr" and "active_count c' w + 1 \<le> active_count c w"
  shows "worker_ok c' w (release_slot wr)"
proof (cases "wr_alive wr")
  case True
  have "unat (wr_available_slots (release_slot wr)) \<le> unat (wr_available_slots wr) + 1"
    "unat (wr_available_slots (release_slot wr)) \<le> unat (reg_slots (wr_registration wr))"
    using True by (simp_all add: release_slot_def unat_le_min_word unat_saturating_add)
  with True assms show ?thesis by (simp add: worker_ok_def release_slot_def)
next
  case False
  with assms show ?thesis by (simp add: worker_ok_def release_slot_def)
qed

lemma co_static_finish:
  assumes c: "co_static pb c" and q: "part c k i = Some q" and pl: "plan c k = Some pl"
    and p: "part_ok (co_config c) k i pl p"
      "cancel_consistent (map_of (co_cancelled c) (fst k) \<noteq> None) p"
    and own: "owned_by w q" "\<And>v. \<not> owned_by v p"
  shows "co_static pb (release_worker_slot w (set_partition k i p c))"
proof (rule co_static_partition_parts [OF c q pl p])
  fix v wr
  assume wr: "map_of (co_workers (release_worker_slot w (set_partition k i p c))) v = Some wr"
  have count: "active_count (set_partition k i p c) v + of_bool (owned_by v q) = active_count c v" for v
    using active_set_partition [OF co_staticD(3) [OF c] q, of p v] own(2) by simp
  from wr obtain wr0 where wr0: "map_of (co_workers c) v = Some wr0"
    "wr = (if v = w then release_slot wr0 else wr0)"
    by (auto simp: release_worker_slot_def split: if_splits)
  have ok: "worker_ok c v wr0" using co_staticD(9) [OF c] wr0(1) .
  show "worker_ok (release_worker_slot w (set_partition k i p c)) v wr"
  proof (cases "v = w")
    case True
    then show ?thesis
      using ok wr0(2) count [of w] own(1)
      by (auto simp: release_worker_slot_def intro!: worker_ok_release)
  next
    case False
    then show ?thesis
      using ok wr0(2) count [of v] by (auto simp: release_worker_slot_def worker_ok_def)
  qed
qed (use co_staticD(2) [OF c] in \<open>simp_all add: release_worker_slot_def\<close>)

section \<open>Owners\<close>

lemma active_count_exists:
  assumes "bt_ok (co_stages c)" and "0 < active_count c w"
  shows "\<exists>k i p. part c k i = Some p \<and> owned_by w p"
proof -
  from assms(2) have "filter (owned_by w) (concat (map (\<lambda>(_, st). st_partitions st) (co_stages c))) \<noteq> []"
    by (simp add: active_count_def)
  then obtain p where p: "p \<in> set (concat (map (\<lambda>(_, st). st_partitions st) (co_stages c)))"
    "owned_by w p"
    unfolding filter_empty_conv by blast
  then obtain k st where st: "(k, st) \<in> set (co_stages c)" "p \<in> set (st_partitions st)"
    by auto
  then obtain i where i: "i < length (st_partitions st)" "st_partitions st ! i = p"
    by (auto simp: in_set_conv_nth)
  have "map_of (co_stages c) k = Some st"
    using st(1) bt_in_set_iff [OF assms(1)] by simp
  with i p(2) have "part c k i = Some p \<and> owned_by w p" by (simp add: part_def)
  then show ?thesis by blast
qed

lemma unowned_count_0:
  assumes "co_inv pb c" and "\<And>wr. map_of (co_workers c) w = Some wr \<Longrightarrow> \<not> wr_alive wr"
  shows "active_count c w = 0"
proof (rule ccontr)
  assume "active_count c w \<noteq> 0"
  then obtain k i p where "part c k i = Some p" "owned_by w p"
    using active_count_exists [of c w] co_staticD(3) assms(1) by (auto simp: co_inv_def)
  then show False using assms owners_aliveD [of c k i p w] by (auto simp: co_inv_def)
qed

lemma owners_alive_set_partition:
  assumes "owners_alive c"
    and "\<And>w. owned_by w p \<Longrightarrow> \<exists>wr. map_of (co_workers c) w = Some wr \<and> wr_alive wr"
  shows "owners_alive (set_partition k i p c)"
  using assms by (simp add: owners_alive_def part_set_partition)

lemma owners_alive_set_worker:
  assumes "owners_alive c" and "\<And>wr. wr_alive wr \<Longrightarrow> wr_alive (f wr)"
  shows "owners_alive (set_worker w f c)"
  unfolding owners_alive_def
proof (intro allI impI)
  fix k i p v assume "part (set_worker w f c) k i = Some p" "owned_by v p"
  then obtain wr where "map_of (co_workers c) v = Some wr" "wr_alive wr"
    using owners_aliveD [OF assms(1), of k i p v] by auto
  then show "\<exists>wr. map_of (co_workers (set_worker w f c)) v = Some wr \<and> wr_alive wr"
    using assms(2) by (cases "v = w") auto
qed

lemma owners_alive_release:
  "owners_alive c \<Longrightarrow> owners_alive (release_worker_slot w c)"
  unfolding release_worker_slot_def by (rule owners_alive_set_worker) (simp_all add: release_slot_def)

section \<open>Creation and registration\<close>

lemma co_inv_init: "co_init c \<Longrightarrow> co_inv pb c"
  by (auto simp: co_init_def coordinator_new_def rbind_eq_Inr co_inv_def co_static_def
      owners_alive_def part_def plan_def config_validate_def split: if_splits)

lemma co_inv_register:
  assumes inv: "co_inv pb c" and r: "registration_validate r = Inr ()"
    and step: "register_worker r now c = (res, c')"
  shows "co_inv pb c'"
proof (cases "map_of (co_workers c) (reg_worker_id r)")
  case (Some a)
  with step inv show ?thesis by (simp add: register_worker_def)
next
  case None
  define wr where "wr = \<lparr>wr_registration = r, wr_last_observed_at_ms = 0,
    wr_last_received_at_ms = now, wr_available_slots = reg_slots r,
    wr_available_memory_bytes = reg_memory_bytes r, wr_alive = True\<rparr>"
  have c': "c' = c\<lparr>co_workers := bt_insert (reg_worker_id r) wr (co_workers c)\<rparr>"
    using step None by (simp add: register_worker_def wr_def)
  have same: "part c' = part c" "plan c' = plan c" "active_count c' = active_count c"
    by (simp_all add: c' part_def plan_def active_count_def fun_eq_iff)
  from inv have st: "co_static pb c" by (simp add: co_inv_def)
  have "worker_ok c (reg_worker_id r) wr"
    using unowned_count_0 [OF inv, of "reg_worker_id r"] None r
    by (simp add: worker_ok_def wr_def)
  then have "worker_ok c' v wr'" if "map_of (co_workers c') v = Some wr'" for v wr'
    using that co_staticD(9) [OF st] same by (auto simp: c' worker_ok_def split: if_splits)
  moreover have "plan_ok pb c' k pl" if "plan c' k = Some pl" for k pl
    using that same co_staticD(6) [OF st] plan_ok_cong [of c' c] by (simp add: c')
  ultimately have "co_static pb c'"
    using st same unfolding co_static_def by (simp add: c')
  moreover have "owners_alive c'"
    using inv None unfolding co_inv_def owners_alive_def same
    by (simp add: c') (metis option.discI)
  ultimately show ?thesis by (simp add: co_inv_def)
qed

lemma co_inv_heartbeat:
  assumes inv: "co_inv pb c" and step: "record_heartbeat h now c = (res, c')"
  shows "co_inv pb c'"
proof (cases "c' = c")
  case True
  with inv show ?thesis by simp
next
  case False
  from inv have st: "co_static pb c" and own: "owners_alive c" by (simp_all add: co_inv_def)
  define f :: "worker_runtime \<Rightarrow> worker_runtime" where "f = (\<lambda>wr. wr\<lparr>wr_last_observed_at_ms := hb_observed_at_ms h,
    wr_last_received_at_ms := now, wr_available_slots := hb_available_slots h,
    wr_available_memory_bytes := hb_available_memory_bytes h, wr_alive := True\<rparr>)"
  obtain wr where wr: "map_of (co_workers c) (hb_worker_id h) = Some wr"
    and slots: "hb_available_slots h \<le> saturating_sub (reg_slots (wr_registration wr))
      (active_tasks_for_worker c (hb_worker_id h))"
    and c': "c' = set_worker (hb_worker_id h) f c"
    using step False by (auto simp: record_heartbeat_def f_def not_less split: option.splits if_splits)
  have ok: "worker_ok c (hb_worker_id h) wr" by (rule co_staticD(9) [OF st wr])
  have "active_count c (hb_worker_id h) \<le> unat (reg_slots (wr_registration wr))"
    using ok unowned_count_0 [OF inv, of "hb_worker_id h"] wr
    by (cases "wr_alive wr") (auto simp: worker_ok_def)
  moreover have "unat (reg_slots (wr_registration wr)) < 2 ^ 32"
    using unsigned_less [of "reg_slots (wr_registration wr)"] by simp
  ultimately have "unat (active_tasks_for_worker c (hb_worker_id h)) = active_count c (hb_worker_id h)"
    by (simp add: active_tasks_for_worker_def unsigned_of_nat take_bit_nat_eq_self)
  with slots have "unat (hb_available_slots h) + active_count c (hb_worker_id h)
      \<le> unat (reg_slots (wr_registration wr))"
    using \<open>active_count c (hb_worker_id h) \<le> unat (reg_slots (wr_registration wr))\<close>
    by (simp add: word_le_nat_alt unat_saturating_sub)
  with ok have "worker_ok c (hb_worker_id h) (f wr)" by (simp add: worker_ok_def f_def)
  with wr have "co_static pb c'"
    unfolding c' by (intro co_static_set_worker [OF st]) simp
  moreover have "owners_alive c'"
    unfolding c' by (rule owners_alive_set_worker [OF own]) (simp add: f_def)
  ultimately show ?thesis by (simp add: co_inv_def)
qed

section \<open>Submission\<close>

lemma submit_checks_ok:
  assumes "submit_checks pb c s = Inr u"
  shows "stage_plan_validate pb s = Inr ()"
    "sp_partition_count s \<le> cfg_max_stage_partitions (co_config c)"
    "map_of (co_cancelled c) (sp_query_id s) = None"
    "map_of (co_stages c) (sp_query_id s, sp_stage_id s) = None"
    "\<And>d. d \<in> set (sp_input_stages s) \<Longrightarrow> \<exists>up. plan c (sp_query_id s, d) = Some up
       \<and> (sp_partitioned_input s \<longrightarrow>
            map_option hx_partition_count (sp_output_exchange up) = Some (sp_partition_count s))"
proof -
  note checks = assms [unfolded submit_checks_def rbind_eq_Inr]
  from checks show "stage_plan_validate pb s = Inr ()"
    "sp_partition_count s \<le> cfg_max_stage_partitions (co_config c)"
    "map_of (co_cancelled c) (sp_query_id s) = None"
    "map_of (co_stages c) (sp_query_id s, sp_stage_id s) = None"
    by auto
  fix d assume d: "d \<in> set (sp_input_stages s)"
  from checks d obtain st where st: "map_of (co_stages c) (sp_query_id s, d) = Some st"
    by (auto simp: rall_eq_Inr)
  from checks d have "sp_partitioned_input s \<longrightarrow> check_partitioned_dependency c s d = Inr ()"
    by (auto simp: rall_eq_Inr)
  with st show "\<exists>up. plan c (sp_query_id s, d) = Some up \<and> (sp_partitioned_input s \<longrightarrow>
      map_option hx_partition_count (sp_output_exchange up) = Some (sp_partition_count s))"
    by (auto simp: plan_def check_partitioned_dependency_def)
qed

lemma config_attempts_pos: "config_validate cfg = Inr cfg' \<Longrightarrow> 0 < cfg_max_task_attempts cfg"
  by (auto simp: config_validate_def word_gt_0 split: if_splits)

lemma config_lease_pos: "config_validate cfg = Inr cfg' \<Longrightarrow> 0 < cfg_lease_duration_ms cfg"
  by (auto simp: config_validate_def word_gt_0 split: if_splits)

lemma submit_stage_lookups:
  assumes ok: "submit_checks pb c s = Inr u" and step: "submit_stage pb s c = (res, c')"
  shows "part c' k i =
      (if k = (sp_query_id s, sp_stage_id s)
       then if i < unat (sp_partition_count s) then Some (PtPending 0) else None
       else part c k i)"
    and "plan c' k = (if k = (sp_query_id s, sp_stage_id s) then Some s else plan c k)"
    and "active_count c' w = active_count c w"
    and "co_workers c' = co_workers c" "co_config c' = co_config c" "co_cancelled c' = co_cancelled c"
proof -
  have c': "c' = c\<lparr>co_stages := bt_insert (sp_query_id s, sp_stage_id s)
      \<lparr>st_plan = s, st_partitions = replicate (unat (sp_partition_count s)) (PtPending 0)\<rparr>
      (co_stages c)\<rparr>"
    using assms by (simp add: submit_stage_def)
  have fresh: "map_of (co_stages c) (sp_query_id s, sp_stage_id s) = None"
    by (rule submit_checks_ok(4) [OF ok])
  show "active_count c' w = active_count c w"
    by (simp add: active_count_sum c' sum_list_bt_insert_fresh [OF fresh] owned_by_def)
qed (use assms in \<open>auto simp: part_def plan_def submit_stage_def\<close>)

lemma co_inv_submit:
  assumes inv: "co_inv pb c" and step: "submit_stage pb s c = (res, c')"
  shows "co_inv pb c'"
proof (cases "submit_checks pb c s")
  case (Inl e)
  with step inv show ?thesis by (simp add: submit_stage_def)
next
  case (Inr u)
  note look = submit_stage_lookups [OF Inr step] and ok = submit_checks_ok [OF Inr]
  let ?key = "(sp_query_id s, sp_stage_id s)"
  from inv have st: "co_static pb c" and own: "owners_alive c" by (simp_all add: co_inv_def)
  have fresh: "plan c ?key = None" using ok(4) by (simp add: plan_def)
  then have keep: "plan c k = Some pl \<Longrightarrow> plan c' k = Some pl" for k pl
    by (auto simp: look(2))
  have "plan_ok pb c' k pl" if "plan c' k = Some pl" for k pl
  proof (cases "k = ?key")
    case True
    moreover from this that have "pl = s" by (simp add: look)
    ultimately show ?thesis
      using ok(1,2) keep ok(5) unfolding plan_ok_def look(5) by (metis fst_conv snd_conv)
  next
    case False
    with that have "plan_ok pb c k pl" using co_staticD(6) [OF st] by (simp add: look)
    with keep show ?thesis unfolding plan_ok_def look(5) by blast
  qed
  moreover have "part_ok (co_config c') k i pl p
      \<and> cancel_consistent (map_of (co_cancelled c') (fst k) \<noteq> None) p"
    if "part c' k i = Some p" "plan c' k = Some pl" for k i p pl
    using that co_staticD(7,8) [OF st] config_attempts_pos [OF co_staticD(1) [OF st]] ok(3)
    by (auto simp: look cancel_consistent_def split: if_splits)
  moreover have "length (st_partitions x) = unat (sp_partition_count (st_plan x))"
    if "map_of (co_stages c') k = Some x" for k x
    using that co_staticD(5) [OF st, of k x] Inr step
    by (auto simp: submit_stage_def split: if_splits)
  moreover have "worker_ok c' w wr" if "map_of (co_workers c') w = Some wr" for w wr
    using that co_staticD(9) [OF st] by (simp add: look worker_ok_def)
  moreover have "bt_ok (co_stages c')"
    using Inr step co_staticD(3) [OF st] by (auto simp: submit_stage_def)
  ultimately have "co_static pb c'"
    using co_staticD(1,2,4) [OF st] look unfolding co_static_def by simp
  moreover have "owners_alive c'"
    unfolding owners_alive_def
    using owners_aliveD [OF own] by (auto simp: look owned_by_def split: if_splits)
  ultimately show ?thesis by (simp add: co_inv_def)
qed

section \<open>Cancellation\<close>

lemma owned_by_cancel: "owned_by w (cancel_partition p) \<Longrightarrow> owned_by w p"
  by (cases p) (auto simp: owned_by_def)

lemma length_filter_cancel:
  "length (filter (owned_by w \<circ> cancel_partition) ps) \<le> length (filter (owned_by w) ps)"
  by (induction ps) (auto dest: owned_by_cancel)

lemma cancel_query_cases:
  assumes "cancel_query pb q reason c = (res, c')"
  obtains "c' = c"
  | "c' = c\<lparr>co_stages := map (\<lambda>(k, st). (k, cancel_stage q k st)) (co_stages c),
            co_cancelled := bt_insert q reason (co_cancelled c)\<rparr>"
    "map_of (co_cancelled c) q = None" "res = Inr (CancelQuery PROTOCOL_VERSION q reason)"
  using assms by (auto simp: cancel_query_def Let_def split: sum.splits option.splits if_splits)

lemma cancel_lookups:
  assumes c': "c' = c\<lparr>co_stages := map (\<lambda>(k, st). (k, cancel_stage q k st)) (co_stages c),
            co_cancelled := bt_insert q reason (co_cancelled c)\<rparr>"
  shows "part c' k i = (if fst k = q then map_option cancel_partition (part c k i) else part c k i)"
    and "plan c' k = plan c k"
    and "active_count c' w \<le> active_count c w"
    and "map_of (co_cancelled c') = (map_of (co_cancelled c))(q \<mapsto> reason)"
proof -
  have "length (filter (owned_by w) (st_partitions (cancel_stage q k st)))
      \<le> length (filter (owned_by w) (st_partitions st))" for k st
    by (simp add: cancel_stage_def length_filter_cancel)
  then show "active_count c' w \<le> active_count c w"
    by (auto simp: active_count_sum c' comp_def case_prod_unfold intro!: sum_list_mono)
  show "part c' k i = (if fst k = q then map_option cancel_partition (part c k i) else part c k i)"
    by (auto simp: c' part_def map_of_map_snd cancel_stage_def split: option.splits)
  show "plan c' k = plan c k"
    by (cases "map_of (co_stages c) k") (simp_all add: c' plan_def map_of_map_snd cancel_stage_def)
  show "map_of (co_cancelled c') = (map_of (co_cancelled c))(q \<mapsto> reason)"
    by (simp add: c')
qed

lemma co_inv_cancel:
  assumes inv: "co_inv pb c" and step: "cancel_query pb q reason c = (res, c')"
  shows "co_inv pb c'"
  using step
proof (cases rule: cancel_query_cases)
  case 1
  with inv show ?thesis by simp
next
  case 2
  note look = cancel_lookups [OF 2(1)]
  from inv have st: "co_static pb c" and own: "owners_alive c" by (simp_all add: co_inv_def)
  have same: "co_workers c' = co_workers c" "co_config c' = co_config c" by (simp_all add: 2(1))
  have "plan c' = plan c" using look(2) by (rule ext)
  then have plans: "plan_ok pb c' k pl = plan_ok pb c k pl" for k pl
    by (rule plan_ok_cong) (rule same(2))
  have "part_ok (co_config c') k i pl p
      \<and> cancel_consistent (map_of (co_cancelled c') (fst k) \<noteq> None) p"
    if p: "part c' k i = Some p" and pl: "plan c' k = Some pl" for k i p pl
  proof (cases "fst k = q")
    case False
    with p pl co_staticD(7,8) [OF st] same show ?thesis by (simp add: look)
  next
    case True
    with p obtain p0 where p0: "part c k i = Some p0" "p = cancel_partition p0"
      by (auto simp: look)
    with pl co_staticD(7) [OF st p0(1)] same True show ?thesis
      by (cases p0) (auto simp: look cancel_consistent_def)
  qed
  moreover have "length (st_partitions x) = unat (sp_partition_count (st_plan x))"
    if x: "map_of (co_stages c') k = Some x" for k x
  proof -
    from x obtain y where "map_of (co_stages c) k = Some y" "x = cancel_stage q k y"
      by (auto simp: 2(1) map_of_map_snd)
    with co_staticD(5) [OF st] show ?thesis by (simp add: cancel_stage_def)
  qed
  moreover have "worker_ok c' w wr" if "map_of (co_workers c') w = Some wr" for w wr
    using that co_staticD(9) [OF st, of w wr] look(3) [of w]
    by (auto simp: same worker_ok_def)
  ultimately have "co_static pb c'"
    using co_staticD(1-4,6) [OF st] look same plans unfolding co_static_def
    by (simp add: 2(1))
  moreover have "owners_alive c'"
    unfolding owners_alive_def same
    using owners_aliveD [OF own] by (auto simp: look dest: owned_by_cancel split: if_splits)
  ultimately show ?thesis by (simp add: co_inv_def)
qed

section \<open>Expiry\<close>

definition replacement :: "coordinator_config \<Rightarrow> expired_task \<Rightarrow> partition_runtime" where
  "replacement cfg e =
     (if ex_cancelling e then PtCancelled
      else retry_or_fail (cfg_max_task_attempts cfg) (ex_attempt e)
        (if ex_timed_out e then ''worker heartbeat timed out'' else ''task lease expired''))"

definition expirable :: "coordinator \<Rightarrow> expired_task \<Rightarrow> bool" where
  "expirable c e \<longleftrightarrow>
     (\<exists>t l. ta_attempt t = ex_attempt e \<and>
        (if ex_cancelling e
         then part c (ex_key e) (ex_index e) = Some (PtCancelling t (ex_worker e) l)
         else (\<exists>s. part c (ex_key e) (ex_index e) = Some (PtActive t (ex_worker e) l s))))"

definition slot_of :: "expired_task \<Rightarrow> stage_key \<times> nat" where
  "slot_of e = (ex_key e, ex_index e)"

lemma expirable_cong:
  "part c' (ex_key e) (ex_index e) = part c (ex_key e) (ex_index e) \<Longrightarrow> expirable c' e = expirable c e"
  by (simp add: expirable_def)

lemma not_owned_terminal [simp]:
  "\<not> owned_by w (retry_or_fail m a err)" "\<not> owned_by w PtCancelled"
  "\<not> owned_by w (PtSucceeded t bs)" "\<not> owned_by w (PtFailed a err r)" "\<not> owned_by w (PtPending n)"
  by (simp_all add: owned_by_def retry_or_fail_def Let_def)

lemma not_owned_replacement [simp]: "\<not> owned_by w (replacement cfg e)"
  by (simp add: replacement_def)

lemma part_ok_retry: "a < cfg_max_task_attempts cfg \<Longrightarrow>
    part_ok cfg k i pl (retry_or_fail (cfg_max_task_attempts cfg) a err)"
  by (simp add: retry_or_fail_def Let_def)

lemma cancel_consistent_retry: "cancel_consistent b (retry_or_fail m a err) \<longleftrightarrow> \<not> b"
  by (simp add: retry_or_fail_def Let_def cancel_consistent_def)

lemma expire_task_alt:
  "expire_task e c =
     (if ex_timed_out e then set_partition (ex_key e) (ex_index e) (replacement (co_config c) e) c
      else release_worker_slot (ex_worker e)
        (set_partition (ex_key e) (ex_index e) (replacement (co_config c) e) c))"
  by (simp add: expire_task_def replacement_def release_worker_slot_def set_worker_set_partition Let_def)

lemma expire_task_lookups:
  "co_config (expire_task e c) = co_config c"
  "co_cancelled (expire_task e c) = co_cancelled c"
  "plan (expire_task e c) = plan c"
  "part (expire_task e c) k j =
     (if (k, j) = slot_of e \<and> part c k j \<noteq> None then Some (replacement (co_config c) e)
      else part c k j)"
  "map_option wr_alive (map_of (co_workers (expire_task e c)) w)
     = map_option wr_alive (map_of (co_workers c) w)"
  by (auto simp: expire_task_alt release_worker_slot_def part_set_partition slot_of_def
      option.map_comp comp_def release_slot_def cong: option.map_cong)

lemma expire_task_static:
  assumes st: "co_static pb c" and e: "expirable c e"
  shows "co_static pb (expire_task e c)"
proof -
  from e obtain q where q: "part c (ex_key e) (ex_index e) = Some q" "owned_by (ex_worker e) q"
    by (auto simp: expirable_def owned_by_def split: if_splits)
  then obtain pl where pl: "plan c (ex_key e) = Some pl" using plan_of_part by blast
  have "part_ok (co_config c) (ex_key e) (ex_index e) pl q"
    and "cancel_consistent (map_of (co_cancelled c) (fst (ex_key e)) \<noteq> None) q"
    using co_staticD(7,8) [OF st q(1)] pl by auto
  with e q(1) have "part_ok (co_config c) (ex_key e) (ex_index e) pl (replacement (co_config c) e)"
    "cancel_consistent (map_of (co_cancelled c) (fst (ex_key e)) \<noteq> None) (replacement (co_config c) e)"
    by (auto simp: expirable_def replacement_def cancel_consistent_def [of _ PtCancelled]
        cancel_consistent_retry cancel_consistent_def [of _ "PtActive _ _ _ _"]
        split: if_splits intro!: part_ok_retry)
  note parts = st q(1) pl this
  show ?thesis
    unfolding expire_task_alt
    using co_static_set_partition [OF parts] co_static_finish [OF parts q(2)] by simp
qed

lemma fold_expire:
  assumes "co_static pb c" and "\<forall>e\<in>set es. expirable c e" and "distinct (map slot_of es)"
  shows "co_static pb (fold expire_task es c)"
    and "co_config (fold expire_task es c) = co_config c"
    and "co_cancelled (fold expire_task es c) = co_cancelled c"
    and "plan (fold expire_task es c) = plan c"
    and "\<And>w. map_option wr_alive (map_of (co_workers (fold expire_task es c)) w)
       = map_option wr_alive (map_of (co_workers c) w)"
    and "\<And>k j. (k, j) \<notin> slot_of ` set es \<Longrightarrow> part (fold expire_task es c) k j = part c k j"
    and "\<And>e. e \<in> set es \<Longrightarrow>
       part (fold expire_task es c) (ex_key e) (ex_index e) = Some (replacement (co_config c) e)"
proof -
  have "co_static pb (fold expire_task es c)
    \<and> co_config (fold expire_task es c) = co_config c
    \<and> co_cancelled (fold expire_task es c) = co_cancelled c
    \<and> plan (fold expire_task es c) = plan c
    \<and> (\<forall>w. map_option wr_alive (map_of (co_workers (fold expire_task es c)) w)
         = map_option wr_alive (map_of (co_workers c) w))
    \<and> (\<forall>k j. (k, j) \<notin> slot_of ` set es \<longrightarrow> part (fold expire_task es c) k j = part c k j)
    \<and> (\<forall>e\<in>set es. part (fold expire_task es c) (ex_key e) (ex_index e)
         = Some (replacement (co_config c) e))"
    using assms
  proof (induction es arbitrary: c)
    case (Cons e es)
    have e: "expirable c e" and fresh: "slot_of e \<notin> slot_of ` set es"
      using Cons.prems(2,3) by auto
    have same: "part (expire_task e c) (ex_key d) (ex_index d) = part c (ex_key d) (ex_index d)"
      if "d \<in> set es" for d
      using that fresh by (auto simp: expire_task_lookups slot_of_def image_iff)
    then have "expirable (expire_task e c) d" if "d \<in> set es" for d
      using expirable_cong [OF same [OF that]] Cons.prems(2) that by simp
    then have IH: "?case" if "part c (ex_key e) (ex_index e) \<noteq> None"
      using Cons.IH [OF expire_task_static [OF Cons.prems(1) e]] Cons.prems(3) fresh that
      by (auto simp: expire_task_lookups slot_of_def)
    show ?case
      by (rule IH) (use e in \<open>auto simp: expirable_def split: if_splits\<close>)
  qed simp
  then show "co_static pb (fold expire_task es c)"
    and "co_config (fold expire_task es c) = co_config c"
    and "co_cancelled (fold expire_task es c) = co_cancelled c"
    and "plan (fold expire_task es c) = plan c"
    and "\<And>w. map_option wr_alive (map_of (co_workers (fold expire_task es c)) w)
       = map_option wr_alive (map_of (co_workers c) w)"
    and "\<And>k j. (k, j) \<notin> slot_of ` set es \<Longrightarrow> part (fold expire_task es c) k j = part c k j"
    and "\<And>e. e \<in> set es \<Longrightarrow>
       part (fold expire_task es c) (ex_key e) (ex_index e) = Some (replacement (co_config c) e)"
    by blast+
qed

text \<open>What \<open>advance_time\<close> does to one partition, without the worklist of the source.\<close>

definition expires :: "worker_id list \<Rightarrow> u64 \<Rightarrow> partition_runtime \<Rightarrow> bool" where
  "expires dead now p =
     (case p of
        PtActive t w l _ \<Rightarrow> w \<in> set dead \<or> lease_expires_at_ms l \<le> now
      | PtCancelling t w l \<Rightarrow> w \<in> set dead \<or> lease_expires_at_ms l \<le> now
      | _ \<Rightarrow> False)"

definition expire_partition ::
  "coordinator_config \<Rightarrow> worker_id list \<Rightarrow> u64 \<Rightarrow> partition_runtime \<Rightarrow> partition_runtime" where
  "expire_partition cfg dead now p =
     (if \<not> expires dead now p then p
      else (case p of
          PtActive t w l _ \<Rightarrow>
            retry_or_fail (cfg_max_task_attempts cfg) (ta_attempt t)
              (if w \<in> set dead then ''worker heartbeat timed out'' else ''task lease expired'')
        | _ \<Rightarrow> PtCancelled))"

definition entry_of :: "worker_id list \<Rightarrow> stage_key \<Rightarrow> nat \<times> partition_runtime \<Rightarrow> expired_task" where
  "entry_of dead k ip =
     (case snd ip of
        PtActive t w l _ \<Rightarrow> \<lparr>ex_key = k, ex_index = fst ip, ex_attempt = ta_attempt t, ex_worker = w,
          ex_timed_out = (w \<in> set dead), ex_cancelling = False\<rparr>
      | PtCancelling t w l \<Rightarrow> \<lparr>ex_key = k, ex_index = fst ip, ex_attempt = ta_attempt t,
          ex_worker = w, ex_timed_out = (w \<in> set dead), ex_cancelling = True\<rparr>
      | _ \<Rightarrow> \<lparr>ex_key = k, ex_index = fst ip, ex_attempt = 0, ex_worker = [],
          ex_timed_out = False, ex_cancelling = False\<rparr>)"

lemma slot_of_entry [simp]: "slot_of (entry_of dead k ip) = (k, fst ip)"
  by (simp add: slot_of_def entry_of_def split: partition_runtime.splits)

lemma expired_entry_alt:
  "expired_entry dead now k ip = (if expires dead now (snd ip) then [entry_of dead k ip] else [])"
  by (simp add: expired_entry_def expires_def entry_of_def Let_def split: partition_runtime.splits)

lemma concat_map_singleton:
  "concat (map (\<lambda>x. if P x then [f x] else []) xs) = map f (filter P xs)"
  by (induction xs) auto

lemma expired_tasks_alt:
  "expired_tasks dead now c =
     concat (map (\<lambda>(k, st). map (entry_of dead k)
       (filter (\<lambda>ip. expires dead now (snd ip)) (enumerate 0 (st_partitions st)))) (co_stages c))"
proof -
  have "expired_entry dead now k = (\<lambda>ip. if expires dead now (snd ip) then [entry_of dead k ip] else [])"
    for k by (rule ext) (rule expired_entry_alt)
  then show ?thesis by (simp add: expired_tasks_def concat_map_singleton)
qed

lemma in_expired_tasks:
  assumes "bt_ok (co_stages c)"
  shows "e \<in> set (expired_tasks dead now c) \<longleftrightarrow>
    (\<exists>k i p. part c k i = Some p \<and> expires dead now p \<and> e = entry_of dead k (i, p))"
proof
  assume "e \<in> set (expired_tasks dead now c)"
  then obtain k st i p where kst: "(k, st) \<in> set (co_stages c)"
    "(i, p) \<in> set (enumerate 0 (st_partitions st))" "expires dead now p" "e = entry_of dead k (i, p)"
    by (auto simp: expired_tasks_alt)
  then have "part c k i = Some p"
    using bt_in_set_iff [OF assms] by (auto simp: in_set_enumerate_eq part_def)
  with kst show "\<exists>k i p. part c k i = Some p \<and> expires dead now p \<and> e = entry_of dead k (i, p)"
    by blast
next
  assume "\<exists>k i p. part c k i = Some p \<and> expires dead now p \<and> e = entry_of dead k (i, p)"
  then obtain k i p where p: "part c k i = Some p" "expires dead now p" "e = entry_of dead k (i, p)"
    by blast
  from p(1) obtain st where st: "map_of (co_stages c) k = Some st" "i < length (st_partitions st)"
    "st_partitions st ! i = p" by (rule part_SomeD)
  then have "(k, st) \<in> set (co_stages c)" "(i, p) \<in> set (enumerate 0 (st_partitions st))"
    by (auto simp: in_set_enumerate_eq dest: map_of_SomeD)
  with p show "e \<in> set (expired_tasks dead now c)"
    by (force simp: expired_tasks_alt)
qed

lemma distinct_concat_keyed:
  assumes "distinct (map fst xs)" and "\<And>x. x \<in> set xs \<Longrightarrow> distinct (map g (f x))"
    and "\<And>x y. x \<in> set xs \<Longrightarrow> y \<in> set (f x) \<Longrightarrow> fst (g y) = fst x"
  shows "distinct (map g (concat (map f xs)))"
  using assms
proof (induction xs)
  case (Cons x xs)
  have neq: "g y \<noteq> g z" if "y \<in> set (f x)" "x' \<in> set xs" "z \<in> set (f x')" for y x' z
  proof
    assume "g y = g z"
    then have "fst x = fst x'" using Cons.prems(3) [of x y] Cons.prems(3) [of x' z] that by simp
    with Cons.prems(1) that(2) show False by (auto simp: image_iff)
  qed
  have "a \<notin> set (map g (concat (map f xs)))" if "a \<in> set (map g (f x))" for a
  proof
    assume "a \<in> set (map g (concat (map f xs)))"
    then obtain x' z where "x' \<in> set xs" "z \<in> set (f x')" "a = g z" by auto
    moreover from that obtain y where "y \<in> set (f x)" "a = g y" by auto
    ultimately show False using neq by metis
  qed
  then have "set (map g (f x)) \<inter> set (map g (concat (map f xs))) = {}" by blast
  with Cons show ?case by simp
qed simp

lemma distinct_expired_tasks:
  assumes "bt_ok (co_stages c)"
  shows "distinct (map slot_of (expired_tasks dead now c))"
proof -
  define es :: "stage_key \<times> stage_runtime \<Rightarrow> expired_task list" where "es = (\<lambda>(k, st). map (entry_of dead k)
    (filter (\<lambda>ip. expires dead now (snd ip)) (enumerate 0 (st_partitions st))))"
  have slots: "map slot_of (es (k, st)) = map (\<lambda>ip. (k, fst ip))
      (filter (\<lambda>ip. expires dead now (snd ip)) (enumerate 0 (st_partitions st)))" for k st
    by (simp add: es_def comp_def)
  have "distinct (map slot_of (es (k, st)))" for k st
    unfolding slots by (rule distinct_map_filter)
      (auto simp: distinct_map inj_on_def in_set_enumerate_eq)
  then have "distinct (map slot_of (concat (map es (co_stages c))))"
    by (intro distinct_concat_keyed [OF bt_ok_distinct [OF assms]])
      (auto simp: es_def slot_of_def [symmetric])
  then show ?thesis by (simp add: expired_tasks_alt es_def)
qed

lemma expirable_entry:
  assumes "part c k i = Some p" and "expires dead now p"
  shows "expirable c (entry_of dead k (i, p))"
    and "replacement cfg (entry_of dead k (i, p)) = expire_partition cfg dead now p"
  using assms by (auto simp: expirable_def replacement_def expire_partition_def entry_of_def
      expires_def split: partition_runtime.splits)

lemma kill_fold:
  fixes c :: coordinator
  assumes "co_static pb c"
  shows "co_static pb (fold (\<lambda>w. set_worker w kill_worker) ws c)"
    and "co_config (fold (\<lambda>w. set_worker w kill_worker) ws c) = co_config c"
    and "co_stages (fold (\<lambda>w. set_worker w kill_worker) ws c) = co_stages c"
    and "co_cancelled (fold (\<lambda>w. set_worker w kill_worker) ws c) = co_cancelled c"
    and "map_of (co_workers (fold (\<lambda>w. set_worker w kill_worker) ws c)) v
       = (if v \<in> set ws then map_option kill_worker (map_of (co_workers c) v)
          else map_of (co_workers c) v)"
proof -
  have idem: "map_option kill_worker (map_option kill_worker x) = map_option kill_worker x" for x
    by (cases x) (simp_all add: kill_worker_def)
  have "co_static pb (fold (\<lambda>w. set_worker w kill_worker) ws c)
    \<and> co_config (fold (\<lambda>w. set_worker w kill_worker) ws c) = co_config c
    \<and> co_stages (fold (\<lambda>w. set_worker w kill_worker) ws c) = co_stages c
    \<and> co_cancelled (fold (\<lambda>w. set_worker w kill_worker) ws c) = co_cancelled c
    \<and> map_of (co_workers (fold (\<lambda>w. set_worker w kill_worker) ws c)) v
       = (if v \<in> set ws then map_option kill_worker (map_of (co_workers c) v)
          else map_of (co_workers c) v)"
    using assms
  proof (induction ws arbitrary: c)
    case (Cons w ws)
    have "co_static pb (set_worker w kill_worker c)"
    proof (rule co_static_set_worker [OF Cons.prems])
      fix wr assume "map_of (co_workers c) w = Some wr"
      then show "worker_ok c w (kill_worker wr)"
        using co_staticD(9) [OF Cons.prems] by (simp add: worker_ok_def kill_worker_def)
    qed
    from Cons.IH [OF this] show ?case by (auto simp: idem)
  qed simp
  then show "co_static pb (fold (\<lambda>w. set_worker w kill_worker) ws c)"
    and "co_config (fold (\<lambda>w. set_worker w kill_worker) ws c) = co_config c"
    and "co_stages (fold (\<lambda>w. set_worker w kill_worker) ws c) = co_stages c"
    and "co_cancelled (fold (\<lambda>w. set_worker w kill_worker) ws c) = co_cancelled c"
    and "map_of (co_workers (fold (\<lambda>w. set_worker w kill_worker) ws c)) v
       = (if v \<in> set ws then map_option kill_worker (map_of (co_workers c) v)
          else map_of (co_workers c) v)"
    by blast+
qed

lemma in_timed_out_workers:
  assumes "bt_ok (co_workers c)"
  shows "w \<in> set (timed_out_workers c now) \<longleftrightarrow>
    (\<exists>wr. map_of (co_workers c) w = Some wr \<and> timed_out c now wr)"
proof -
  have "w \<in> set (timed_out_workers c now) \<longleftrightarrow>
      (\<exists>wr. (w, wr) \<in> set (co_workers c) \<and> timed_out c now wr)"
    by (auto simp: timed_out_workers_def image_iff)
  then show ?thesis unfolding bt_in_set_iff [OF assms] .
qed

lemma advance_time_facts:
  assumes st: "co_static pb c"
  shows "co_static pb (advance_time now c)"
    and "co_config (advance_time now c) = co_config c"
    and "co_cancelled (advance_time now c) = co_cancelled c"
    and "plan (advance_time now c) = plan c"
    and "part (advance_time now c) k i =
      map_option (expire_partition (co_config c) (timed_out_workers c now) now) (part c k i)"
    and "map_option wr_alive (map_of (co_workers (advance_time now c)) w) =
      map_option (\<lambda>wr. wr_alive wr \<and> \<not> timed_out c now wr) (map_of (co_workers c) w)"
proof -
  define dead where "dead = timed_out_workers c now"
  define c1 where "c1 = fold (\<lambda>w. set_worker w kill_worker) dead c"
  note kill = kill_fold [OF st, of dead, folded c1_def]
  have look: "part c1 = part c" "plan c1 = plan c"
    by (intro ext; simp only: part_def plan_def kill(3))+
  have adv: "advance_time now c = fold expire_task (expired_tasks dead now c1) c1"
    by (simp add: advance_time_def dead_def c1_def Let_def)
  have ok: "bt_ok (co_stages c1)" by (rule co_staticD(3) [OF kill(1)])
  have ent: "\<exists>k i p. part c1 k i = Some p \<and> expires dead now p \<and> e = entry_of dead k (i, p)"
    if "e \<in> set (expired_tasks dead now c1)" for e
    using that unfolding in_expired_tasks [OF ok] .
  then have exp: "\<forall>e\<in>set (expired_tasks dead now c1). expirable c1 e"
    using expirable_entry(1) by blast
  note fe = fold_expire [where es = "expired_tasks dead now c1",
      OF kill(1) exp distinct_expired_tasks [OF ok], folded adv]
  from fe(1-4) kill look show "co_static pb (advance_time now c)"
    "co_config (advance_time now c) = co_config c"
    "co_cancelled (advance_time now c) = co_cancelled c"
    "plan (advance_time now c) = plan c"
    by simp_all
  show "part (advance_time now c) k i =
      map_option (expire_partition (co_config c) (timed_out_workers c now) now) (part c k i)"
  proof (cases "(k, i) \<in> slot_of ` set (expired_tasks dead now c1)")
    case True
    then obtain e where e: "e \<in> set (expired_tasks dead now c1)" "slot_of e = (k, i)" by auto
    then obtain p where p: "part c k i = Some p" "expires dead now p" "e = entry_of dead k (i, p)"
      using ent [OF e(1)] unfolding look by auto
    have "part (advance_time now c) k i = Some (replacement (co_config c1) e)"
      using fe(7) [OF e(1)] e(2) by (simp add: slot_of_def)
    also have "\<dots> = Some (expire_partition (co_config c) dead now p)"
      by (simp only: p(3) kill(2) expirable_entry(2) [OF p(1,2)])
    finally show ?thesis by (simp add: p(1) dead_def)
  next
    case False
    have "\<not> expires dead now p" if "part c k i = Some p" for p
    proof
      assume "expires dead now p"
      with that have "entry_of dead k (i, p) \<in> set (expired_tasks dead now c1)"
        unfolding in_expired_tasks [OF ok] look by blast
      then have "slot_of (entry_of dead k (i, p)) \<in> slot_of ` set (expired_tasks dead now c1)"
        by (rule imageI)
      with False show False by simp
    qed
    then have "map_option (expire_partition (co_config c) dead now) (part c k i) = part c k i"
      by (cases "part c k i") (simp_all add: expire_partition_def)
    with fe(6) [OF False] look(1) show ?thesis by (simp only: dead_def)
  qed
  show "map_option wr_alive (map_of (co_workers (advance_time now c)) w) =
      map_option (\<lambda>wr. wr_alive wr \<and> \<not> timed_out c now wr) (map_of (co_workers c) w)"
    unfolding fe(5) kill(5)
    using in_timed_out_workers [OF co_staticD(2) [OF st], of w now, folded dead_def]
    by (cases "map_of (co_workers c) w") (auto simp: kill_worker_def)
qed

lemma owned_by_expire:
  assumes "owned_by w (expire_partition cfg dead now p)"
  shows "owned_by w p \<and> w \<notin> set dead \<and> expire_partition cfg dead now p = p"
proof (cases "expires dead now p")
  case True
  then have "\<not> owned_by w (expire_partition cfg dead now p)"
    by (cases p) (simp_all add: expire_partition_def expires_def)
  with assms show ?thesis by simp
next
  case False
  with assms show ?thesis
    by (cases p) (auto simp: expire_partition_def expires_def owned_by_def)
qed

lemma co_inv_advance:
  assumes inv: "co_inv pb c"
  shows "co_inv pb (advance_time now c)"
proof -
  from inv have st: "co_static pb c" and own: "owners_alive c" by (simp_all add: co_inv_def)
  note adv = advance_time_facts [OF st, of now]
  have "owners_alive (advance_time now c)"
    unfolding owners_alive_def
  proof (intro allI impI)
    fix k i p w assume p: "part (advance_time now c) k i = Some p" "owned_by w p"
    then obtain p0 where p0: "part c k i = Some p0" "owned_by w p0"
      "w \<notin> set (timed_out_workers c now)"
      using owned_by_expire by (auto simp: adv(5))
    then obtain wr where wr: "map_of (co_workers c) w = Some wr" "wr_alive wr"
      using owners_aliveD [OF own] by blast
    with p0(3) have "\<not> timed_out c now wr"
      by (auto simp: in_timed_out_workers [OF co_staticD(2) [OF st]])
    with wr adv(6) [of w] show "\<exists>wr. map_of (co_workers (advance_time now c)) w = Some wr \<and> wr_alive wr"
      by auto
  qed
  with adv(1) show ?thesis by (simp add: co_inv_def)
qed

section \<open>Selection of a pending partition\<close>

lemma first_pending_Some:
  "first_pending j ps = Some (i, n) \<Longrightarrow> j \<le> i \<and> i - j < length ps \<and> ps ! (i - j) = PtPending n"
proof (induction j ps rule: first_pending.induct)
  case (2 j p ps)
  show ?case
  proof (cases "\<exists>m. p = PtPending m")
    case True
    with "2.prems" show ?thesis by auto
  next
    case False
    then have "first_pending j (p # ps) = first_pending (j + 1) ps" by (cases p) auto
    with "2.prems" have "first_pending (j + 1) ps = Some (i, n)" by simp
    moreover have "j + 1 \<le> i \<and> i - (j + 1) < length ps \<and> ps ! (i - (j + 1)) = PtPending n"
      using False calculation by (cases p) (auto dest: "2.IH")
    ultimately show ?thesis
      by (auto simp: nth_Cons' Suc_le_eq)
  qed
qed simp

lemma first_pending_None:
  "first_pending j ps = None \<Longrightarrow> p \<in> set ps \<Longrightarrow> p \<noteq> PtPending n"
  by (induction j ps rule: first_pending.induct) (auto split: partition_runtime.splits)

lemma pending_in_Some:
  "pending_in c xs = Some (k, i, n) \<Longrightarrow>
   \<exists>st. (k, st) \<in> set xs \<and> map_of (co_cancelled c) (fst k) = None \<and> dependencies_succeeded c st
     \<and> first_pending 0 (st_partitions st) = Some (i, n)"
  by (induction c xs rule: pending_in.induct) (auto split: if_splits option.splits)

lemma pending_in_None:
  "pending_in c xs = None \<Longrightarrow> (k, st) \<in> set xs \<Longrightarrow> map_of (co_cancelled c) (fst k) = None \<Longrightarrow>
   dependencies_succeeded c st \<Longrightarrow> first_pending 0 (st_partitions st) = None"
  by (induction c xs rule: pending_in.induct) (auto split: if_splits option.splits)

lemma next_pending_Some:
  assumes "bt_ok (co_stages c)" and "next_pending_partition c = Some (k, i, n)"
  obtains st where "map_of (co_stages c) k = Some st" "part c k i = Some (PtPending n)"
    "map_of (co_cancelled c) (fst k) = None" "dependencies_succeeded c st"
proof -
  from pending_in_Some [OF assms(2) [unfolded next_pending_partition_def]]
  obtain st where st: "(k, st) \<in> set (co_stages c)" "map_of (co_cancelled c) (fst k) = None"
    "dependencies_succeeded c st" "first_pending 0 (st_partitions st) = Some (i, n)" by blast
  from st(1) have "map_of (co_stages c) k = Some st" by (simp add: bt_in_set_iff [OF assms(1)])
  moreover from this first_pending_Some [OF st(4)] have "part c k i = Some (PtPending n)"
    by (simp add: part_def)
  ultimately show thesis using st that by blast
qed

section \<open>Inputs of an assignment\<close>

definition stage_blocks :: "coordinator \<Rightarrow> query_id \<Rightarrow> stage_id \<Rightarrow> shuffle_block list" where
  "stage_blocks c q d =
     (case map_of (co_stages c) (q, d) of
        None \<Rightarrow> []
      | Some dep \<Rightarrow> concat (map committed_blocks (st_partitions dep)))"

lemma rmap_succeeded_blocks:
  "list_all is_succeeded ps \<Longrightarrow> rmap succeeded_blocks ps = Inr (map committed_blocks ps)"
  by (rule rmap_Inr_map)
    (auto simp: list_all_iff is_succeeded_def succeeded_blocks_def committed_blocks_def
      split: partition_runtime.splits)

lemma dependency_output_blocks_ready:
  assumes "map_of (co_stages c) k = Some st" and "dependencies_succeeded c st"
    and "sp_query_id (st_plan st) = fst k"
  shows "dependency_output_blocks c k =
    Inr (concat (map (stage_blocks c (fst k)) (sp_input_stages (st_plan st))))"
proof -
  have "dependency_blocks c (fst k) d = Inr (stage_blocks c (fst k) d)"
    if "d \<in> set (sp_input_stages (st_plan st))" for d
    using assms(2,3) that
    by (auto simp: dependencies_succeeded_def list_all_iff dependency_blocks_def stage_blocks_def
        rmap_succeeded_blocks split: option.splits)
  then show ?thesis
    using assms(1) by (simp add: dependency_output_blocks_def rmap_Inr_map)
qed

lemma in_stage_blocks:
  assumes "b \<in> set (stage_blocks c q d)"
  obtains i t bs where "part c (q, d) i = Some (PtSucceeded t bs)" "b \<in> set bs"
proof -
  from assms obtain dep p where dep: "map_of (co_stages c) (q, d) = Some dep"
    "p \<in> set (st_partitions dep)" "b \<in> set (committed_blocks p)"
    by (cases "map_of (co_stages c) (q, d)") (auto simp: stage_blocks_def)
  from dep(2) obtain i where "i < length (st_partitions dep)" "st_partitions dep ! i = p"
    by (auto simp: in_set_conv_nth)
  with dep(1) have "part c (q, d) i = Some p" by (simp add: part_def)
  moreover from dep(3) obtain t bs where "p = PtSucceeded t bs" "b \<in> set bs"
    by (cases p) (auto simp: committed_blocks_def)
  ultimately show thesis using that by blast
qed

section \<open>Assignment\<close>

lemma unat_u32: "unat (a :: u32) < 4294967296"
proof -
  have "unat a < 2 ^ LENGTH(32)" by (rule unsigned_less)
  then show ?thesis by simp
qed

definition assigned_inputs :: "coordinator \<Rightarrow> stage_plan \<Rightarrow> nat \<Rightarrow> shuffle_block list" where
  "assigned_inputs c pl i =
     (let bs = concat (map (stage_blocks c (sp_query_id pl)) (sp_input_stages pl)) in
      if sp_partitioned_input pl then filter (\<lambda>b. sb_output_partition b = of_nat i) bs else bs)"

lemma assigned_inputs_valid:
  assumes st: "co_static pb c" and pl: "plan c k = Some pl"
    and b: "b \<in> set (assigned_inputs c pl i)" and t: "ta_partition_id t = of_nat i"
  shows "input_block_validate pl t b = Inr ()"
proof -
  have q: "sp_query_id pl = fst k" using co_staticD(6) [OF st pl] by (simp add: plan_ok_def)
  from b obtain d where d: "d \<in> set (sp_input_stages pl)" "b \<in> set (stage_blocks c (fst k) d)"
    by (auto simp: assigned_inputs_def Let_def q split: if_splits)
  obtain j u bs where p: "part c (fst k, d) j = Some (PtSucceeded u bs)" "b \<in> set bs"
    by (rule in_stage_blocks [OF d(2)])
  obtain up where "plan c (fst k, d) = Some up" using plan_of_part [OF p(1)] by blast
  with co_staticD(7) [OF st p(1)] p(2)
  have "block_validate b = Inr ()" "ta_query_id (sb_producer b) = fst k" "ta_stage_id (sb_producer b) = d"
    by (auto simp: task_at_def)
  moreover have "sp_partitioned_input pl \<longrightarrow> sb_output_partition b = ta_partition_id t"
    using b t by (cases "sp_partitioned_input pl") (simp_all add: assigned_inputs_def Let_def)
  ultimately show ?thesis
    using d(1) q by (simp add: input_block_validate_def)
qed

lemma assignment_valid:
  assumes st: "co_static pb c" and pl: "plan c k = Some pl" and i: "i < unat (sp_partition_count pl)"
    and w: "map_of (co_workers c) w = Some wr"
    and e: "checked_add now (cfg_lease_duration_ms (co_config c)) = Some e"
  shows "coordinator_message_validate pb (AssignTask PROTOCOL_VERSION pl
     \<lparr>ta_query_id = fst k, ta_stage_id = snd k, ta_partition_id = of_nat i, ta_attempt = n\<rparr>
     \<lparr>lease_worker_id = w, lease_issued_at_ms = now, lease_expires_at_ms = e\<rparr>
     (assigned_inputs c pl i)) = Inr ()"
proof -
  have ok: "plan_ok pb c k pl" by (rule co_staticD(6) [OF st pl])
  then have "query_id_validate (fst k) = Inr ()"
    using stage_plan_validate_ok(1) [of pb pl] by (simp add: plan_ok_def)
  moreover have "worker_id_validate w = Inr ()"
    using co_staticD(9) [OF st w] by (auto simp: worker_ok_def registration_validate_def rbind_eq_Inr)
  moreover have "now < e"
    using e config_lease_pos [OF co_staticD(1) [OF st]]
    by (simp add: checked_add_Some_iff word_less_nat_alt)
  moreover have "unat (of_nat i :: u32) = i"
    using i unat_u32 [of "sp_partition_count pl"] by (simp add: unat_of_nat_small)
  then have "(of_nat i :: u32) < sp_partition_count pl"
    using i by (simp add: word_less_nat_alt)
  ultimately show ?thesis
    using ok assigned_inputs_valid [OF st pl, of _ i]
    by (simp add: plan_ok_def validate_version_def task_validate_for_def task_validate_def
        lease_validate_def rall_eq_Inr)
qed

lemma assign_to_worker_spec:
  assumes st: "co_static pb c" and w: "map_of (co_workers c) w = Some wr"
  shows "assign_to_worker pb w now c =
    (case next_pending_partition c of
       None \<Rightarrow> (Inr None, c)
     | Some (k, i, n) \<Rightarrow>
         (case checked_add now (cfg_lease_duration_ms (co_config c)) of
            None \<Rightarrow> (Inl (coordinator_error ''task lease timestamp overflowed''), c)
          | Some e \<Rightarrow>
              (let t = \<lparr>ta_query_id = fst k, ta_stage_id = snd k, ta_partition_id = of_nat i,
                         ta_attempt = n\<rparr>;
                   l = \<lparr>lease_worker_id = w, lease_issued_at_ms = now, lease_expires_at_ms = e\<rparr>;
                   pl = the (plan c k)
               in (Inr (Some (AssignTask PROTOCOL_VERSION pl t l (assigned_inputs c pl i))),
                   set_worker w (\<lambda>wr. wr\<lparr>wr_available_slots := wr_available_slots wr - 1\<rparr>)
                     (set_partition k i (PtActive t w l None) c)))))"
proof (cases "next_pending_partition c")
  case None
  then show ?thesis by (simp add: assign_to_worker_def)
next
  case (Some kin)
  obtain k i n where kin: "kin = (k, i, n)" by (cases kin) auto
  obtain s where s: "map_of (co_stages c) k = Some s" "part c k i = Some (PtPending n)"
    "map_of (co_cancelled c) (fst k) = None" "dependencies_succeeded c s"
    using next_pending_Some [OF co_staticD(3) [OF st]] Some kin by blast
  have pl: "plan c k = Some (st_plan s)" using s(1) by (simp add: plan_def)
  have q: "sp_query_id (st_plan s) = fst k"
    using co_staticD(6) [OF st pl] by (simp add: plan_ok_def)
  have i: "i < unat (sp_partition_count (st_plan s))"
    using s(1,2) co_staticD(5) [OF st s(1)] by (simp add: part_def split: if_splits)
  then have i32: "\<not> 2 ^ 32 \<le> i"
    using unat_u32 [of "sp_partition_count (st_plan s)"] by simp
  show ?thesis
  proof (cases "checked_add now (cfg_lease_duration_ms (co_config c))")
    case None
    with Some kin show ?thesis by (simp add: assign_to_worker_def)
  next
    case e: (Some e)
    show ?thesis
      using Some kin e i32 s(1) w pl assignment_valid [OF st pl i w e, of n]
        dependency_output_blocks_ready [OF s(1,4) q]
      by (cases "sp_partitioned_input (st_plan s)")
        (simp_all add: assign_to_worker_def assigned_inputs_def q Let_def)
  qed
qed

lemma co_inv_assign_to_worker:
  assumes inv: "co_inv pb c" and w: "map_of (co_workers c) w = Some wr" "wr_alive wr"
    "0 < wr_available_slots wr" and step: "assign_to_worker pb w now c = (res, c')"
  shows "co_inv pb c'"
proof (cases "c' = c")
  case True
  with inv show ?thesis by simp
next
  case False
  from inv have st: "co_static pb c" and own: "owners_alive c" by (simp_all add: co_inv_def)
  obtain k i n e where sel: "next_pending_partition c = Some (k, i, n)"
    and e: "checked_add now (cfg_lease_duration_ms (co_config c)) = Some e"
    using step False
    by (auto simp: assign_to_worker_spec [OF st w(1)] split: option.splits prod.splits)
  define t where "t = \<lparr>ta_query_id = fst k, ta_stage_id = snd k, ta_partition_id = of_nat i,
    ta_attempt = n\<rparr>"
  define l where "l = \<lparr>lease_worker_id = w, lease_issued_at_ms = now, lease_expires_at_ms = e\<rparr>"
  define dec :: "worker_runtime \<Rightarrow> worker_runtime"
    where "dec = (\<lambda>wr. wr\<lparr>wr_available_slots := wr_available_slots wr - 1\<rparr>)"
  have c': "c' = set_worker w dec (set_partition k i (PtActive t w l None) c)"
    using step sel e
    by (simp add: assign_to_worker_spec [OF st w(1)] Let_def t_def l_def dec_def)
  obtain s where s: "map_of (co_stages c) k = Some s" "part c k i = Some (PtPending n)"
    "map_of (co_cancelled c) (fst k) = None"
    using next_pending_Some [OF co_staticD(3) [OF st] sel] by blast
  then have pl: "plan c k = Some (st_plan s)" by (simp add: plan_def)
  have "i < unat (sp_partition_count (st_plan s))"
    using s(1,2) co_staticD(5) [OF st s(1)] by (simp add: part_def split: if_splits)
  then have "unat (of_nat i :: u32) = i"
    using unat_u32 [of "sp_partition_count (st_plan s)"] by (simp add: unat_of_nat_small)
  moreover have "now < e"
    using e config_lease_pos [OF co_staticD(1) [OF st]]
    by (simp add: checked_add_Some_iff word_less_nat_alt)
  ultimately have new: "part_ok (co_config c) k i (st_plan s) (PtActive t w l None)"
    using co_staticD(7) [OF st s(2) pl] by (simp add: t_def l_def task_at_def)
  have cc: "cancel_consistent (map_of (co_cancelled c) (fst k) \<noteq> None) (PtActive t w l None)"
    using s(3) by (simp add: cancel_consistent_def)
  have count: "active_count (set_partition k i (PtActive t w l None) c) v
      = active_count c v + of_bool (v = w)" for v
    using active_set_partition [OF co_staticD(3) [OF st] s(2), of "PtActive t w l None" v]
    by (auto simp: owned_by_def)
  have "co_static pb c'"
  proof (rule co_static_partition_parts [OF st s(2) pl new cc])
    fix v wr' assume "map_of (co_workers c') v = Some wr'"
    then obtain wr0 where wr0: "map_of (co_workers c) v = Some wr0"
      "wr' = (if v = w then dec wr0 else wr0)"
      by (auto simp: c' split: if_splits)
    have "worker_ok c v wr0" by (rule co_staticD(9) [OF st wr0(1)])
    moreover have "unat (wr_available_slots wr - 1) + 1 = unat (wr_available_slots wr)"
      using unat_word_pred [OF w(3)] w(3) unat_gt_0 [of "wr_available_slots wr"] by (simp add: word_gt_0)
    ultimately show "worker_ok c' v wr'"
      using wr0 w count [of v] by (cases "v = w") (simp_all add: worker_ok_def c' dec_def)
  qed (use co_staticD(2) [OF st] in \<open>simp_all add: c'\<close>)
  moreover have "owners_alive c'"
    unfolding c'
    by (intro owners_alive_set_worker owners_alive_set_partition [OF own])
      (use w in \<open>auto simp: owned_by_def dec_def\<close>)
  ultimately show ?thesis by (simp add: co_inv_def)
qed

lemma co_inv_next_assignment_for:
  assumes inv: "co_inv pb c" and step: "next_assignment_for pb w now c = (res, c')"
  shows "co_inv pb c'"
  using step co_inv_advance [OF inv, of now] co_inv_assign_to_worker [of pb "advance_time now c" w]
  by (auto simp: next_assignment_for_def Let_def word_gt_0 split: option.splits if_splits)

lemma co_inv_next_assignment:
  assumes inv: "co_inv pb c" and step: "next_assignment pb now c = (res, c')"
  shows "co_inv pb c'"
proof (cases "find (\<lambda>(_, wr). wr_alive wr \<and> 0 < wr_available_slots wr)
    (co_workers (advance_time now c))")
  case None
  with step co_inv_advance [OF inv] show ?thesis by (auto simp: next_assignment_def Let_def)
next
  case (Some x)
  obtain w wr where x: "x = (w, wr)" by (cases x)
  have adv: "co_inv pb (advance_time now c)" by (rule co_inv_advance [OF inv])
  then have "bt_ok (co_workers (advance_time now c))" by (simp add: co_inv_def co_static_def)
  moreover from Some x have "(w, wr) \<in> set (co_workers (advance_time now c))"
    and ok: "wr_alive wr" "0 < wr_available_slots wr"
    by (auto simp: find_Some_iff) (metis nth_mem)
  ultimately have "map_of (co_workers (advance_time now c)) w = Some wr"
    by (simp add: bt_in_set_iff)
  then show ?thesis
    using co_inv_assign_to_worker [OF adv _ ok] step Some x
    by (auto simp: next_assignment_def Let_def)
qed

section \<open>Task updates\<close>

lemma block_validate_for_ok:
  "block_validate_for b t w = Inr u \<Longrightarrow> block_validate b = Inr () \<and> sb_producer b = t"
  by (auto simp: block_validate_for_def rbind_eq_Inr)

lemma update_cancelling_ok:
  assumes "update_cancelling w t state now cur owner l = Inr (p', rel)"
  shows "owner = w \<and> cur = t
    \<and> (if rel then p' = PtCancelled else p' = PtCancelling cur owner l)"
  using assms by (auto simp: update_cancelling_def rbind_eq_Inr split: task_state.splits)

lemma update_active_ok:
  assumes "update_active cfg w t state now cur owner l started = Inr (p', rel)"
  shows "owner = w \<and> cur = t \<and> now < lease_expires_at_ms l \<and>
    (case state of
       Running ts \<Rightarrow> p' = PtActive cur owner l (Some ts) \<and> \<not> rel
         \<and> (started = None \<or> started = Some ts)
     | Succeeded _ bs \<Rightarrow> p' = PtSucceeded t bs \<and> rel
     | Failed _ err retryable \<Rightarrow> rel \<and>
         p' = (if retryable then retry_or_fail (cfg_max_task_attempts cfg) (ta_attempt t) err
               else PtFailed (ta_attempt t) err False)
     | Cancelled _ _ \<Rightarrow> p' = PtCancelled \<and> rel)"
  using assms
  by (auto simp: update_active_def rbind_eq_Inr not_le split: task_state.splits option.splits if_splits)

lemma update_partition_sound:
  assumes upd: "update_partition cfg pl w t state now p = Inr (p', rel)"
    and p: "part_ok cfg k i pl p" "cancel_consistent b p"
    and state: "task_state_validate_for state t w = Inr ()"
  shows "part_ok cfg k i pl p'" and "cancel_consistent b p'"
    and "if rel then owned_by w p \<and> (\<forall>v. \<not> owned_by v p') else \<forall>v. owned_by v p' \<longrightarrow> owned_by v p"
proof -
  from upd have ex: "check_exchange_output pl state = Inr ()"
    by (auto simp: update_partition_def rbind_eq_Inr split: if_splits)
  from upd consider (cancelling) cur owner l where "p = PtCancelling cur owner l"
      "update_cancelling w t state now cur owner l = Inr (p', rel)"
    | (active) cur owner l started where "p = PtActive cur owner l started"
      "update_active cfg w t state now cur owner l started = Inr (p', rel)"
    by (auto simp: update_partition_def rbind_eq_Inr split: if_splits partition_runtime.splits)
  then have "part_ok cfg k i pl p' \<and> cancel_consistent b p' \<and>
    (if rel then owned_by w p \<and> (\<forall>v. \<not> owned_by v p') else \<forall>v. owned_by v p' \<longrightarrow> owned_by v p)"
  proof cases
    case cancelling
    from update_cancelling_ok [OF cancelling(2)] p cancelling(1) show ?thesis
      by (auto simp: owned_by_def cancel_consistent_def split: if_splits)
  next
    case active
    note upd = update_active_ok [OF active(2)]
    show ?thesis
    proof (cases state)
      case (Running ts)
      with upd p active(1) show ?thesis by (auto simp: owned_by_def cancel_consistent_def)
    next
      case (Succeeded ts bs)
      then have "\<forall>x\<in>set bs. block_validate x = Inr () \<and> sb_producer x = t"
        using state block_validate_for_ok by (simp add: rall_eq_Inr) blast
      moreover have "sp_output_exchange pl = Some x \<longrightarrow> exchange_blocks_ok x bs" for x
        using ex Succeeded by (auto simp: check_exchange_output_def)
      ultimately show ?thesis
        using Succeeded upd p active(1) by (simp add: owned_by_def cancel_consistent_def)
    next
      case (Failed ts err retryable)
      with upd p active(1) show ?thesis
        by (cases retryable)
          (simp_all add: part_ok_retry cancel_consistent_retry owned_by_def [of _ "PtActive _ _ _ _"]
            cancel_consistent_def [of _ "PtActive _ _ _ _"] cancel_consistent_def [of _ "PtFailed _ _ _"])
    next
      case (Cancelled ts reason)
      with upd p active(1) show ?thesis by (simp add: owned_by_def cancel_consistent_def)
    qed
  qed
  then show "part_ok cfg k i pl p'" and "cancel_consistent b p'"
    and "if rel then owned_by w p \<and> (\<forall>v. \<not> owned_by v p') else \<forall>v. owned_by v p' \<longrightarrow> owned_by v p"
    by blast+
qed

lemma record_task_update_cases:
  assumes "record_task_update w t state now c = (res, c')"
  obtains "c' = c" "\<not> is_ok res"
  | k i p p' rel pl where "k = (ta_query_id t, ta_stage_id t)" "i = unat (ta_partition_id t)"
    "part c k i = Some p" "plan c k = Some pl" "res = Inr ()"
    "update_partition (co_config c) pl w t state now p = Inr (p', rel)"
    "c' = (if rel then release_worker_slot w (set_partition k i p' c) else set_partition k i p' c)"
proof (cases "is_ok res")
  case False
  then obtain e where "res = Inl e" by (cases res) auto
  then have "c' = c"
    using assms by (auto simp: record_task_update_def Let_def
        split: if_splits option.splits sum.splits prod.splits)
  then show thesis using False by (rule that(1))
next
  case True
  define k where "k = (ta_query_id t, ta_stage_id t)"
  define i where "i = unat (ta_partition_id t)"
  from True obtain u where "res = Inr u" by (cases res) auto
  with assms obtain st where st: "map_of (co_stages c) k = Some st" "i < length (st_partitions st)"
    by (auto simp: record_task_update_def Let_def k_def i_def split: if_splits option.splits sum.splits)
  from \<open>res = Inr u\<close> assms st obtain p' rel where
    upd: "update_partition (co_config c) (st_plan st) w t state now (st_partitions st ! i) = Inr (p', rel)"
    and res: "res = Inr ()"
      "c' = (if rel then release_worker_slot w (set_partition k i p' c) else set_partition k i p' c)"
    by (auto simp: record_task_update_def Let_def k_def i_def split: if_splits sum.splits prod.splits)
  show thesis
    by (rule that(2) [OF k_def i_def _ _ res(1) upd res(2)]) (use st in \<open>simp_all add: part_def plan_def\<close>)
qed

lemma co_inv_task_update:
  assumes inv: "co_inv pb c" and state: "task_state_validate_for state t w = Inr ()"
    and step: "record_task_update w t state now c = (res, c')"
  shows "co_inv pb c'"
  using step
proof (cases rule: record_task_update_cases)
  case 1
  with inv show ?thesis by simp
next
  case (2 k i p p' rel pl)
  from inv have st: "co_static pb c" and own: "owners_alive c" by (simp_all add: co_inv_def)
  note sound = update_partition_sound [OF 2(6) co_staticD(7) [OF st 2(3,4)] co_staticD(8) [OF st 2(3)] state]
  have "co_static pb c'"
    using co_static_set_partition [OF st 2(3,4) sound(1,2)]
      co_static_finish [OF st 2(3,4) sound(1,2), of w] sound(3) 2(7)
    by (cases rel) auto
  moreover have "owners_alive (set_partition k i p' c)"
    using sound(3) owners_aliveD [OF own 2(3)]
    by (intro owners_alive_set_partition [OF own]) (cases rel; auto)
  then have "owners_alive c'" using 2(7) owners_alive_release by (cases rel) auto
  ultimately show ?thesis by (simp add: co_inv_def)
qed

lemma co_inv_message:
  assumes inv: "co_inv pb c" and step: "handle_worker_message m now c = (res, c')"
  shows "co_inv pb c'"
proof (cases "worker_message_validate m")
  case (Inl e)
  with step inv show ?thesis by (simp add: handle_worker_message_def)
next
  case (Inr u)
  note adv = co_inv_advance [OF inv, of now]
  show ?thesis
    using step Inr co_inv_register [OF adv] co_inv_heartbeat [OF adv] co_inv_task_update [OF adv]
    by (cases m) (auto simp: handle_worker_message_def rbind_eq_Inr)
qed

lemma co_inv_step: "co_inv pb c \<Longrightarrow> co_step pb c c' \<Longrightarrow> co_inv pb c'"
  by (erule co_step.cases)
    (auto intro: co_inv_submit co_inv_message co_inv_next_assignment co_inv_next_assignment_for
      co_inv_cancel co_inv_advance)

section \<open>Progress of a partition\<close>

text \<open>
  \<open>progress\<close> orders the states a partition goes through: attempt by attempt pending, assigned,
  started; then failed, cancelling, and the two final states.  Every operation leaves a partition
  as it is or moves it strictly up.
\<close>

fun progress :: "partition_runtime \<Rightarrow> nat" where
  "progress (PtPending n) = 3 * unat n"
| "progress (PtActive t _ _ s) = 3 * unat (ta_attempt t) + (if s = None then 1 else 2)"
| "progress (PtFailed _ _ _) = 3 * 2 ^ 32"
| "progress (PtCancelling _ _ _) = 3 * 2 ^ 32 + 1"
| "progress (PtSucceeded _ _) = 3 * 2 ^ 32 + 2"
| "progress PtCancelled = 3 * 2 ^ 32 + 2"

definition moves_up :: "partition_runtime \<Rightarrow> partition_runtime \<Rightarrow> bool" where
  "moves_up p p' \<longleftrightarrow> p = p' \<or> progress p < progress p'"

definition ahead :: "coordinator \<Rightarrow> coordinator \<Rightarrow> bool" where
  "ahead c c' \<longleftrightarrow>
     co_config c' = co_config c
     \<and> (\<forall>k pl. plan c k = Some pl \<longrightarrow> plan c' k = Some pl)
     \<and> (\<forall>k i p. part c k i = Some p \<longrightarrow> (\<exists>p'. part c' k i = Some p' \<and> moves_up p p'))
     \<and> (\<forall>q r. map_of (co_cancelled c) q = Some r \<longrightarrow> map_of (co_cancelled c') q = Some r)
     \<and> (\<forall>w wr. map_of (co_workers c) w = Some wr \<longrightarrow> map_of (co_workers c') w \<noteq> None)"

lemma moves_up_refl [simp]: "moves_up p p"
  by (simp add: moves_up_def)

lemma moves_up_trans: "moves_up p q \<Longrightarrow> moves_up q r \<Longrightarrow> moves_up p r"
  by (auto simp: moves_up_def)

lemma ahead_refl [simp]: "ahead c c"
  by (simp add: ahead_def)

lemma ahead_trans:
  assumes "ahead c d" and "ahead d e"
  shows "ahead c e"
proof -
  note c = assms(1) [unfolded ahead_def] and d = assms(2) [unfolded ahead_def]
  have "\<exists>p'. part e k i = Some p' \<and> moves_up p p'" if "part c k i = Some p" for k i p
  proof -
    from c that obtain q where q: "part d k i = Some q" "moves_up p q" by blast
    from d q(1) obtain r where "part e k i = Some r" "moves_up q r" by blast
    with q(2) show ?thesis by (blast intro: moves_up_trans)
  qed
  moreover have "map_of (co_workers e) w \<noteq> None" if "map_of (co_workers c) w = Some wr" for w wr
    using c d that by (metis option.exhaust)
  ultimately show ?thesis using c d unfolding ahead_def by simp
qed

lemma progress_active: "progress (PtActive t w l s) < 3 * 2 ^ 32"
  using unat_u32 [of "ta_attempt t"] by auto

lemma progress_pending: "progress (PtPending n) < 3 * 2 ^ 32"
  using unat_u32 [of n] by auto

lemma moves_up_retry: "moves_up (PtActive t w l s) (retry_or_fail m (ta_attempt t) err)"
proof (cases "saturating_add (ta_attempt t) 1 < m")
  case True
  then have "unat (saturating_add (ta_attempt t) 1) < unat m" by (simp add: word_less_nat_alt)
  moreover have "unat m < 2 ^ 32" using unat_u32 [of m] by simp
  ultimately have "unat (saturating_add (ta_attempt t) 1) = unat (ta_attempt t) + 1"
    by (simp add: unat_saturating_add)
  with True show ?thesis by (simp add: retry_or_fail_def moves_up_def)
next
  case False
  then show ?thesis using progress_active [of t w l s]
    by (simp add: retry_or_fail_def moves_up_def del: progress.simps(2))
qed

lemma moves_up_expire: "moves_up p (expire_partition cfg dead now p)"
proof (cases p)
  case (PtActive t w l s)
  then show ?thesis using moves_up_retry by (simp add: expire_partition_def)
qed (simp_all add: expire_partition_def expires_def moves_up_def)

lemma moves_up_cancel:
  assumes "cancel_consistent False p"
  shows "moves_up p (cancel_partition p)"
proof (cases p)
  case (PtPending n)
  then show ?thesis using unat_u32 [of n] by (simp add: moves_up_def)
next
  case (PtActive t w l s)
  then show ?thesis using unat_u32 [of "ta_attempt t"] by (simp add: moves_up_def)
qed (use assms in \<open>simp_all add: moves_up_def cancel_consistent_def\<close>)

lemma moves_up_update:
  assumes "update_partition cfg pl w t state now p = Inr (p', rel)"
  shows "moves_up p p'"
proof -
  from assms consider (cancelling) cur owner l where "p = PtCancelling cur owner l"
      "update_cancelling w t state now cur owner l = Inr (p', rel)"
    | (active) cur owner l started where "p = PtActive cur owner l started"
      "update_active cfg w t state now cur owner l started = Inr (p', rel)"
    by (auto simp: update_partition_def rbind_eq_Inr split: if_splits partition_runtime.splits)
  then show ?thesis
  proof cases
    case cancelling
    from update_cancelling_ok [OF cancelling(2)] cancelling(1) show ?thesis
      by (auto simp: moves_up_def split: if_splits)
  next
    case active
    note upd = update_active_ok [OF active(2)] and low = progress_active [of cur owner l started]
    show ?thesis
    proof (cases state)
      case (Running ts)
      with upd active(1) show ?thesis by (auto simp: moves_up_def)
    next
      case (Failed ts err retryable)
      with upd active(1) low show ?thesis
        by (cases retryable) (simp_all add: moves_up_retry moves_up_def [of _ "PtFailed _ _ _"])
    qed (use upd active(1) low in \<open>simp_all add: moves_up_def\<close>)
  qed
qed

lemma aheadI:
  assumes "co_config c' = co_config c" and "plan c' = plan c"
    and "\<And>k i p. part c k i = Some p \<Longrightarrow> \<exists>p'. part c' k i = Some p' \<and> moves_up p p'"
    and "\<And>q r. map_of (co_cancelled c) q = Some r \<Longrightarrow> map_of (co_cancelled c') q = Some r"
    and "\<And>w. map_of (co_workers c) w \<noteq> None \<Longrightarrow> map_of (co_workers c') w \<noteq> None"
  shows "ahead c c'"
  using assms unfolding ahead_def by simp

lemma ahead_set_worker: "ahead c (set_worker w f c)"
  by (rule aheadI) auto

lemma ahead_set_partition:
  assumes "part c k i = Some p" and "moves_up p p'"
  shows "ahead c (set_partition k i p' c)"
  using assms by (intro aheadI) (auto simp: part_set_partition)

lemma ahead_advance:
  assumes "co_static pb c"
  shows "ahead c (advance_time now c)"
proof (rule aheadI)
  fix w assume "map_of (co_workers c) w \<noteq> None"
  with advance_time_facts(6) [OF assms, of now w]
  show "map_of (co_workers (advance_time now c)) w \<noteq> None" by auto
qed (simp_all add: advance_time_facts [OF assms] moves_up_expire)

lemma ahead_assign:
  assumes st: "co_static pb c" and w: "map_of (co_workers c) w = Some wr"
    and step: "assign_to_worker pb w now c = (res, c')"
  shows "ahead c c'"
proof (cases "c' = c")
  case False
  then obtain k i n e t l f where sel: "next_pending_partition c = Some (k, i, n)"
    and c': "c' = set_worker w f (set_partition k i (PtActive t w l None) c)" "ta_attempt t = n"
    using step
    by (auto simp: assign_to_worker_spec [OF st w] Let_def split: option.splits prod.splits)
  have "part c k i = Some (PtPending n)"
    using next_pending_Some [OF co_staticD(3) [OF st] sel] by blast
  then have "ahead c (set_partition k i (PtActive t w l None) c)"
    by (rule ahead_set_partition) (simp add: moves_up_def c'(2))
  then show ?thesis unfolding c' by (rule ahead_trans) (rule ahead_set_worker)
qed simp

lemma ahead_next_assignment_for:
  assumes "co_inv pb c" and "next_assignment_for pb w now c = (res, c')"
  shows "ahead c c'"
proof -
  from assms(1) have st: "co_static pb c" by (simp add: co_inv_def)
  note adv = ahead_advance [OF st, of now] and st' = advance_time_facts(1) [OF st, of now]
  show ?thesis
  proof (cases "map_of (co_workers (advance_time now c)) w")
    case None
    with assms(2) adv show ?thesis by (simp add: next_assignment_for_def)
  next
    case (Some wr)
    with assms(2) adv ahead_assign [OF st' Some, of now res c'] show ?thesis
      by (auto simp: next_assignment_for_def Let_def split: if_splits intro: ahead_trans)
  qed
qed

lemma ahead_next_assignment:
  assumes "co_inv pb c" and "next_assignment pb now c = (res, c')"
  shows "ahead c c'"
proof -
  from assms(1) have st: "co_static pb c" by (simp add: co_inv_def)
  note adv = ahead_advance [OF st, of now] and st' = advance_time_facts(1) [OF st, of now]
  show ?thesis
  proof (cases "find (\<lambda>(_, wr). wr_alive wr \<and> 0 < wr_available_slots wr)
      (co_workers (advance_time now c))")
    case None
    with assms(2) adv show ?thesis by (auto simp: next_assignment_def Let_def)
  next
    case (Some x)
    obtain w wr where x: "x = (w, wr)" by (cases x)
    with Some have "(w, wr) \<in> set (co_workers (advance_time now c))"
      by (auto simp: find_Some_iff) (metis nth_mem)
    then have "map_of (co_workers (advance_time now c)) w = Some wr"
      by (simp add: bt_in_set_iff [OF co_staticD(2) [OF st']])
    from ahead_assign [OF st' this, of now res c'] assms(2) Some x adv show ?thesis
      by (auto simp: next_assignment_def Let_def intro: ahead_trans)
  qed
qed

lemma ahead_submit:
  assumes "submit_stage pb s c = (res, c')"
  shows "ahead c c'"
proof (cases "submit_checks pb c s")
  case (Inl e)
  with assms show ?thesis by (simp add: submit_stage_def)
next
  case (Inr u)
  note look = submit_stage_lookups [OF Inr assms]
  have fresh: "map_of (co_stages c) (sp_query_id s, sp_stage_id s) = None"
    by (rule submit_checks_ok(4) [OF Inr])
  then have "plan c (sp_query_id s, sp_stage_id s) = None"
    "\<And>i. part c (sp_query_id s, sp_stage_id s) i = None"
    by (simp_all add: plan_def part_def)
  then show ?thesis by (simp add: ahead_def look)
qed

lemma ahead_cancel:
  assumes inv: "co_inv pb c" and step: "cancel_query pb q reason c = (res, c')"
  shows "ahead c c'"
  using step
proof (cases rule: cancel_query_cases)
  case 2
  note look = cancel_lookups [OF 2(1)]
  from inv have st: "co_static pb c" by (simp add: co_inv_def)
  show ?thesis
  proof (rule aheadI)
    show "plan c' = plan c" using look(2) by (rule ext)
    fix k i p assume p: "part c k i = Some p"
    show "\<exists>p'. part c' k i = Some p' \<and> moves_up p p'"
      using p co_staticD(8) [OF st p] 2(2) moves_up_cancel [of p] by (auto simp: look)
  qed (use 2(2) in \<open>auto simp: look\<close>, simp_all add: 2(1))
qed simp

lemma ahead_message:
  assumes inv: "co_inv pb c" and step: "handle_worker_message m now c = (res, c')"
  shows "ahead c c'"
proof (cases "worker_message_validate m")
  case (Inl e)
  with step show ?thesis by (simp add: handle_worker_message_def)
next
  case (Inr u)
  from inv have st: "co_static pb c" by (simp add: co_inv_def)
  have "ahead (advance_time now c) c'"
  proof (cases m)
    case (Register v r)
    with step Inr show ?thesis
      by (auto simp: handle_worker_message_def register_worker_def Let_def ahead_def part_def plan_def
          split: if_splits)
  next
    case (Heartbeat v h)
    with step Inr show ?thesis
      by (auto simp: handle_worker_message_def record_heartbeat_def Let_def
          intro: ahead_set_worker split: if_splits option.splits)
  next
    case (TaskUpdate v w t state)
    with step Inr have "record_task_update w t state now (advance_time now c) = (res, c')"
      by (simp add: handle_worker_message_def)
    then show ?thesis
    proof (cases rule: record_task_update_cases)
      case (2 k i p p' rel pl)
      have "ahead (advance_time now c) (set_partition k i p' (advance_time now c))"
        by (rule ahead_set_partition [OF 2(3) moves_up_update [OF 2(6)]])
      with 2(7) ahead_set_worker show ?thesis
        by (auto simp: release_worker_slot_def intro: ahead_trans split: if_splits)
    qed simp
  qed
  with ahead_advance [OF st] show ?thesis by (rule ahead_trans)
qed

lemma ahead_step: "co_inv pb c \<Longrightarrow> co_step pb c c' \<Longrightarrow> ahead c c'"
  by (erule co_step.cases)
    (auto intro: ahead_submit ahead_message ahead_next_assignment ahead_next_assignment_for
      ahead_cancel ahead_advance simp: co_inv_def)

section \<open>Runs\<close>

interpretation co: progress_system co_init "co_step pb" "co_inv pb" ahead for pb
  by unfold_locales (auto intro: co_inv_init co_inv_step ahead_step ahead_trans)

lemma reachable_co_inv: "reachable pb c \<Longrightarrow> co_inv pb c"
  unfolding reachable_def by (auto intro: co.reachable_inv)

lemma reachable_run: "reachable pb c \<Longrightarrow> (co_step pb)\<^sup>*\<^sup>* c c' \<Longrightarrow> reachable pb c'"
  unfolding reachable_def by (blast intro: rtranclp_trans)

lemma reachable_ahead: "reachable pb c \<Longrightarrow> (co_step pb)\<^sup>*\<^sup>* c c' \<Longrightarrow> ahead c c'"
  by (rule co.run_ahead) (auto intro: reachable_co_inv)

end
