(* ===== verification/Coordinator_Props.thy ===== *)
theory Coordinator_Props
  imports Coordinator_Inv
begin

text \<open>
  What the coordinator promises, over its public operations and all reachable states, and a
  concrete run that instantiates the theorems.

  The run: a coordinator with the default configuration, one query with a hash-exchanging producer
  stage of one task and a consumer stage that reads it by partition, and one worker.
\<close>

section \<open>A concrete run\<close>

definition demo_schema :: wire_schema where
  "demo_schema = \<lparr>ws_fields = [\<lparr>wf_name = ''id'', wf_data_type = 3, wf_nullable = False,
     wf_metadata = []\<rparr>], ws_metadata = []\<rparr>"

definition demo_root :: wire_plan where
  "demo_root = WirePlan (Some (WScan 0 ''t'' False [] [] (Some demo_schema)))"

text \<open>A decoder that knows one message: the bytes \<open>[1]\<close>.\<close>

definition demo_pb :: pb_decoder where
  "demo_pb bs = (if bs = [1] then Some \<lparr>env_version = 2, env_root = Some demo_root\<rparr> else None)"

definition demo_producer :: stage_plan where
  "demo_producer = \<lparr>sp_query_id = ''q'', sp_stage_id = 0, sp_input_stages = [],
     sp_partition_count = 1, sp_plan_fragment = [1],
     sp_output_exchange = Some \<lparr>hx_columns = [0], hx_partition_count = 1\<rparr>,
     sp_partitioned_input = False\<rparr>"

definition demo_consumer :: stage_plan where
  "demo_consumer = \<lparr>sp_query_id = ''q'', sp_stage_id = 1, sp_input_stages = [0],
     sp_partition_count = 1, sp_plan_fragment = [1], sp_output_exchange = None,
     sp_partitioned_input = True\<rparr>"

definition demo_task :: "stage_id \<Rightarrow> task_attempt_id" where
  "demo_task s = \<lparr>ta_query_id = ''q'', ta_stage_id = s, ta_partition_id = 0, ta_attempt = 0\<rparr>"

definition demo_block :: shuffle_block where
  "demo_block = \<lparr>sb_producer = demo_task 0, sb_output_partition = 0, sb_rows = 1, sb_bytes = 8,
     sb_checksum = ''c'', sb_location = WorkerLocation ''w''\<rparr>"

definition demo_lease :: "u64 \<Rightarrow> task_lease" where
  "demo_lease now = \<lparr>lease_worker_id = ''w'', lease_issued_at_ms = now,
     lease_expires_at_ms = now + 30000\<rparr>"

definition demo_registration :: worker_registration where
  "demo_registration = \<lparr>reg_worker_id = ''w'', reg_slots = 1, reg_memory_bytes = 1\<rparr>"

definition demo_new :: coordinator where
  "demo_new = \<lparr>co_config = default_config, co_workers = [], co_stages = [], co_cancelled = []\<rparr>"

definition demo_submitted :: coordinator where
  "demo_submitted = snd (submit_stage demo_pb demo_consumer (snd (submit_stage demo_pb demo_producer demo_new)))"

definition demo_registered :: coordinator where
  "demo_registered = snd (handle_worker_message (Register 5 demo_registration) 0 demo_submitted)"

definition demo_assigned :: coordinator where
  "demo_assigned = snd (next_assignment_for demo_pb ''w'' 10 demo_registered)"

definition demo_success :: worker_message where
  "demo_success = TaskUpdate 5 ''w'' (demo_task 0) (Succeeded 20 [demo_block])"

definition demo_succeeded :: coordinator where
  "demo_succeeded = snd (handle_worker_message demo_success 30 demo_assigned)"

definition demo_worker :: "u64 \<Rightarrow> u32 \<Rightarrow> worker_runtime" where
  "demo_worker received slots = \<lparr>wr_registration = demo_registration, wr_last_observed_at_ms = 0,
     wr_last_received_at_ms = received, wr_available_slots = slots, wr_available_memory_bytes = 1,
     wr_alive = True\<rparr>"

lemmas demo_defs = demo_schema_def demo_root_def demo_pb_def demo_producer_def demo_consumer_def
  demo_task_def demo_block_def demo_lease_def demo_registration_def demo_new_def demo_success_def
  demo_worker_def default_config_def

lemma demo_text [simp]: "\<not> blank ''q''" "\<not> blank ''w''" "\<not> blank ''t''" "\<not> blank ''c''" "\<not> blank ''id''"
  by (simp_all add: blank_letter byte_of_def)

lemma demo_fragment [simp]: "validate_fragment demo_pb [1] = Inr ()"
  by (simp add: demo_defs validate_fragment_def decode_envelope_def validate_fragment_size_def
      MAX_PLAN_FRAGMENT_BYTES_def PLAN_CODEC_VERSION_def check_depth_def MAX_PLAN_DEPTH_def
      decode_projection_def decode_required_schema_def required_def decode_schema_def decode_field_def
      decode_data_type_def decode_metadata_def validate_wire_exprs_def)

lemma demo_ids [simp]: "query_id_validate ''q'' = Inr ()" "worker_id_validate ''w'' = Inr ()"
  by (simp_all add: query_id_validate_def worker_id_validate_def validate_text_id_def)

lemma demo_stage_valid [simp]:
  "stage_plan_validate demo_pb demo_producer = Inr ()"
  "stage_plan_validate demo_pb demo_consumer = Inr ()"
  by (simp_all add: stage_plan_validate_def demo_producer_def demo_consumer_def)

lemma demo_submitted_eq:
  "demo_submitted = \<lparr>co_config = default_config, co_workers = [],
     co_stages = [((''q'', 0), \<lparr>st_plan = demo_producer, st_partitions = [PtPending 0]\<rparr>),
                  ((''q'', 1), \<lparr>st_plan = demo_consumer, st_partitions = [PtPending 0]\<rparr>)],
     co_cancelled = []\<rparr>"
proof -
  have 1: "submit_stage demo_pb demo_producer demo_new = (Inr (), demo_new\<lparr>co_stages :=
      [((''q'', 0), \<lparr>st_plan = demo_producer, st_partitions = [PtPending 0]\<rparr>)]\<rparr>)"
    by (simp add: submit_stage_def submit_checks_def)
      (simp add: demo_defs)
  show ?thesis
    unfolding demo_submitted_def 1
    by (simp add: submit_stage_def submit_checks_def check_partitioned_dependency_def)
      (simp add: demo_defs check_partitioned_dependency_def)
qed

lemmas advance_simps = advance_time_def timed_out_workers_def timed_out_def saturating_sub_def
  expired_tasks_def expired_entry_def

lemma demo_registered_eq:
  "demo_registered = demo_submitted\<lparr>co_workers := [(''w'', demo_worker 0 1)]\<rparr>"
  by (simp add: demo_registered_def handle_worker_message_def validate_version_def PROTOCOL_VERSION_def
      demo_submitted_eq register_worker_def registration_validate_def advance_simps demo_registration_def
      demo_worker_def)

lemma demo_assignment:
  "next_assignment_for demo_pb ''w'' 10 demo_registered =
     (Inr (Some (AssignTask 5 demo_producer (demo_task 0) (demo_lease 10) [])),
      demo_registered\<lparr>co_workers := [(''w'', demo_worker 0 0)],
        co_stages := [((''q'', 0), \<lparr>st_plan = demo_producer,
            st_partitions = [PtActive (demo_task 0) ''w'' (demo_lease 10) None]\<rparr>),
          ((''q'', 1), \<lparr>st_plan = demo_consumer, st_partitions = [PtPending 0]\<rparr>)]\<rparr>)"
proof -
  have adv: "advance_time 10 demo_registered = demo_registered"
    by (simp add: demo_registered_eq demo_submitted_eq advance_simps demo_worker_def default_config_def)
  have ok: "coordinator_message_validate demo_pb
      (AssignTask PROTOCOL_VERSION demo_producer (demo_task 0) (demo_lease 10) []) = Inr ()"
    by (simp add: validate_version_def task_validate_for_def task_validate_def lease_validate_def)
      (simp add: demo_task_def demo_lease_def demo_producer_def)
  show ?thesis
    unfolding next_assignment_for_def adv Let_def
    using ok
    by (simp add: demo_registered_eq demo_submitted_eq assign_to_worker_def next_pending_partition_def
        dependencies_succeeded_def checked_add_def dependency_output_blocks_def set_partition_def
        set_worker_def bt_update_def demo_worker_def demo_producer_def demo_task_def
        demo_lease_def default_config_def PROTOCOL_VERSION_def Let_def)
qed

lemma demo_assigned_eq:
  "demo_assigned = demo_registered\<lparr>co_workers := [(''w'', demo_worker 0 0)],
     co_stages := [((''q'', 0), \<lparr>st_plan = demo_producer,
         st_partitions = [PtActive (demo_task 0) ''w'' (demo_lease 10) None]\<rparr>),
       ((''q'', 1), \<lparr>st_plan = demo_consumer, st_partitions = [PtPending 0]\<rparr>)]\<rparr>"
  by (simp add: demo_assigned_def demo_assignment)

lemma demo_commit:
  "handle_worker_message demo_success 30 demo_assigned =
     (Inr (), demo_assigned\<lparr>co_workers := [(''w'', demo_worker 0 1)],
        co_stages := [((''q'', 0), \<lparr>st_plan = demo_producer,
            st_partitions = [PtSucceeded (demo_task 0) [demo_block]]\<rparr>),
          ((''q'', 1), \<lparr>st_plan = demo_consumer, st_partitions = [PtPending 0]\<rparr>)]\<rparr>)"
proof -
  have adv: "advance_time 30 demo_assigned = demo_assigned"
    by (simp add: demo_assigned_eq demo_registered_eq demo_submitted_eq advance_simps demo_worker_def
        default_config_def demo_lease_def demo_task_def)
  have ok: "worker_message_validate demo_success = Inr ()"
    by (simp add: demo_success_def validate_version_def PROTOCOL_VERSION_def block_validate_for_def
        block_validate_def task_validate_def demo_block_def demo_task_def)
  have upd: "update_partition default_config demo_producer ''w'' (demo_task 0)
      (Succeeded 20 [demo_block]) 30 (PtActive (demo_task 0) ''w'' (demo_lease 10) None)
      = Inr (PtSucceeded (demo_task 0) [demo_block], True)"
    by (simp add: update_partition_def check_exchange_output_def exchange_blocks_ok_def
        update_active_def validate_reported_time_def demo_lease_def demo_producer_def demo_block_def)
  have val: "task_validate_for (demo_task 0) demo_producer = Inr ()"
    by (simp add: task_validate_for_def task_validate_def demo_task_def demo_producer_def)
  have key: "ta_query_id (demo_task 0) = ''q''" "ta_stage_id (demo_task 0) = 0"
    "ta_partition_id (demo_task 0) = 0"
    by (simp_all add: demo_task_def)
  show ?thesis
    unfolding handle_worker_message_def ok adv Let_def
    using upd val key
    by (simp add: demo_success_def record_task_update_def demo_assigned_eq demo_registered_eq
        demo_submitted_eq release_worker_slot_def release_slot_def set_worker_def set_partition_def
        bt_update_def demo_worker_def demo_registration_def saturating_add_def Let_def)
qed

lemma demo_succeeded_eq:
  "demo_succeeded = demo_assigned\<lparr>co_workers := [(''w'', demo_worker 0 1)],
     co_stages := [((''q'', 0), \<lparr>st_plan = demo_producer,
         st_partitions = [PtSucceeded (demo_task 0) [demo_block]]\<rparr>),
       ((''q'', 1), \<lparr>st_plan = demo_consumer, st_partitions = [PtPending 0]\<rparr>)]\<rparr>"
  by (simp add: demo_succeeded_def demo_commit)

lemma demo_second_assignment:
  "fst (next_assignment_for demo_pb ''w'' 40 demo_succeeded) =
     Inr (Some (AssignTask 5 demo_consumer (demo_task 1) (demo_lease 40) [demo_block]))"
proof -
  have adv: "advance_time 40 demo_succeeded = demo_succeeded"
    by (simp add: demo_succeeded_eq demo_assigned_eq demo_registered_eq demo_submitted_eq advance_simps
        demo_worker_def default_config_def)
  have ok: "coordinator_message_validate demo_pb
      (AssignTask PROTOCOL_VERSION demo_consumer (demo_task 1) (demo_lease 40) [demo_block]) = Inr ()"
    by (simp add: validate_version_def task_validate_for_def task_validate_def lease_validate_def
        input_block_validate_def block_validate_def)
      (simp add: demo_task_def demo_lease_def demo_consumer_def demo_block_def)
  show ?thesis
    unfolding next_assignment_for_def adv Let_def
    using ok
    by (simp add: demo_succeeded_eq demo_assigned_eq demo_registered_eq demo_submitted_eq
        assign_to_worker_def next_pending_partition_def dependencies_succeeded_def checked_add_def
        dependency_output_blocks_def dependency_blocks_def succeeded_blocks_def is_succeeded_def
        demo_worker_def demo_producer_def demo_consumer_def demo_task_def demo_block_def
        demo_lease_def default_config_def PROTOCOL_VERSION_def Let_def)
qed

lemma demo_init: "co_init demo_new"
  by (auto simp: co_init_def coordinator_new_def config_validate_def demo_new_def default_config_def
      intro!: exI [of _ default_config])

lemma demo_reachable:
  "reachable demo_pb demo_registered" "reachable demo_pb demo_assigned"
  "reachable demo_pb demo_succeeded"
  "(co_step demo_pb)\<^sup>*\<^sup>* demo_assigned demo_succeeded"
proof -
  have "(co_step demo_pb)\<^sup>*\<^sup>* demo_new demo_submitted"
    unfolding demo_submitted_def
    by (rule rtranclp_trans [of _ _ "snd (submit_stage demo_pb demo_producer demo_new)"];
        rule r_into_rtranclp, rule co_step.submit, rule prod.collapse [symmetric])
  then have "(co_step demo_pb)\<^sup>*\<^sup>* demo_new demo_registered"
    by (rule rtranclp.rtrancl_into_rtrancl)
      (unfold demo_registered_def, rule co_step.message, rule prod.collapse [symmetric])
  then show r1: "reachable demo_pb demo_registered"
    using demo_init by (auto simp: reachable_def)
  have s2: "co_step demo_pb demo_registered demo_assigned"
    unfolding demo_assigned_def by (rule co_step.assign_for, rule prod.collapse [symmetric])
  then show r2: "reachable demo_pb demo_assigned" using reachable_run [OF r1] by blast
  have s3: "co_step demo_pb demo_assigned demo_succeeded"
    unfolding demo_succeeded_def by (rule co_step.message, rule prod.collapse [symmetric])
  then show "reachable demo_pb demo_succeeded" using reachable_run [OF r2] by blast
  from s3 show "(co_step demo_pb)\<^sup>*\<^sup>* demo_assigned demo_succeeded" by blast
qed

section \<open>Slots and attempts\<close>

text \<open>
  C1: In every reachable state a live worker's free slots and the tasks it owns (running or
  cancelling) together never exceed the slots it registered, and a worker declared dead has no free
  slot and owns no task.
\<close>

theorem no_overbooking:
  assumes "reachable pb c" and "map_of (co_workers c) w = Some wr"
  shows "if wr_alive wr
    then unat (wr_available_slots wr) + active_count c w \<le> unat (reg_slots (wr_registration wr))
    else wr_available_slots wr = 0 \<and> active_count c w = 0"
proof -
  have inv: "co_inv pb c" by (rule reachable_co_inv [OF assms(1)])
  then have "worker_ok c w wr" using co_staticD(9) assms(2) by (auto simp: co_inv_def)
  with unowned_count_0 [OF inv, of w] assms(2) show ?thesis by (auto simp: worker_ok_def)
qed

theorem no_overbooking_witness:
  "active_count demo_assigned ''w'' = 1 \<and>
   unat (wr_available_slots (demo_worker 0 0)) + active_count demo_assigned ''w'' \<le> 1"
proof -
  have "active_count demo_assigned ''w'' = 1"
    by (simp add: active_count_def demo_assigned_eq owned_by_def)
  then show ?thesis
    using no_overbooking [OF demo_reachable(2), of "''w''" "demo_worker 0 0"]
    by (simp add: demo_assigned_eq demo_worker_def demo_registration_def)
qed

lemma partition_status_part:
  "partition_status c q s p = Inr st \<longleftrightarrow>
     (\<exists>r. part c (q, s) (unat p) = Some r \<and> st = status_of_partition r)"
  by (auto simp: partition_status_def part_def split: option.splits)

text \<open>
  The attempt number a partition's public status shows is always below the configured
  maximum, so no task is ever attempted more than \<open>max_task_attempts\<close> times.
\<close>

theorem attempts_bounded:
  assumes "reachable pb c" and "partition_status c q s p = Inr st"
  shows "case st of
      StatusPending n \<Rightarrow> n < cfg_max_task_attempts (co_config c)
    | StatusRunning n \<Rightarrow> n < cfg_max_task_attempts (co_config c)
    | StatusCancelling n \<Rightarrow> n < cfg_max_task_attempts (co_config c)
    | StatusSucceeded n \<Rightarrow> n < cfg_max_task_attempts (co_config c)
    | StatusFailed n _ _ \<Rightarrow> n < cfg_max_task_attempts (co_config c)
    | StatusCancelled \<Rightarrow> True"
proof -
  from assms(2) obtain r where r: "part c (q, s) (unat p) = Some r" "st = status_of_partition r"
    by (auto simp: partition_status_part)
  moreover obtain pl where "plan c (q, s) = Some pl" using plan_of_part [OF r(1)] by blast
  ultimately have "part_ok (co_config c) (q, s) (unat p) pl r"
    using co_staticD(7) [OF _ r(1)] reachable_co_inv [OF assms(1)] by (auto simp: co_inv_def)
  with r(2) show ?thesis by (cases r) simp_all
qed

theorem attempts_bounded_witness: "(0 :: u32) < cfg_max_task_attempts (co_config demo_assigned)"
  using attempts_bounded [OF demo_reachable(2), of "''q''" 0 0 "StatusRunning 0"]
  by (simp add: partition_status_def demo_assigned_eq demo_task_def)

section \<open>Assignments\<close>

lemma next_assignment_for_Some:
  assumes st: "co_static pb c"
    and step: "next_assignment_for pb w now c = (Inr (Some (AssignTask v pl t l bs)), c')"
  obtains k i n e where
    "k = (ta_query_id t, ta_stage_id t)" "next_pending_partition (advance_time now c) = Some (k, i, n)"
    "plan (advance_time now c) k = Some pl" "ta_attempt t = n" "ta_partition_id t = of_nat i"
    "l = \<lparr>lease_worker_id = w, lease_issued_at_ms = now, lease_expires_at_ms = e\<rparr>"
    "checked_add now (cfg_lease_duration_ms (co_config (advance_time now c))) = Some e"
    "bs = assigned_inputs (advance_time now c) pl i" "v = PROTOCOL_VERSION"
    "map_of (co_workers (advance_time now c)) w \<noteq> None"
    "c' = set_worker w (\<lambda>wr. wr\<lparr>wr_available_slots := wr_available_slots wr - 1\<rparr>)
       (set_partition k i (PtActive t w l None) (advance_time now c))"
proof -
  define d where "d = advance_time now c"
  have st': "co_static pb d" unfolding d_def by (rule advance_time_facts(1) [OF st])
  from step obtain wr where w: "map_of (co_workers d) w = Some wr"
    and asg: "assign_to_worker pb w now d = (Inr (Some (AssignTask v pl t l bs)), c')"
    by (auto simp: next_assignment_for_def d_def Let_def split: option.splits if_splits)
  from asg obtain k i n e where sel: "next_pending_partition d = Some (k, i, n)"
    and e: "checked_add now (cfg_lease_duration_ms (co_config d)) = Some e"
    by (auto simp: assign_to_worker_spec [OF st' w] split: option.splits prod.splits)
  obtain s where "map_of (co_stages d) k = Some s"
    using next_pending_Some [OF co_staticD(3) [OF st'] sel] by blast
  then have "plan d k = Some (the (plan d k))" by (simp add: plan_def)
  with asg sel e w show thesis
    by (intro that [of k i n e, folded d_def])
      (auto simp: assign_to_worker_spec [OF st' w] Let_def)
qed

lemma next_assignment_for_selected:
  assumes "co_static pb c"
    and "next_assignment_for pb w now c = (Inr (Some (AssignTask v pl t l bs)), c')"
  obtains k i n where
    "k = (ta_query_id t, ta_stage_id t)" "next_pending_partition (advance_time now c) = Some (k, i, n)"
    "ta_attempt t = n" "ta_partition_id t = of_nat i"
    "c' = set_worker w (\<lambda>wr. wr\<lparr>wr_available_slots := wr_available_slots wr - 1\<rparr>)
       (set_partition k i (PtActive t w l None) (advance_time now c))"
  using assms by (rule next_assignment_for_Some) (rule that)

lemma next_pending_index:
  assumes st: "co_static pb c" and sel: "next_pending_partition c = Some (k, i, n)"
  shows "unat (of_nat i :: u32) = i"
proof -
  obtain s where s: "map_of (co_stages c) k = Some s" "part c k i = Some (PtPending n)"
    using next_pending_Some [OF co_staticD(3) [OF st] sel] by blast
  then have "i < unat (sp_partition_count (st_plan s))"
    using co_staticD(5) [OF st s(1)] by (simp add: part_def split: if_splits)
  then show ?thesis
    using unat_u32 [of "sp_partition_count (st_plan s)"] by (simp add: unat_of_nat_small)
qed

lemma all_succeeded_status:
  assumes "map_of (co_stages c) (q, s) = Some st" and "list_all is_succeeded (st_partitions st)"
    and "map_of (co_cancelled c) q = None"
  shows "stage_status c q s = Inr StageSucceeded"
proof -
  have "\<not> list_ex is_failed (st_partitions st)"
    using assms(2) by (auto simp: list_all_iff list_ex_iff is_succeeded_def is_failed_def
        split: partition_runtime.splits)
  with assms show ?thesis by (simp add: stage_status_def)
qed

text \<open>
  C2: An assignment handed to a worker is a valid protocol message whose lease names that
  worker; its partition was pending with exactly that attempt number and is running afterwards; its
  query is not cancelled and every stage it depends on has succeeded.
\<close>

theorem assignment_sound:
  assumes "reachable pb c"
    and "next_assignment_for pb w now c = (Inr (Some (AssignTask v pl t l bs)), c')"
  shows "coordinator_message_validate pb (AssignTask v pl t l bs) = Inr ()
    \<and> lease_worker_id l = w
    \<and> partition_status (advance_time now c) (ta_query_id t) (ta_stage_id t) (ta_partition_id t)
        = Inr (StatusPending (ta_attempt t))
    \<and> partition_status c' (ta_query_id t) (ta_stage_id t) (ta_partition_id t)
        = Inr (StatusRunning (ta_attempt t))
    \<and> map_of (co_cancelled c) (ta_query_id t) = None
    \<and> (\<forall>d\<in>set (sp_input_stages pl).
        stage_status (advance_time now c) (ta_query_id t) d = Inr StageSucceeded)"
proof -
  from reachable_co_inv [OF assms(1)] have st0: "co_static pb c" by (simp add: co_inv_def)
  define d where "d = advance_time now c"
  have st: "co_static pb d" unfolding d_def by (rule advance_time_facts(1) [OF st0])
  obtain k i n e where a: "k = (ta_query_id t, ta_stage_id t)" "next_pending_partition d = Some (k, i, n)"
    "plan d k = Some pl" "ta_attempt t = n" "ta_partition_id t = of_nat i"
    "l = \<lparr>lease_worker_id = w, lease_issued_at_ms = now, lease_expires_at_ms = e\<rparr>"
    "checked_add now (cfg_lease_duration_ms (co_config d)) = Some e"
    "bs = assigned_inputs d pl i" "v = PROTOCOL_VERSION" "map_of (co_workers d) w \<noteq> None"
    "c' = set_worker w (\<lambda>wr. wr\<lparr>wr_available_slots := wr_available_slots wr - 1\<rparr>)
       (set_partition k i (PtActive t w l None) d)"
    unfolding d_def by (rule next_assignment_for_Some [OF st0 assms(2)])
  obtain s where s: "map_of (co_stages d) k = Some s" "part d k i = Some (PtPending n)"
    "map_of (co_cancelled d) (fst k) = None" "dependencies_succeeded d s"
    using next_pending_Some [OF co_staticD(3) [OF st] a(2)] by blast
  have idx: "unat (ta_partition_id t) = i" using next_pending_index [OF st a(2)] a(5) by simp
  have plan: "st_plan s = pl" "sp_query_id pl = fst k"
    using s(1) a(3) co_staticD(6) [OF st a(3)] by (auto simp: plan_def plan_ok_def)
  have i: "i < unat (sp_partition_count pl)"
    using s(1,2) co_staticD(5) [OF st s(1)] plan by (simp add: part_def split: if_splits)
  obtain wr where "map_of (co_workers d) w = Some wr" using a(10) by auto
  from assignment_valid [OF st a(3) i this a(7), of n]
  have "coordinator_message_validate pb (AssignTask v pl t l bs) = Inr ()"
    using a by (cases t) simp
  moreover have "partition_status c' (ta_query_id t) (ta_stage_id t) (ta_partition_id t)
        = Inr (StatusRunning (ta_attempt t))"
    using s(2) a(1) by (simp add: partition_status_part a(11) part_set_partition idx)
  moreover have "partition_status d (ta_query_id t) (ta_stage_id t) (ta_partition_id t)
        = Inr (StatusPending (ta_attempt t))"
    using s(2) a(1,4) by (simp add: partition_status_part idx)
  moreover have "stage_status d (ta_query_id t) x = Inr StageSucceeded"
    if "x \<in> set (sp_input_stages pl)" for x
    using s(3,4) that a(1) plan all_succeeded_status [of d "ta_query_id t" x]
    by (auto simp: dependencies_succeeded_def list_all_iff split: option.splits)
  moreover have "map_of (co_cancelled c) (ta_query_id t) = None"
    using s(3) a(1) advance_time_facts(3) [OF st0, of now] by (simp add: d_def)
  ultimately show ?thesis by (simp add: a(6) d_def)
qed

theorem assignment_sound_witness:
  "partition_status demo_assigned ''q'' 0 0 = Inr (StatusRunning 0)
   \<and> lease_worker_id (demo_lease 10) = ''w''"
proof -
  have "next_assignment_for demo_pb ''w'' 10 demo_registered =
      (Inr (Some (AssignTask 5 demo_producer (demo_task 0) (demo_lease 10) [])), demo_assigned)"
    by (simp add: demo_assigned_def demo_assignment)
  from assignment_sound [OF demo_reachable(1) this] show ?thesis by (simp add: demo_task_def)
qed

text \<open>
  Asking for work never fails for a registered worker in a reachable state, as long as the
  lease end fits a 64-bit timestamp: the internal validation of the assignment, the lookup of the
  inputs and the panicking lookups all succeed.
\<close>

theorem assignment_total:
  assumes "reachable pb c" and "map_of (co_workers c) w \<noteq> None"
    and "unat now + unat (cfg_lease_duration_ms (co_config c)) < 2 ^ 64"
  shows "\<exists>m. fst (next_assignment_for pb w now c) = Inr m"
proof -
  from reachable_co_inv [OF assms(1)] have st0: "co_static pb c" by (simp add: co_inv_def)
  define d where "d = advance_time now c"
  have st: "co_static pb d" unfolding d_def by (rule advance_time_facts(1) [OF st0])
  obtain wr where w: "map_of (co_workers d) w = Some wr"
    using assms(2) advance_time_facts(6) [OF st0, of now w] by (auto simp: d_def)
  have "checked_add now (cfg_lease_duration_ms (co_config d)) \<noteq> None"
    using assms(3) advance_time_facts(2) [OF st0, of now] by (simp add: checked_add_def d_def)
  then have "\<exists>m. fst (assign_to_worker pb w now d) = Inr m"
    by (auto simp: assign_to_worker_spec [OF st w] Let_def split: option.splits prod.splits)
  with w show ?thesis by (auto simp: next_assignment_for_def d_def [symmetric] Let_def)
qed

theorem assignment_total_witness:
  "\<exists>m. fst (next_assignment_for demo_pb ''w'' 10 demo_registered) = Inr m"
  by (rule assignment_total [OF demo_reachable(1)])
    (simp_all add: demo_registered_eq demo_submitted_eq default_config_def)

text \<open>
  C26: Work is not withheld: when the worker is alive with a free slot and some stage of a
  query that is not cancelled has all its dependencies succeeded and a pending partition, asking for
  work returns an assignment.
\<close>

theorem assignment_live:
  assumes "reachable pb c" and "unat now + unat (cfg_lease_duration_ms (co_config c)) < 2 ^ 64"
    and "map_of (co_workers (advance_time now c)) w = Some wr" "wr_alive wr" "0 < wr_available_slots wr"
    and "map_of (co_stages (advance_time now c)) (q, s) = Some st"
    and "map_of (co_cancelled c) q = None"
    and "dependencies_succeeded (advance_time now c) st" "PtPending n \<in> set (st_partitions st)"
  shows "\<exists>m. fst (next_assignment_for pb w now c) = Inr (Some m)"
proof -
  from reachable_co_inv [OF assms(1)] have st0: "co_static pb c" by (simp add: co_inv_def)
  define d where "d = advance_time now c"
  have stat: "co_static pb d" unfolding d_def by (rule advance_time_facts(1) [OF st0])
  have "next_pending_partition d \<noteq> None"
  proof
    assume "next_pending_partition d = None"
    moreover have "((q, s), st) \<in> set (co_stages d)"
      using assms(6) [folded d_def] by (simp add: bt_in_set_iff [OF co_staticD(3) [OF stat]])
    moreover have "map_of (co_cancelled d) (fst (q, s)) = None"
      using assms(7) advance_time_facts(3) [OF st0, of now] by (simp add: d_def)
    ultimately have "first_pending 0 (st_partitions st) = None"
      using pending_in_None assms(8) unfolding next_pending_partition_def d_def by blast
    from first_pending_None [OF this assms(9), of n] show False by simp
  qed
  moreover have "checked_add now (cfg_lease_duration_ms (co_config d)) \<noteq> None"
    using assms(2) advance_time_facts(2) [OF st0, of now] by (simp add: checked_add_def d_def)
  ultimately have "\<exists>m. fst (assign_to_worker pb w now d) = Inr (Some m)"
    using assms(3) by (auto simp: assign_to_worker_spec [OF stat] d_def [symmetric] Let_def
        split: option.splits prod.splits)
  with assms(3-5) show ?thesis
    by (auto simp: next_assignment_for_def d_def [symmetric] Let_def)
qed

theorem assignment_live_witness:
  "\<exists>m. fst (next_assignment_for demo_pb ''w'' 10 demo_registered) = Inr (Some m)"
proof (rule assignment_live [OF demo_reachable(1)])
  have adv: "advance_time 10 demo_registered = demo_registered"
    by (simp add: demo_registered_eq demo_submitted_eq advance_simps demo_worker_def default_config_def)
  show "unat (10 :: u64) + unat (cfg_lease_duration_ms (co_config demo_registered)) < 2 ^ 64"
    by (simp add: demo_registered_eq demo_submitted_eq default_config_def)
  show "map_of (co_workers (advance_time 10 demo_registered)) ''w'' = Some (demo_worker 0 1)"
    unfolding adv by (simp add: demo_registered_eq)
  show "map_of (co_stages (advance_time 10 demo_registered)) (''q'', 0) =
      Some \<lparr>st_plan = demo_producer, st_partitions = [PtPending 0]\<rparr>"
    unfolding adv by (simp add: demo_registered_eq demo_submitted_eq)
  show "dependencies_succeeded (advance_time 10 demo_registered)
      \<lparr>st_plan = demo_producer, st_partitions = [PtPending 0]\<rparr>"
    by (simp add: dependencies_succeeded_def demo_producer_def)
qed (simp_all add: demo_worker_def demo_registered_eq demo_submitted_eq)

section \<open>Committed results\<close>

lemma progress_le: "progress p \<le> 3 * 2 ^ 32 + 2"
proof (cases p)
  case (PtPending n)
  then show ?thesis using unat_u32 [of n] by simp
next
  case (PtActive t w l s)
  then show ?thesis using unat_u32 [of "ta_attempt t"] by simp
qed simp_all

lemma moves_up_succeeded: "moves_up (PtSucceeded t bs) p \<Longrightarrow> p = PtSucceeded t bs"
  using progress_le [of p] by (auto simp: moves_up_def)

lemma is_succeededE: "is_succeeded p \<Longrightarrow> \<exists>t bs. p = PtSucceeded t bs"
  by (cases p) (simp_all add: is_succeeded_def)

lemma all_succeeded_stable:
  assumes st: "co_static pb c" "co_static pb c'" and ahead: "ahead c c'"
    and s: "map_of (co_stages c) k = Some s" "list_all is_succeeded (st_partitions s)"
  obtains s' where "map_of (co_stages c') k = Some s'" "st_partitions s' = st_partitions s"
    "st_plan s' = st_plan s"
proof -
  have "plan c' k = Some (st_plan s)"
    using ahead s(1) by (simp add: ahead_def plan_def)
  then obtain s' where s': "map_of (co_stages c') k = Some s'" "st_plan s' = st_plan s"
    by (auto simp: plan_def)
  have len: "length (st_partitions s') = length (st_partitions s)"
    using co_staticD(5) [OF st(1) s(1)] co_staticD(5) [OF st(2) s'(1)] s'(2) by simp
  have "st_partitions s' ! i = st_partitions s ! i" if i: "i < length (st_partitions s)" for i
  proof -
    have p: "part c k i = Some (st_partitions s ! i)" "part c' k i = Some (st_partitions s' ! i)"
      using s(1) s'(1) i len by (simp_all add: part_def)
    then have "moves_up (st_partitions s ! i) (st_partitions s' ! i)"
      using ahead unfolding ahead_def by (metis option.inject)
    moreover obtain t bs where "st_partitions s ! i = PtSucceeded t bs"
      using s(2) i is_succeededE [of "st_partitions s ! i"] by (auto simp: list_all_length)
    ultimately show ?thesis using moves_up_succeeded by simp
  qed
  with len have "st_partitions s' = st_partitions s" by (simp add: list_eq_iff_nth_eq)
  with s' show thesis using that by blast
qed

text \<open>
  C23: The output blocks of a succeeded stage never change again: whatever operations follow
  (retries, heartbeats, expiries, late reports, even a cancellation of the query), the coordinator
  keeps answering with the same blocks in the same order.
\<close>

theorem committed_output_immutable:
  assumes "reachable pb c" and "(co_step pb)\<^sup>*\<^sup>* c c'"
    and "stage_status c q s = Inr StageSucceeded" and "stage_output_blocks c q s = Inr bs"
  shows "stage_output_blocks c' q s = Inr bs"
proof -
  have st: "co_static pb c" "co_static pb c'"
    using reachable_co_inv assms(1) reachable_run [OF assms(1,2)] by (auto simp: co_inv_def)
  from assms(3) obtain x where x: "map_of (co_stages c) (q, s) = Some x"
    "list_all is_succeeded (st_partitions x)"
    by (auto simp: stage_status_def split: option.splits if_splits)
  obtain x' where x': "map_of (co_stages c') (q, s) = Some x'" "st_partitions x' = st_partitions x"
    by (rule all_succeeded_stable [OF st reachable_ahead [OF assms(1,2)] x])
  with x assms(4) show ?thesis by (simp add: stage_output_blocks_def split: if_splits)
qed

theorem committed_output_immutable_witness:
  "stage_output_blocks (advance_time 900000 demo_succeeded) ''q'' 0 = Inr [demo_block]"
proof (rule committed_output_immutable [OF demo_reachable(3)])
  show "(co_step demo_pb)\<^sup>*\<^sup>* demo_succeeded (advance_time 900000 demo_succeeded)"
    by (rule r_into_rtranclp, rule co_step.advance)
qed (simp_all add: stage_status_def stage_output_blocks_def demo_succeeded_eq demo_assigned_eq
    demo_registered_eq demo_submitted_eq is_failed_def is_succeeded_def committed_blocks_def)

text \<open>
  C3: No task attempt is handed out twice: two assignments made at different moments of a run
  never carry the same task attempt id.
\<close>

theorem attempt_ids_unique:
  assumes "reachable pb c"
    and "next_assignment_for pb w now c = (Inr (Some (AssignTask v pl t l bs)), c1)"
    and "(co_step pb)\<^sup>*\<^sup>* c1 c2"
    and "next_assignment_for pb w' now' c2 = (Inr (Some (AssignTask v' pl' t' l' bs')), c3)"
  shows "t' \<noteq> t"
proof
  assume eq: "t' = t"
  have r1: "reachable pb c1"
    using reachable_run [OF assms(1)] co_step.assign_for [OF assms(2)] by blast
  have r2: "reachable pb c2" by (rule reachable_run [OF r1 assms(3)])
  have st: "co_static pb c" "co_static pb c2"
    using reachable_co_inv assms(1) r2 by (auto simp: co_inv_def)
  note first = assms(2) and second = assms(4)
  obtain k i n where a: "k = (ta_query_id t, ta_stage_id t)"
    "next_pending_partition (advance_time now c) = Some (k, i, n)" "ta_attempt t = n"
    "ta_partition_id t = of_nat i"
    "c1 = set_worker w (\<lambda>wr. wr\<lparr>wr_available_slots := wr_available_slots wr - 1\<rparr>)
       (set_partition k i (PtActive t w l None) (advance_time now c))"
    by (rule next_assignment_for_selected [OF st(1) first])
  obtain k' i' n' where b: "k' = (ta_query_id t', ta_stage_id t')"
    "next_pending_partition (advance_time now' c2) = Some (k', i', n')" "ta_attempt t' = n'"
    "ta_partition_id t' = of_nat i'"
    by (rule next_assignment_for_selected [OF st(2) second])
  note adv = advance_time_facts(1) [OF st(1), of now] advance_time_facts(1) [OF st(2), of now']
  have "i' = i"
    using next_pending_index [OF adv(1) a(2)] next_pending_index [OF adv(2) b(2)] a(4) b(4) eq by metis
  moreover have "k' = k" using a(1) b(1) eq by simp
  ultimately have sel: "next_pending_partition (advance_time now' c2) = Some (k, i, n')"
    using b(2) by simp
  have "part (advance_time now c) k i \<noteq> None"
    using next_pending_Some [OF co_staticD(3) [OF adv(1)] a(2)] by blast
  then have "part c1 k i = Some (PtActive t w l None)"
    by (simp add: a(5) part_set_partition)
  moreover have "ahead c1 (advance_time now' c2)"
    using ahead_trans [OF reachable_ahead [OF r1 assms(3)] ahead_advance [OF st(2)]] .
  moreover have "part (advance_time now' c2) k i = Some (PtPending n')"
    using next_pending_Some [OF co_staticD(3) [OF adv(2)] sel] by blast
  ultimately have "moves_up (PtActive t w l None) (PtPending n')"
    unfolding ahead_def by (metis option.inject)
  with b(3) eq show False by (simp add: moves_up_def)
qed

theorem attempt_ids_unique_witness: "demo_task 1 \<noteq> demo_task 0"
proof (rule attempt_ids_unique [OF demo_reachable(1)])
  show "next_assignment_for demo_pb ''w'' 10 demo_registered =
      (Inr (Some (AssignTask 5 demo_producer (demo_task 0) (demo_lease 10) [])), demo_assigned)"
    by (simp add: demo_assigned_def demo_assignment)
  show "(co_step demo_pb)\<^sup>*\<^sup>* demo_assigned demo_succeeded" by (rule demo_reachable(4))
  show "next_assignment_for demo_pb ''w'' 40 demo_succeeded =
      (Inr (Some (AssignTask 5 demo_consumer (demo_task 1) (demo_lease 40) [demo_block])),
       snd (next_assignment_for demo_pb ''w'' 40 demo_succeeded))"
    by (simp add: prod_eq_iff demo_second_assignment)
qed

section \<open>Cancellation\<close>

lemma cancelled_parts:
  assumes "co_static pb c" and "map_of (co_cancelled c) q \<noteq> None"
    and "map_of (co_stages c) (q, s) = Some st" and "p \<in> set (st_partitions st)"
  shows "active_owner p = []" "p \<noteq> PtPending n"
proof -
  from assms(4) obtain i where "i < length (st_partitions st)" "st_partitions st ! i = p"
    by (auto simp: in_set_conv_nth)
  with assms(3) have "part c (q, s) i = Some p" by (simp add: part_def)
  from co_staticD(8) [OF assms(1) this] assms(2)
  show "active_owner p = []" "p \<noteq> PtPending n"
    by (auto simp: cancel_consistent_def active_owner_def split: partition_runtime.splits)
qed

lemma cancel_Ok_cancelled:
  "cancel_query pb q reason c = (Inr m, c') \<Longrightarrow> map_of (co_cancelled c') q = Some reason"
  by (auto simp: cancel_query_def Let_def split: sum.splits option.splits if_splits)

lemma cancel_Ok_registered:
  assumes "cancel_query pb q reason c = (Inr m, c')"
  shows "query_registered c' q"
proof -
  have "query_registered c q"
    using assms by (auto simp: cancel_query_def Let_def split: sum.splits if_splits)
  then have "query_registered (c\<lparr>co_stages := map (\<lambda>(k, st). (k, cancel_stage q k st)) (co_stages c),
      co_cancelled := bt_insert q reason (co_cancelled c)\<rparr>) q"
    by (force simp: query_registered_def list_ex_iff)
  with \<open>query_registered c q\<close> show ?thesis
    using assms by (auto elim: cancel_query_cases)
qed

lemma ahead_registered:
  assumes "co_static pb c" "co_static pb c'" and "ahead c c'" and "query_registered c q"
  shows "query_registered c' q"
proof -
  from assms(4) obtain k st where "(k, st) \<in> set (co_stages c)" "fst k = q"
    by (auto simp: query_registered_def list_ex_iff)
  then have "plan c k = Some (st_plan st)"
    using bt_in_set_iff [OF co_staticD(3) [OF assms(1)]] by (simp add: plan_def)
  with assms(3) have "plan c' k = Some (st_plan st)" by (simp add: ahead_def)
  then obtain st' where "(k, st') \<in> set (co_stages c')"
    by (auto simp: plan_def dest: map_of_SomeD)
  with \<open>fst k = q\<close> show ?thesis by (auto simp: query_registered_def list_ex_iff)
qed

text \<open>
  C24: Cancellation is final.  Once \<open>cancel_query\<close> has succeeded, in every later state each
  stage of the query reports \<open>Cancelled\<close>, no worker runs an active task of it, no new stage of it is
  accepted, and no task of it is ever assigned again.
\<close>

theorem cancellation_final:
  assumes "reachable pb c" and "cancel_query pb q reason c = (Inr m, c1)" and "(co_step pb)\<^sup>*\<^sup>* c1 c2"
  shows "(\<forall>s st. stage_status c2 q s = Inr st \<longrightarrow> st = StageCancelled)
    \<and> active_workers_for_query c2 q = Inr []
    \<and> (\<forall>s. sp_query_id s = q \<longrightarrow> \<not> is_ok (fst (submit_stage pb s c2)))
    \<and> (\<forall>w now v pl t l bs c3.
         next_assignment_for pb w now c2 = (Inr (Some (AssignTask v pl t l bs)), c3) \<longrightarrow>
           ta_query_id t \<noteq> q)"
proof -
  have r1: "reachable pb c1"
    using reachable_run [OF assms(1)] co_step.cancel [OF assms(2)] by blast
  have r2: "reachable pb c2" by (rule reachable_run [OF r1 assms(3)])
  have ahead: "ahead c1 c2" by (rule reachable_ahead [OF r1 assms(3)])
  have st: "co_static pb c1" "co_static pb c2"
    using reachable_co_inv r1 r2 by (auto simp: co_inv_def)
  have can: "map_of (co_cancelled c2) q = Some reason"
    using ahead cancel_Ok_cancelled [OF assms(2)] by (simp add: ahead_def)
  have reg: "query_registered c2 q"
    by (rule ahead_registered [OF st ahead cancel_Ok_registered [OF assms(2)]])
  have "(if fst k = q then concat (map active_owner (st_partitions s)) else []) = []"
    if "(k, s) \<in> set (co_stages c2)" for k s
  proof -
    have s: "map_of (co_stages c2) k = Some s"
      using that bt_in_set_iff [OF co_staticD(3) [OF st(2)]] by simp
    show ?thesis
      using cancelled_parts(1) [OF st(2), of q "snd k" s] can s by (cases k) auto
  qed
  then have none: "concat (map (\<lambda>(k, s). if fst k = q then concat (map active_owner (st_partitions s)) else [])
      (co_stages c2)) = []"
    by auto
  have "active_workers_for_query c2 q = Inr []"
    unfolding active_workers_for_query_def none using reg by simp
  moreover have "st = StageCancelled" if "stage_status c2 q s = Inr st" for s st
    using that can by (auto simp: stage_status_def split: option.splits)
  moreover have "\<not> is_ok (fst (submit_stage pb s c2))" if "sp_query_id s = q" for s
    using that can submit_checks_ok(3) [of pb c2 s]
    by (auto simp: submit_stage_def split: sum.splits)
  moreover have "ta_query_id t \<noteq> q"
    if asg: "next_assignment_for pb w now c2 = (Inr (Some (AssignTask v pl t l bs)), c3)" for w now v pl t l bs c3
  proof -
    note adv = advance_time_facts(1,3) [OF st(2), of now]
    obtain k i n where a: "k = (ta_query_id t, ta_stage_id t)"
      "next_pending_partition (advance_time now c2) = Some (k, i, n)"
      by (rule next_assignment_for_selected [OF st(2) asg])
    have "map_of (co_cancelled c2) (fst k) = None"
      using next_pending_Some [OF co_staticD(3) [OF adv(1)] a(2)] adv(2) by metis
    with can a(1) show ?thesis by auto
  qed
  ultimately show ?thesis by blast
qed

lemma demo_cancel: "fst (cancel_query demo_pb ''q'' ''w'' demo_assigned) = Inr (CancelQuery 5 ''q'' ''w'')"
  by (simp add: cancel_query_def validate_version_def PROTOCOL_VERSION_def demo_assigned_eq
      demo_registered_eq demo_submitted_eq query_registered_def)

theorem cancellation_final_witness:
  "active_workers_for_query (snd (cancel_query demo_pb ''q'' ''w'' demo_assigned)) ''q'' = Inr []"
proof -
  have "cancel_query demo_pb ''q'' ''w'' demo_assigned = (Inr (CancelQuery 5 ''q'' ''w''),
      snd (cancel_query demo_pb ''q'' ''w'' demo_assigned))"
    by (simp add: prod_eq_iff demo_cancel)
  from cancellation_final [OF demo_reachable(2) this rtranclp.rtrancl_refl] show ?thesis by blast
qed

text \<open>
  Cancelling is idempotent: repeating a successful cancellation with the same reason
  succeeds with the same message and changes nothing, and a different reason is refused without any
  change.
\<close>

theorem cancel_idempotent:
  assumes "cancel_query pb q reason c = (Inr m, c')" and "\<not> blank reason'" and "reason' \<noteq> reason"
  shows "cancel_query pb q reason c' = (Inr m, c')
    \<and> cancel_query pb q reason' c' =
        (Inl (coordinator_error ''query {} was already cancelled for a different reason''), c')"
proof -
  have m: "m = CancelQuery PROTOCOL_VERSION q reason"
    and ok: "coordinator_message_validate pb m = Inr ()"
    using assms(1) by (auto simp: cancel_query_def Let_def split: sum.splits option.splits if_splits)
  have "coordinator_message_validate pb (CancelQuery PROTOCOL_VERSION q reason') = Inr ()"
    using ok m assms(2) by (auto simp: rbind_eq_Inr)
  then show ?thesis
    using m ok assms(3) cancel_Ok_cancelled [OF assms(1)] cancel_Ok_registered [OF assms(1)]
    by (simp add: cancel_query_def)
qed

theorem cancel_idempotent_witness:
  "cancel_query demo_pb ''q'' ''w'' (snd (cancel_query demo_pb ''q'' ''w'' demo_assigned)) =
     (Inr (CancelQuery 5 ''q'' ''w''), snd (cancel_query demo_pb ''q'' ''w'' demo_assigned))"
proof -
  have "cancel_query demo_pb ''q'' ''w'' demo_assigned = (Inr (CancelQuery 5 ''q'' ''w''),
      snd (cancel_query demo_pb ''q'' ''w'' demo_assigned))"
    by (simp add: prod_eq_iff demo_cancel)
  from cancel_idempotent [OF this, of "''c''"] show ?thesis by simp
qed

section \<open>Task reports\<close>

lemma validate_reported_time_ok:
  "validate_reported_time event ts l received = Inr u \<longleftrightarrow>
     lease_issued_at_ms l \<le> ts \<and> ts < lease_expires_at_ms l \<and> ts \<le> received"
  by (auto simp: validate_reported_time_def rbind_eq_Inr not_less not_le)

text \<open>
  C25: A success report is accepted only from the worker that holds the lease of exactly the
  reported attempt.  Either the attempt is active, its lease has not expired, the reported time lies
  within the lease and not in the future, and the reported blocks become the partition's result; or
  the query is being cancelled and the report only finishes the cancellation.
\<close>

theorem commit_requires_lease:
  assumes "reachable pb c"
    and "handle_worker_message (TaskUpdate v w t (Succeeded ts bs)) now c = (Inr (), c')"
  shows "(\<exists>l s. part (advance_time now c) (ta_query_id t, ta_stage_id t) (unat (ta_partition_id t))
             = Some (PtActive t w l s)
           \<and> lease_worker_id l = w \<and> now < lease_expires_at_ms l
           \<and> lease_issued_at_ms l \<le> ts \<and> ts < lease_expires_at_ms l \<and> ts \<le> now
           \<and> part c' (ta_query_id t, ta_stage_id t) (unat (ta_partition_id t))
               = Some (PtSucceeded t bs))
    \<or> (\<exists>l. part (advance_time now c) (ta_query_id t, ta_stage_id t) (unat (ta_partition_id t))
             = Some (PtCancelling t w l)
           \<and> part c' (ta_query_id t, ta_stage_id t) (unat (ta_partition_id t)) = Some PtCancelled)"
proof -
  define d where "d = advance_time now c"
  have "record_task_update w t (Succeeded ts bs) now d = (Inr (), c')"
    using assms(2) by (auto simp: handle_worker_message_def d_def Let_def split: sum.splits)
  then show ?thesis
  proof (cases rule: record_task_update_cases)
    case (2 k i p p' rel pl)
    have c': "part c' k i = Some p'"
      using 2(3,7) by (cases rel) (simp_all add: part_set_partition release_worker_slot_def)
    from 2(6) consider (cancelling) l where "p = PtCancelling t w l" "p' = PtCancelled"
      | (active) l s where "p = PtActive t w l s" "p' = PtSucceeded t bs" "lease_worker_id l = w"
        "now < lease_expires_at_ms l" "lease_issued_at_ms l \<le> ts" "ts < lease_expires_at_ms l" "ts \<le> now"
      by (auto simp: update_partition_def update_cancelling_def update_active_def rbind_eq_Inr
          validate_reported_time_ok not_le split: if_splits partition_runtime.splits)
    then show ?thesis
      using 2(1-3) c' by cases (auto simp: d_def)
  qed simp
qed

theorem commit_requires_lease_witness:
  "part demo_succeeded (''q'', 0) 0 = Some (PtSucceeded (demo_task 0) [demo_block])"
proof -
  have "handle_worker_message (TaskUpdate 5 ''w'' (demo_task 0) (Succeeded 20 [demo_block])) 30 demo_assigned
      = (Inr (), demo_succeeded)"
    using demo_commit by (simp add: demo_success_def demo_succeeded_eq)
  from commit_requires_lease [OF demo_reachable(2) this]
  show ?thesis
    by (auto simp: demo_succeeded_eq demo_task_def part_def)
qed

text \<open>
  A report for an attempt the coordinator has already retired is answered with
  \<open>TaskSuperseded\<close> and changes nothing beyond the passing of time.
\<close>

theorem stale_attempt_rejected:
  assumes "reachable pb c" and "worker_message_validate (TaskUpdate v w t state) = Inr ()"
    and "map_of (co_workers c) w \<noteq> None"
    and "part (advance_time now c) (ta_query_id t, ta_stage_id t) (unat (ta_partition_id t)) = Some p"
    and "superseded t p"
  shows "handle_worker_message (TaskUpdate v w t state) now c = (Inl ETaskSuperseded, advance_time now c)"
proof -
  from reachable_co_inv [OF assms(1)] have st0: "co_static pb c" by (simp add: co_inv_def)
  define d where "d = advance_time now c"
  have st: "co_static pb d" unfolding d_def by (rule advance_time_facts(1) [OF st0])
  obtain s where s: "map_of (co_stages d) (ta_query_id t, ta_stage_id t) = Some s"
    "unat (ta_partition_id t) < length (st_partitions s)" "st_partitions s ! unat (ta_partition_id t) = p"
    "plan d (ta_query_id t, ta_stage_id t) = Some (st_plan s)"
    using assms(4) [folded d_def] by (rule part_SomeD)
  have ok: "plan_ok pb d (ta_query_id t, ta_stage_id t) (st_plan s)" by (rule co_staticD(6) [OF st s(4)])
  have "query_id_validate (ta_query_id t) = Inr ()"
    using assms(2) by (auto simp: rbind_eq_Inr)
  moreover have "ta_partition_id t < sp_partition_count (st_plan s)"
    using s(2) co_staticD(5) [OF st s(1)] by (simp add: word_less_nat_alt)
  ultimately have "task_validate_for t (st_plan s) = Inr ()"
    using ok by (simp add: task_validate_for_def task_validate_def plan_ok_def)
  moreover have "map_of (co_workers d) w \<noteq> None"
    using assms(3) advance_time_facts(6) [OF st0, of now w] by (auto simp: d_def)
  ultimately have "record_task_update w t state now d = (Inl ETaskSuperseded, d)"
    using s assms(5) by (auto simp: record_task_update_def update_partition_def)
  with assms(2) show ?thesis by (simp add: handle_worker_message_def d_def)
qed

theorem stale_attempt_rejected_witness:
  "handle_worker_message (TaskUpdate 5 ''w'' (demo_task 0) (Failed 20 ''w'' True)) 40000 demo_assigned
     = (Inl ETaskSuperseded, advance_time 40000 demo_assigned)"
proof (rule stale_attempt_rejected [OF demo_reachable(2)])
  have st: "co_static demo_pb demo_assigned"
    using reachable_co_inv [OF demo_reachable(2)] by (simp add: co_inv_def)
  show "part (advance_time 40000 demo_assigned) (ta_query_id (demo_task 0), ta_stage_id (demo_task 0))
      (unat (ta_partition_id (demo_task 0))) = Some (PtPending 1)"
    by (simp add: advance_time_facts(5) [OF st])
      (simp add: part_def demo_assigned_eq demo_registered_eq demo_submitted_eq demo_task_def
        expire_partition_def expires_def demo_lease_def default_config_def retry_or_fail_def
        saturating_add_def)
  show "superseded (demo_task 0) (PtPending 1)" by (simp add: demo_task_def)
  show "map_of (co_workers demo_assigned) ''w'' \<noteq> None" by (simp add: demo_assigned_eq)
  show "worker_message_validate (TaskUpdate 5 ''w'' (demo_task 0) (Failed 20 ''w'' True)) = Inr ()"
    by (simp add: validate_version_def PROTOCOL_VERSION_def demo_task_def)
qed

section \<open>Time\<close>

lemma owned_not_expired:
  assumes "owned_by w (expire_partition cfg dead now p)"
  shows "\<not> expires [] now p"
  using assms by (cases p) (auto simp: expire_partition_def expires_def split: if_splits)

text \<open>
  C30: The worklist of \<open>advance_time\<close> computes the pointwise effect: a partition owned by a
  worker whose heartbeat timed out, or whose lease has ended, is retried, failed after the last
  attempt, or becomes cancelled when it was being cancelled, and every other partition is untouched.
  Afterwards every owned partition belongs to a worker that is alive and has an unexpired lease.
\<close>

theorem advance_time_pointwise:
  assumes "reachable pb c"
  shows "part (advance_time now c) k i =
      map_option (expire_partition (co_config c) (timed_out_workers c now) now) (part c k i)
    \<and> (\<forall>p w. part (advance_time now c) k i = Some p \<and> owned_by w p \<longrightarrow>
         \<not> expires [] now p
         \<and> (\<exists>wr. map_of (co_workers (advance_time now c)) w = Some wr \<and> wr_alive wr))"
proof -
  have inv: "co_inv pb c" by (rule reachable_co_inv [OF assms])
  then have st: "co_static pb c" by (simp add: co_inv_def)
  have "owners_alive (advance_time now c)" using co_inv_advance [OF inv] by (simp add: co_inv_def)
  moreover have "\<not> expires [] now p" if "part (advance_time now c) k i = Some p" "owned_by w p" for p w
  proof -
    from that(1) obtain p0 where p0: "p = expire_partition (co_config c) (timed_out_workers c now) now p0"
      by (auto simp: advance_time_facts(5) [OF st])
    with that(2) show ?thesis
      using owned_by_expire [of w "co_config c" "timed_out_workers c now" now p0]
        owned_not_expired [of w "co_config c" "timed_out_workers c now" now p0] by simp
  qed
  ultimately show ?thesis
    using advance_time_facts(5) [OF st] owners_aliveD by blast
qed

theorem advance_time_pointwise_witness:
  "part (advance_time 40000 demo_assigned) (''q'', 0) 0 = Some (PtPending 1)"
  using advance_time_pointwise [OF demo_reachable(2), of 40000 "(''q'', 0)" 0]
  by (simp add: part_def demo_assigned_eq demo_registered_eq demo_submitted_eq demo_task_def
      expire_partition_def expires_def demo_lease_def default_config_def retry_or_fail_def
      saturating_add_def split: option.splits)

section \<open>Hash exchanges\<close>

lemma card_words_below: "card {x :: 'a::len word. x < n} = unat n"
proof -
  have "bij_betw unat {x :: 'a word. x < n} {..<unat n}"
  proof (rule bij_betw_imageI)
    show "inj_on unat {x :: 'a word. x < n}" by (auto simp: inj_on_def word_unat_eq_iff)
    show "unat ` {x :: 'a word. x < n} = {..<unat n}"
    proof (intro equalityI subsetI)
      fix m assume "m \<in> {..<unat n}"
      then have m: "m < unat n" by simp
      then have "unat (of_nat m :: 'a word) = m"
        using unsigned_less [of n] by (intro unat_of_nat_small) (rule less_trans)
      with m show "m \<in> unat ` {x. x < n}"
        by (intro image_eqI [of _ _ "of_nat m"]) (simp_all add: word_less_nat_alt)
    qed (auto simp: word_less_nat_alt)
  qed
  then show ?thesis by (simp add: bij_betw_same_card)
qed

lemma length_filter_distinct:
  "distinct (map f xs) \<Longrightarrow> d \<in> set (map f xs) \<Longrightarrow> length (filter (\<lambda>x. f x = d) xs) = 1"
  by (induction xs) (auto simp: filter_empty_conv image_iff)

lemma exchange_block_unique:
  assumes "exchange_blocks_ok ex bs" and "d < hx_partition_count ex"
  shows "length (filter (\<lambda>b. sb_output_partition b = d) bs) = 1"
proof -
  let ?f = sb_output_partition and ?n = "hx_partition_count ex"
  from assms(1) have len: "length bs = unat ?n" "length (remdups (map ?f bs)) = unat ?n"
    and below: "set (map ?f bs) \<subseteq> {x. x < ?n}"
    by (auto simp: exchange_blocks_ok_def list_all_iff)
  have "card (set (map ?f bs)) = unat ?n" using len(2) by (simp add: length_remdups_card_conv)
  then have "set (map ?f bs) = {x. x < ?n}"
    using below by (intro card_subset_eq) (simp_all add: card_words_below)
  moreover have "distinct (map ?f bs)"
    using len by (metis card_distinct length_map length_remdups_card_conv)
  ultimately show ?thesis using assms(2) by (intro length_filter_distinct) auto
qed

lemma length_filter_concat_unique:
  assumes "distinct ds" and "d \<in> set ds"
    and "\<And>e. e \<in> set ds \<Longrightarrow> e \<noteq> d \<Longrightarrow> filter P (f e) = []"
  shows "length (filter P (concat (map f ds))) = length (filter P (f d))"
  using assms
proof (induction ds)
  case (Cons x ds)
  show ?case
  proof (cases "x = d")
    case True
    with Cons.prems have "\<forall>e\<in>set ds. filter P (f e) = []" by auto
    then have "filter P (concat (map f ds)) = []" by (auto simp: filter_empty_conv)
    with True show ?thesis by simp
  next
    case False
    with Cons show ?thesis by simp
  qed
qed simp

lemma concat_map_nth: "concat (map f xs) = concat (map (\<lambda>i. f (xs ! i)) [0..<length xs])"
proof -
  have "map f xs = map (\<lambda>i. f (xs ! i)) [0..<length xs]" by (rule nth_equalityI) simp_all
  then show ?thesis by (rule arg_cong [where f = concat])
qed

lemma committed_producer:
  assumes "co_static pb c" and "part c k m = Some p" and "b \<in> set (committed_blocks p)"
  shows "task_at k m (sb_producer b)"
proof -
  obtain pl where "plan c k = Some pl" using plan_of_part [OF assms(2)] by blast
  from co_staticD(7) [OF assms(1,2) this] assms(3) show ?thesis
    by (cases p) (auto simp: committed_blocks_def)
qed

lemma stage_blocks_producer:
  assumes "co_static pb c" and "b \<in> set (stage_blocks c q d)"
  shows "ta_stage_id (sb_producer b) = d"
proof -
  obtain m u us where p: "part c (q, d) m = Some (PtSucceeded u us)" "b \<in> set us"
    by (rule in_stage_blocks [OF assms(2)])
  then show ?thesis
    using committed_producer [OF assms(1) p(1)] by (simp add: committed_blocks_def task_at_def)
qed

text \<open>One block per producer task and destination in the output of a succeeded exchange stage.\<close>

lemma stage_blocks_exact:
  assumes st: "co_static pb c" and dep: "map_of (co_stages c) (q, d) = Some dep"
    and succ: "list_all is_succeeded (st_partitions dep)"
    and ex: "sp_output_exchange (st_plan dep) = Some ex" and j: "dest < hx_partition_count ex"
    and i: "i < unat (sp_partition_count (st_plan dep))"
  shows "length (filter (\<lambda>b. unat (ta_partition_id (sb_producer b)) = i \<and> sb_output_partition b = dest)
    (stage_blocks c q d)) = 1"
proof -
  let ?P = "\<lambda>b. unat (ta_partition_id (sb_producer b)) = i \<and> sb_output_partition b = dest"
  have len: "length (st_partitions dep) = unat (sp_partition_count (st_plan dep))"
    by (rule co_staticD(5) [OF st dep])
  have part: "part c (q, d) m = Some (st_partitions dep ! m)" if "m < length (st_partitions dep)" for m
    using dep that by (simp add: part_def)
  have idx: "unat (ta_partition_id (sb_producer b)) = m"
    if "m < length (st_partitions dep)" "b \<in> set (committed_blocks (st_partitions dep ! m))" for m b
    using committed_producer [OF st part [OF that(1)] that(2)] by (simp add: task_at_def)
  have "length (filter ?P (stage_blocks c q d)) =
      length (filter ?P (concat (map (\<lambda>m. committed_blocks (st_partitions dep ! m))
        [0..<length (st_partitions dep)])))"
    using dep by (simp add: stage_blocks_def concat_map_nth [of _ "st_partitions dep"])
  also have "\<dots> = length (filter ?P (committed_blocks (st_partitions dep ! i)))"
    by (rule length_filter_concat_unique) (use i len idx in \<open>auto simp: filter_empty_conv\<close>)
  also have "filter ?P (committed_blocks (st_partitions dep ! i))
      = filter (\<lambda>b. sb_output_partition b = dest) (committed_blocks (st_partitions dep ! i))"
    using i len idx by (intro filter_cong) auto
  also have "length \<dots> = 1"
  proof -
    obtain u us where us: "st_partitions dep ! i = PtSucceeded u us"
      using succ i len is_succeededE [of "st_partitions dep ! i"] by (auto simp: list_all_length)
    have pl: "plan c (q, d) = Some (st_plan dep)" using dep by (simp add: plan_def)
    have "part c (q, d) i = Some (PtSucceeded u us)" using part [of i] i len us by simp
    from co_staticD(7) [OF st this pl] ex have "exchange_blocks_ok ex us" by simp
    with j show ?thesis by (simp add: us committed_blocks_def exchange_block_unique)
  qed
  finally show ?thesis .
qed



section \<open>Bounded work and submission\<close>

text \<open>
  C27: One operation either leaves a partition's state as it is or moves it strictly up a
  bounded scale, so a partition changes state only finitely often over any run: retries cannot go on
  for ever and no state is ever revisited.
\<close>

theorem partition_progress:
  assumes "reachable pb c" and "co_step pb c c'" and "part c k i = Some p"
  shows "\<exists>p'. part c' k i = Some p' \<and> (p' = p \<or> progress p < progress p')
    \<and> progress p' \<le> 3 * 2 ^ 32 + 2"
proof -
  have "ahead c c'" by (rule ahead_step [OF reachable_co_inv [OF assms(1)] assms(2)])
  then obtain p' where "part c' k i = Some p'" "moves_up p p'"
    using assms(3) unfolding ahead_def by blast
  then show ?thesis using progress_le [of p'] by (auto simp: moves_up_def)
qed

theorem partition_progress_witness:
  "\<exists>p'. part (advance_time 40000 demo_assigned) (''q'', 0) 0 = Some p'
     \<and> (p' = PtActive (demo_task 0) ''w'' (demo_lease 10) None
        \<or> progress (PtActive (demo_task 0) ''w'' (demo_lease 10) None) < progress p')
     \<and> progress p' \<le> 3 * 2 ^ 32 + 2"
  by (rule partition_progress [OF demo_reachable(2) co_step.advance])
    (simp add: part_def demo_assigned_eq)

text \<open>
  A stage that was accepted is visible: every partition of it is pending at attempt 0, the
  stage is ready or blocked, and submitting it again is refused without a change.
\<close>

theorem submit_visible:
  assumes "reachable pb c" and "submit_stage pb s c = (Inr (), c')"
  shows "(\<forall>p. p < sp_partition_count s \<longrightarrow>
        partition_status c' (sp_query_id s) (sp_stage_id s) p = Inr (StatusPending 0))
    \<and> stage_status c' (sp_query_id s) (sp_stage_id s) \<in> {Inr StageReady, Inr StageBlocked}
    \<and> submit_stage pb s c' =
        (Inl (coordinator_error ''stage {} for query {} is already submitted''), c')"
proof -
  from assms(2) obtain u where ok: "submit_checks pb c s = Inr u"
    by (auto simp: submit_stage_def split: sum.splits)
  note look = submit_stage_lookups [OF ok assms(2)] and chk = submit_checks_ok [OF ok]
  have c': "map_of (co_stages c') (sp_query_id s, sp_stage_id s) =
      Some \<lparr>st_plan = s, st_partitions = replicate (unat (sp_partition_count s)) (PtPending 0)\<rparr>"
    using assms(2) ok by (auto simp: submit_stage_def)
  have "sp_partition_count s \<noteq> 0" by (rule stage_plan_validate_ok(2) [OF chk(1)])
  then have "0 < unat (sp_partition_count s)" by (simp add: unat_gt_0)
  then have "stage_status c' (sp_query_id s) (sp_stage_id s) \<in> {Inr StageReady, Inr StageBlocked}"
    using chk(3) c'
    by (simp add: stage_status_def look is_failed_def is_succeeded_def is_active_def
        list_all_iff list_ex_iff)
  moreover have "partition_status c' (sp_query_id s) (sp_stage_id s) p = Inr (StatusPending 0)"
    if "p < sp_partition_count s" for p
    using that by (simp add: partition_status_part look word_less_nat_alt)
  moreover have "submit_stage pb s c' =
        (Inl (coordinator_error ''stage {} for query {} is already submitted''), c')"
    using chk(1,2,3) c' by (simp add: submit_stage_def submit_checks_def look not_less)
  ultimately show ?thesis by blast
qed

theorem submit_visible_witness:
  "partition_status (snd (submit_stage demo_pb demo_producer demo_new)) ''q'' 0 0
     = Inr (StatusPending 0)"
proof -
  have "submit_stage demo_pb demo_producer demo_new =
      (Inr (), snd (submit_stage demo_pb demo_producer demo_new))"
    by (simp add: submit_stage_def submit_checks_def) (simp add: demo_defs)
  moreover have "reachable demo_pb demo_new"
    using demo_init by (auto simp: reachable_def)
  ultimately have "\<forall>p. p < sp_partition_count demo_producer \<longrightarrow>
      partition_status (snd (submit_stage demo_pb demo_producer demo_new))
        (sp_query_id demo_producer) (sp_stage_id demo_producer) p = Inr (StatusPending 0)"
    using submit_visible by blast
  then show ?thesis by (simp add: demo_producer_def)
qed

end
