(* ===== verification/Control_Plane.thy ===== *)
theory Control_Plane
  imports "HOL-Library.Multiset" Grpc_Status Coordinator_Props
begin

text \<open>
  \<open>src/cluster/control_plane.rs\<close>: the Flight service around the coordinator, its queues of pending
  cancellation messages, and the typed client.

  JSON is external: a \<open>json\<close> is the pair of the printer and the parser of one type.  The current
  time is an argument of the handlers that read the clock.  \<open>control_do_action\<close> is the dispatcher,
  one call at a time.  Two handlers take two locks one after the other; the step relation
  \<open>cp_step\<close> lets other handlers run in between.
\<close>

section \<open>Messages\<close>

type_synonym 'a json = "('a \<Rightarrow> bytes option) \<times> (bytes \<Rightarrow> 'a option)"

definition json_ok :: "'a json \<Rightarrow> bool" where
  "json_ok j \<longleftrightarrow> (\<forall>v b. fst j v = Some b \<longrightarrow> snd j b = Some v)"

record control_externs =
  cx_stage :: "stage_plan json"
  cx_worker_message :: "worker_message json"
  cx_poll :: "(worker_id \<times> bool) json"
  cx_cancel :: "(query_id \<times> string) json"
  cx_stage_ref :: "(query_id \<times> stage_id) json"
  cx_partition_ref :: "(query_id \<times> stage_id \<times> partition_id) json"
  cx_ack :: "bool json"
  cx_assignment :: "coordinator_message option json"
  cx_message :: "coordinator_message json"
  cx_blocks :: "shuffle_block list json"
  cx_stage_status :: "stage_status json"
  cx_partition_status :: "partition_status json"

definition ACTION_SUBMIT_STAGE :: string where
  "ACTION_SUBMIT_STAGE = ''sparkx.control.submit_stage''"

definition ACTION_WORKER_MESSAGE :: string where
  "ACTION_WORKER_MESSAGE = ''sparkx.control.worker_message''"

definition ACTION_POLL_ASSIGNMENT :: string where
  "ACTION_POLL_ASSIGNMENT = ''sparkx.control.poll_assignment''"

definition ACTION_CANCEL_QUERY :: string where
  "ACTION_CANCEL_QUERY = ''sparkx.control.cancel_query''"

definition ACTION_STAGE_OUTPUT_BLOCKS :: string where
  "ACTION_STAGE_OUTPUT_BLOCKS = ''sparkx.control.stage_output_blocks''"

definition ACTION_STAGE_STATUS :: string where
  "ACTION_STAGE_STATUS = ''sparkx.control.stage_status''"

definition ACTION_PARTITION_STATUS :: string where
  "ACTION_PARTITION_STATUS = ''sparkx.control.partition_status''"

definition MAX_CONTROL_MESSAGE_BYTES :: nat where
  "MAX_CONTROL_MESSAGE_BYTES = 96 * 1024 * 1024"

definition decode_request :: "'a json \<Rightarrow> bytes \<Rightarrow> status + 'a" where
  "decode_request j body =
     (case snd j body of
        None \<Rightarrow> Inl (SCInvalidArgument, ''invalid payload for control action {action}: {error}'')
      | Some v \<Rightarrow> Inr v)"

definition encode_response :: "'a json \<Rightarrow> 'a \<Rightarrow> status + bytes" where
  "encode_response j v =
     (case fst j v of
        None \<Rightarrow> Inl (SCInternal, ''encode control response: {error}'')
      | Some bytes \<Rightarrow>
          if MAX_CONTROL_MESSAGE_BYTES < length bytes
          then Inl (SCResourceExhausted, ''control response is {} bytes; maximum is {MAX_CONTROL_MESSAGE_BYTES}'')
          else Inr bytes)"

definition check_message_size :: "nat \<Rightarrow> unit result" where
  "check_message_size n =
     require (n \<le> MAX_CONTROL_MESSAGE_BYTES)
       (EResourceExhausted ''control message is {size} bytes; maximum is {MAX_CONTROL_MESSAGE_BYTES}'')"

fun control_map_status :: "sparkx_error \<Rightarrow> status" where
  "control_map_status (EProtocol m) = (SCInvalidArgument, m)"
| "control_map_status (EPlanning m) = (SCInvalidArgument, m)"
| "control_map_status (ENotFound m) = (SCNotFound, m)"
| "control_map_status (EResourceExhausted m) = (SCResourceExhausted, m)"
| "control_map_status ETaskSuperseded = (SCAborted, ''task attempt was superseded'')"
| "control_map_status ECancelled = (SCCancelled, ''query was cancelled'')"
| "control_map_status _ = (SCInternal, ''{other}'')"

fun control_map_flight_error :: "flight_error \<Rightarrow> sparkx_error" where
  "control_map_flight_error (TonicError (code, m)) =
     (case code of
        SCInvalidArgument \<Rightarrow> EProtocol m
      | SCNotFound \<Rightarrow> ENotFound m
      | SCResourceExhausted \<Rightarrow> EResourceExhausted m
      | SCCancelled \<Rightarrow> ECancelled
      | SCAborted \<Rightarrow> ETaskSuperseded
      | _ \<Rightarrow> EExecution ''control action {action} failed: {}'')"
| "control_map_flight_error (OtherFlightError m) = EExecution ''control action {action} failed: {other}''"

section \<open>The service\<close>

type_synonym pending_messages = "(worker_id, coordinator_message list) btree"

record control_service =
  cs_coordinator :: coordinator
  cs_pending :: pending_messages

type_synonym 'r handler = "control_service \<Rightarrow> (status + 'r) \<times> control_service"

text \<open>A coordinator method called under its lock, the reply encoded afterwards.\<close>

definition locked :: "'a co_step \<Rightarrow> ('a \<Rightarrow> status + bytes) \<Rightarrow> control_service \<Rightarrow> (status + bytes) \<times> control_service" where
  "locked r reply s =
     (case r of
        (Inl e, c) \<Rightarrow> (Inl (control_map_status e), s\<lparr>cs_coordinator := c\<rparr>)
      | (Inr v, c) \<Rightarrow> (reply v, s\<lparr>cs_coordinator := c\<rparr>))"

definition with_request :: "'a json \<Rightarrow> bytes \<Rightarrow> ('a \<Rightarrow> bytes handler) \<Rightarrow> bytes handler" where
  "with_request j body f s =
     (case decode_request j body of Inl e \<Rightarrow> (Inl e, s) | Inr v \<Rightarrow> f v s)"

definition submit_action :: "control_externs \<Rightarrow> pb_decoder \<Rightarrow> stage_plan \<Rightarrow> bytes handler" where
  "submit_action cx pb stage s =
     locked (submit_stage pb stage (cs_coordinator s)) (\<lambda>_. encode_response (cx_ack cx) True) s"

definition message_action :: "control_externs \<Rightarrow> u64 \<Rightarrow> worker_message \<Rightarrow> bytes handler" where
  "message_action cx now m s =
     locked (handle_worker_message m now (cs_coordinator s)) (\<lambda>_. encode_response (cx_ack cx) True) s"

definition take_pending :: "worker_id \<Rightarrow> pending_messages \<Rightarrow> coordinator_message option \<times> pending_messages" where
  "take_pending w p =
     (case map_of p w of
        Some (m # ms) \<Rightarrow> (Some m, bt_update w tl p)
      | _ \<Rightarrow> (None, p))"

definition poll_action :: "control_externs \<Rightarrow> pb_decoder \<Rightarrow> u64 \<Rightarrow> worker_id \<times> bool \<Rightarrow> bytes handler" where
  "poll_action cx pb now req s =
     (let (w, accept_tasks) = req in
      case take_pending w (cs_pending s) of
        (Some m, p) \<Rightarrow> (encode_response (cx_assignment cx) (Some m), s\<lparr>cs_pending := p\<rparr>)
      | (None, p) \<Rightarrow>
          if \<not> accept_tasks then (encode_response (cx_assignment cx) None, s\<lparr>cs_pending := p\<rparr>)
          else locked (next_assignment_for pb w now (cs_coordinator s))
                 (encode_response (cx_assignment cx)) (s\<lparr>cs_pending := p\<rparr>))"

definition cancel_locked ::
  "pb_decoder \<Rightarrow> query_id \<Rightarrow> string \<Rightarrow> coordinator \<Rightarrow> (coordinator_message \<times> worker_id list) co_step" where
  "cancel_locked pb q reason c =
     (case active_workers_for_query c q of
        Inl e \<Rightarrow> (Inl e, c)
      | Inr ws \<Rightarrow>
          (case cancel_query pb q reason c of
             (Inl e, c') \<Rightarrow> (Inl e, c')
           | (Inr m, c') \<Rightarrow> (Inr (m, ws), c')))"

definition push_back :: "coordinator_message \<Rightarrow> worker_id \<Rightarrow> pending_messages \<Rightarrow> pending_messages" where
  "push_back m w p =
     (case map_of p w of
        None \<Rightarrow> bt_insert w [m] p
      | Some q \<Rightarrow> bt_update w (\<lambda>q. q @ [m]) p)"

definition notify_workers :: "coordinator_message \<Rightarrow> worker_id list \<Rightarrow> pending_messages \<Rightarrow> pending_messages" where
  "notify_workers m ws p = fold (push_back m) ws p"

definition cancel_action :: "control_externs \<Rightarrow> pb_decoder \<Rightarrow> query_id \<times> string \<Rightarrow> bytes handler" where
  "cancel_action cx pb req s =
     (case cancel_locked pb (fst req) (snd req) (cs_coordinator s) of
        (Inl e, c) \<Rightarrow> (Inl (control_map_status e), s\<lparr>cs_coordinator := c\<rparr>)
      | (Inr (m, ws), c) \<Rightarrow>
          (encode_response (cx_message cx) m,
           s\<lparr>cs_coordinator := c, cs_pending := notify_workers m ws (cs_pending s)\<rparr>))"

definition control_do_action ::
  "control_externs \<Rightarrow> pb_decoder \<Rightarrow> u64 \<Rightarrow> string \<Rightarrow> bytes \<Rightarrow> bytes list handler" where
  "control_do_action cx pb now kind body s =
     (if MAX_CONTROL_MESSAGE_BYTES < length body
      then (Inl (SCResourceExhausted, ''control message is {} bytes; maximum is {MAX_CONTROL_MESSAGE_BYTES}''), s)
      else
        (case
           (if kind = ACTION_SUBMIT_STAGE then with_request (cx_stage cx) body (submit_action cx pb) s
            else if kind = ACTION_WORKER_MESSAGE
            then with_request (cx_worker_message cx) body (message_action cx now) s
            else if kind = ACTION_POLL_ASSIGNMENT then with_request (cx_poll cx) body (poll_action cx pb now) s
            else if kind = ACTION_CANCEL_QUERY then with_request (cx_cancel cx) body (cancel_action cx pb) s
            else if kind = ACTION_STAGE_OUTPUT_BLOCKS
            then with_request (cx_stage_ref cx) body (\<lambda>(q, st) s.
              locked (stage_output_blocks (cs_coordinator s) q st, cs_coordinator s) (encode_response (cx_blocks cx)) s) s
            else if kind = ACTION_STAGE_STATUS
            then with_request (cx_stage_ref cx) body (\<lambda>(q, st) s.
              locked (stage_status (cs_coordinator s) q st, cs_coordinator s) (encode_response (cx_stage_status cx)) s) s
            else if kind = ACTION_PARTITION_STATUS
            then with_request (cx_partition_ref cx) body (\<lambda>(q, st, p) s.
              locked (partition_status (cs_coordinator s) q st p, cs_coordinator s)
                (encode_response (cx_partition_status cx)) s) s
            else (Inl (SCInvalidArgument, ''unsupported SparkX control action {other}''), s)) of
           (Inl e, s') \<Rightarrow> (Inl e, s')
         | (Inr response, s') \<Rightarrow> (Inr [response], s')))"

section \<open>The client\<close>

text \<open>\<open>send\<close> is the service a client is connected to.\<close>

definition control_call ::
  "(string \<Rightarrow> bytes \<Rightarrow> 's \<Rightarrow> (status + bytes list) \<times> 's) \<Rightarrow> 'q json \<Rightarrow> 'r json \<Rightarrow> string \<Rightarrow> 'q \<Rightarrow> 's
   \<Rightarrow> 'r result \<times> 's" where
  "control_call send jq jr kind request s =
     (case rbind (ok_or (fst jq request) (EProtocol ''encode control request: {error}'')) (\<lambda>payload.
           rbind (check_message_size (length payload)) (\<lambda>_. Inr payload)) of
        Inl e \<Rightarrow> (Inl e, s)
      | Inr payload \<Rightarrow>
          (case send kind payload s of
             (Inl e, s') \<Rightarrow> (Inl (control_map_flight_error (TonicError e)), s')
           | (Inr results, s') \<Rightarrow>
               (case results of
                  [] \<Rightarrow> Inl (EProtocol ''control action {action_type} returned no response'')
                | body # rest \<Rightarrow>
                    rbind (check_message_size (length body)) (\<lambda>_.
                    rbind (require (rest = [])
                      (EProtocol ''control action {action_type} returned multiple responses'')) (\<lambda>_.
                      ok_or (snd jr body) (EProtocol ''decode control response for {action_type}: {error}''))), s')))"

definition validate_ack :: "bool \<Rightarrow> unit result" where
  "validate_ack accepted =
     require accepted (EProtocol ''control service returned a negative acknowledgement'')"

definition checked_reply :: "'r result \<times> 's \<Rightarrow> ('r \<Rightarrow> 'a result) \<Rightarrow> 'a result \<times> 's" where
  "checked_reply r f = (rbind (fst r) f, snd r)"

definition client_submit_stage :: "control_externs \<Rightarrow> pb_decoder \<Rightarrow> u64 \<Rightarrow> stage_plan \<Rightarrow> control_service
   \<Rightarrow> unit result \<times> control_service" where
  "client_submit_stage cx pb now stage s =
     checked_reply (control_call (control_do_action cx pb now) (cx_stage cx) (cx_ack cx) ACTION_SUBMIT_STAGE stage s)
       validate_ack"

definition send_worker_message :: "control_externs \<Rightarrow> pb_decoder \<Rightarrow> u64 \<Rightarrow> worker_message \<Rightarrow> control_service
   \<Rightarrow> unit result \<times> control_service" where
  "send_worker_message cx pb now m s =
     checked_reply (control_call (control_do_action cx pb now) (cx_worker_message cx) (cx_ack cx) ACTION_WORKER_MESSAGE m s)
       validate_ack"

definition client_register :: "control_externs \<Rightarrow> pb_decoder \<Rightarrow> u64 \<Rightarrow> worker_registration \<Rightarrow> control_service
   \<Rightarrow> unit result \<times> control_service" where
  "client_register cx pb now r = send_worker_message cx pb now (Register PROTOCOL_VERSION r)"

definition client_heartbeat :: "control_externs \<Rightarrow> pb_decoder \<Rightarrow> u64 \<Rightarrow> worker_heartbeat \<Rightarrow> control_service
   \<Rightarrow> unit result \<times> control_service" where
  "client_heartbeat cx pb now h = send_worker_message cx pb now (Heartbeat PROTOCOL_VERSION h)"

definition poll_assignment_with_capacity :: "control_externs \<Rightarrow> pb_decoder \<Rightarrow> u64 \<Rightarrow> worker_id \<Rightarrow> bool
   \<Rightarrow> control_service \<Rightarrow> coordinator_message option result \<times> control_service" where
  "poll_assignment_with_capacity cx pb now w accept_tasks s =
     checked_reply (control_call (control_do_action cx pb now) (cx_poll cx) (cx_assignment cx) ACTION_POLL_ASSIGNMENT
         (w, accept_tasks) s)
       (\<lambda>assignment. case assignment of
          None \<Rightarrow> Inr None
        | Some m \<Rightarrow> rbind (coordinator_message_validate pb m) (\<lambda>_. Inr (Some m)))"

definition client_cancel_query :: "control_externs \<Rightarrow> pb_decoder \<Rightarrow> u64 \<Rightarrow> query_id \<Rightarrow> string \<Rightarrow> control_service
   \<Rightarrow> coordinator_message result \<times> control_service" where
  "client_cancel_query cx pb now q reason s =
     checked_reply (control_call (control_do_action cx pb now) (cx_cancel cx) (cx_message cx) ACTION_CANCEL_QUERY (q, reason) s)
       (\<lambda>m. rbind (coordinator_message_validate pb m) (\<lambda>_. Inr m))"

definition client_stage_output_blocks :: "control_externs \<Rightarrow> pb_decoder \<Rightarrow> u64 \<Rightarrow> query_id \<Rightarrow> stage_id
   \<Rightarrow> control_service \<Rightarrow> shuffle_block list result \<times> control_service" where
  "client_stage_output_blocks cx pb now q st s =
     control_call (control_do_action cx pb now) (cx_stage_ref cx) (cx_blocks cx) ACTION_STAGE_OUTPUT_BLOCKS (q, st) s"

definition client_stage_status :: "control_externs \<Rightarrow> pb_decoder \<Rightarrow> u64 \<Rightarrow> query_id \<Rightarrow> stage_id
   \<Rightarrow> control_service \<Rightarrow> stage_status result \<times> control_service" where
  "client_stage_status cx pb now q st s =
     control_call (control_do_action cx pb now) (cx_stage_ref cx) (cx_stage_status cx) ACTION_STAGE_STATUS (q, st) s"

definition client_partition_status :: "control_externs \<Rightarrow> pb_decoder \<Rightarrow> u64 \<Rightarrow> query_id \<Rightarrow> stage_id \<Rightarrow> partition_id
   \<Rightarrow> control_service \<Rightarrow> partition_status result \<times> control_service" where
  "client_partition_status cx pb now q st p s =
     control_call (control_do_action cx pb now) (cx_partition_ref cx) (cx_partition_status cx) ACTION_PARTITION_STATUS
       (q, st, p) s"

section \<open>Interleaved handlers\<close>

declare split_paired_All [simp del] split_paired_Ex [simp del]

text \<open>
  The service with its handlers at work.  \<open>sys_notices\<close> are the cancellations that have left the
  coordinator's lock and not yet taken the lock of the queues.  \<open>sys_targets\<close> and \<open>sys_taken\<close> are
  history: the workers each cancellation named, and the messages that polls have taken.
\<close>

record control_system =
  sys_service :: control_service
  sys_notices :: "(coordinator_message \<times> worker_id list) list"
  sys_targets :: "(worker_id \<times> coordinator_message) multiset"
  sys_taken :: "(worker_id \<times> coordinator_message) multiset"

definition set_coordinator :: "coordinator \<Rightarrow> control_system \<Rightarrow> control_system" where
  "set_coordinator c s = s\<lparr>sys_service := (sys_service s)\<lparr>cs_coordinator := c\<rparr>\<rparr>"

definition set_pending :: "pending_messages \<Rightarrow> control_system \<Rightarrow> control_system" where
  "set_pending p s = s\<lparr>sys_service := (sys_service s)\<lparr>cs_pending := p\<rparr>\<rparr>"

abbreviation coord :: "control_system \<Rightarrow> coordinator" where
  "coord s \<equiv> cs_coordinator (sys_service s)"

abbreviation queues :: "control_system \<Rightarrow> pending_messages" where
  "queues s \<equiv> cs_pending (sys_service s)"

inductive cp_step :: "pb_decoder \<Rightarrow> control_system \<Rightarrow> control_system \<Rightarrow> bool" for pb where
  cp_submit: "submit_stage pb st (coord s) = (r, c) \<Longrightarrow> cp_step pb s (set_coordinator c s)"
| cp_message: "handle_worker_message m now (coord s) = (r, c) \<Longrightarrow> cp_step pb s (set_coordinator c s)"
| cp_assign: "next_assignment_for pb w now (coord s) = (r, c) \<Longrightarrow> cp_step pb s (set_coordinator c s)"
| cp_take: "take_pending w (queues s) = (Some m, p) \<Longrightarrow>
    cp_step pb s ((set_pending p s)\<lparr>sys_taken := add_mset (w, m) (sys_taken s)\<rparr>)"
| cp_cancel: "cancel_locked pb q reason (coord s) = (Inr (m, ws), c) \<Longrightarrow>
    cp_step pb s ((set_coordinator c s)\<lparr>sys_notices := sys_notices s @ [(m, ws)],
      sys_targets := sys_targets s + mset (map (\<lambda>w. (w, m)) ws)\<rparr>)"
| cp_refuse: "cancel_locked pb q reason (coord s) = (Inl e, c) \<Longrightarrow> cp_step pb s (set_coordinator c s)"
| cp_notify: "sys_notices s = ns @ (m, ws) # ns' \<Longrightarrow>
    cp_step pb s ((set_pending (notify_workers m ws (queues s)) s)\<lparr>sys_notices := ns @ ns'\<rparr>)"

definition cp_start :: "coordinator \<Rightarrow> control_system" where
  "cp_start c = \<lparr>sys_service = \<lparr>cs_coordinator = c, cs_pending = []\<rparr>, sys_notices = [],
     sys_targets = {#}, sys_taken = {#}\<rparr>"

definition cp_init :: "control_system \<Rightarrow> bool" where
  "cp_init s \<longleftrightarrow> (\<exists>c. co_init c \<and> s = cp_start c)"

subsection \<open>Queues\<close>

definition queued :: "pending_messages \<Rightarrow> (worker_id \<times> coordinator_message) multiset" where
  "queued p = mset (concat (map (\<lambda>(w, q). map (\<lambda>m. (w, m)) q) p))"

definition in_flight :: "(coordinator_message \<times> worker_id list) list \<Rightarrow> (worker_id \<times> coordinator_message) multiset" where
  "in_flight ns = mset (concat (map (\<lambda>(m, ws). map (\<lambda>w. (w, m)) ws) ns))"

lemma queued_Nil [simp]: "queued [] = {#}"
  by (simp add: queued_def)

lemma queued_Cons [simp]: "queued ((w, q) # p) = mset (map (\<lambda>m. (w, m)) q) + queued p"
  by (simp add: queued_def)

lemma in_flight_simps [simp]:
  "in_flight [] = {#}" "in_flight ((m, ws) # ns) = mset (map (\<lambda>w. (w, m)) ws) + in_flight ns"
  "in_flight (ns @ ns') = in_flight ns + in_flight ns'"
  by (simp_all add: in_flight_def)

lemma queued_insert: "map_of p w = None \<Longrightarrow> queued (bt_insert w q p) = mset (map (\<lambda>m. (w, m)) q) + queued p"
  by (induction p) (auto split: if_splits)

lemma queued_update:
  assumes "bt_ok p" and "map_of p w = Some q"
  shows "queued (bt_update w f p) + mset (map (\<lambda>m. (w, m)) q) = queued p + mset (map (\<lambda>m. (w, m)) (f q))"
  using assms
proof (induction p)
  case (Cons e p)
  obtain k v where e: "e = (k, v)" by force
  from Cons.prems have ok: "bt_ok p" and fresh: "k = w \<Longrightarrow> w \<notin> fst ` set p" by (auto simp: bt_ok_def e)
  have "bt_update w f p = p" if "k = w"
    using fresh [OF that] by (force simp: bt_update_def intro!: map_idI)
  moreover have "bt_update w f ((k, v) # p) = (k, if k = w then f v else v) # bt_update w f p"
    by (simp add: bt_update_def)
  ultimately show ?case
    using Cons.IH [OF ok] Cons.prems(2) e by (cases "k = w") (auto simp: ac_simps)
qed simp

lemma queued_push: "bt_ok p \<Longrightarrow> queued (push_back m w p) = add_mset (w, m) (queued p)"
proof (cases "map_of p w")
  case None
  then show ?thesis by (simp add: push_back_def queued_insert)
next
  case (Some q)
  assume "bt_ok p"
  from queued_update [OF this Some, of "\<lambda>q. q @ [m]"] Some show ?thesis by (simp add: push_back_def)
qed

lemma bt_ok_push: "bt_ok p \<Longrightarrow> bt_ok (push_back m w p)"
  by (simp add: push_back_def split: option.split)

lemma queued_notify:
  "bt_ok p \<Longrightarrow> bt_ok (notify_workers m ws p) \<and> queued (notify_workers m ws p) = mset (map (\<lambda>w. (w, m)) ws) + queued p"
proof (induction ws arbitrary: p)
  case (Cons w ws)
  then show ?case using Cons.IH [of "push_back m w p"] by (simp add: notify_workers_def bt_ok_push queued_push)
qed (simp add: notify_workers_def)

lemma take_pending_Some:
  assumes "bt_ok p" and "take_pending w p = (Some m, p')"
  shows "bt_ok p'" and "add_mset (w, m) (queued p') = queued p"
proof -
  obtain ms where q: "map_of p w = Some (m # ms)" and p': "p' = bt_update w tl p"
    using assms(2) by (auto simp: take_pending_def split: option.splits list.splits)
  show "bt_ok p'" using assms(1) p' by simp
  show "add_mset (w, m) (queued p') = queued p" using queued_update [OF assms(1) q, of tl] p' by simp
qed

subsection \<open>No notice is lost\<close>

lemma part_exists:
  assumes "co_static pb c" and "plan c k = Some pl"
  shows "part c k i \<noteq> None \<longleftrightarrow> i < unat (sp_partition_count pl)"
proof -
  obtain sr where sr: "map_of (co_stages c) k = Some sr" "st_plan sr = pl"
    using assms(2) by (auto simp: plan_def)
  then have "length (st_partitions sr) = unat (sp_partition_count pl)"
    using assms(1) unfolding co_static_def by blast
  then show ?thesis using sr by (simp add: part_def)
qed

lemma cancelling_kept:
  assumes inv: "co_inv pb c" "co_inv pb c'" and ah: "ahead c c'"
    and same: "co_cancelled c' = co_cancelled c" "plan c' = plan c"
    and p: "part c' k i = Some (PtCancelling t w l)"
  shows "part c k i = Some (PtCancelling t w l)"
proof -
  have st: "co_static pb c" "co_static pb c'" using inv by (simp_all add: co_inv_def)
  obtain pl where pl: "plan c' k = Some pl" using plan_of_part [OF p] by blast
  have "i < unat (sp_partition_count pl)" using part_exists [OF st(2) pl, of i] p by simp
  then obtain p0 where p0: "part c k i = Some p0" using part_exists [OF st(1), of k pl i] pl same(2) by auto
  have "moves_up p0 (PtCancelling t w l)" using ah p0 p by (fastforce simp: ahead_def)
  moreover have "cancel_consistent (map_of (co_cancelled c) (fst k) \<noteq> None) (PtCancelling t w l)"
    using co_staticD(8) [OF st(2) p] same(1) by simp
  then have "cancel_consistent True p0"
    using co_staticD(8) [OF st(1) p0] by (simp add: cancel_consistent_def)
  ultimately have "p0 = PtCancelling t w l"
    by (cases p0) (auto simp: moves_up_def cancel_consistent_def)
  then show ?thesis using p0 by simp
qed

lemma assign_quiet:
  assumes st: "co_static pb c" and step: "next_assignment_for pb w now c = (r, c')"
  shows "co_cancelled c' = co_cancelled c \<and> plan c' = plan c"
proof -
  note st' = advance_time_facts(1) [OF st, of now]
  have "co_cancelled c' = co_cancelled (advance_time now c) \<and> plan c' = plan (advance_time now c)"
  proof (cases "map_of (co_workers (advance_time now c)) w")
    case None
    then show ?thesis using step by (simp add: next_assignment_for_def)
  next
    case (Some wr)
    then show ?thesis
      using step assign_to_worker_spec [OF st' Some, of now]
      by (auto simp: next_assignment_for_def Let_def split: if_splits option.splits prod.splits)
  qed
  then show ?thesis using advance_time_facts(3,4) [OF st, of now] by simp
qed

lemma message_quiet:
  assumes st: "co_static pb c" and step: "handle_worker_message m now c = (r, c')"
  shows "co_cancelled c' = co_cancelled c \<and> plan c' = plan c"
proof (cases "worker_message_validate m")
  case (Inl e)
  then show ?thesis using step by (simp add: handle_worker_message_def)
next
  case (Inr u)
  have "co_cancelled c' = co_cancelled (advance_time now c) \<and> plan c' = plan (advance_time now c)"
  proof (cases m)
    case (Register v g)
    with step Inr show ?thesis
      by (auto simp: handle_worker_message_def register_worker_def Let_def plan_def split: if_splits)
  next
    case (Heartbeat v h)
    with step Inr show ?thesis
      by (auto simp: handle_worker_message_def record_heartbeat_def Let_def split: if_splits option.splits)
  next
    case (TaskUpdate v w t state)
    with step Inr have "record_task_update w t state now (advance_time now c) = (r, c')"
      by (simp add: handle_worker_message_def)
    then show ?thesis
      by (cases rule: record_task_update_cases) (auto simp: release_worker_slot_def)
  qed
  then show ?thesis using advance_time_facts(3,4) [OF st, of now] by simp
qed

definition owners_notified :: "coordinator \<Rightarrow> (worker_id \<times> coordinator_message) multiset \<Rightarrow> bool" where
  "owners_notified c T \<longleftrightarrow> (\<forall>k i t w l. part c k i = Some (PtCancelling t w l) \<longrightarrow>
     (\<exists>reason. map_of (co_cancelled c) (fst k) = Some reason
        \<and> (w, CancelQuery PROTOCOL_VERSION (fst k) reason) \<in># T))"

definition cp_inv :: "pb_decoder \<Rightarrow> control_system \<Rightarrow> bool" where
  "cp_inv pb s \<longleftrightarrow> reachable pb (coord s) \<and> bt_ok (queues s)
     \<and> sys_targets s = in_flight (sys_notices s) + queued (queues s) + sys_taken s
     \<and> owners_notified (coord s) (sys_targets s)"

lemma set_coordinator_sel [simp]:
  "coord (set_coordinator c s) = c" "queues (set_coordinator c s) = queues s"
  "sys_notices (set_coordinator c s) = sys_notices s" "sys_targets (set_coordinator c s) = sys_targets s"
  "sys_taken (set_coordinator c s) = sys_taken s"
  by (simp_all add: set_coordinator_def)

lemma set_pending_sel [simp]:
  "coord (set_pending p s) = coord s" "queues (set_pending p s) = p"
  "sys_notices (set_pending p s) = sys_notices s" "sys_targets (set_pending p s) = sys_targets s"
  "sys_taken (set_pending p s) = sys_taken s"
  by (simp_all add: set_pending_def)

lemma cp_inv_quiet:
  assumes inv: "cp_inv pb s" and step: "co_step pb (coord s) c"
    and same: "co_cancelled c = co_cancelled (coord s)"
    and kept: "\<And>k i t w l. part c k i = Some (PtCancelling t w l) \<Longrightarrow> part (coord s) k i = Some (PtCancelling t w l)"
  shows "cp_inv pb (set_coordinator c s)"
proof -
  have "(co_step pb)\<^sup>*\<^sup>* (coord s) c" using step by (rule r_into_rtranclp)
  then have "reachable pb c" using inv reachable_run by (auto simp: cp_inv_def)
  moreover have "owners_notified c (sys_targets s)"
    using inv kept unfolding cp_inv_def owners_notified_def same by blast
  ultimately show ?thesis using inv by (simp add: cp_inv_def)
qed

lemma active_worker_listed:
  assumes "co_static pb c" and "active_workers_for_query c q = Inr ws"
    and "part c k i = Some (PtActive t w l st)" and "fst k = q"
  shows "w \<in> set ws"
proof -
  obtain sr where sr: "map_of (co_stages c) k = Some sr" "i < length (st_partitions sr)"
    "st_partitions sr ! i = PtActive t w l st"
    using assms(3) by (rule part_SomeD)
  then have "(k, sr) \<in> set (co_stages c)" "PtActive t w l st \<in> set (st_partitions sr)"
    by (auto dest: map_of_SomeD) (metis nth_mem)
  then have "w \<in> set (concat (map (\<lambda>(k, st). if fst k = q then concat (map active_owner (st_partitions st)) else [])
      (co_stages c)))"
    using assms(4) by (force simp: active_owner_def)
  moreover have "set ws = set (concat (map (\<lambda>(k, st). if fst k = q then concat (map active_owner (st_partitions st)) else [])
      (co_stages c)))"
    using assms(2) unfolding active_workers_for_query_def
    by (auto simp only: sum.inject remdups_adj_set set_sort split: if_splits)
  ultimately show ?thesis by simp
qed

lemma cancel_locked_cases:
  assumes "cancel_locked pb q reason c = (r, c')"
  obtains (refused) e where "r = Inl e" "cancel_query pb q reason c = (Inl e, c') \<or> c' = c"
  | (cancelled) ws where "r = Inr (CancelQuery PROTOCOL_VERSION q reason, ws)"
      "active_workers_for_query c q = Inr ws"
      "cancel_query pb q reason c = (Inr (CancelQuery PROTOCOL_VERSION q reason), c')"
proof (cases "active_workers_for_query c q")
  case (Inl e)
  then show thesis using assms by (intro refused) (auto simp: cancel_locked_def)
next
  case (Inr ws)
  obtain r' d where cq: "cancel_query pb q reason c = (r', d)" by force
  show thesis
  proof (cases r')
    case (Inl e)
    then show thesis using assms Inr cq by (intro refused) (auto simp: cancel_locked_def)
  next
    case (Inr m)
    then have "m = CancelQuery PROTOCOL_VERSION q reason"
      using cq by (auto simp: cancel_query_def Let_def split: sum.splits option.splits if_splits)
    then show thesis
      using assms \<open>active_workers_for_query c q = Inr ws\<close> cq Inr
      by (intro cancelled [of ws]) (auto simp: cancel_locked_def)
  qed
qed

lemma cancel_refused_same: "cancel_query pb q reason c = (Inl e, c') \<Longrightarrow> c' = c"
  by (auto simp: cancel_query_def Let_def split: sum.splits option.splits if_splits)

lemma cancel_owners_notified:
  assumes inv: "co_inv pb c" and ws: "active_workers_for_query c q = Inr ws"
    and step: "cancel_query pb q reason c = (Inr (CancelQuery PROTOCOL_VERSION q reason), c')"
    and own: "owners_notified c T"
  shows "owners_notified c' (T + mset (map (\<lambda>w. (w, CancelQuery PROTOCOL_VERSION q reason)) ws))"
  using step
proof (cases rule: cancel_query_cases)
  case 1
  then show ?thesis using own by (fastforce simp: owners_notified_def)
next
  case 2
  have st: "co_static pb c" using inv by (simp add: co_inv_def)
  note look = cancel_lookups [OF 2(1)]
  show ?thesis
    unfolding owners_notified_def
  proof (intro allI impI)
    fix k i t w l
    assume p: "part c' k i = Some (PtCancelling t w l)"
    show "\<exists>reason'. map_of (co_cancelled c') (fst k) = Some reason' \<and>
        (w, CancelQuery PROTOCOL_VERSION (fst k) reason') \<in>#
          T + mset (map (\<lambda>w. (w, CancelQuery PROTOCOL_VERSION q reason)) ws)"
    proof (cases "fst k = q")
      case False
      then have "part c k i = Some (PtCancelling t w l)" using p look(1) by simp
      then show ?thesis using own False look(4) by (fastforce simp: owners_notified_def)
    next
      case True
      then obtain p0 where p0: "part c k i = Some p0" "cancel_partition p0 = PtCancelling t w l"
        using p look(1) by auto
      then obtain s where "p0 = PtActive t w l s" by (cases p0) auto
      then have "w \<in> set ws" using active_worker_listed [OF st ws, of k i t w l s] p0 True by simp
      then show ?thesis using True look(4) by auto
    qed
  qed
qed

lemma cp_inv_step: "cp_step pb s s' \<Longrightarrow> cp_inv pb s \<Longrightarrow> cp_inv pb s'"
proof (induction rule: cp_step.induct)
  case (cp_submit st s r c)
  have "part (coord s) k i = Some (PtCancelling t w l)" if "part c k i = Some (PtCancelling t w l)" for k i t w l
    using that submit_stage_lookups(1) [of pb "coord s" st _ r c] cp_submit(1)
    by (cases "submit_checks pb (coord s) st") (auto simp: submit_stage_def split: if_splits)
  moreover have "co_cancelled c = co_cancelled (coord s)"
    using cp_submit(1) by (auto simp: submit_stage_def split: sum.splits)
  ultimately show ?case using cp_submit by (intro cp_inv_quiet) (auto intro: co_step.submit)
next
  case (cp_message m now s r c)
  have inv: "co_inv pb (coord s)" using cp_message(2) reachable_co_inv by (simp add: cp_inv_def)
  then have st: "co_static pb (coord s)" by (simp add: co_inv_def)
  have step: "co_step pb (coord s) c" using cp_message(1) by (rule co_step.message)
  show ?case
  proof (rule cp_inv_quiet [OF cp_message(2) step])
    show "co_cancelled c = co_cancelled (coord s)" using message_quiet [OF st cp_message(1)] by simp
    show "part (coord s) k i = Some (PtCancelling t w l)" if "part c k i = Some (PtCancelling t w l)" for k i t w l
      using cancelling_kept [OF inv co_inv_step [OF inv step] ahead_step [OF inv step]]
        message_quiet [OF st cp_message(1)] that by blast
  qed
next
  case (cp_assign w now s r c)
  have inv: "co_inv pb (coord s)" using cp_assign(2) reachable_co_inv by (simp add: cp_inv_def)
  then have st: "co_static pb (coord s)" by (simp add: co_inv_def)
  have step: "co_step pb (coord s) c" using cp_assign(1) by (rule co_step.assign_for)
  show ?case
  proof (rule cp_inv_quiet [OF cp_assign(2) step])
    show "co_cancelled c = co_cancelled (coord s)" using assign_quiet [OF st cp_assign(1)] by simp
    show "part (coord s) k i = Some (PtCancelling t w l)" if "part c k i = Some (PtCancelling t w l)" for k i t w l
      using cancelling_kept [OF inv co_inv_step [OF inv step] ahead_step [OF inv step]]
        assign_quiet [OF st cp_assign(1)] that by blast
  qed
next
  case (cp_take w s m p)
  then show ?case using take_pending_Some [of "queues s" w m p] by (auto simp: cp_inv_def)
next
  case (cp_cancel q reason s m ws c)
  have inv: "co_inv pb (coord s)" using cp_cancel(2) reachable_co_inv by (simp add: cp_inv_def)
  obtain m: "m = CancelQuery PROTOCOL_VERSION q reason" and aw: "active_workers_for_query (coord s) q = Inr ws"
    and cq: "cancel_query pb q reason (coord s) = (Inr m, c)"
    using cp_cancel(1) by (cases rule: cancel_locked_cases) auto
  have "(co_step pb)\<^sup>*\<^sup>* (coord s) c" using co_step.cancel [OF cq] by (rule r_into_rtranclp)
  then have reach: "reachable pb c" using cp_cancel(2) reachable_run by (auto simp: cp_inv_def)
  define T where "T = sys_targets s + mset (map (\<lambda>w. (w, m)) ws)"
  have "owners_notified c T"
    unfolding T_def m using cp_cancel(2) unfolding cp_inv_def
    by (intro cancel_owners_notified [OF inv aw cq [unfolded m]]) blast
  moreover have "T = in_flight (sys_notices s @ [(m, ws)]) + queued (queues s) + sys_taken s"
    using cp_cancel(2) by (simp add: cp_inv_def T_def ac_simps)
  moreover have "bt_ok (queues s)" using cp_cancel(2) by (simp add: cp_inv_def)
  moreover note reach
  ultimately show ?case unfolding T_def [symmetric] by (simp add: cp_inv_def)
next
  case (cp_refuse q reason s e c)
  then have "c = coord s" by (cases rule: cancel_locked_cases) (auto dest: cancel_refused_same)
  then show ?case using cp_refuse(2) by (auto simp: cp_inv_def)
next
  case (cp_notify s ns m ws ns')
  then show ?case using queued_notify [of "queues s" m ws] by (auto simp: cp_inv_def ac_simps)
qed

lemma cp_inv_init: "cp_init s \<Longrightarrow> cp_inv pb s"
proof -
  assume "cp_init s"
  then obtain c where c: "co_init c" "s = cp_start c" by (auto simp: cp_init_def)
  then have "part c k i = None" for k i by (auto simp: co_init_def coordinator_new_def rbind_eq_Inr part_def)
  then show ?thesis using c by (auto simp: cp_inv_def cp_start_def owners_notified_def reachable_def)
qed

interpretation cp: transition_system cp_init "cp_step pb" "cp_inv pb" for pb
  by unfold_locales (auto intro: cp_inv_init cp_inv_step)

section \<open>Properties\<close>

text \<open>
  C8: No cancellation notice is lost or duplicated, whatever handlers run between the two locks of a
  cancellation and of a poll.  The notices ever issued are exactly those still in flight, those
  queued for their worker and those a poll has taken; and every worker that owns a task of a
  cancelled query is among the workers the notice was issued for.  The coordinator behind the
  service stays in a reachable state, so all its properties hold under the service.
\<close>

theorem cancel_notices_conserved:
  assumes "cp_init s0" and "(cp_step pb)\<^sup>*\<^sup>* s0 s"
  shows "reachable pb (cs_coordinator (sys_service s))
    \<and> sys_targets s = in_flight (sys_notices s) + queued (cs_pending (sys_service s)) + sys_taken s
    \<and> (\<forall>k i t w l. part (cs_coordinator (sys_service s)) k i = Some (PtCancelling t w l) \<longrightarrow>
        (\<exists>reason. map_of (co_cancelled (cs_coordinator (sys_service s))) (fst k) = Some reason
          \<and> (w, CancelQuery PROTOCOL_VERSION (fst k) reason)
              \<in># in_flight (sys_notices s) + queued (cs_pending (sys_service s)) + sys_taken s))"
  using cp.reachable_inv [OF assms] unfolding cp_inv_def owners_notified_def by metis

definition demo_cp :: control_system where
  "demo_cp = set_coordinator demo_assigned (cp_start demo_new)"

lemma set_coordinator_twice [simp]: "set_coordinator c (set_coordinator d s) = set_coordinator c s"
  by (simp add: set_coordinator_def)

lemma demo_cp_run: "(cp_step demo_pb)\<^sup>*\<^sup>* (cp_start demo_new) demo_cp"
proof -
  let ?c1 = "snd (submit_stage demo_pb demo_producer demo_new)"
  have "cp_step demo_pb (cp_start demo_new) (set_coordinator ?c1 (cp_start demo_new))"
    by (rule cp_submit [of _ demo_producer]) (simp add: cp_start_def prod_eq_iff)
  moreover have "cp_step demo_pb (set_coordinator ?c1 (cp_start demo_new)) (set_coordinator demo_submitted (cp_start demo_new))"
    using cp_submit [of demo_pb demo_consumer "set_coordinator ?c1 (cp_start demo_new)" _ demo_submitted]
    by (simp add: demo_submitted_def prod_eq_iff)
  moreover have "cp_step demo_pb (set_coordinator demo_submitted (cp_start demo_new)) (set_coordinator demo_registered (cp_start demo_new))"
    using cp_message [of "Register 5 demo_registration" 0 "set_coordinator demo_submitted (cp_start demo_new)" _ demo_registered demo_pb]
    by (simp add: demo_registered_def prod_eq_iff)
  moreover have "cp_step demo_pb (set_coordinator demo_registered (cp_start demo_new)) demo_cp"
    using cp_assign [of demo_pb "''w''" 10 "set_coordinator demo_registered (cp_start demo_new)" _ demo_assigned]
    by (simp add: demo_assigned_def demo_cp_def prod_eq_iff)
  ultimately show ?thesis by (meson converse_rtranclp_into_rtranclp rtranclp.rtrancl_refl)
qed

definition demo_cancelled :: coordinator where
  "demo_cancelled = snd (cancel_query demo_pb ''q'' ''w'' demo_assigned)"

definition demo_cp_cancelled :: control_system where
  "demo_cp_cancelled = (set_coordinator demo_cancelled demo_cp)\<lparr>
     sys_notices := [(CancelQuery 5 ''q'' ''w'', [''w''])], sys_targets := {#(''w'', CancelQuery 5 ''q'' ''w'')#}\<rparr>"

lemma demo_cancel_locked:
  "cancel_locked demo_pb ''q'' ''w'' demo_assigned = (Inr (CancelQuery 5 ''q'' ''w'', [''w'']), demo_cancelled)"
proof -
  have "active_workers_for_query demo_assigned ''q'' = Inr [''w'']"
    by (simp add: active_workers_for_query_def query_registered_def demo_assigned_eq demo_registered_eq
        demo_submitted_eq active_owner_def)
  moreover have "cancel_query demo_pb ''q'' ''w'' demo_assigned = (Inr (CancelQuery 5 ''q'' ''w''), demo_cancelled)"
    by (simp add: prod_eq_iff demo_cancel demo_cancelled_def)
  ultimately show ?thesis by (simp add: cancel_locked_def)
qed

lemma demo_cancelled_part:
  "part demo_cancelled (''q'', 0) 0 = Some (PtCancelling (demo_task 0) ''w'' (demo_lease 10))"
proof -
  have "part demo_assigned (''q'', 0) 0 = Some (PtActive (demo_task 0) ''w'' (demo_lease 10) None)"
    by (simp add: part_def demo_assigned_eq)
  moreover have "map_of (co_cancelled demo_assigned) ''q'' = None"
    by (simp add: demo_assigned_eq demo_registered_eq demo_submitted_eq)
  moreover have "cancel_query demo_pb ''q'' ''w'' demo_assigned = (Inr (CancelQuery 5 ''q'' ''w''), demo_cancelled)"
    by (simp add: prod_eq_iff demo_cancel demo_cancelled_def)
  then have eq: "demo_cancelled = demo_assigned\<lparr>
      co_stages := map (\<lambda>(k, st). (k, cancel_stage ''q'' k st)) (co_stages demo_assigned),
      co_cancelled := bt_insert ''q'' ''w'' (co_cancelled demo_assigned)\<rparr>"
    using calculation(2) by (auto simp: cancel_query_def Let_def split: sum.splits if_splits)
  ultimately show ?thesis using cancel_lookups(1) [OF eq, of "(''q'', 0)" 0] by simp
qed

theorem cancel_notices_conserved_witness:
  "part (cs_coordinator (sys_service demo_cp_cancelled)) (''q'', 0) 0
     = Some (PtCancelling (demo_task 0) ''w'' (demo_lease 10))
   \<and> (\<exists>reason. (''w'', CancelQuery PROTOCOL_VERSION ''q'' reason)
        \<in># in_flight (sys_notices demo_cp_cancelled) + queued (cs_pending (sys_service demo_cp_cancelled))
            + sys_taken demo_cp_cancelled)"
proof -
  have "cp_step demo_pb demo_cp demo_cp_cancelled"
    using cp_cancel [of demo_pb "''q''" "''w''" demo_cp] demo_cancel_locked
    by (simp add: demo_cp_def demo_cp_cancelled_def cp_start_def set_coordinator_def)
  with demo_cp_run have run: "(cp_step demo_pb)\<^sup>*\<^sup>* (cp_start demo_new) demo_cp_cancelled" by simp
  have init: "cp_init (cp_start demo_new)"
    using demo_init by (auto simp: cp_init_def)
  have p: "part (coord demo_cp_cancelled) (''q'', 0) 0 = Some (PtCancelling (demo_task 0) ''w'' (demo_lease 10))"
    using demo_cancelled_part by (simp add: demo_cp_cancelled_def)
  then show ?thesis using cancel_notices_conserved [OF init run] by fastforce
qed

subsection \<open>The client\<close>

text \<open>A value that its JSON carries over the wire.\<close>

definition carries :: "'a json \<Rightarrow> 'a \<Rightarrow> bool" where
  "carries j v \<longleftrightarrow> json_ok j \<and> (\<exists>b. fst j v = Some b \<and> length b \<le> MAX_CONTROL_MESSAGE_BYTES)"

text \<open>An error of the coordinator as the client sees it.\<close>

definition wire_error :: "sparkx_error \<Rightarrow> sparkx_error" where
  "wire_error e = control_map_flight_error (TonicError (control_map_status e))"

definition over_wire :: "'a result \<times> coordinator \<Rightarrow> control_service \<Rightarrow> 'a result \<times> control_service" where
  "over_wire r s = ((case fst r of Inl e \<Rightarrow> Inl (wire_error e) | Inr v \<Rightarrow> Inr v), s\<lparr>cs_coordinator := snd r\<rparr>)"

lemma encode_carries: "carries j v \<Longrightarrow> \<exists>b. encode_response j v = Inr b \<and> snd j b = Some v \<and> length b \<le> MAX_CONTROL_MESSAGE_BYTES"
  by (auto simp: carries_def encode_response_def json_ok_def)

lemma control_call_carries:
  assumes "carries jq v"
    and send: "\<And>body. snd jq body = Some v \<Longrightarrow> length body \<le> MAX_CONTROL_MESSAGE_BYTES \<Longrightarrow>
      send kind body s = (case out of (Inl e, s') \<Rightarrow> (Inl e, s') | (Inr b, s') \<Rightarrow> (Inr [b], s'))"
  shows "control_call send jq jr kind v s =
    (case out of
       (Inl e, s') \<Rightarrow> (Inl (control_map_flight_error (TonicError e)), s')
     | (Inr b, s') \<Rightarrow> (rbind (check_message_size (length b)) (\<lambda>_.
          ok_or (snd jr b) (EProtocol ''decode control response for {action_type}: {error}'')), s'))"
proof -
  obtain body where "fst jq v = Some body" "length body \<le> MAX_CONTROL_MESSAGE_BYTES" "snd jq body = Some v"
    using assms(1) by (auto simp: carries_def json_ok_def)
  then show ?thesis
    using send [of body] by (cases out; cases "fst out") (auto simp: control_call_def check_message_size_def)
qed

lemma locked_call:
  assumes "carries jq v" and reply: "\<And>a. fst r = Inr a \<Longrightarrow> carries jr (g a)"
    and send: "\<And>body. snd jq body = Some v \<Longrightarrow> length body \<le> MAX_CONTROL_MESSAGE_BYTES \<Longrightarrow>
      send kind body s = (case locked r (\<lambda>a. encode_response jr (g a)) s' of
        (Inl e, s') \<Rightarrow> (Inl e, s') | (Inr b, s') \<Rightarrow> (Inr [b], s'))"
  shows "control_call send jq jr kind v s =
    ((case fst r of Inl e \<Rightarrow> Inl (wire_error e) | Inr a \<Rightarrow> Inr (g a)), s'\<lparr>cs_coordinator := snd r\<rparr>)"
proof -
  have call: "control_call send jq jr kind v s =
      (case locked r (\<lambda>a. encode_response jr (g a)) s' of
         (Inl e, s') \<Rightarrow> (Inl (control_map_flight_error (TonicError e)), s')
       | (Inr b, s') \<Rightarrow> (rbind (check_message_size (length b)) (\<lambda>_.
            ok_or (snd jr b) (EProtocol ''decode control response for {action_type}: {error}'')), s'))"
    by (rule control_call_carries [OF assms(1)]) (rule send)
  show ?thesis
  proof (cases "fst r")
    case (Inl e)
    then have out: "locked r (\<lambda>a. encode_response jr (g a)) s' = (Inl (control_map_status e), s'\<lparr>cs_coordinator := snd r\<rparr>)"
      by (cases r) (simp add: locked_def)
    show ?thesis using call by (simp add: out Inl wire_error_def)
  next
    case (Inr a)
    obtain b where b: "encode_response jr (g a) = Inr b" "snd jr b = Some (g a)" "length b \<le> MAX_CONTROL_MESSAGE_BYTES"
      using encode_carries [OF reply [OF Inr]] by blast
    then have out: "locked r (\<lambda>a. encode_response jr (g a)) s' = (Inr b, s'\<lparr>cs_coordinator := snd r\<rparr>)"
      using Inr by (cases r) (simp add: locked_def)
    show ?thesis using call b by (simp add: out Inr check_message_size_def)
  qed
qed

lemmas action_names = ACTION_SUBMIT_STAGE_def ACTION_WORKER_MESSAGE_def ACTION_POLL_ASSIGNMENT_def
  ACTION_CANCEL_QUERY_def ACTION_STAGE_OUTPUT_BLOCKS_def ACTION_STAGE_STATUS_def ACTION_PARTITION_STATUS_def

text \<open>The replies that a poll may have to send.\<close>

definition poll_replies :: "pb_decoder \<Rightarrow> u64 \<Rightarrow> worker_id \<Rightarrow> control_service \<Rightarrow> coordinator_message option set" where
  "poll_replies pb now w s = {None, fst (take_pending w (cs_pending s))}
     \<union> {a. fst (next_assignment_for pb w now (cs_coordinator s)) = Inr a}"

lemma poll_call:
  assumes q: "carries (cx_poll cx) (w, accept)" and reply: "\<forall>a\<in>poll_replies pb now w s. carries (cx_assignment cx) a"
  shows "control_call (control_do_action cx pb now) (cx_poll cx) (cx_assignment cx) ACTION_POLL_ASSIGNMENT (w, accept) s =
    (case take_pending w (cs_pending s) of
       (Some n, p) \<Rightarrow> (Inr (Some n), s\<lparr>cs_pending := p\<rparr>)
     | (None, p) \<Rightarrow> if accept then over_wire (next_assignment_for pb w now (cs_coordinator s)) s else (Inr None, s))"
proof -
  have send: "control_do_action cx pb now ACTION_POLL_ASSIGNMENT body s =
      (case poll_action cx pb now (w, accept) s of (Inl e, s') \<Rightarrow> (Inl e, s') | (Inr b, s') \<Rightarrow> (Inr [b], s'))"
    if "snd (cx_poll cx) body = Some (w, accept)" "length body \<le> MAX_CONTROL_MESSAGE_BYTES" for body
    using that by (auto simp: control_do_action_def with_request_def decode_request_def action_names)
  obtain n p where tp: "take_pending w (cs_pending s) = (n, p)" by force
  have enc: "control_call (control_do_action cx pb now) (cx_poll cx) (cx_assignment cx) ACTION_POLL_ASSIGNMENT (w, accept) s
      = (Inr a, s')" if pa: "poll_action cx pb now (w, accept) s = (encode_response (cx_assignment cx) a, s')"
      "a \<in> poll_replies pb now w s" for a s'
  proof -
    have call: "control_call (control_do_action cx pb now) (cx_poll cx) (cx_assignment cx) ACTION_POLL_ASSIGNMENT (w, accept) s =
      (case poll_action cx pb now (w, accept) s of
         (Inl e, s') \<Rightarrow> (Inl (control_map_flight_error (TonicError e)), s')
       | (Inr b, s') \<Rightarrow> (rbind (check_message_size (length b)) (\<lambda>_.
            ok_or (snd (cx_assignment cx) b) (EProtocol ''decode control response for {action_type}: {error}'')), s'))"
      by (rule control_call_carries [OF q]) (rule send)
    obtain b where "encode_response (cx_assignment cx) a = Inr b" "snd (cx_assignment cx) b = Some a"
      "length b \<le> MAX_CONTROL_MESSAGE_BYTES"
      using encode_carries [of "cx_assignment cx" a] reply pa(2) by blast
    then show ?thesis using call pa(1) by (simp add: check_message_size_def)
  qed
  show ?thesis
  proof (cases n)
    case (Some m)
    then show ?thesis using enc [of "Some m"] tp by (simp add: poll_action_def poll_replies_def)
  next
    case None
    then have p: "s\<lparr>cs_pending := p\<rparr> = s" using tp by (auto simp: take_pending_def split: option.splits list.splits)
    show ?thesis
    proof (cases accept)
      case False
      then show ?thesis using enc [of None s] tp None p by (simp add: poll_action_def poll_replies_def)
    next
      case True
      have "control_call (control_do_action cx pb now) (cx_poll cx) (cx_assignment cx) ACTION_POLL_ASSIGNMENT (w, accept) s
        = ((case fst (next_assignment_for pb w now (cs_coordinator s)) of Inl e \<Rightarrow> Inl (wire_error e) | Inr a \<Rightarrow> Inr a),
           s\<lparr>cs_coordinator := snd (next_assignment_for pb w now (cs_coordinator s))\<rparr>)"
        by (rule locked_call [OF q]) (use reply send True tp None p in \<open>auto simp: poll_action_def poll_replies_def\<close>)
      then show ?thesis using True tp None by (simp add: over_wire_def)
    qed
  qed
qed

lemma wire_error_kept:
  "wire_error (EProtocol m) = EProtocol m" "wire_error (ENotFound m) = ENotFound m"
  "wire_error (EResourceExhausted m) = EResourceExhausted m" "wire_error ETaskSuperseded = ETaskSuperseded"
  "wire_error ECancelled = ECancelled"
  by (simp_all add: wire_error_def)

text \<open>
  C22: Calling the coordinator through the client and the service is calling it directly.  When the
  request and the reply fit into a message, submitting a stage, reporting a worker message and
  polling have the coordinator's result and effect; a pending notice takes precedence over an
  assignment and leaves the coordinator alone, and a busy worker only receives notices.  The errors a
  worker reacts to (protocol, not found, exhausted, superseded, cancelled) arrive unchanged.
\<close>

theorem client_reaches_coordinator:
  assumes ack: "carries (cx_ack cx) True" and reply: "\<forall>a\<in>poll_replies pb now w s. carries (cx_assignment cx) a"
    and "carries (cx_stage cx) stage" and "carries (cx_worker_message cx) m"
    and "carries (cx_poll cx) (w, accept)"
  shows "client_submit_stage cx pb now stage s = over_wire (submit_stage pb stage (cs_coordinator s)) s
    \<and> send_worker_message cx pb now m s = over_wire (handle_worker_message m now (cs_coordinator s)) s
    \<and> poll_assignment_with_capacity cx pb now w accept s =
        checked_reply
          (case take_pending w (cs_pending s) of
             (Some n, p) \<Rightarrow> (Inr (Some n), s\<lparr>cs_pending := p\<rparr>)
           | (None, p) \<Rightarrow> if accept then over_wire (next_assignment_for pb w now (cs_coordinator s)) s else (Inr None, s))
          (\<lambda>a. case a of None \<Rightarrow> Inr None | Some n \<Rightarrow> rbind (coordinator_message_validate pb n) (\<lambda>_. Inr (Some n)))
    \<and> (\<forall>e msg. e \<in> {EProtocol msg, ENotFound msg, EResourceExhausted msg, ETaskSuperseded, ECancelled} \<longrightarrow> wire_error e = e)"
proof (intro conjI)
  let ?send = "control_do_action cx pb now"
  have "control_call ?send (cx_stage cx) (cx_ack cx) ACTION_SUBMIT_STAGE stage s =
      ((case fst (submit_stage pb stage (cs_coordinator s)) of Inl e \<Rightarrow> Inl (wire_error e) | Inr a \<Rightarrow> Inr True),
       s\<lparr>cs_coordinator := snd (submit_stage pb stage (cs_coordinator s))\<rparr>)"
    by (rule locked_call [OF assms(3)])
      (use ack in \<open>auto simp: control_do_action_def with_request_def decode_request_def submit_action_def\<close>)
  then show "client_submit_stage cx pb now stage s = over_wire (submit_stage pb stage (cs_coordinator s)) s"
    by (auto simp: client_submit_stage_def checked_reply_def over_wire_def validate_ack_def split: sum.splits)
  have "control_call ?send (cx_worker_message cx) (cx_ack cx) ACTION_WORKER_MESSAGE m s =
      ((case fst (handle_worker_message m now (cs_coordinator s)) of Inl e \<Rightarrow> Inl (wire_error e) | Inr a \<Rightarrow> Inr True),
       s\<lparr>cs_coordinator := snd (handle_worker_message m now (cs_coordinator s))\<rparr>)"
    by (rule locked_call [OF assms(4)])
      (use ack in \<open>auto simp: control_do_action_def with_request_def decode_request_def message_action_def action_names\<close>)
  then show "send_worker_message cx pb now m s = over_wire (handle_worker_message m now (cs_coordinator s)) s"
    by (auto simp: send_worker_message_def checked_reply_def over_wire_def validate_ack_def split: sum.splits)
  show "poll_assignment_with_capacity cx pb now w accept s =
        checked_reply
          (case take_pending w (cs_pending s) of
             (Some n, p) \<Rightarrow> (Inr (Some n), s\<lparr>cs_pending := p\<rparr>)
           | (None, p) \<Rightarrow> if accept then over_wire (next_assignment_for pb w now (cs_coordinator s)) s else (Inr None, s))
          (\<lambda>a. case a of None \<Rightarrow> Inr None | Some n \<Rightarrow> rbind (coordinator_message_validate pb n) (\<lambda>_. Inr (Some n)))"
    using poll_call [OF assms(5) reply] by (simp only: poll_assignment_with_capacity_def)
qed (auto simp: wire_error_kept)

definition one_json :: "'a \<Rightarrow> 'a json" where
  "one_json v = ((\<lambda>x. if x = v then Some [1] else None), (\<lambda>b. if b = [1] then Some v else None))"

lemma one_json_carries: "carries (one_json v) v"
  by (auto simp: carries_def one_json_def json_ok_def MAX_CONTROL_MESSAGE_BYTES_def split: if_splits)

definition demo_cx :: control_externs where
  "demo_cx = \<lparr>cx_stage = one_json demo_producer, cx_worker_message = one_json (Register 5 demo_registration),
     cx_poll = one_json (''w'', False), cx_cancel = one_json (''q'', ''w''), cx_stage_ref = one_json (''q'', 0),
     cx_partition_ref = one_json (''q'', 0, 0), cx_ack = one_json True, cx_assignment = one_json None,
     cx_message = one_json (CancelQuery 5 ''q'' ''w''), cx_blocks = one_json [],
     cx_stage_status = one_json StageCancelled, cx_partition_status = one_json (StatusPending 0)\<rparr>"

theorem client_reaches_coordinator_witness:
  "client_submit_stage demo_cx demo_pb 0 demo_producer \<lparr>cs_coordinator = demo_new, cs_pending = []\<rparr>
     = over_wire (submit_stage demo_pb demo_producer demo_new) \<lparr>cs_coordinator = demo_new, cs_pending = []\<rparr>
   \<and> wire_error ETaskSuperseded = ETaskSuperseded"
proof -
  let ?s = "\<lparr>cs_coordinator = demo_new, cs_pending = []\<rparr>"
  have "\<forall>a\<in>poll_replies demo_pb 0 ''w'' ?s. carries (cx_assignment demo_cx) a"
    by (auto simp: poll_replies_def take_pending_def next_assignment_for_def demo_new_def advance_simps demo_cx_def
        one_json_carries)
  then show ?thesis
    using client_reaches_coordinator [of demo_cx demo_pb 0 "''w''" ?s demo_producer "Register 5 demo_registration" False]
    by (simp add: demo_cx_def one_json_carries)
qed

end
