(* ===== verification/Hash_Exchange.thy ===== *)
theory Hash_Exchange
  imports Sample_Rows Protocol
begin

text \<open>
  \<open>src/cluster/hash_exchange.rs\<close>: routing the rows of a stage's output to its consumers by the
  checksum of their key.

  The cancellation flag may be set by another thread at any moment, so a run is given the token that
  each of its checks observes, in order.  The reservations of the destinations are the held
  reservations of the run; the buffers of one batch are scoped to its iteration.
\<close>

section \<open>Model\<close>

record repartition_state =
  rp_checks :: nat
  rp_outputs :: "batch list list"

type_synonym partition_output = "partition_id \<times> batch list \<times> memory_reservation"

definition poll_cancellation ::
  "(nat \<Rightarrow> cancellation_token) \<Rightarrow> repartition_state \<Rightarrow> repartition_state result" where
  "poll_cancellation tok d =
     rbind (cancellation_check (tok (rp_checks d))) (\<lambda>_. Inr (d\<lparr>rp_checks := Suc (rp_checks d)\<rparr>))"

text \<open>One row: its index is appended to the list of its destination.\<close>

definition route_row ::
  "(bytes \<Rightarrow> u32) \<Rightarrow> u32 \<Rightarrow> (nat \<Rightarrow> cancellation_token) \<Rightarrow> encoded_rows \<Rightarrow> nat
   \<Rightarrow> nat list list \<times> repartition_state \<Rightarrow> (nat list list \<times> repartition_state) result" where
  "route_row crc n tok keys row = (\<lambda>(ix, d).
     rbind (if row mod 8192 = 0 then poll_cancellation tok d else Inr d) (\<lambda>d'.
     rbind (encoded_key keys row) (\<lambda>k.
       let p = unat (crc k mod n) in Inr (ix[p := ix ! p @ [row]], d'))))"

definition take_rows :: "arrow_externs \<Rightarrow> schema \<Rightarrow> batch \<Rightarrow> nat list \<Rightarrow> batch result" where
  "take_rows ax s b rows =
     rbind (rmap (\<lambda>a. ax_take ax a rows) (rb_columns b)) (ax_try_new ax s)"

definition push_output :: "nat \<Rightarrow> batch \<Rightarrow> repartition_state \<Rightarrow> repartition_state" where
  "push_output p b d = d\<lparr>rp_outputs := (rp_outputs d)[p := rp_outputs d ! p @ [b]]\<rparr>"

definition emit_partition ::
  "externs \<Rightarrow> arrow_externs \<Rightarrow> schema \<Rightarrow> batch \<Rightarrow> nat \<times> nat list \<Rightarrow> (repartition_state, unit) charged" where
  "emit_partition x ax s b = (\<lambda>(p, rows).
     if rows = [] then on_data (effect Inr)
     else charged_bind (on_data (inspect (\<lambda>_. take_rows ax s b rows))) (\<lambda>output.
          charged_bind (grow_at p (of_nat (x_batch_bytes x output))) (\<lambda>_.
            on_data (effect (\<lambda>d. Inr (push_output p output d))))))"

definition repartition_batch ::
  "externs \<Rightarrow> arrow_externs \<Rightarrow> (bytes \<Rightarrow> u32) \<Rightarrow> schema \<Rightarrow> hash_exchange \<Rightarrow> row_key_encoder
   \<Rightarrow> (nat \<Rightarrow> cancellation_token) \<Rightarrow> batch \<Rightarrow> (repartition_state, unit) charged" where
  "repartition_batch x ax crc s ex enc tok b =
     (let n = hx_partition_count ex in
      charged_bind (on_data (effect (poll_cancellation tok))) (\<lambda>_.
      charged_bind (on_data (inspect (\<lambda>_.
          rbind (rmap (batch_column b) (hx_columns ex)) (\<lambda>cols.
            encode_rows ax enc cols (rb_num_rows b))))) (\<lambda>keys.
      scoped (encoded_memory_size ax keys)
       (scoped (saturating_mul (of_nat (rb_num_rows b)) 24)
         (charged_bind (on_data (\<lambda>d.
             rfold (route_row crc n tok keys) [0..<rb_num_rows b] (replicate (unat n) [], d))) (\<lambda>ix.
           loop (emit_partition x ax s b) (List.enumerate 0 ix)))))))"

fun reserve_each :: "nat \<Rightarrow> query_memory \<Rightarrow> memory_reservation list result \<times> query_memory" where
  "reserve_each 0 m = (Inr [], m)"
| "reserve_each (Suc k) m =
     (case try_reserve 0 m of
        (Inl e, m') \<Rightarrow> (Inl e, m')
      | (Inr r, m') \<Rightarrow>
          (case reserve_each k m' of
             (Inl e, m'') \<Rightarrow> (Inl e, drop_reservation r m'')
           | (Inr rs, m'') \<Rightarrow> (Inr (r # rs), m'')))"

definition invalid_exchange :: "schema \<Rightarrow> hash_exchange \<Rightarrow> bool" where
  "invalid_exchange s ex \<longleftrightarrow> hx_partition_count ex = 0 \<or> hx_columns ex = []
     \<or> list_ex (\<lambda>c. length (schema_fields s) \<le> c) (hx_columns ex)"

text \<open>The vector \<open>outputs\<close> before and after the loop.\<close>

definition fresh_run :: "memory_reservation list \<Rightarrow> query_memory \<Rightarrow> repartition_state run" where
  "fresh_run hs m = \<lparr>run_data = \<lparr>rp_checks = 1, rp_outputs = map (\<lambda>_. []) hs\<rparr>, run_held = hs, run_memory = m\<rparr>"

definition outputs_of :: "repartition_state run \<Rightarrow> partition_output list" where
  "outputs_of st = map (\<lambda>p. (of_nat p, rp_outputs (run_data st) ! p, run_held st ! p)) [0..<length (run_held st)]"

definition repartition ::
  "externs \<Rightarrow> arrow_externs \<Rightarrow> (bytes \<Rightarrow> u32) \<Rightarrow> schema \<Rightarrow> batch list \<Rightarrow> hash_exchange \<Rightarrow> query_memory
   \<Rightarrow> (nat \<Rightarrow> cancellation_token) \<Rightarrow> partition_output list result \<times> query_memory" where
  "repartition x ax crc s batches ex m tok =
     (case cancellation_check (tok 0) of
        Inl e \<Rightarrow> (Inl e, m)
      | Inr _ \<Rightarrow>
          if invalid_exchange s ex
          then (Inl (EProtocol ''invalid hash exchange keys or partition count''), m)
          else (case rbind (rmap (schema_field s) (hx_columns ex)) (\<lambda>fs. encoder_new ax (map field_type fs)) of
              Inl e \<Rightarrow> (Inl e, m)
            | Inr enc \<Rightarrow>
                (case reserve_each (unat (hx_partition_count ex)) m of
                   (Inl e, m1) \<Rightarrow> (Inl e, m1)
                 | (Inr hs, m1) \<Rightarrow>
                     (case loop (repartition_batch x ax crc s ex enc tok) batches (fresh_run hs m1) of
                        (Inl e, st) \<Rightarrow> (Inl e, release_all (run_held st) (run_memory st))
                      | (Inr _, st) \<Rightarrow> (Inr (outputs_of st), run_memory st)))))"

section \<open>Accounting\<close>

lemma repartition_batch_balance:
  assumes "unat (hx_partition_count ex) = k"
  shows "keeps_balance k (repartition_batch x ax crc s ex enc tok b)"
proof -
  let ?n = "hx_partition_count ex"
  have len: "length ix = k"
    if "rfold (route_row crc ?n tok keys) xs (replicate k [], d) = Inr (ix, d')" for keys xs d ix d'
  proof -
    have "length (fst (ix, d')) = k"
      by (rule rfold_invariant [OF that]) (auto simp: route_row_def rbind_eq_Inr Let_def)
    then show ?thesis by simp
  qed
  have emit: "keeps_balance k (emit_partition x ax s b e)" if "fst e < k" for e
    using that by (cases e) (auto simp: emit_partition_def intro!: balance_intros)
  have body: "keeps_balance k (charged_bind
      (on_data (\<lambda>d. rfold (route_row crc ?n tok keys) xs (replicate k [], d)))
      (\<lambda>ix. loop (emit_partition x ax s b) (List.enumerate 0 ix)))" for keys xs
    unfolding keeps_balance_def
  proof (intro allI impI)
    fix st :: "repartition_state run" and base
    assume st: "length (run_held st) = k \<and> balanced base st"
    let ?r = "rfold (route_row crc ?n tok keys) xs (replicate k [], run_data st)"
    let ?f = "charged_bind (on_data (\<lambda>d. rfold (route_row crc ?n tok keys) xs (replicate k [], d)))
      (\<lambda>ix. loop (emit_partition x ax s b) (List.enumerate 0 ix))"
    show "length (run_held (snd (?f st))) = k \<and> balanced base (snd (?f st))"
    proof (cases ?r)
      case (Inl e)
      then show ?thesis using st by (simp add: charged_bind_def on_data_def)
    next
      case (Inr q)
      obtain ix d where q: "q = (ix, d)" by force
      have "keeps_balance k (loop (emit_partition x ax s b) (List.enumerate 0 ix))"
        using len [of keys xs "run_data st" ix d] Inr q
        by (intro keeps_balance_loop emit) (auto simp: in_set_enumerate_eq)
      then show ?thesis
        using st Inr q by (simp add: charged_bind_def on_data_def keeps_balance_def balanced_def)
    qed
  qed
  show ?thesis unfolding repartition_batch_def Let_def assms
    by (rule keeps_balance_bind, rule keeps_balance_on_data, rule keeps_balance_bind, rule keeps_balance_on_data,
        rule keeps_balance_scoped, rule keeps_balance_scoped, rule body)
qed

lemma reserve_each_cases:
  "case reserve_each k m of
     (Inr hs, m') \<Rightarrow> hs = replicate k 0 \<and> qm_reserved m' = qm_reserved m
   | (Inl e, m') \<Rightarrow> qm_reserved m' = qm_reserved m \<and> exhausted (Inl e :: unit result)"
proof (induction k arbitrary: m)
  case (Suc k)
  show ?case
  proof (cases rule: memory_reserve_cases [of 0 m])
    case (ok m')
    then have "qm_reserved m' = qm_reserved m" by (simp add: word_unat_eq_iff)
    then show ?thesis
      using Suc [of m'] ok
      by (auto simp: try_reserve_def drop_reservation_def memory_release_def split: prod.splits sum.splits)
  next
    case (full msg)
    then show ?thesis by (simp add: try_reserve_def exhausted_def)
  qed
qed simp

section \<open>Routing\<close>

text \<open>The destination of a row, as a function of its key columns alone.\<close>

definition destination ::
  "(bytes \<Rightarrow> u32) \<Rightarrow> (data_type list \<Rightarrow> cell list \<Rightarrow> bytes) \<Rightarrow> hash_exchange \<Rightarrow> data_type list
   \<Rightarrow> cell list \<Rightarrow> nat" where
  "destination crc row ex tys r =
     unat (crc (row_key row (map ((!) tys) (hx_columns ex)) (map ((!) r) (hx_columns ex)))
           mod hx_partition_count ex)"

lemma destination_less: "hx_partition_count ex \<noteq> 0 \<Longrightarrow> destination crc row ex tys r < unat (hx_partition_count ex)"
  by (simp add: destination_def unat_mod unat_gt_0)

definition routed :: "(nat \<Rightarrow> nat) \<Rightarrow> nat list \<Rightarrow> nat list list \<Rightarrow> nat list list" where
  "routed dest rows ix = map (\<lambda>p. ix ! p @ filter (\<lambda>i. dest i = p) rows) [0..<length ix]"

lemma routed_Nil [simp]: "routed dest [] ix = ix"
  by (simp add: routed_def map_nth)

lemma length_routed [simp]: "length (routed dest rows ix) = length ix"
  by (simp add: routed_def)

lemma routed_Cons:
  assumes "dest r < length ix"
  shows "routed dest (r # rows) ix = routed dest rows (ix[dest r := ix ! dest r @ [r]])"
  using assms by (auto simp: routed_def nth_list_update intro!: nth_equalityI)

lemma poll_cases:
  obtains "poll_cancellation tok d = Inl ECancelled"
  | d' where "poll_cancellation tok d = Inr d'" "rp_outputs d' = rp_outputs d"
  by (cases "ct_cancelled (tok (rp_checks d))")
    (simp_all add: poll_cancellation_def cancellation_check_def)

lemma route_rows:
  assumes "\<And>i. i \<in> set rows \<Longrightarrow> \<exists>k. encoded_key keys i = Inr k \<and> unat (crc k mod n) = dest i"
    and "\<And>i. i \<in> set rows \<Longrightarrow> dest i < length ix"
  shows "rfold (route_row crc n tok keys) rows (ix, d) = Inl ECancelled
    \<or> (\<exists>d'. rfold (route_row crc n tok keys) rows (ix, d) = Inr (routed dest rows ix, d')
        \<and> rp_outputs d' = rp_outputs d)"
  using assms
proof (induction rows arbitrary: ix d)
  case (Cons i rows)
  obtain k where k: "encoded_key keys i = Inr k" "unat (crc k mod n) = dest i"
    using Cons.prems(1) [of i] by auto
  let ?ix = "ix[dest i := ix ! dest i @ [i]]"
  have step: "route_row crc n tok keys i (ix, d) = Inl ECancelled
      \<or> (\<exists>d'. route_row crc n tok keys i (ix, d) = Inr (?ix, d') \<and> rp_outputs d' = rp_outputs d)"
    by (cases rule: poll_cases [of tok d]) (auto simp: route_row_def k Let_def)
  have "rfold (route_row crc n tok keys) rows (?ix, d1) = Inl ECancelled
      \<or> (\<exists>d'. rfold (route_row crc n tok keys) rows (?ix, d1) = Inr (routed dest rows ?ix, d')
          \<and> rp_outputs d' = rp_outputs d1)" for d1
    using Cons.prems by (intro Cons.IH) auto
  then show ?case using step routed_Cons [of dest i ix rows] Cons.prems(2) [of i] by fastforce
qed simp

lemma take_rows_spec:
  assumes "kernels_ok ax" and "batch_ok s b" and "schema_fields s \<noteq> []" and "\<forall>i\<in>set ix. i < rb_num_rows b"
  shows "take_rows ax s b ix = Inr (batch_of_rows s (map ((!) (batch_rows b)) ix))"
proof -
  let ?rows = "map ((!) (batch_rows b)) ix"
  have cols: "columns_ok (field_types s) (rb_num_rows b) (rb_columns b)" using assms(2) by (simp add: batch_ok_def)
  have "rmap (\<lambda>a. ax_take ax a ix) (rb_columns b)
      = Inr (map (\<lambda>a. array_of (arr_type a) (map ((!) (arr_cells a)) ix)) (rb_columns b))"
    using cols assms(4) by (intro rmap_Inr_map kernels_okD(1) [OF assms(1)]) (auto simp: columns_ok_def)
  moreover have "map (\<lambda>a. array_of (arr_type a) (map ((!) (arr_cells a)) ix)) (rb_columns b)
      = columns_of (field_types s) ?rows"
    using columns_okD [OF cols] assms(4)
    by (auto simp: columns_of_def array_of_def batch_rows_def nth_cell_rows intro!: nth_equalityI)
  moreover have "ax_try_new ax s (columns_of (field_types s) ?rows) = Inr (batch_of_rows s ?rows)"
  proof (rule try_new_rows [OF assms(1) _ assms(3)])
    show "\<forall>r\<in>set ?rows. row_admitted s r"
      using assms(4) batch_rows_admitted [OF assms(2)] by (auto simp: batch_rows_def)
  qed
  ultimately show ?thesis by (simp add: take_rows_def)
qed

text \<open>What one batch adds to each destination: one batch with its rows, if there are any.\<close>

definition emitted :: "schema \<Rightarrow> cell list list \<Rightarrow> batch list" where
  "emitted s rows = (if rows = [] then [] else [batch_of_rows s rows])"

definition emit_pure ::
  "arrow_externs \<Rightarrow> schema \<Rightarrow> batch \<Rightarrow> nat \<times> nat list \<Rightarrow> repartition_state \<Rightarrow> repartition_state result" where
  "emit_pure ax s b e d =
     (if snd e = [] then Inr d
      else rbind (take_rows ax s b (snd e)) (\<lambda>output. Inr (push_output (fst e) output d)))"

lemma emit_partition_computes: "computes (emit_partition x ax s b e) (effect (emit_pure ax s b e))"
proof (cases e)
  case (Pair p rows)
  show ?thesis
  proof (cases "rows = []")
    case True
    then have "emit_partition x ax s b e = on_data (effect Inr)" by (simp add: emit_partition_def Pair)
    then show ?thesis
      by (metis (no_types, lifting) computes_cong computes_on_data effect_def emit_pure_def Pair True snd_conv)
  next
    case False
    have "computes (emit_partition x ax s b e)
      (\<lambda>d. rbind (inspect (\<lambda>_. take_rows ax s b rows) d) (\<lambda>(output, d'). rbind (effect Inr d') (\<lambda>(_, d'').
        effect (\<lambda>d. Inr (push_output p output d)) d'')))"
      using False unfolding emit_partition_def Pair prod.case if_not_P [OF False]
      by (intro computes_bind computes_on_data computes_grow_at)
    then show ?thesis
      by (rule computes_cong) (use False in \<open>simp add: emit_pure_def Pair effect_def rbind_assoc\<close>)
  qed
qed

lemma emit_all:
  assumes "kernels_ok ax" and "batch_ok s b" and "schema_fields s \<noteq> []"
    and "\<forall>js\<in>set ix. \<forall>i\<in>set js. i < rb_num_rows b" and "m + length ix \<le> length (rp_outputs d)"
  shows "\<exists>d'. rfold (emit_pure ax s b) (List.enumerate m ix) d = Inr d'
    \<and> length (rp_outputs d') = length (rp_outputs d)
    \<and> (\<forall>p<length (rp_outputs d). rp_outputs d' ! p = rp_outputs d ! p
        @ (if m \<le> p \<and> p < m + length ix then emitted s (map ((!) (batch_rows b)) (ix ! (p - m))) else []))"
  using assms(4,5)
proof (induction ix arbitrary: m d)
  case (Cons js ix)
  let ?rows = "map ((!) (batch_rows b)) js"
  obtain d1 where d1: "emit_pure ax s b (m, js) d = Inr d1" "length (rp_outputs d1) = length (rp_outputs d)"
    "rp_outputs d1 ! m = rp_outputs d ! m @ emitted s ?rows"
    "\<And>p. p \<noteq> m \<Longrightarrow> rp_outputs d1 ! p = rp_outputs d ! p"
    using take_rows_spec [OF assms(1-3), of js] Cons.prems
    by (cases "js = []") (simp_all add: emit_pure_def emitted_def push_output_def)
  have "m = p \<or> p - m = Suc (p - Suc m)" if "m \<le> p" for p using that by linarith
  then show ?case
    using Cons.IH [of "Suc m" d1] Cons.prems d1 by (force simp: Suc_le_eq nth_Cons')
qed auto

definition batch_pure ::
  "arrow_externs \<Rightarrow> (bytes \<Rightarrow> u32) \<Rightarrow> schema \<Rightarrow> hash_exchange \<Rightarrow> row_key_encoder
   \<Rightarrow> (nat \<Rightarrow> cancellation_token) \<Rightarrow> batch \<Rightarrow> repartition_state \<Rightarrow> repartition_state result" where
  "batch_pure ax crc s ex enc tok b d =
     rbind (poll_cancellation tok d) (\<lambda>d1.
     rbind (rmap (batch_column b) (hx_columns ex)) (\<lambda>cols.
     rbind (encode_rows ax enc cols (rb_num_rows b)) (\<lambda>keys.
     rbind (rfold (route_row crc (hx_partition_count ex) tok keys) [0..<rb_num_rows b]
              (replicate (unat (hx_partition_count ex)) [], d1)) (\<lambda>(ix, d2).
       rfold (emit_pure ax s b) (List.enumerate 0 ix) d2))))"

lemma repartition_batch_computes:
  "computes (repartition_batch x ax crc s ex enc tok b) (effect (batch_pure ax crc s ex enc tok b))"
proof -
  let ?n = "hx_partition_count ex"
  have "computes (repartition_batch x ax crc s ex enc tok b)
    (\<lambda>d. rbind (effect (poll_cancellation tok) d) (\<lambda>(_, d1).
         rbind (inspect (\<lambda>_. rbind (rmap (batch_column b) (hx_columns ex)) (\<lambda>cols.
            encode_rows ax enc cols (rb_num_rows b))) d1) (\<lambda>(keys, d2).
         rbind (rfold (route_row crc ?n tok keys) [0..<rb_num_rows b] (replicate (unat ?n) [], d2)) (\<lambda>(ix, d3).
           effect (rfold (emit_pure ax s b) (List.enumerate 0 ix)) d3))))"
    unfolding repartition_batch_def Let_def
    by (intro computes_bind computes_on_data computes_scoped computes_loop emit_partition_computes)
  then show ?thesis
    by (rule computes_cong) (simp add: batch_pure_def effect_def inspect_def rbind_assoc case_prod_unfold)
qed

text \<open>The key columns of an exchange and their encoder.\<close>

definition exchange_types :: "schema \<Rightarrow> hash_exchange \<Rightarrow> data_type list" where
  "exchange_types s ex = map ((!) (field_types s)) (hx_columns ex)"

lemma valid_exchangeD:
  assumes "\<not> invalid_exchange s ex"
  shows "hx_partition_count ex \<noteq> 0" and "schema_fields s \<noteq> []" and "\<forall>c\<in>set (hx_columns ex). c < length (field_types s)"
    and "rmap (schema_field s) (hx_columns ex) = Inr (map ((!) (schema_fields s)) (hx_columns ex))"
    and "map field_type (map ((!) (schema_fields s)) (hx_columns ex)) = exchange_types s ex"
proof -
  have cols: "\<forall>c\<in>set (hx_columns ex). c < length (schema_fields s)" "hx_columns ex \<noteq> []"
    using assms by (auto simp: invalid_exchange_def list_ex_iff not_le)
  then show "schema_fields s \<noteq> []" "\<forall>c\<in>set (hx_columns ex). c < length (field_types s)"
    "map field_type (map ((!) (schema_fields s)) (hx_columns ex)) = exchange_types s ex"
    by (auto simp: field_types_def exchange_types_def)
  show "rmap (schema_field s) (hx_columns ex) = Inr (map ((!) (schema_fields s)) (hx_columns ex))"
    using cols by (intro rmap_Inr_map) (simp add: schema_field_def)
  show "hx_partition_count ex \<noteq> 0" using assms by (simp add: invalid_exchange_def)
qed

lemma map_filter_nth: "map ((!) xs) (filter (\<lambda>i. P (xs ! i)) [0..<length xs]) = filter P xs"
proof -
  have "filter P xs = filter P (map ((!) xs) [0..<length xs])" by (simp add: map_nth)
  then show ?thesis by (simp only: filter_map comp_def)
qed

lemma batch_pure_spec:
  assumes "row_format ax row" and "kernels_ok ax" and "batch_ok s b" and "\<not> invalid_exchange s ex"
    and "list_all plain_type (exchange_types s ex)" and "encoder_new ax (exchange_types s ex) = Inr enc"
    and "length (rp_outputs d) = unat (hx_partition_count ex)"
  shows "batch_pure ax crc s ex enc tok b d = Inl ECancelled
    \<or> (\<exists>d'. batch_pure ax crc s ex enc tok b d = Inr d' \<and> length (rp_outputs d') = length (rp_outputs d)
        \<and> (\<forall>p<length (rp_outputs d). rp_outputs d' ! p = rp_outputs d ! p
            @ emitted s (filter (\<lambda>r. destination crc row ex (field_types s) r = p) (batch_rows b))))"
proof -
  let ?n = "rb_num_rows b" and ?k = "unat (hx_partition_count ex)" and ?cs = "hx_columns ex"
  let ?dest = "\<lambda>i. destination crc row ex (field_types s) (batch_rows b ! i)"
  let ?cols = "map ((!) (rb_columns b)) ?cs"
  note ex = valid_exchangeD [OF assms(4)]
  have b: "columns_ok (field_types s) ?n (rb_columns b)" using assms(3) by (simp add: batch_ok_def)
  have in_range: "\<forall>c\<in>set ?cs. c < length (rb_columns b)" using ex(3) columns_okD(1) [OF b] by simp
  have cols: "rmap (batch_column b) ?cs = Inr ?cols"
    using in_range by (intro rmap_Inr_map) (simp add: batch_column_def)
  have key_cols: "columns_ok (exchange_types s ex) ?n ?cols"
    using b in_range columns_okD [OF b] by (auto simp: columns_ok_def exchange_types_def)
  obtain keys where keys: "encode_rows ax enc ?cols ?n = Inr keys"
    "\<And>i. i < ?n \<Longrightarrow> encoded_key keys i = Inr (row_key row (exchange_types s ex) (cell_rows ?n ?cols ! i))"
    using encode_rows_keys [OF assms(1,5) key_cols assms(6)] by metis
  have key: "\<exists>k. encoded_key keys i = Inr k \<and> unat (crc k mod hx_partition_count ex) = ?dest i" if "i < ?n" for i
    using keys(2) [OF that] that cell_rows_nth_columns [OF in_range, of ?n]
    by (simp add: destination_def exchange_types_def batch_rows_def)
  have dest: "?dest i < ?k" for i by (rule destination_less [OF ex(1)])
  show ?thesis
  proof (cases rule: poll_cases [of tok d])
    case (2 d1)
    let ?route = "rfold (route_row crc (hx_partition_count ex) tok keys) [0..<?n] (replicate ?k [], d1)"
    let ?ix = "routed ?dest [0..<?n] (replicate ?k [])"
    have ix: "\<forall>js\<in>set ?ix. \<forall>i\<in>set js. i < ?n" by (auto simp: routed_def)
    have nth: "map ((!) (batch_rows b)) (?ix ! p)
        = filter (\<lambda>r. destination crc row ex (field_types s) r = p) (batch_rows b)" if "p < ?k" for p
      using that map_filter_nth [of "batch_rows b" "\<lambda>r. destination crc row ex (field_types s) r = p"]
      by (simp add: routed_def batch_rows_def)
    have "?route = Inl ECancelled \<or> (\<exists>d2. ?route = Inr (?ix, d2) \<and> rp_outputs d2 = rp_outputs d1)"
      using key dest by (intro route_rows) auto
    moreover have "\<exists>d'. rfold (emit_pure ax s b) (List.enumerate 0 ?ix) d2 = Inr d'
        \<and> length (rp_outputs d') = length (rp_outputs d)
        \<and> (\<forall>p<length (rp_outputs d). rp_outputs d' ! p = rp_outputs d ! p
            @ emitted s (filter (\<lambda>r. destination crc row ex (field_types s) r = p) (batch_rows b)))"
      if "rp_outputs d2 = rp_outputs d1" for d2
      using emit_all [OF assms(2,3) ex(2) ix, of 0 d2] that 2(2) assms(7) nth by fastforce
    ultimately show ?thesis using 2(1) cols keys(1) by (auto simp: batch_pure_def)
  qed (simp add: batch_pure_def)
qed

lemma emitted_rows:
  assumes "\<forall>r\<in>set rows. row_admitted s r"
  shows "concat (map batch_rows (emitted s rows)) = rows" and "\<forall>b\<in>set (emitted s rows). batch_ok s b"
  using batch_of_rows_ok [OF assms] by (simp_all add: emitted_def)

text \<open>All batches: a destination collects its rows in the order in which they come.\<close>

definition delivered ::
  "schema \<Rightarrow> (cell list \<Rightarrow> nat) \<Rightarrow> cell list list \<Rightarrow> batch list list \<Rightarrow> bool" where
  "delivered s dest rows outs \<longleftrightarrow>
     (\<forall>p<length outs. (\<forall>b\<in>set (outs ! p). batch_ok s b)
        \<and> concat (map batch_rows (outs ! p)) = filter (\<lambda>r. dest r = p) rows)"

lemma batches_spec:
  assumes "row_format ax row" and "kernels_ok ax" and "\<forall>b\<in>set bs. batch_ok s b" and "\<not> invalid_exchange s ex"
    and "list_all plain_type (exchange_types s ex)" and "encoder_new ax (exchange_types s ex) = Inr enc"
    and "length (rp_outputs d) = unat (hx_partition_count ex)"
    and "delivered s (destination crc row ex (field_types s)) rows (rp_outputs d)"
  shows "rfold (batch_pure ax crc s ex enc tok) bs d = Inl ECancelled
    \<or> (\<exists>d'. rfold (batch_pure ax crc s ex enc tok) bs d = Inr d'
        \<and> length (rp_outputs d') = unat (hx_partition_count ex)
        \<and> delivered s (destination crc row ex (field_types s)) (rows @ concat (map batch_rows bs)) (rp_outputs d'))"
  using assms(3,7,8)
proof (induction bs arbitrary: d rows)
  case (Cons b bs)
  let ?dest = "destination crc row ex (field_types s)" and ?f = "batch_pure ax crc s ex enc tok"
  have b: "batch_ok s b" using Cons.prems(1) by simp
  have adm: "\<forall>r\<in>set (filter (\<lambda>r. ?dest r = p) (batch_rows b)). row_admitted s r" for p
    using batch_rows_admitted [OF b] by auto
  show ?case
  proof (cases "?f b d = Inl ECancelled")
    case False
    then obtain d1 where d1: "?f b d = Inr d1" "length (rp_outputs d1) = length (rp_outputs d)"
      "\<And>p. p < length (rp_outputs d)
        \<Longrightarrow> rp_outputs d1 ! p = rp_outputs d ! p @ emitted s (filter (\<lambda>r. ?dest r = p) (batch_rows b))"
      using batch_pure_spec [OF assms(1,2) b assms(4-6) Cons.prems(2)] by blast
    have "delivered s ?dest (rows @ batch_rows b) (rp_outputs d1)"
      using Cons.prems(3) d1(2,3) emitted_rows [OF adm] by (auto simp: delivered_def)
    then show ?thesis
      using Cons.IH [of d1 "rows @ batch_rows b"] Cons.prems(1,2) d1(1,2) by simp
  qed simp
qed simp

section \<open>Correctness\<close>

text \<open>The loop over the batches, from freshly reserved destinations.\<close>

lemma repartition_loop:
  assumes "row_format ax row" and "kernels_ok ax" and "\<forall>b\<in>set bs. batch_ok s b"
    and "\<not> invalid_exchange s ex" and "list_all plain_type (exchange_types s ex)"
    and "encoder_new ax (exchange_types s ex) = Inr enc"
    and "loop (repartition_batch x ax crc s ex enc tok) bs (fresh_run (replicate (unat (hx_partition_count ex)) 0) m)
      = (q, st)"
  shows "length (run_held st) = unat (hx_partition_count ex)" and "balanced (unat (qm_reserved m)) st"
    and "q = Inl e \<Longrightarrow> e = ECancelled \<or> exhausted (Inl e :: unit result)"
    and "q = Inr u \<Longrightarrow> length (rp_outputs (run_data st)) = unat (hx_partition_count ex)
      \<and> delivered s (destination crc row ex (field_types s)) (concat (map batch_rows bs)) (rp_outputs (run_data st))"
proof -
  let ?k = "unat (hx_partition_count ex)" and ?dest = "destination crc row ex (field_types s)"
  let ?st = "fresh_run (replicate ?k 0) m" and ?run = "loop (repartition_batch x ax crc s ex enc tok) bs"
  let ?f = "rfold (batch_pure ax crc s ex enc tok) bs"
  have start: "balanced (unat (qm_reserved m)) ?st" "length (run_held ?st) = ?k"
    by (simp_all add: balanced_def sum_list_replicate fresh_run_def)
  have "keeps_balance ?k ?run" by (intro keeps_balance_loop repartition_batch_balance) simp
  from keeps_balanceD [OF this assms(7) start(2,1)]
  show "length (run_held st) = ?k" "balanced (unat (qm_reserved m)) st" .
  have "computes ?run (effect ?f)" by (intro computes_loop repartition_batch_computes)
  note agrees = computesD [OF this assms(7)]
  have out: "?f (run_data ?st) = Inl ECancelled
    \<or> (\<exists>d'. ?f (run_data ?st) = Inr d' \<and> length (rp_outputs d') = ?k
        \<and> delivered s ?dest (concat (map batch_rows bs)) (rp_outputs d'))"
    using batches_spec [OF assms(1-6), of "run_data ?st" crc "[]" tok] by (simp add: delivered_def fresh_run_def)
  show "e = ECancelled \<or> exhausted (Inl e :: unit result)" if "q = Inl e"
    using agrees out that by (auto simp: effect_def)
  show "length (rp_outputs (run_data st)) = ?k \<and> delivered s ?dest (concat (map batch_rows bs)) (rp_outputs (run_data st))"
    if "q = Inr u"
    using agrees out that by (auto simp: effect_def rbind_eq_Inr)
qed

lemma outputs_of_sel:
  assumes "length (rp_outputs (run_data st)) = length (run_held st)"
  shows "map fst (outputs_of st) = map of_nat [0..<length (run_held st)]"
    and "map (fst \<circ> snd) (outputs_of st) = rp_outputs (run_data st)"
    and "map (unat \<circ> snd \<circ> snd) (outputs_of st) = map unat (run_held st)"
  using assms by (auto simp: outputs_of_def intro!: nth_equalityI)

lemma repartition_unfold:
  assumes "\<not> invalid_exchange s ex" and "\<not> ct_cancelled (tok 0)"
  shows "repartition x ax crc s bs ex m tok =
    (case encoder_new ax (exchange_types s ex) of
       Inl e \<Rightarrow> (Inl e, m)
     | Inr enc \<Rightarrow>
         (case reserve_each (unat (hx_partition_count ex)) m of
            (Inl e, m1) \<Rightarrow> (Inl e, m1)
          | (Inr hs, m1) \<Rightarrow>
              (case loop (repartition_batch x ax crc s ex enc tok) bs (fresh_run hs m1) of
                 (Inl e, st) \<Rightarrow> (Inl e, release_all (run_held st) (run_memory st))
               | (Inr _, st) \<Rightarrow> (Inr (outputs_of st), run_memory st))))"
  using assms valid_exchangeD(4,5) [OF assms(1)]
  by (simp add: repartition_def cancellation_check_def)

lemma repartition_spec:
  assumes "row_format ax row" and "kernels_ok ax" and "\<forall>b\<in>set bs. batch_ok s b"
    and "\<not> invalid_exchange s ex" and "list_all plain_type (exchange_types s ex)"
  shows "case repartition x ax crc s bs ex m tok of
      (Inr outs, m') \<Rightarrow>
        map fst outs = map of_nat [0..<unat (hx_partition_count ex)]
        \<and> delivered s (destination crc row ex (field_types s)) (concat (map batch_rows bs)) (map (fst \<circ> snd) outs)
        \<and> unat (qm_reserved m') = unat (qm_reserved m) + sum_list (map (unat \<circ> snd \<circ> snd) outs)
    | (Inl e, m') \<Rightarrow>
        unat (qm_reserved m') = unat (qm_reserved m)
        \<and> (e = ECancelled \<or> exhausted (Inl e :: unit result) \<or> ax_rows_new ax (exchange_types s ex) = Inl e)"
proof (cases "ct_cancelled (tok 0)")
  case True
  then show ?thesis by (simp add: repartition_def cancellation_check_def)
next
  case live: False
  let ?k = "unat (hx_partition_count ex)"
  note unfolded = repartition_unfold [where tok = tok, OF assms(4) live]
  show ?thesis
  proof (cases "encoder_new ax (exchange_types s ex)")
    case (Inl e)
    then have "ax_rows_new ax (exchange_types s ex) = Inl e"
      by (auto simp: encoder_new_def rbind_eq_Inl split: if_splits)
    then show ?thesis using Inl by (simp add: unfolded)
  next
    case enc: (Inr enc)
    obtain r m1 where res: "reserve_each ?k m = (r, m1)" by force
    show ?thesis
    proof (cases r)
      case (Inl e)
      then show ?thesis using enc res reserve_each_cases [where k = ?k and m = m] by (simp add: unfolded)
    next
      case (Inr hs)
      then have hs: "hs = replicate ?k 0" "qm_reserved m1 = qm_reserved m"
        using res reserve_each_cases [where k = ?k and m = m] by simp_all
      obtain q st where run: "loop (repartition_batch x ax crc s ex enc tok) bs (fresh_run hs m1) = (q, st)" by force
      note spec = repartition_loop [OF assms enc run [unfolded hs(1)]]
      show ?thesis
      proof (cases q)
        case (Inl e)
        then show ?thesis
          using Inr enc res run spec(2,3) release_all_balanced [of "run_memory st" _ "run_held st"] hs(2)
          by (auto simp: unfolded balanced_def)
      next
        case (Inr u)
        then have "repartition x ax crc s bs ex m tok = (Inr (outputs_of st), run_memory st)"
          using \<open>r = Inr hs\<close> enc res run by (simp add: unfolded)
        then show ?thesis
          using spec(1,2) spec(4) [OF Inr] outputs_of_sel [of st] hs(2) by (simp add: balanced_def)
      qed
    qed
  qed
qed

text \<open>
  C13: Hash routing loses, duplicates and reorders nothing.  On valid input a run that succeeds has
  one output per destination, in order; a destination's batches conform to the schema, and their
  rows are exactly the input rows whose key hashes to it, in input order, so that rows with equal
  keys meet in one destination whatever batch they come from.  The budget is charged by exactly the
  reservations handed to the caller.  A run fails only because it was cancelled, the budget is
  exhausted, or Arrow has no row format for the key types, and then every byte is released.
\<close>

theorem repartition_correct:
  assumes "row_format ax row" and "kernels_ok ax" and "\<forall>b\<in>set bs. batch_ok s b"
    and "\<not> invalid_exchange s ex" and "list_all plain_type (exchange_types s ex)"
  shows "case repartition x ax crc s bs ex m tok of
      (Inr outs, m') \<Rightarrow>
        map fst outs = map of_nat [0..<unat (hx_partition_count ex)]
        \<and> delivered s (destination crc row ex (field_types s)) (concat (map batch_rows bs)) (map (fst \<circ> snd) outs)
        \<and> unat (qm_reserved m') = unat (qm_reserved m) + sum_list (map (unat \<circ> snd \<circ> snd) outs)
    | (Inl e, m') \<Rightarrow>
        unat (qm_reserved m') = unat (qm_reserved m)
        \<and> (e = ECancelled \<or> exhausted (Inl e :: unit result) \<or> ax_rows_new ax (exchange_types s ex) = Inl e)"
  by (rule repartition_spec [OF assms])

definition sample_exchange :: hash_exchange where
  "sample_exchange = \<lparr>hx_columns = [0], hx_partition_count = 2\<rparr>"

lemma sample_exchange_ok:
  "\<not> invalid_exchange sample_schema sample_exchange"
  "list_all plain_type (exchange_types sample_schema sample_exchange)"
  by (simp_all add: invalid_exchange_def sample_exchange_def sample_schema_def schema_new_def exchange_types_def
      sample_types plain_type_def field_types_def field_new_def)

theorem repartition_correct_witness:
  "row_format sample_ax sample_row \<and> kernels_ok sample_ax \<and> batch_ok sample_schema sample_batch
   \<and> (case repartition sample_externs sample_ax (\<lambda>k. of_nat (length k)) sample_schema [sample_batch] sample_exchange
         (memory_new 1000) (\<lambda>_. cancellation_new) of
        (Inr outs, m') \<Rightarrow> map fst outs = [0, 1] \<and> delivered sample_schema
          (destination (\<lambda>k. of_nat (length k)) sample_row sample_exchange [TInt64, TBoolean]) sample_rows
          (map (fst \<circ> snd) outs)
      | (Inl e, m') \<Rightarrow> e = ECancelled \<or> exhausted (Inl e :: unit result))"
  using repartition_correct [OF sample_row_format sample_kernels _ sample_exchange_ok, where bs = "[sample_batch]"
      and x = sample_externs and crc = "\<lambda>k. of_nat (length k)" and m = "memory_new 1000" and tok = "\<lambda>_. cancellation_new"]
    sample_row_format sample_kernels sample_batch_ok
  by (auto simp: sample_types sample_exchange_def upt_rec split: prod.splits sum.splits)

end
