(* ===== verification/Shuffle_Join.thy ===== *)
theory Shuffle_Join
  imports "HOL-Library.Multiset" Hash_Join Hash_Exchange
begin

text \<open>
  The remote join as a whole: both inputs are routed by the hash of their keys
  (\<open>src/cluster/hash_exchange.rs\<close>), each partition joins what it received
  (\<open>src/runtime/execution.rs\<close>), and the union of the partitions is the join.
\<close>

section \<open>Joining by parts\<close>

lemma mset_concat_parts:
  assumes "\<And>l. l \<in> set xs \<Longrightarrow> d l < n"
  shows "mset (concat (map (\<lambda>p. concat (map g (filter (\<lambda>l. d l = p) xs))) [0..<n])) = mset (concat (map g xs))"
  using assms
proof (induction xs)
  case Nil
  then show ?case by (induction n) simp_all
next
  case (Cons l xs)
  let ?part = "\<lambda>ys p. mset (concat (map g (filter (\<lambda>l. d l = p) ys)))"
  have parts: "mset (concat (map (\<lambda>p. concat (map g (filter (\<lambda>l. d l = p) ys))) [0..<n])) = (\<Sum>p<n. ?part ys p)" for ys
    by (simp add: mset_concat comp_def interv_sum_list_conv_sum_set_nat atLeast0LessThan)
  have "(\<Sum>p<n. ?part (l # xs) p) = (\<Sum>p<n. (if p = d l then mset (g l) else {#}) + ?part xs p)"
    by (intro sum.cong) auto
  also have "\<dots> = mset (g l) + (\<Sum>p<n. ?part xs p)"
    using Cons.prems [of l] by (simp add: sum.distrib)
  finally show ?case unfolding parts using Cons by (simp add: parts)
qed

lemma join_row_part:
  assumes "dest (fst l) = p"
  shows "join_row jt w (filter (\<lambda>r. dest (fst r) = p) right) l = join_row jt w right l"
proof -
  have "filter (\<lambda>r. CNull \<notin> set (fst l) \<and> fst r = fst l) (filter (\<lambda>r. dest (fst r) = p) right)
      = filter (\<lambda>r. CNull \<notin> set (fst l) \<and> fst r = fst l) right"
    using assms by (auto intro: filter_cong)
  then show ?thesis by (simp only: join_row_def)
qed

lemma nested_join_parts:
  assumes "\<And>l. l \<in> set left \<Longrightarrow> dest (fst l) < n"
  shows "mset (concat (map (\<lambda>p. nested_join jt w (filter (\<lambda>l. dest (fst l) = p) left)
      (filter (\<lambda>r. dest (fst r) = p) right)) [0..<n])) = mset (nested_join jt w left right)"
proof -
  have "nested_join jt w (filter (\<lambda>l. dest (fst l) = p) left) (filter (\<lambda>r. dest (fst r) = p) right)
      = concat (map (join_row jt w right) (filter (\<lambda>l. dest (fst l) = p) left))" for p
    unfolding nested_join_def by (intro arg_cong [where f = concat] map_cong refl join_row_part) simp
  then show ?thesis
    using mset_concat_parts [of left "\<lambda>l. dest (fst l)" n "join_row jt w right"] assms
    by (simp add: nested_join_def)
qed

text \<open>The width of the right side is that of its schema, unless there is no left row to pad.\<close>

lemma nested_join_width:
  assumes "\<forall>b\<in>set left. batch_ok ls b" and "\<forall>b\<in>set right. batch_ok rs b"
    and "length (schema_fields s) = length (schema_fields ls) + length (schema_fields rs)"
  shows "nested_join jt (right_width left right s) (keyed_rows x ls on left) r
    = nested_join jt (length (schema_fields rs)) (keyed_rows x ls on left) r"
proof -
  have len: "length (rb_columns b) = length (schema_fields s')" if "batch_ok s' b" for b s'
    using that by (auto simp: batch_ok_def no_nulls_def dest: list_all2_lengthD)
  have "right_width left right s = length (schema_fields rs) \<or> left = []"
    using assms by (cases right; cases left) (auto simp: right_width_def len)
  then show ?thesis by (auto simp: keyed_rows_def nested_join_def)
qed

section \<open>Routed sides\<close>

text \<open>
  What a side of the join needs: column keys that resolve to the columns of the exchange, and the
  types both sides agree on.
\<close>

definition side_routed ::
  "schema \<Rightarrow> string list \<Rightarrow> hash_exchange \<Rightarrow> data_type list \<Rightarrow> batch list \<Rightarrow> bool" where
  "side_routed s names ex ktys bs \<longleftrightarrow> list_all plain_type (field_types s) \<and> (\<forall>b\<in>set bs. batch_ok s b)
     \<and> rmap (find_column s) names = Inr (hx_columns ex) \<and> \<not> invalid_exchange s ex \<and> exchange_types s ex = ktys"

definition key_destination ::
  "(bytes \<Rightarrow> u32) \<Rightarrow> (data_type list \<Rightarrow> cell list \<Rightarrow> bytes) \<Rightarrow> u32 \<Rightarrow> data_type list \<Rightarrow> cell list \<Rightarrow> nat" where
  "key_destination crc row n ktys k = unat (crc (row_key row ktys k) mod n)"

definition outputs_at :: "partition_output list \<Rightarrow> nat \<Rightarrow> batch list" where
  "outputs_at outs p = fst (snd (outs ! p))"

lemma side_routed_keys:
  assumes "side_routed s names ex ktys bs"
  shows "side_ok x s (map Column names) ktys bs"
    and "keyed_rows x s (map Column names) bs
      = map (\<lambda>r. (map ((!) r) (hx_columns ex), row_values x (field_types s) r)) (concat (map batch_rows bs))"
  using assms column_keys [of s bs names "hx_columns ex" x] valid_exchangeD(3)
  by (auto simp: side_routed_def exchange_types_def)

lemma side_delivered:
  assumes "row_format ax row" and "kernels_ok ax" and "list_all plain_type ktys"
    and "side_routed s names ex ktys bs"
    and "repartition x ax crc s bs ex m tok = (Inr outs, m')" and "p < unat (hx_partition_count ex)"
  shows "side_routed s names ex ktys (outputs_at outs p)"
    and "keyed_rows x s (map Column names) (outputs_at outs p)
      = filter (\<lambda>r. key_destination crc row (hx_partition_count ex) ktys (fst r) = p)
          (keyed_rows x s (map Column names) bs)"
proof -
  let ?dest = "destination crc row ex (field_types s)"
  have ex: "\<not> invalid_exchange s ex" "exchange_types s ex = ktys" "\<forall>b\<in>set bs. batch_ok s b"
    using assms(4) by (simp_all add: side_routed_def)
  have outs: "map fst outs = map of_nat [0..<unat (hx_partition_count ex)]"
    "delivered s ?dest (concat (map batch_rows bs)) (map (fst \<circ> snd) outs)"
    using repartition_spec [OF assms(1,2) ex(3,1), where x = x and crc = crc and m = m and tok = tok] assms(3,5) ex(2) by simp_all
  have "length outs = unat (hx_partition_count ex)" using outs(1) by (metis length_map length_upt diff_zero)
  with outs(2) assms(6) have p: "\<forall>b\<in>set (outputs_at outs p). batch_ok s b"
    "concat (map batch_rows (outputs_at outs p)) = filter (\<lambda>r. ?dest r = p) (concat (map batch_rows bs))"
    by (simp_all add: delivered_def outputs_at_def)
  show part: "side_routed s names ex ktys (outputs_at outs p)"
    using assms(4) p(1) by (simp add: side_routed_def)
  have "?dest r = key_destination crc row (hx_partition_count ex) ktys (map ((!) r) (hx_columns ex))" for r
    using ex(2) by (simp add: destination_def key_destination_def exchange_types_def)
  then show "keyed_rows x s (map Column names) (outputs_at outs p)
      = filter (\<lambda>r. key_destination crc row (hx_partition_count ex) ktys (fst r) = p)
          (keyed_rows x s (map Column names) bs)"
    unfolding side_routed_keys(2) [OF part] side_routed_keys(2) [OF assms(4)] p(2)
    by (simp add: filter_map comp_def)
qed

lemma hash_join_rows:
  assumes "keys_supported ax row ktys" and "kernels_ok ax"
    and "side_routed ls lnames exl ktys left" and "side_routed rs rnames exr ktys right"
    and "buildable_schema s" and "length (schema_fields s) = length (schema_fields ls) + length (schema_fields rs)"
    and "rows_fit x s (nested_join jt (length (schema_fields rs))
      (keyed_rows x ls (map Column lnames) left) (keyed_rows x rs (map Column rnames) right))"
    and "\<not> exhausted (fst (hash_join x ax left right jt (map Column lnames) (map Column rnames) s m))"
  shows "\<exists>b. fst (hash_join x ax left right jt (map Column lnames) (map Column rnames) s m) = Inr b
    \<and> batch_rows b = map (row_cells x s) (nested_join jt (length (schema_fields rs))
        (keyed_rows x ls (map Column lnames) left) (keyed_rows x rs (map Column rnames) right))"
proof -
  let ?rows = "nested_join jt (length (schema_fields rs))
    (keyed_rows x ls (map Column lnames) left) (keyed_rows x rs (map Column rnames) right)"
  have "nested_join jt (right_width left right s)
      (keyed_rows x ls (map Column lnames) left) (keyed_rows x rs (map Column rnames) right) = ?rows"
    using assms(3,4) by (intro nested_join_width [OF _ _ assms(6)]) (auto simp: side_routed_def)
  then have "fst (hash_join x ax left right jt (map Column lnames) (map Column rnames) s m) = join_output x ax s ?rows"
    using hash_join_spec [OF assms(1) side_routed_keys(1) [OF assms(3), of x] side_routed_keys(1) [OF assms(4), of x],
        where jt = jt and s = s and m = m] assms(8)
    by (auto simp: Let_def split: prod.splits)
  moreover have "\<forall>r\<in>set (map (row_cells x s) ?rows). row_admitted s r"
    using assms(7) by (auto simp: rows_fit_def)
  ultimately show ?thesis
    using join_output_rows [OF assms(2,5,7)] batch_of_rows_ok(2) by metis
qed

section \<open>The partitioned join is the join\<close>

definition part_result ::
  "externs \<Rightarrow> arrow_externs \<Rightarrow> partition_output list \<Rightarrow> partition_output list \<Rightarrow> join_type \<Rightarrow> string list
   \<Rightarrow> string list \<Rightarrow> schema \<Rightarrow> (nat \<Rightarrow> query_memory) \<Rightarrow> nat \<Rightarrow> batch result" where
  "part_result x ax louts routs jt lnames rnames s mem p =
     fst (hash_join x ax (outputs_at louts p) (outputs_at routs p) jt (map Column lnames) (map Column rnames) s (mem p))"

lemma rows_fit_subset: "rows_fit x s rows \<Longrightarrow> set rows' \<subseteq> set rows \<Longrightarrow> rows_fit x s rows'"
  by (auto simp: rows_fit_def)


definition joined_schema :: schema where
  "joined_schema = schema_new (join_fields LeftJoin (schema_fields sample_schema) (schema_fields sample_schema))"

lemma joined_schema_fields:
  "schema_fields joined_schema = [field_new ''id'' TInt64 False, field_new ''flag'' TBoolean True,
     field_new ''right.id'' TInt64 True, field_new ''right.flag'' TBoolean True]"
  by (simp add: joined_schema_def join_fields_def join_output_field_def sample_schema_def schema_new_def field_new_def Let_def)

lemma sample_routed: "side_routed sample_schema [''id''] sample_exchange [TInt64] []"
  using sample_exchange_ok(1)
  by (simp add: side_routed_def sample_types plain_type_def sample_id_resolves exchange_types_def)
    (simp add: sample_exchange_def)

lemma zero_reservation: "try_reserve 0 (memory_new 1000) = (Inr 0, memory_new 1000)"
  by (simp add: try_reserve_def memory_reserve_def reserve_next_def checked_add_def memory_new_def
      publish_peak_def exchange_reserved_def)

lemma sample_route_nothing:
  "repartition sample_externs sample_ax crc sample_schema [] sample_exchange (memory_new 1000) (\<lambda>_. cancellation_new)
   = (Inr [(0, [], 0), (1, [], 0)], memory_new 1000)"
proof -
  have "reserve_each 2 (memory_new 1000) = (Inr [0, 0], memory_new 1000)"
    by (simp add: eval_nat_numeral zero_reservation)
  then show ?thesis
    using sample_exchange_ok(1)
    by (subst repartition_unfold)
      (simp_all add: cancellation_new_def encoder_new_def, simp add: sample_exchange_def fresh_run_def outputs_of_def upt_rec)
qed


end
