(* ===== verification/Rowwise.thy ===== *)
theory Rowwise
  imports Sample_Rows
begin

text \<open>
  Expressions row by row.  The compute kernels of Arrow are elementwise; so is \<open>evaluate\<close> then, and the
  value of an expression at a row does not depend on the batch that carries the row.
\<close>

section \<open>Elementwise kernels\<close>

definition cell_at :: "array \<Rightarrow> nat \<Rightarrow> array" where
  "cell_at a i = array_of (arr_type a) [arr_cells a ! i]"

definition elementwise1 :: "(array \<Rightarrow> array result) \<Rightarrow> bool" where
  "elementwise1 k \<longleftrightarrow> (\<forall>a c. k a = Inr c \<longrightarrow> length (arr_cells c) = length (arr_cells a)
     \<and> (\<forall>i<length (arr_cells a). k (cell_at a i) = Inr (cell_at c i)))"

definition elementwise2 :: "(array \<Rightarrow> array \<Rightarrow> array result) \<Rightarrow> bool" where
  "elementwise2 k \<longleftrightarrow> (\<forall>a b c. length (arr_cells a) = length (arr_cells b) \<longrightarrow> k a b = Inr c \<longrightarrow>
     length (arr_cells c) = length (arr_cells a)
     \<and> (\<forall>i<length (arr_cells a). k (cell_at a i) (cell_at b i) = Inr (cell_at c i)))"

definition elementwise :: "externs \<Rightarrow> bool" where
  "elementwise x \<longleftrightarrow> (\<forall>t. elementwise1 (\<lambda>a. x_cast x a t)) \<and> elementwise1 (x_is_null x) \<and> elementwise1 (x_is_not_null x)
     \<and> (\<forall>op. elementwise2 (x_cmp x op)) \<and> (\<forall>op. elementwise2 (x_arith x op))
     \<and> elementwise2 (x_and_kleene x) \<and> elementwise2 (x_or_kleene x)"

lemma elementwise1D:
  assumes "elementwise1 k" and "k a = Inr c"
  shows "length (arr_cells c) = length (arr_cells a)"
    and "i < length (arr_cells a) \<Longrightarrow> k (cell_at a i) = Inr (cell_at c i)"
  using assms unfolding elementwise1_def by blast+

lemma elementwise2D:
  assumes "elementwise2 k" and "k a b = Inr c" and "length (arr_cells a) = length (arr_cells b)"
  shows "length (arr_cells c) = length (arr_cells a)"
    and "i < length (arr_cells a) \<Longrightarrow> k (cell_at a i) (cell_at b i) = Inr (cell_at c i)"
  using assms unfolding elementwise2_def by blast+

lemma cell_at_simps [simp]: "arr_type (cell_at a i) = arr_type a" "arr_cells (cell_at a i) = [arr_cells a ! i]"
  by (simp_all add: cell_at_def array_of_def)

section \<open>Evaluation\<close>

definition row_batch :: "batch \<Rightarrow> nat \<Rightarrow> batch" where
  "row_batch b i = \<lparr>rb_schema = rb_schema b, rb_columns = map (\<lambda>c. cell_at c i) (rb_columns b), rb_num_rows = 1\<rparr>"

definition rows_at :: "nat \<Rightarrow> array \<Rightarrow> (nat \<Rightarrow> array result) \<Rightarrow> bool" where
  "rows_at n a f \<longleftrightarrow> length (arr_cells a) = n \<and> (\<forall>i<n. f i = Inr (cell_at a i))"

lemma apply_operator_rowwise:
  assumes "elementwise x" and "apply_operator x op l r = Inr a"
    and "length (arr_cells l) = n" and "length (arr_cells r) = n"
  shows "rows_at n a (\<lambda>i. apply_operator x op (cell_at l i) (cell_at r i))"
proof -
  note ew = assms(1) [unfolded elementwise_def]
  show ?thesis
    using assms(2) elementwise2D [of "x_and_kleene x" l r a] elementwise2D [of "x_or_kleene x" l r a]
      elementwise2D [of "x_cmp x op" l r a] elementwise2D [of "x_arith x op" l r a] ew assms(3,4)
    by (auto simp: apply_operator_def rows_at_def as_boolean_def rbind_eq_Inr split: operator.splits if_splits)
qed

lemma evaluate_binary_rowwise:
  assumes "elementwise x" and "evaluate_binary x n op l r = Inr a"
    and "length (arr_cells l) = n" and "length (arr_cells r) = n"
  shows "rows_at n a (\<lambda>i. evaluate_binary x 1 op (cell_at l i) (cell_at r i))"
proof (cases "arr_type l \<noteq> arr_type r")
  case True
  then obtain t l' r' where coerced: "coercion_target op (arr_type l) (arr_type r) = Some t"
    "x_cast x l t = Inr l'" "x_cast x r t = Inr r'" "apply_operator x op l' r' = Inr a"
    using assms(2) by (auto simp: evaluate_binary_def rbind_eq_Inr ok_or_def split: option.splits if_splits)
  have cast: "elementwise1 (\<lambda>a. x_cast x a t)" using assms(1) by (simp add: elementwise_def)
  note l = elementwise1D [OF cast coerced(2)] and r = elementwise1D [OF cast coerced(3)]
  have "rows_at n a (\<lambda>i. apply_operator x op (cell_at l' i) (cell_at r' i))"
    using assms l(1) r(1) coerced by (intro apply_operator_rowwise) auto
  then show ?thesis
    using True l r assms(3,4) coerced(1) by (auto simp: rows_at_def evaluate_binary_def ok_or_def)
next
  case same: False
  show ?thesis
  proof (cases "arr_type l = TNull")
    case True
    then show ?thesis
      using assms same by (auto simp: evaluate_binary_def rows_at_def cell_at_def array_of_def split: if_splits)
  next
    case False
    then show ?thesis
      using assms same apply_operator_rowwise [of x op l r a n] by (auto simp: evaluate_binary_def rows_at_def)
  qed
qed

lemma scalar_array_rowwise: "scalar_array v n = Inr a \<Longrightarrow> rows_at n a (\<lambda>i. scalar_array v 1)"
  by (cases v) (auto simp: rows_at_def cell_at_def array_of_def)

lemma evaluate_rowwise:
  assumes "elementwise x" and "\<forall>c\<in>set (rb_columns b). length (arr_cells c) = rb_num_rows b"
  shows "evaluate x b e = Inr a \<Longrightarrow> rows_at (rb_num_rows b) a (\<lambda>i. evaluate x (row_batch b i) e)"
proof (induction e arbitrary: a)
  case (Column n)
  then show ?case
    using assms(2) by (auto simp: rbind_eq_Inr batch_column_def rows_at_def row_batch_def split: if_splits)
next
  case (Literal v)
  then show ?case using scalar_array_rowwise [of v] by (simp add: row_batch_def)
next
  case (Binary l op r)
  then obtain la ra where "evaluate x b l = Inr la" "evaluate x b r = Inr ra" "evaluate_binary x (rb_num_rows b) op la ra = Inr a"
    by (auto simp: rbind_eq_Inr)
  moreover from this have "rows_at (rb_num_rows b) la (\<lambda>i. evaluate x (row_batch b i) l)"
    "rows_at (rb_num_rows b) ra (\<lambda>i. evaluate x (row_batch b i) r)" using Binary.IH by blast+
  ultimately show ?case
    using evaluate_binary_rowwise [OF assms(1), of "rb_num_rows b" op la ra a] by (auto simp: rows_at_def row_batch_def)
next
  case (IsNull e negated)
  then obtain ea where "evaluate x b e = Inr ea" "(if negated then x_is_not_null x ea else x_is_null x ea) = Inr a"
    by (auto simp: rbind_eq_Inr)
  moreover have "elementwise1 (x_is_null x)" "elementwise1 (x_is_not_null x)" using assms(1) by (auto simp: elementwise_def)
  ultimately show ?case
    using IsNull.IH [of ea] elementwise1D [of "x_is_null x" ea a] elementwise1D [of "x_is_not_null x" ea a]
    by (cases negated) (auto simp: rows_at_def)
next
  case (Cast e t)
  then obtain ea where "evaluate x b e = Inr ea" "x_cast x ea t = Inr a" by (auto simp: rbind_eq_Inr)
  moreover have "elementwise1 (\<lambda>a. x_cast x a t)" using assms(1) by (auto simp: elementwise_def)
  ultimately show ?case using Cast.IH [of ea] elementwise1D [of "\<lambda>a. x_cast x a t" ea a] by (auto simp: rows_at_def)
next
  case (Alias e n)
  then show ?case by (cases e) auto
qed simp_all

text \<open>The value of an expression at a row.\<close>

definition eval_row :: "externs \<Rightarrow> schema \<Rightarrow> expr \<Rightarrow> cell list \<Rightarrow> cell" where
  "eval_row x s e r = (case evaluate x (batch_of_rows s [r]) e of Inr a \<Rightarrow> arr_cells a ! 0 | Inl _ \<Rightarrow> CNull)"

lemma row_batch_rows:
  assumes "batch_ok s b" and "i < rb_num_rows b"
  shows "row_batch b i = batch_of_rows s [batch_rows b ! i]"
proof -
  have "rb_schema b = s" "map arr_type (rb_columns b) = field_types s"
    using assms(1) by (auto simp: batch_ok_def columns_ok_def)
  moreover from this(2) have "length (field_types s) = length (rb_columns b)"
    "j < length (rb_columns b) \<Longrightarrow> field_types s ! j = arr_type (rb_columns b ! j)" for j
    by (simp_all flip: \<open>map arr_type (rb_columns b) = field_types s\<close>)
  ultimately show ?thesis
    using assms(2) by (auto simp: row_batch_def batch_of_rows_def columns_of_def batch_rows_def nth_cell_rows cell_at_def
        intro!: nth_equalityI)
qed

lemma evaluate_rows:
  assumes "elementwise x" and "batch_ok s b" and "evaluate x b e = Inr a"
  shows "arr_cells a = map (eval_row x s e) (batch_rows b)"
proof -
  have "\<forall>c\<in>set (rb_columns b). length (arr_cells c) = rb_num_rows b" using assms(2) by (auto simp: batch_ok_def columns_ok_def)
  from evaluate_rowwise [OF assms(1) this assms(3)]
  have rows: "length (arr_cells a) = rb_num_rows b"
    "\<And>i. i < rb_num_rows b \<Longrightarrow> evaluate x (batch_of_rows s [batch_rows b ! i]) e = Inr (cell_at a i)"
    using row_batch_rows [OF assms(2)] by (auto simp: rows_at_def)
  then show ?thesis by (auto simp: eval_row_def batch_rows_def intro!: nth_equalityI)
qed

end
