(* ===== verification/Operators.thy ===== *)
theory Operators
  imports Aggregate Shuffle_Join Rowwise
begin

text \<open>
  The streaming operators of \<open>src/runtime/execution.rs\<close>.

  Every operator is a task of its own that reads the channel of its input and writes a channel.  The
  messages an operator sends in its life are a list; \<open>streams\<close> relates a plan to the lists its
  execution can produce.  It is a relation because three things are decided while a query runs: the
  interleaving of the partitions of a scan and of the two inputs of a join, the free memory that a
  blocking operator finds, and whether and when the query is cancelled.

  A task that panics is dropped by the runtime together with its end of the channel, so that its reader
  sees the end of the stream: \<open>until_panic\<close>.
\<close>

section \<open>Batches\<close>

type_synonym message = "batch result"

definition project_batch :: "externs \<Rightarrow> arrow_externs \<Rightarrow> batch \<Rightarrow> expr list \<Rightarrow> schema \<Rightarrow> batch result" where
  "project_batch x ax b exprs s = rbind (rmap (evaluate x b) exprs) (ax_try_new ax s)"

definition filter_batch :: "externs \<Rightarrow> arrow_externs \<Rightarrow> batch \<Rightarrow> expr \<Rightarrow> batch result" where
  "filter_batch x ax b predicate =
     rbind (evaluate x b predicate) (\<lambda>p.
     rbind (require (arr_type p = TBoolean) (EExecution ''filter predicate did not produce Boolean values'')) (\<lambda>_.
       ax_filter ax b p))"

definition empty_batch :: "schema \<Rightarrow> batch" where
  "empty_batch s = batch_of_rows s []"

fun is_panic :: "'a result \<Rightarrow> bool" where
  "is_panic (Inl (EPanic _)) = True"
| "is_panic _ = False"

definition until_panic :: "message list \<Rightarrow> message list" where
  "until_panic ms = takeWhile (\<lambda>m. \<not> is_panic m) ms"

definition collect :: "message list \<Rightarrow> batch list result" where
  "collect ms = rmap id ms"

section \<open>Collecting an input under the memory budget\<close>

definition with_budgets :: "nat \<Rightarrow> 'd \<Rightarrow> ('d, 'a) charged \<Rightarrow> query_memory \<Rightarrow> 'a result \<times> query_memory" where
  "with_budgets k d f m =
     (case reserve_each k m of
        (Inl e, m1) \<Rightarrow> (Inl e, m1)
      | (Inr hs, m1) \<Rightarrow>
          (case f \<lparr>run_data = d, run_held = hs, run_memory = m1\<rparr> of
             (r, st) \<Rightarrow> (r, release_all (run_held st) (run_memory st))))"

definition nested :: "('d \<Rightarrow> query_memory \<Rightarrow> 'a result \<times> query_memory) \<Rightarrow> ('d, 'a) charged" where
  "nested f s = (case f (run_data s) (run_memory s) of (r, m) \<Rightarrow> (r, s\<lparr>run_memory := m\<rparr>))"

text \<open>
  One message of input \<open>i\<close>.  The data are the batches of the inputs; the reservation \<open>i\<close> pays for those
  of input \<open>i\<close>.
\<close>

definition batch_size_bytes :: "externs \<Rightarrow> batch \<Rightarrow> u64" where
  "batch_size_bytes x b = of_nat (x_batch_bytes x b)"

definition collect_message :: "externs \<Rightarrow> nat \<times> message \<Rightarrow> (batch list list, unit) charged" where
  "collect_message x im =
     charged_bind (on_data (inspect (\<lambda>_. snd im))) (\<lambda>b.
     charged_bind (grow_at (fst im) (batch_size_bytes x b)) (\<lambda>_.
       on_data (effect (\<lambda>d. Inr (d[fst im := d ! fst im @ [b]])))))"

definition collect_with_memory :: "externs \<Rightarrow> message list \<Rightarrow> (batch list list, unit) charged" where
  "collect_with_memory x ms = loop (collect_message x) (map (Pair 0) ms)"

section \<open>Operators\<close>

definition execute_projection ::
  "externs \<Rightarrow> arrow_externs \<Rightarrow> message list \<Rightarrow> expr list \<Rightarrow> schema \<Rightarrow> message list" where
  "execute_projection x ax ms exprs s = until_panic (map (\<lambda>m. rbind m (\<lambda>b. project_batch x ax b exprs s)) ms)"

definition execute_filter :: "externs \<Rightarrow> arrow_externs \<Rightarrow> message list \<Rightarrow> expr \<Rightarrow> message list" where
  "execute_filter x ax ms predicate = until_panic (map (\<lambda>m. rbind m (\<lambda>b. filter_batch x ax b predicate)) ms)"

fun execute_limit :: "arrow_externs \<Rightarrow> message list \<Rightarrow> nat \<Rightarrow> message list" where
  "execute_limit ax [] remaining = []"
| "execute_limit ax (m # ms) remaining =
     (if remaining = 0 then []
      else (case m of
          Inl e \<Rightarrow> [Inl e]
        | Inr b \<Rightarrow>
            (let t = min remaining (rb_num_rows b) in
             (if 0 < t then [Inr (ax_slice ax b 0 t)] else []) @ execute_limit ax ms (remaining - t))))"

definition execute_aggregate ::
  "externs \<Rightarrow> arrow_externs \<Rightarrow> message list \<Rightarrow> expr list \<Rightarrow> expr list \<Rightarrow> schema \<Rightarrow> query_memory
   \<Rightarrow> message list \<times> query_memory" where
  "execute_aggregate x ax ms groups aggregates s m =
     (case with_budgets 1 [[]] (charged_bind (collect_with_memory x ms) (\<lambda>_.
         nested (\<lambda>d. hash_aggregate_with_memory x ax (d ! 0) groups aggregates s))) m of
        (r, m') \<Rightarrow> (until_panic [r], m'))"

definition sort_column :: "externs \<Rightarrow> batch \<Rightarrow> sort_expr \<Rightarrow> (array \<times> bool \<times> bool) result" where
  "sort_column x b e = rbind (evaluate x b (sort_on e)) (\<lambda>a. Inr (a, \<not> sort_ascending e, sort_nulls_first e))"

definition sorted_rows ::
  "externs \<Rightarrow> arrow_externs \<Rightarrow> sort_expr list \<Rightarrow> nat option \<Rightarrow> batch \<Rightarrow> (batch list list, batch) charged" where
  "sorted_rows x ax exprs limit b =
     scoped (batch_size_bytes x b) (scoped (saturating_mul (of_nat (rb_num_rows b)) 8) (on_data (inspect (\<lambda>_.
       rbind (rmap (sort_column x b) exprs) (\<lambda>cols.
       rbind (ax_lexsort ax cols limit) (ax_take_batch ax b))))))"

definition sort_input ::
  "externs \<Rightarrow> arrow_externs \<Rightarrow> message list \<Rightarrow> schema \<Rightarrow> bool \<Rightarrow> (batch \<Rightarrow> (batch list list, batch) charged)
   \<Rightarrow> (batch list list, batch) charged" where
  "sort_input x ax ms s nothing body =
     charged_bind (collect_with_memory x ms) (\<lambda>_.
     charged_bind (on_data (inspect (\<lambda>d.
         if d ! 0 = [] \<or> nothing then Inr None else rbind (ax_concat ax s (d ! 0)) (\<lambda>b. Inr (Some b))))) (\<lambda>ob.
       case ob of None \<Rightarrow> on_data (inspect (\<lambda>_. Inr (empty_batch s))) | Some b \<Rightarrow> body b))"

definition execute_sort ::
  "externs \<Rightarrow> arrow_externs \<Rightarrow> message list \<Rightarrow> sort_expr list \<Rightarrow> schema \<Rightarrow> query_memory \<Rightarrow> message list \<times> query_memory" where
  "execute_sort x ax ms exprs s m =
     (case with_budgets 1 [[]] (sort_input x ax ms s False (sorted_rows x ax exprs None)) m of
        (r, m') \<Rightarrow> (until_panic [r], m'))"

definition execute_topk ::
  "externs \<Rightarrow> arrow_externs \<Rightarrow> message list \<Rightarrow> sort_expr list \<Rightarrow> nat \<Rightarrow> schema \<Rightarrow> query_memory
   \<Rightarrow> message list \<times> query_memory" where
  "execute_topk x ax ms exprs limit s m =
     (case with_budgets 1 [[]] (sort_input x ax ms s (limit = 0)
         (\<lambda>b. sorted_rows x ax exprs (Some (min limit (rb_num_rows b))) b)) m of
        (r, m') \<Rightarrow> (until_panic [r], m'))"

text \<open>The two inputs of a join are collected concurrently: \<open>tagged\<close> is an interleaving of their messages.\<close>

definition execute_hash_join ::
  "externs \<Rightarrow> arrow_externs \<Rightarrow> (nat \<times> message) list \<Rightarrow> join_type \<Rightarrow> expr list \<Rightarrow> expr list \<Rightarrow> schema \<Rightarrow> query_memory
   \<Rightarrow> message list \<times> query_memory" where
  "execute_hash_join x ax tagged jt left_on right_on s m =
     (case with_budgets 2 [[], []] (charged_bind (loop (collect_message x) tagged) (\<lambda>_.
         nested (\<lambda>d. hash_join x ax (d ! 0) (d ! 1) jt left_on right_on s))) m of
        (r, m') \<Rightarrow> (until_panic [r], m'))"

section \<open>Scans\<close>

fun apply_filters :: "externs \<Rightarrow> arrow_externs \<Rightarrow> expr list \<Rightarrow> batch \<Rightarrow> batch result" where
  "apply_filters x ax [] b = Inr b"
| "apply_filters x ax (p # ps) b = rbind (filter_batch x ax b p) (apply_filters x ax ps)"

fun scan_messages :: "externs \<Rightarrow> arrow_externs \<Rightarrow> expr list \<Rightarrow> batch list \<Rightarrow> message list" where
  "scan_messages x ax filters [] = []"
| "scan_messages x ax filters (b # bs) =
     (case apply_filters x ax filters b of
        Inl e \<Rightarrow> [Inl e]
      | Inr b' \<Rightarrow> Inr b' # scan_messages x ax filters bs)"

text \<open>A blocking read that panics is reported to the task that waits for it.\<close>

definition scan_task ::
  "externs \<Rightarrow> arrow_externs \<Rightarrow> table_provider \<Rightarrow> nat list option \<Rightarrow> expr list \<Rightarrow> nat \<Rightarrow> nat \<Rightarrow> message list" where
  "scan_task x ax t projection filters batch_size p =
     (case tp_scan_partition t p projection batch_size of
        Inl e \<Rightarrow> [Inl (if is_panic (Inl e :: message) then EExecution ''scan task failed: {error}'' else e)]
      | Inr bs \<Rightarrow> until_panic (scan_messages x ax filters bs))"

text \<open>
  A scan in progress: the partitions that the loop has not reached, the messages that each spawned task
  still has to send, and the messages sent.  Until the loop ends nothing is received, so the channel
  holds all that was sent: tasks wait when it is full, and the loop drops an error it cannot send.
\<close>

record scan_state =
  sc_pending :: "nat list"
  sc_tasks :: "message list list"
  sc_sent :: "message list"

record task_context =
  tc_batch_size :: nat
  tc_channel_capacity :: nat
  tc_partition :: "nat option"
  tc_cancellable :: bool

definition channel_full :: "task_context \<Rightarrow> scan_state \<Rightarrow> bool" where
  "channel_full cx st \<longleftrightarrow> tc_channel_capacity cx \<le> length (sc_sent st)"

definition scan_start :: "task_context \<Rightarrow> table_provider \<Rightarrow> scan_state" where
  "scan_start cx t =
     \<lparr>sc_pending = (case tc_partition cx of Some p \<Rightarrow> [p] | None \<Rightarrow> [0..<tp_partition_count t]), sc_tasks = [], sc_sent = []\<rparr>"

inductive scan_step ::
  "externs \<Rightarrow> arrow_externs \<Rightarrow> task_context \<Rightarrow> table_provider \<Rightarrow> nat list option \<Rightarrow> expr list \<Rightarrow> scan_state \<Rightarrow> scan_state \<Rightarrow> bool"
  for x ax cx t projection filters where
  pruned: "sc_pending st = p # ps \<Longrightarrow> tp_partition_may_match t p filters = Inr False
    \<Longrightarrow> scan_step x ax cx t projection filters st (st\<lparr>sc_pending := ps\<rparr>)"
| refused: "sc_pending st = p # ps \<Longrightarrow> tp_partition_may_match t p filters = Inl e \<Longrightarrow> \<not> channel_full cx st
    \<Longrightarrow> scan_step x ax cx t projection filters st (st\<lparr>sc_pending := ps, sc_sent := sc_sent st @ [Inl e]\<rparr>)"
| lost: "sc_pending st = p # ps \<Longrightarrow> tp_partition_may_match t p filters = Inl e \<Longrightarrow> channel_full cx st
    \<Longrightarrow> scan_step x ax cx t projection filters st (st\<lparr>sc_pending := ps\<rparr>)"
| spawned: "sc_pending st = p # ps \<Longrightarrow> tp_partition_may_match t p filters = Inr True
    \<Longrightarrow> scan_step x ax cx t projection filters st
          (st\<lparr>sc_pending := ps, sc_tasks := sc_tasks st @ [scan_task x ax t projection filters (tc_batch_size cx) p]\<rparr>)"
| sent: "i < length (sc_tasks st) \<Longrightarrow> sc_tasks st ! i = m # ms \<Longrightarrow> sc_pending st = [] \<or> \<not> channel_full cx st
    \<Longrightarrow> scan_step x ax cx t projection filters st (st\<lparr>sc_tasks := (sc_tasks st)[i := ms], sc_sent := sc_sent st @ [m]\<rparr>)"

definition scan_done :: "scan_state \<Rightarrow> bool" where
  "scan_done st \<longleftrightarrow> sc_pending st = [] \<and> concat (sc_tasks st) = []"

definition execute_scan ::
  "externs \<Rightarrow> arrow_externs \<Rightarrow> task_context \<Rightarrow> table_provider \<Rightarrow> nat list option \<Rightarrow> expr list \<Rightarrow> message list \<Rightarrow> bool" where
  "execute_scan x ax cx t projection filters ms \<longleftrightarrow>
     (\<exists>st. (scan_step x ax cx t projection filters)\<^sup>*\<^sup>* (scan_start cx t) st \<and> scan_done st \<and> sc_sent st = ms)"

section \<open>Execution\<close>

text \<open>The wrapper around every operator passes its messages on until the query is cancelled.\<close>

inductive track_operator_output :: "task_context \<Rightarrow> message list \<Rightarrow> message list \<Rightarrow> bool" for cx ms where
  all: "track_operator_output cx ms ms"
| cut: "tc_cancellable cx \<Longrightarrow> track_operator_output cx ms (take k ms @ [Inl ECancelled])"

inductive streams :: "externs \<Rightarrow> arrow_externs \<Rightarrow> task_context \<Rightarrow> physical_plan \<Rightarrow> message list \<Rightarrow> bool"
  for x ax cx where
  cancelled: "tc_cancellable cx \<Longrightarrow> streams x ax cx p [Inl ECancelled]"
| scan: "execute_scan x ax cx t projection filters out \<Longrightarrow> track_operator_output cx out ms
    \<Longrightarrow> streams x ax cx (PScan i n t projection filters s) ms"
| projection: "streams x ax cx p ins \<Longrightarrow> track_operator_output cx (execute_projection x ax ins exprs s) ms
    \<Longrightarrow> streams x ax cx (PProjection i p exprs s) ms"
| "filter": "streams x ax cx p ins \<Longrightarrow> track_operator_output cx (execute_filter x ax ins predicate) ms
    \<Longrightarrow> streams x ax cx (PFilter i p predicate s) ms"
| aggregate: "streams x ax cx p ins \<Longrightarrow> track_operator_output cx (fst (execute_aggregate x ax ins groups aggregates s m)) ms
    \<Longrightarrow> streams x ax cx (PHashAggregate i p groups aggregates s) ms"
| sort: "streams x ax cx p ins \<Longrightarrow> track_operator_output cx (fst (execute_sort x ax ins exprs s m)) ms
    \<Longrightarrow> streams x ax cx (PSort i p exprs s) ms"
| topk: "streams x ax cx p ins \<Longrightarrow> track_operator_output cx (fst (execute_topk x ax ins exprs k s m)) ms
    \<Longrightarrow> streams x ax cx (PTopK i p exprs k s) ms"
| limit: "streams x ax cx p ins \<Longrightarrow> track_operator_output cx (execute_limit ax ins k) ms
    \<Longrightarrow> streams x ax cx (PLimit i p k s) ms"
| join: "streams x ax cx l lins \<Longrightarrow> streams x ax cx r rins \<Longrightarrow> tagged \<in> shuffles (map (Pair 0) lins) (map (Pair 1) rins)
    \<Longrightarrow> track_operator_output cx (fst (execute_hash_join x ax tagged jt left_on right_on s m)) ms
    \<Longrightarrow> streams x ax cx (PHashJoin i l r jt left_on right_on s) ms"

inductive_cases scanE: "streams x ax cx (PScan i n t projection filters s) ms"
inductive_cases projectionE: "streams x ax cx (PProjection i p exprs s) ms"
inductive_cases filterE: "streams x ax cx (PFilter i p predicate s) ms"
inductive_cases aggregateE: "streams x ax cx (PHashAggregate i p groups aggregates s) ms"
inductive_cases limitE: "streams x ax cx (PLimit i p k s) ms"
inductive_cases joinE: "streams x ax cx (PHashJoin i l r jt left_on right_on s) ms"

end
