(* ===== verification/Operators_Props.thy ===== *)
theory Operators_Props
  imports Operators
begin

text \<open>
  What a stream carries.  For plans of scans, filters, projections and joins, every stream without an
  error carries the rows of the relational reading of the plan (\<open>plan_rows\<close>), in some order, and the
  only errors are those of memory and cancellation.
\<close>

section \<open>Scans\<close>

text \<open>The messages of one partition.\<close>

definition partition_messages ::
  "externs \<Rightarrow> arrow_externs \<Rightarrow> task_context \<Rightarrow> table_provider \<Rightarrow> nat list option \<Rightarrow> expr list \<Rightarrow> nat \<Rightarrow> message list" where
  "partition_messages x ax cx t projection filters p =
     (case tp_partition_may_match t p filters of
        Inl e \<Rightarrow> [Inl e]
      | Inr may \<Rightarrow> if may then scan_task x ax t projection filters (tc_batch_size cx) p else [])"

definition scanned_partitions :: "task_context \<Rightarrow> table_provider \<Rightarrow> nat list" where
  "scanned_partitions cx t = (case tc_partition cx of Some p \<Rightarrow> [p] | None \<Rightarrow> [0..<tp_partition_count t])"

definition unread :: "(nat \<Rightarrow> message list) \<Rightarrow> scan_state \<Rightarrow> message multiset" where
  "unread f st = mset (concat (map f (sc_pending st))) + mset (concat (sc_tasks st)) + mset (sc_sent st)"

lemma mset_concat_update:
  "i < length qs \<Longrightarrow> qs ! i = m # ms \<Longrightarrow> mset (concat (qs[i := ms])) + {#m#} = mset (concat qs)"
  by (induction qs arbitrary: i) (auto split: nat.splits)

lemma scan_step_unread:
  assumes "scan_step x ax cx t projection filters st st'"
    and "\<forall>p\<in>set (sc_pending st). \<exists>b. tp_partition_may_match t p filters = Inr b"
  shows "unread (partition_messages x ax cx t projection filters) st'
      = unread (partition_messages x ax cx t projection filters) st"
    and "set (sc_pending st') \<subseteq> set (sc_pending st)"
  using assms mset_concat_update [of _ "sc_tasks st"]
  by (auto elim!: scan_step.cases simp: unread_def partition_messages_def)

lemma scan_complete:
  assumes "execute_scan x ax cx t projection filters ms"
    and "\<forall>p\<in>set (scanned_partitions cx t). \<exists>b. tp_partition_may_match t p filters = Inr b"
  shows "mset ms = mset (concat (map (partition_messages x ax cx t projection filters) (scanned_partitions cx t)))"
proof -
  let ?f = "partition_messages x ax cx t projection filters"
  obtain st where st: "(scan_step x ax cx t projection filters)\<^sup>*\<^sup>* (scan_start cx t) st" "scan_done st" "sc_sent st = ms"
    using assms(1) by (auto simp: execute_scan_def)
  have pending: "sc_pending (scan_start cx t) = scanned_partitions cx t"
    by (simp add: scan_start_def scanned_partitions_def)
  have "unread ?f st = unread ?f (scan_start cx t) \<and> set (sc_pending st) \<subseteq> set (scanned_partitions cx t)"
    using st(1)
  proof (induction rule: rtranclp_induct)
    case (step st st')
    then have "\<forall>p\<in>set (sc_pending st). \<exists>b. tp_partition_may_match t p filters = Inr b" using assms(2) by blast
    then show ?case using scan_step_unread [OF step(2)] step(3) by (metis subset_trans)
  qed (simp add: pending)
  then have "mset (concat (sc_tasks st)) + mset ms = mset (concat (map ?f (scanned_partitions cx t)))"
    using st(2,3) pending by (simp add: unread_def scan_done_def, simp add: scan_start_def)
  moreover have "concat (sc_tasks st) = []" using st(2) unfolding scan_done_def by blast
  ultimately show ?thesis by (simp only: mset.simps add_0)
qed

text \<open>A scan always ends: all partitions are visited, then every task sends what it has.\<close>

lemma scan_loop_ends:
  "\<exists>st'. (scan_step x ax cx t projection filters)\<^sup>*\<^sup>* st st' \<and> sc_pending st' = []"
proof (induction "sc_pending st" arbitrary: st)
  case Nil
  then show ?case by (intro exI [of _ st]) simp
next
  case (Cons p ps)
  note pending = Cons(2) [symmetric]
  obtain st1 where st1: "scan_step x ax cx t projection filters st st1" "sc_pending st1 = ps"
  proof (cases "tp_partition_may_match t p filters")
    case (Inl e)
    show thesis
    proof (cases "channel_full cx st")
      case True
      show thesis by (rule that [OF scan_step.lost [OF pending Inl True]]) simp
    next
      case False
      show thesis by (rule that [OF scan_step.refused [OF pending Inl False]]) simp
    qed
  next
    case (Inr may)
    show thesis
    proof (cases may)
      case True
      then have "tp_partition_may_match t p filters = Inr True" using Inr by simp
      from scan_step.spawned [OF pending this] show thesis by (rule that) simp
    next
      case False
      then have "tp_partition_may_match t p filters = Inr False" using Inr by simp
      from scan_step.pruned [OF pending this] show thesis by (rule that) simp
    qed
  qed
  have "\<exists>st'. (scan_step x ax cx t projection filters)\<^sup>*\<^sup>* st1 st' \<and> sc_pending st' = []"
    by (rule Cons(1)) (simp add: st1(2))
  then show ?case using converse_rtranclp_into_rtranclp [where r = "scan_step x ax cx t projection filters", OF st1(1)] by blast
qed

lemma scan_tasks_end:
  "sc_pending st = [] \<Longrightarrow> \<exists>st'. (scan_step x ax cx t projection filters)\<^sup>*\<^sup>* st st' \<and> scan_done st'"
proof (induction "length (concat (sc_tasks st))" arbitrary: st)
  case 0
  then show ?case by (auto simp: scan_done_def)
next
  case (Suc n)
  then have "concat (sc_tasks st) \<noteq> []" by (metis length_0_conv nat.distinct(1))
  then obtain q where "q \<in> set (sc_tasks st)" "q \<noteq> []" by auto
  then obtain i m ms where i: "i < length (sc_tasks st)" "sc_tasks st ! i = m # ms"
    by (metis in_set_conv_nth list.exhaust)
  let ?st = "st\<lparr>sc_tasks := (sc_tasks st)[i := ms], sc_sent := sc_sent st @ [m]\<rparr>"
  have "size (mset (concat (sc_tasks ?st)) + {#m#}) = size (mset (concat (sc_tasks st)))"
    using mset_concat_update [OF i] by simp
  then have "n = length (concat (sc_tasks ?st))" using Suc(2) by simp
  then have "\<exists>st'. (scan_step x ax cx t projection filters)\<^sup>*\<^sup>* ?st st' \<and> scan_done st'"
    using Suc(1) [of ?st] Suc(3) by simp
  moreover have "scan_step x ax cx t projection filters st ?st" using Suc(3) by (intro scan_step.sent [OF i]) simp
  ultimately show ?case
    using converse_rtranclp_into_rtranclp [where r = "scan_step x ax cx t projection filters" and a = st and b = ?st] by blast
qed

lemma scan_exists: "\<exists>ms. execute_scan x ax cx t projection filters ms"
proof -
  let ?step = "scan_step x ax cx t projection filters"
  obtain st where st: "?step\<^sup>*\<^sup>* (scan_start cx t) st" "sc_pending st = []"
    using scan_loop_ends [where st = "scan_start cx t"] by blast
  obtain st' where "?step\<^sup>*\<^sup>* st st'" "scan_done st'" using scan_tasks_end [OF st(2)] by blast
  with st(1) have "?step\<^sup>*\<^sup>* (scan_start cx t) st'" by (meson rtranclp_trans)
  with \<open>scan_done st'\<close> show ?thesis unfolding execute_scan_def by blast
qed

text \<open>One run in particular: all tasks are spawned, then they send one after the other.\<close>

lemma scan_spawns:
  assumes "\<forall>p\<in>set ps. \<exists>b. tp_partition_may_match t p filters = Inr b" and "sc_pending st = ps"
  shows "\<exists>qs. (scan_step x ax cx t projection filters)\<^sup>*\<^sup>* st (st\<lparr>sc_pending := [], sc_tasks := sc_tasks st @ qs\<rparr>)
    \<and> concat qs = concat (map (partition_messages x ax cx t projection filters) ps)"
  using assms
proof (induction ps arbitrary: st)
  case Nil
  then have "st\<lparr>sc_pending := [], sc_tasks := sc_tasks st @ []\<rparr> = st" by simp
  then show ?case by (intro exI [of _ "[]"]) simp
next
  case (Cons p ps)
  let ?step = "scan_step x ax cx t projection filters" and ?f = "partition_messages x ax cx t projection filters"
  obtain may where may: "tp_partition_may_match t p filters = Inr may" using Cons.prems(1) by auto
  let ?new = "if may then [scan_task x ax t projection filters (tc_batch_size cx) p] else []"
  let ?st = "st\<lparr>sc_pending := ps, sc_tasks := sc_tasks st @ ?new\<rparr>"
  have "?step st ?st"
  proof (cases may)
    case True
    then show ?thesis using scan_step.spawned [OF Cons.prems(2), of t filters x ax cx projection] may by simp
  next
    case False
    then show ?thesis using scan_step.pruned [OF Cons.prems(2), of t filters x ax cx projection] may by simp
  qed
  moreover obtain qs where "?step\<^sup>*\<^sup>* ?st (?st\<lparr>sc_pending := [], sc_tasks := sc_tasks ?st @ qs\<rparr>)" "concat qs = concat (map ?f ps)"
    using Cons.IH [of ?st] Cons.prems(1) by auto
  ultimately have "?step\<^sup>*\<^sup>* st (st\<lparr>sc_pending := [], sc_tasks := sc_tasks st @ (?new @ qs)\<rparr>)"
    using converse_rtranclp_into_rtranclp [where r = ?step and a = st and b = ?st] by simp
  moreover have "concat (?new @ qs) = concat (map ?f (p # ps))"
    using may \<open>concat qs = concat (map ?f ps)\<close> by (simp add: partition_messages_def)
  ultimately show ?case by blast
qed

lemma scan_drains:
  assumes "sc_pending st = []" and "sc_tasks st = replicate k [] @ qs"
  shows "\<exists>st'. (scan_step x ax cx t projection filters)\<^sup>*\<^sup>* st st' \<and> scan_done st' \<and> sc_sent st' = sc_sent st @ concat qs"
  using assms
proof (induction "length (concat qs) + length qs" arbitrary: st k qs rule: less_induct)
  case less
  let ?step = "scan_step x ax cx t projection filters"
  show ?case
  proof (cases qs)
    case Nil
    then show ?thesis using less.prems by (intro exI [of _ st]) (auto simp: scan_done_def)
  next
    case (Cons q qs')
    show ?thesis
    proof (cases q)
      case Nil
      then have "sc_tasks st = replicate (Suc k) [] @ qs'" using less.prems(2) Cons by (simp add: replicate_append_same)
      then show ?thesis using less.hyps [of qs' st "Suc k"] less.prems(1) Cons Nil by simp
    next
      case q: (Cons m ms)
      let ?st = "st\<lparr>sc_tasks := (sc_tasks st)[k := ms], sc_sent := sc_sent st @ [m]\<rparr>"
      have "?step st ?st"
        using less.prems Cons q by (intro scan_step.sent) (simp_all add: nth_append)
      moreover have "sc_tasks ?st = replicate k [] @ (ms # qs')" using less.prems(2) Cons q by (simp add: list_update_append)
      then obtain st' where "?step\<^sup>*\<^sup>* ?st st'" "scan_done st'" "sc_sent st' = sc_sent ?st @ concat (ms # qs')"
        using less.hyps [of "ms # qs'" ?st k] less.prems(1) Cons q by auto
      ultimately show ?thesis
        using Cons q converse_rtranclp_into_rtranclp [where r = ?step and a = st and b = ?st] by auto
    qed
  qed
qed

lemma scan_in_order:
  assumes "\<forall>p\<in>set (scanned_partitions cx t). \<exists>b. tp_partition_may_match t p filters = Inr b"
  shows "execute_scan x ax cx t projection filters
    (concat (map (partition_messages x ax cx t projection filters) (scanned_partitions cx t)))"
proof -
  let ?step = "scan_step x ax cx t projection filters" and ?st = "scan_start cx t"
  have start: "sc_pending ?st = scanned_partitions cx t" "sc_tasks ?st = []" "sc_sent ?st = []"
    by (simp_all add: scan_start_def scanned_partitions_def)
  obtain qs where qs: "?step\<^sup>*\<^sup>* ?st (?st\<lparr>sc_pending := [], sc_tasks := sc_tasks ?st @ qs\<rparr>)"
    "concat qs = concat (map (partition_messages x ax cx t projection filters) (scanned_partitions cx t))"
    using scan_spawns [OF assms start(1)] by blast
  obtain st' where "?step\<^sup>*\<^sup>* (?st\<lparr>sc_pending := [], sc_tasks := sc_tasks ?st @ qs\<rparr>) st'" "scan_done st'" "sc_sent st' = concat qs"
    using scan_drains [where st = "?st\<lparr>sc_pending := [], sc_tasks := sc_tasks ?st @ qs\<rparr>" and k = 0 and qs = qs
        and x = x and ax = ax and cx = cx and t = t and projection = projection and filters = filters] start by auto
  then show ?thesis using qs rtranclp_trans [of ?step, OF qs(1)] by (auto simp: execute_scan_def)
qed

section \<open>Collecting\<close>

lemma with_budgets_spec:
  assumes "keeps_balance k f" and "computes f g"
  shows "qm_reserved (snd (with_budgets k d f m)) = qm_reserved m"
    and "exhausted (fst (with_budgets k d f m)) \<or> fst (with_budgets k d f m) = rbind (g d) (\<lambda>(a, _). Inr a)"
proof -
  obtain q m1 where q: "reserve_each k m = (q, m1)" by force
  have "qm_reserved (snd (with_budgets k d f m)) = qm_reserved m
    \<and> (exhausted (fst (with_budgets k d f m)) \<or> fst (with_budgets k d f m) = rbind (g d) (\<lambda>(a, _). Inr a))"
  proof (cases q)
    case (Inl e)
    then show ?thesis using reserve_each_cases [of m k] q by (simp add: with_budgets_def exhausted_def)
  next
    case (Inr hs)
    then have hs: "hs = replicate k 0" "qm_reserved m1 = qm_reserved m" using reserve_each_cases [of m k] q by simp_all
    let ?s = "\<lparr>run_data = d, run_held = hs, run_memory = m1\<rparr>"
    obtain r st where f: "f ?s = (r, st)" by force
    have "balanced (unat (qm_reserved m)) ?s" "length (run_held ?s) = k"
      using hs by (simp_all add: balanced_def sum_list_replicate)
    with keeps_balanceD [OF assms(1) f] have "balanced (unat (qm_reserved m)) st" by simp
    then have "unat (qm_reserved (release_all (run_held st) (run_memory st))) = unat (qm_reserved m)"
      using release_all_balanced [of "run_memory st"] by (simp add: balanced_def)
    moreover have "exhausted r \<or> r = rbind (g d) (\<lambda>(a, _). Inr a)"
      using computesD [OF assms(2) f] by (cases r) (auto simp: exhausted_def)
    moreover have "with_budgets k d f m = (r, release_all (run_held st) (run_memory st))"
      using q Inr f by (simp add: with_budgets_def)
    ultimately show ?thesis by (simp add: word_unat_eq_iff)
  qed
  then show "qm_reserved (snd (with_budgets k d f m)) = qm_reserved m"
    "exhausted (fst (with_budgets k d f m)) \<or> fst (with_budgets k d f m) = rbind (g d) (\<lambda>(a, _). Inr a)"
    by auto
qed

lemma keeps_balance_nested:
  assumes "\<And>d m. qm_reserved (snd (f d m)) = qm_reserved m"
  shows "keeps_balance k (nested f)"
proof -
  have "qm_reserved m' = qm_reserved m" if "f d m = (r, m')" for d m r m' using assms [of d m] that by simp
  then show ?thesis by (auto simp: keeps_balance_def nested_def balanced_def split: prod.splits)
qed

lemma computes_nested:
  assumes "\<And>d m. exhausted (fst (f d m)) \<or> fst (f d m) = g d"
  shows "computes (nested f) (inspect g)"
  unfolding computes_def
proof
  fix s :: "'a run"
  obtain r m where f: "f (run_data s) (run_memory s) = (r, m)" by force
  then have "exhausted r \<or> r = g (run_data s)" using assms [of "run_data s" "run_memory s"] by simp
  then show "agrees (nested f s) (inspect g (run_data s))"
    using f by (auto simp: nested_def inspect_def agrees_def exhausted_def rbind_def split: sum.splits)
qed

text \<open>What is collected: the batches of each input in their order, or the first error.\<close>

definition keep_message :: "nat \<times> message \<Rightarrow> batch list list \<Rightarrow> batch list list result" where
  "keep_message im d = rbind (snd im) (\<lambda>b. Inr (d[fst im := d ! fst im @ [b]]))"

lemma keep_message_simps [simp]:
  "keep_message (i, Inl e) d = Inl e" "keep_message (i, Inr b) d = Inr (d[i := d ! i @ [b]])"
  by (simp_all add: keep_message_def)

lemma collect_message_balance: "fst im < k \<Longrightarrow> keeps_balance k (collect_message x im)"
  unfolding collect_message_def by (auto intro!: balance_intros)

lemma collect_message_computes: "computes (collect_message x im) (effect (keep_message im))"
  unfolding collect_message_def
  by (rule computes_cong, (rule computes_intros)+) (simp add: keep_message_def computes_simps)

definition oks :: "message list \<Rightarrow> batch list" where
  "oks ms = concat (map (\<lambda>m. case m of Inl _ \<Rightarrow> [] | Inr b \<Rightarrow> [b]) ms)"

lemma oks_simps [simp]: "oks [] = []" "oks (Inr b # ms) = b # oks ms" "oks (Inl e # ms) = oks ms" "oks (ms @ ms') = oks ms @ oks ms'"
  by (simp_all add: oks_def)

lemma mset_oks: "mset ms = mset ms' \<Longrightarrow> mset (oks ms) = mset (oks ms')"
proof -
  have "mset (oks ms) = sum_mset (image_mset (\<lambda>m. case m of Inl _ \<Rightarrow> {#} | Inr b \<Rightarrow> {#b#}) (mset ms))" for ms
    by (induction ms) (auto split: sum.splits)
  then show "mset ms = mset ms' \<Longrightarrow> mset (oks ms) = mset (oks ms')" by simp
qed

section \<open>The relational reading of a plan\<close>

text \<open>
  Documented behaviour of the filter kernel: it keeps the rows whose cell in the predicate is true.
\<close>

definition filter_kernel :: "arrow_externs \<Rightarrow> bool" where
  "filter_kernel ax \<longleftrightarrow> (\<forall>s b p. batch_ok s b \<and> arr_type p = TBoolean \<and> length (arr_cells p) = rb_num_rows b \<longrightarrow>
     (\<exists>b'. ax_filter ax b p = Inr b' \<and> batch_ok s b'
        \<and> batch_rows b' = map fst (filter (\<lambda>(r, c). c = CBool True) (zip (batch_rows b) (arr_cells p)))))"

definition engine_ok :: "externs \<Rightarrow> arrow_externs \<Rightarrow> (data_type list \<Rightarrow> cell list \<Rightarrow> bytes) \<Rightarrow> bool" where
  "engine_ok x ax row \<longleftrightarrow> elementwise x \<and> kernels_ok ax \<and> filter_kernel ax \<and> row_format ax row"

definition row_true :: "externs \<Rightarrow> schema \<Rightarrow> expr \<Rightarrow> cell list \<Rightarrow> bool" where
  "row_true x s e r \<longleftrightarrow> eval_row x s e r = CBool True"

definition keyed :: "externs \<Rightarrow> schema \<Rightarrow> expr list \<Rightarrow> cell list \<Rightarrow> keyed_row" where
  "keyed x s on r = (map (\<lambda>e. eval_row x s e r) on, row_values x (field_types s) r)"

definition scan_batches :: "task_context \<Rightarrow> table_provider \<Rightarrow> nat list option \<Rightarrow> nat \<Rightarrow> batch list" where
  "scan_batches cx t projection p = (case tp_scan_partition t p projection (tc_batch_size cx) of Inr bs \<Rightarrow> bs | Inl _ \<Rightarrow> [])"

definition scan_rows :: "task_context \<Rightarrow> table_provider \<Rightarrow> nat list option \<Rightarrow> nat \<Rightarrow> cell list list" where
  "scan_rows cx t projection p = concat (map batch_rows (scan_batches cx t projection p))"

fun plan_rows :: "externs \<Rightarrow> task_context \<Rightarrow> physical_plan \<Rightarrow> cell list list" where
  "plan_rows x cx (PScan i n t projection filters s) =
     filter (\<lambda>r. \<forall>f\<in>set filters. row_true x s f r) (concat (map (scan_rows cx t projection) (scanned_partitions cx t)))"
| "plan_rows x cx (PProjection i p exprs s) =
     map (\<lambda>r. map (\<lambda>e. eval_row x (physical_schema p) e r) exprs) (plan_rows x cx p)"
| "plan_rows x cx (PFilter i p predicate s) = filter (row_true x (physical_schema p) predicate) (plan_rows x cx p)"
| "plan_rows x cx (PHashJoin i l r jt left_on right_on s) =
     map (row_cells x s) (nested_join jt (length (schema_fields (physical_schema r)))
       (map (keyed x (physical_schema l) left_on) (plan_rows x cx l))
       (map (keyed x (physical_schema r) right_on) (plan_rows x cx r)))"
| "plan_rows x cx _ = []"

text \<open>An expression that evaluates on every batch of a schema, to an array of a given type.\<close>

definition typed_expr :: "externs \<Rightarrow> schema \<Rightarrow> expr \<Rightarrow> data_type \<Rightarrow> bool" where
  "typed_expr x s e t \<longleftrightarrow> (\<forall>b. batch_ok s b \<longrightarrow> (\<exists>a. evaluate x b e = Inr a \<and> arr_type a = t \<and> array_ok a))"

text \<open>
  What a table provider promises for a scan: the partitions are readable, and one that it prunes has no
  row that satisfies the filters.
\<close>

definition partition_ok ::
  "externs \<Rightarrow> task_context \<Rightarrow> table_provider \<Rightarrow> nat list option \<Rightarrow> expr list \<Rightarrow> schema \<Rightarrow> nat \<Rightarrow> bool" where
  "partition_ok x cx t projection filters s p \<longleftrightarrow>
     (\<exists>bs may. tp_scan_partition t p projection (tc_batch_size cx) = Inr bs \<and> (\<forall>b\<in>set bs. batch_ok s b)
        \<and> tp_partition_may_match t p filters = Inr may
        \<and> (\<not> may \<longrightarrow> (\<forall>b\<in>set bs. \<forall>r\<in>set (batch_rows b). \<not> (\<forall>f\<in>set filters. row_true x s f r))))"

fun plan_ok ::
  "externs \<Rightarrow> arrow_externs \<Rightarrow> (data_type list \<Rightarrow> cell list \<Rightarrow> bytes) \<Rightarrow> task_context \<Rightarrow> physical_plan \<Rightarrow> bool" where
  "plan_ok x ax row cx (PScan i n t projection filters s) \<longleftrightarrow>
     (\<forall>p\<in>set (scanned_partitions cx t). partition_ok x cx t projection filters s p)
     \<and> (\<forall>f\<in>set filters. typed_expr x s f TBoolean)"
| "plan_ok x ax row cx (PProjection i p exprs s) \<longleftrightarrow> plan_ok x ax row cx p \<and> schema_fields s \<noteq> []
     \<and> list_all field_nullable (schema_fields s) \<and> list_all2 (typed_expr x (physical_schema p)) exprs (field_types s)"
| "plan_ok x ax row cx (PFilter i p predicate s) \<longleftrightarrow> plan_ok x ax row cx p \<and> s = physical_schema p
     \<and> typed_expr x s predicate TBoolean"
| "plan_ok x ax row cx (PHashJoin i l r jt left_on right_on s) \<longleftrightarrow> plan_ok x ax row cx l \<and> plan_ok x ax row cx r
     \<and> list_all plain_type (field_types (physical_schema l)) \<and> list_all plain_type (field_types (physical_schema r))
     \<and> (\<exists>ktys. keys_supported ax row ktys \<and> list_all2 (typed_expr x (physical_schema l)) left_on ktys
          \<and> list_all2 (typed_expr x (physical_schema r)) right_on ktys)
     \<and> buildable_schema s
     \<and> length (schema_fields s) = length (schema_fields (physical_schema l)) + length (schema_fields (physical_schema r))
     \<and> rows_fit x s (nested_join jt (length (schema_fields (physical_schema r)))
          (map (keyed x (physical_schema l) left_on) (plan_rows x cx l))
          (map (keyed x (physical_schema r) right_on) (plan_rows x cx r)))"
| "plan_ok x ax row cx _ \<longleftrightarrow> False"

section \<open>Batch by batch\<close>

lemma typed_exprD:
  assumes "elementwise x" and "typed_expr x s e t" and "batch_ok s b"
  obtains a where "evaluate x b e = Inr a" "arr_type a = t" "array_ok a" "arr_cells a = map (eval_row x s e) (batch_rows b)"
    "length (arr_cells a) = rb_num_rows b"
proof -
  obtain a where a: "evaluate x b e = Inr a" "arr_type a = t" "array_ok a" using assms(2,3) by (auto simp: typed_expr_def)
  moreover have "arr_cells a = map (eval_row x s e) (batch_rows b)" by (rule evaluate_rows [OF assms(1,3) a(1)])
  moreover have "length (batch_rows b) = rb_num_rows b" by (simp add: batch_rows_def)
  ultimately show thesis using that by simp
qed

lemma filter_zip_map: "map fst (filter (\<lambda>(r, c). c = v) (zip rs (map f rs))) = filter (\<lambda>r. f r = v) rs"
  by (induction rs) auto

lemma filter_batch_rows:
  assumes "engine_ok x ax row" and "typed_expr x s e TBoolean" and "batch_ok s b"
  shows "\<exists>b'. filter_batch x ax b e = Inr b' \<and> batch_ok s b' \<and> batch_rows b' = filter (row_true x s e) (batch_rows b)"
proof -
  obtain a where a: "evaluate x b e = Inr a" "arr_type a = TBoolean" "arr_cells a = map (eval_row x s e) (batch_rows b)"
    "length (arr_cells a) = rb_num_rows b"
    using typed_exprD [OF _ assms(2,3)] assms(1) by (auto simp: engine_ok_def)
  then obtain b' where "ax_filter ax b a = Inr b'" "batch_ok s b'"
    "batch_rows b' = map fst (filter (\<lambda>(r, c). c = CBool True) (zip (batch_rows b) (arr_cells a)))"
    using assms(1,3) unfolding engine_ok_def filter_kernel_def by metis
  moreover have "map fst (filter (\<lambda>(r, c). c = CBool True) (zip (batch_rows b) (arr_cells a))) = filter (row_true x s e) (batch_rows b)"
    unfolding a(3) filter_zip_map row_true_def [abs_def] by (rule refl)
  ultimately show ?thesis using a by (simp add: filter_batch_def)
qed

lemma evaluate_columns:
  assumes "elementwise x" and "list_all2 (typed_expr x s) es ts" and "batch_ok s b"
  obtains cols where "rmap (evaluate x b) es = Inr cols" "columns_ok ts (rb_num_rows b) cols"
    "cell_rows (rb_num_rows b) cols = map (\<lambda>r. map (\<lambda>e. eval_row x s e r) es) (batch_rows b)"
proof -
  have "\<exists>cols. rmap (evaluate x b) es = Inr cols \<and> columns_ok ts (rb_num_rows b) cols
      \<and> list_all2 (\<lambda>e a. arr_cells a = map (eval_row x s e) (batch_rows b)) es cols"
    using assms(2)
  proof (induction rule: list_all2_induct)
    case (Cons e es t ts)
    then show ?case
      by (elim exE conjE, rule_tac typed_exprD [OF assms(1) Cons(1) assms(3)]) (auto simp: columns_ok_def)
  qed (simp add: columns_ok_def)
  then obtain cols where cols: "rmap (evaluate x b) es = Inr cols" "columns_ok ts (rb_num_rows b) cols"
    "list_all2 (\<lambda>e a. arr_cells a = map (eval_row x s e) (batch_rows b)) es cols" by blast
  have "length (batch_rows b) = rb_num_rows b" by (simp add: batch_rows_def)
  then have "cell_rows (rb_num_rows b) cols = map (\<lambda>r. map (\<lambda>e. eval_row x s e r) es) (batch_rows b)"
    using cols(3) by (auto simp: cell_rows_def list_all2_conv_all_nth intro!: nth_equalityI)
  with cols show thesis using that by blast
qed

lemma project_batch_rows:
  assumes "engine_ok x ax row" and "list_all2 (typed_expr x sin) es (field_types s)" and "schema_fields s \<noteq> []"
    and "list_all field_nullable (schema_fields s)" and "batch_ok sin b"
  shows "\<exists>b'. project_batch x ax b es s = Inr b' \<and> batch_ok s b'
    \<and> batch_rows b' = map (\<lambda>r. map (\<lambda>e. eval_row x sin e r) es) (batch_rows b)"
proof -
  have ew: "elementwise x" "kernels_ok ax" using assms(1) by (auto simp: engine_ok_def)
  obtain cols where cols: "rmap (evaluate x b) es = Inr cols" "columns_ok (field_types s) (rb_num_rows b) cols"
    "cell_rows (rb_num_rows b) cols = map (\<lambda>r. map (\<lambda>e. eval_row x sin e r) es) (batch_rows b)"
    by (rule evaluate_columns [OF ew(1) assms(2,5)])
  have len: "length cols = length (schema_fields s)"
    using columns_okD(1) [OF cols(2)] by (simp add: field_types_def)
  then have nulls: "no_nulls (schema_fields s) cols"
    using assms(4) by (auto simp: no_nulls_def list_all2_conv_all_nth list_all_length)
  then have "ax_try_new ax s cols = Inr \<lparr>rb_schema = s, rb_columns = cols, rb_num_rows = rb_num_rows b\<rparr>"
    using ew(2) cols(2) len assms(3) by (intro kernels_okD(2)) auto
  then show ?thesis using cols nulls by (auto simp: project_batch_def batch_ok_def batch_rows_def)
qed

section \<open>Streams\<close>

text \<open>
  A stream that carries given rows: batches of the schema, errors of memory and cancellation only, and
  without an error exactly the rows.
\<close>

definition tolerated :: "task_context \<Rightarrow> sparkx_error \<Rightarrow> bool" where
  "tolerated cx e \<longleftrightarrow> exhausted (Inl e :: message) \<or> e = ECancelled \<and> tc_cancellable cx"

definition carries :: "task_context \<Rightarrow> schema \<Rightarrow> cell list list \<Rightarrow> message list \<Rightarrow> bool" where
  "carries cx s rows ms \<longleftrightarrow> (\<forall>m\<in>set ms. case m of Inl e \<Rightarrow> tolerated cx e | Inr b \<Rightarrow> batch_ok s b)
     \<and> (list_all is_ok ms \<longrightarrow> mset (concat (map batch_rows (oks ms))) = mset rows)"

lemma carriesD:
  assumes "carries cx s rows ms"
  shows "Inl e \<in> set ms \<Longrightarrow> tolerated cx e" and "Inr b \<in> set ms \<Longrightarrow> batch_ok s b"
    and "list_all is_ok ms \<Longrightarrow> mset (concat (map batch_rows (oks ms))) = mset rows"
  using assms by (auto simp: carries_def dest: bspec)

lemma tolerated_not_panic: "tolerated cx e \<Longrightarrow> \<not> is_panic (Inl e)"
  by (cases e) (auto simp: tolerated_def exhausted_def)

lemma until_panic_id: "\<forall>m\<in>set ms. \<not> is_panic m \<Longrightarrow> until_panic ms = ms"
  by (simp add: until_panic_def)

lemma until_panic_tolerated:
  assumes "\<forall>m\<in>set ms. case m of Inl e \<Rightarrow> tolerated cx e | Inr b \<Rightarrow> P b"
  shows "until_panic ms = ms"
proof (rule until_panic_id)
  show "\<forall>m\<in>set ms. \<not> is_panic m"
  proof
    fix m assume "m \<in> set ms"
    then have "case m of Inl e \<Rightarrow> tolerated cx e | Inr b \<Rightarrow> P b" using assms by blast
    then show "\<not> is_panic m" using tolerated_not_panic by (cases m) auto
  qed
qed

lemma set_oks: "set (oks ms) = {b. Inr b \<in> set ms}"
  by (induction ms) (auto simp: oks_def split: sum.splits)

lemma carries_tracked:
  assumes "carries cx s rows out" and "track_operator_output cx out ms"
  shows "carries cx s rows ms"
  using assms(2)
proof cases
  case (cut k)
  have "carries cx s rows (take k out @ [Inl ECancelled])"
    unfolding carries_def using cut(2) assms(1)
    by (auto simp: carries_def tolerated_def dest: in_set_takeD split: sum.splits)
  then show ?thesis using cut(1) by simp
qed (use assms(1) in simp)

lemma carries_cancelled: "tc_cancellable cx \<Longrightarrow> ms = [Inl ECancelled] \<Longrightarrow> carries cx s rows ms"
  by (simp add: carries_def tolerated_def)

lemma carries_map:
  assumes "carries cx s rows ins"
    and "\<And>b. batch_ok s b \<Longrightarrow> \<exists>b'. f b = Inr b' \<and> batch_ok s' b' \<and> batch_rows b' = concat (map h (batch_rows b))"
  shows "carries cx s' (concat (map h rows)) (until_panic (map (\<lambda>m. rbind m f) ins))"
proof -
  let ?out = "map (\<lambda>m. rbind m f) ins"
  note ins = carriesD [OF assms(1)]
  have "case m of Inl e \<Rightarrow> tolerated cx e | Inr b \<Rightarrow> batch_ok s' b" if "m \<in> set ?out" for m
    using that ins(1,2) assms(2) by (fastforce split: sum.splits simp: rbind_def)
  then have out: "\<forall>m\<in>set ?out. case m of Inl e \<Rightarrow> tolerated cx e | Inr b \<Rightarrow> batch_ok s' b" by blast
  then have "until_panic ?out = ?out" by (rule until_panic_tolerated)
  moreover have "mset (concat (map batch_rows (oks ?out))) = mset (concat (map h rows))" if "list_all is_ok ?out"
  proof -
    have ok: "list_all is_ok ins" using that by (auto simp: list_all_iff is_ok_iff rbind_eq_Inr)
    have "concat (map batch_rows (oks (map (\<lambda>m. rbind m f) ms))) = concat (map h (concat (map batch_rows (oks ms))))"
      if "list_all is_ok ms" "\<forall>b. Inr b \<in> set ms \<longrightarrow> batch_ok s b" for ms
      using that assms(2) by (induction ms) (auto simp: is_ok_iff, metis oks_simps(2) concat.simps(2) list.simps(9))
    then have "concat (map batch_rows (oks ?out)) = concat (map h (concat (map batch_rows (oks ins))))" using ok ins(2) by blast
    moreover have "mset (concat (map h rs)) = sum_mset (image_mset (\<lambda>r. mset (h r)) (mset rs))" for rs
      by (induction rs) simp_all
    ultimately show ?thesis using ins(3) [OF ok] by simp
  qed
  ultimately show ?thesis using out by (simp add: carries_def)
qed

text \<open>Scans.\<close>

lemma apply_filters_rows:
  assumes "engine_ok x ax row" and "\<forall>f\<in>set fs. typed_expr x s f TBoolean" and "batch_ok s b"
  shows "\<exists>b'. apply_filters x ax fs b = Inr b' \<and> batch_ok s b'
    \<and> batch_rows b' = filter (\<lambda>r. \<forall>f\<in>set fs. row_true x s f r) (batch_rows b)"
  using assms(2,3)
proof (induction fs arbitrary: b)
  case (Cons f fs)
  then obtain b1 where b1: "filter_batch x ax b f = Inr b1" "batch_ok s b1" "batch_rows b1 = filter (row_true x s f) (batch_rows b)"
    using filter_batch_rows [OF assms(1), of s f b] by auto
  then obtain b2 where "apply_filters x ax fs b1 = Inr b2" "batch_ok s b2"
    "batch_rows b2 = filter (\<lambda>r. \<forall>f\<in>set fs. row_true x s f r) (batch_rows b1)"
    using Cons.IH [of b1] Cons.prems by auto
  then show ?case using b1 by (auto simp: conj_commute)
qed simp

lemma scan_messages_rows:
  assumes "engine_ok x ax row" and "\<forall>f\<in>set fs. typed_expr x s f TBoolean" and "\<forall>b\<in>set bs. batch_ok s b"
  shows "\<exists>bs'. scan_messages x ax fs bs = map Inr bs' \<and> (\<forall>b\<in>set bs'. batch_ok s b)
    \<and> concat (map batch_rows bs') = filter (\<lambda>r. \<forall>f\<in>set fs. row_true x s f r) (concat (map batch_rows bs))"
  using assms(3)
proof (induction bs)
  case (Cons b bs)
  then obtain bs' where bs': "scan_messages x ax fs bs = map Inr bs'" "\<forall>b\<in>set bs'. batch_ok s b"
    "concat (map batch_rows bs') = filter (\<lambda>r. \<forall>f\<in>set fs. row_true x s f r) (concat (map batch_rows bs))" by auto
  obtain b' where "apply_filters x ax fs b = Inr b'" "batch_ok s b'"
    "batch_rows b' = filter (\<lambda>r. \<forall>f\<in>set fs. row_true x s f r) (batch_rows b)"
    using apply_filters_rows [OF assms(1,2), of b] Cons.prems by auto
  then show ?case using bs' by (intro exI [of _ "b' # bs'"]) simp
qed simp

lemma partition_messages_rows:
  assumes "engine_ok x ax row" and "\<forall>f\<in>set fs. typed_expr x s f TBoolean" and "partition_ok x cx t projection fs s p"
  shows "\<exists>bs'. partition_messages x ax cx t projection fs p = map Inr bs' \<and> (\<forall>b\<in>set bs'. batch_ok s b)
    \<and> concat (map batch_rows bs') = filter (\<lambda>r. \<forall>f\<in>set fs. row_true x s f r) (scan_rows cx t projection p)"
proof -
  obtain bs may where bs: "tp_scan_partition t p projection (tc_batch_size cx) = Inr bs" "\<forall>b\<in>set bs. batch_ok s b"
    "tp_partition_may_match t p fs = Inr may"
    "\<not> may \<Longrightarrow> \<forall>b\<in>set bs. \<forall>r\<in>set (batch_rows b). \<not> (\<forall>f\<in>set fs. row_true x s f r)"
    using assms(3) by (auto simp: partition_ok_def)
  obtain bs' where bs': "scan_messages x ax fs bs = map Inr bs'" "\<forall>b\<in>set bs'. batch_ok s b"
    "concat (map batch_rows bs') = filter (\<lambda>r. \<forall>f\<in>set fs. row_true x s f r) (concat (map batch_rows bs))"
    using scan_messages_rows [OF assms(1,2) bs(2)] by blast
  have calm: "until_panic (map Inr bs') = map Inr bs'" by (rule until_panic_id) auto
  show ?thesis
  proof (cases may)
    case True
    then show ?thesis
      using bs(1,3) bs' calm by (auto simp: partition_messages_def scan_task_def scan_rows_def scan_batches_def)
  next
    case False
    then have "filter (\<lambda>r. \<forall>f\<in>set fs. row_true x s f r) (scan_rows cx t projection p) = []"
      using bs(1,4) by (auto simp: scan_rows_def scan_batches_def filter_empty_conv)
    then show ?thesis using False bs(3) by (intro exI [of _ "[]"]) (simp add: partition_messages_def)
  qed
qed

lemma mset_concat_map: "mset xs = mset ys \<Longrightarrow> mset (concat (map f xs)) = mset (concat (map f ys))"
proof -
  have "mset (concat (map f zs)) = sum_mset (image_mset (\<lambda>z. mset (f z)) (mset zs))" for zs
    by (induction zs) simp_all
  then show "mset xs = mset ys \<Longrightarrow> mset (concat (map f xs)) = mset (concat (map f ys))" by simp
qed

lemma carries_scan:
  assumes "engine_ok x ax row" and "plan_ok x ax row cx (PScan i n t projection filters s)"
    and "execute_scan x ax cx t projection filters ms"
  shows "carries cx s (plan_rows x cx (PScan i n t projection filters s)) ms"
proof -
  let ?parts = "scanned_partitions cx t" and ?f = "partition_messages x ax cx t projection filters"
  let ?keep = "filter (\<lambda>r. \<forall>f\<in>set filters. row_true x s f r)"
  have ok: "\<forall>p\<in>set ?parts. partition_ok x cx t projection filters s p" "\<forall>f\<in>set filters. typed_expr x s f TBoolean"
    using assms(2) by simp_all
  then have "\<forall>p\<in>set ?parts. \<exists>b. tp_partition_may_match t p filters = Inr b" unfolding partition_ok_def by blast
  then have ms: "mset ms = mset (concat (map ?f ?parts))" by (rule scan_complete [OF assms(3)])
  have "\<exists>bs. concat (map ?f ps) = map Inr bs \<and> (\<forall>b\<in>set bs. batch_ok s b)
      \<and> concat (map batch_rows bs) = ?keep (concat (map (scan_rows cx t projection) ps))"
    if "\<forall>p\<in>set ps. partition_ok x cx t projection filters s p" for ps
    using that
  proof (induction ps)
    case (Cons p ps)
    then obtain bs where bs: "concat (map ?f ps) = map Inr bs" "\<forall>b\<in>set bs. batch_ok s b"
      "concat (map batch_rows bs) = ?keep (concat (map (scan_rows cx t projection) ps))" by auto
    obtain bs' where "?f p = map Inr bs'" "\<forall>b\<in>set bs'. batch_ok s b"
      "concat (map batch_rows bs') = ?keep (scan_rows cx t projection p)"
      using partition_messages_rows [OF assms(1) ok(2), of cx t projection p] Cons.prems by auto
    then show ?case using bs by (intro exI [of _ "bs' @ bs"]) auto
  qed simp
  then obtain bs where bs: "concat (map ?f ?parts) = map Inr bs" "\<forall>b\<in>set bs. batch_ok s b"
    "concat (map batch_rows bs) = ?keep (concat (map (scan_rows cx t projection) ?parts))"
    using ok(1) by blast
  have "set ms = Inr ` set bs" using arg_cong [OF ms, of set_mset] bs(1) by simp
  moreover have "oks (map Inr bs) = bs" by (induction bs) simp_all
  then have "mset (oks ms) = mset bs" using mset_oks [OF ms] bs(1) by simp
  ultimately show ?thesis
    using bs(2,3) mset_concat_map [of "oks ms" bs batch_rows] by (auto simp: carries_def)
qed

text \<open>Joins.\<close>

lemma keep_messages:
  assumes "tagged \<in> shuffles (map (Pair 0) lins) (map (Pair 1) rins)"
  shows "list_all is_ok lins \<Longrightarrow> list_all is_ok rins \<Longrightarrow> rfold keep_message tagged [lbs, rbs] = Inr [lbs @ oks lins, rbs @ oks rins]"
    and "\<not> (list_all is_ok lins \<and> list_all is_ok rins) \<Longrightarrow> \<exists>e. rfold keep_message tagged [lbs, rbs] = Inl e \<and> Inl e \<in> set lins \<union> set rins"
proof -
  have "if list_all is_ok lins \<and> list_all is_ok rins then rfold keep_message tagged [lbs, rbs] = Inr [lbs @ oks lins, rbs @ oks rins]
      else \<exists>e. rfold keep_message tagged [lbs, rbs] = Inl e \<and> Inl e \<in> set lins \<union> set rins"
    using assms
  proof (induction tagged arbitrary: lins rins lbs rbs)
    case (Cons im tagged)
    from Cons.prems consider (left) m ms where "lins = m # ms" "im = (0, m)" "tagged \<in> shuffles (map (Pair 0) ms) (map (Pair 1) rins)"
      | (right) m ms where "rins = m # ms" "im = (1, m)" "tagged \<in> shuffles (map (Pair 0) lins) (map (Pair 1) ms)"
      by (cases lins; cases rins) (auto simp: Cons_in_shuffles_iff)
    then show ?case
    proof cases
      case (left m ms)
      then show ?thesis
        using Cons.IH [OF left(3), of "lbs @ [projr m]" rbs] by (cases m) auto
    next
      case (right m ms)
      then show ?thesis
        using Cons.IH [OF right(3), of lbs "rbs @ [projr m]"] by (cases m) auto
    qed
  qed simp
  then show "list_all is_ok lins \<Longrightarrow> list_all is_ok rins \<Longrightarrow> rfold keep_message tagged [lbs, rbs] = Inr [lbs @ oks lins, rbs @ oks rins]"
    "\<not> (list_all is_ok lins \<and> list_all is_ok rins) \<Longrightarrow> \<exists>e. rfold keep_message tagged [lbs, rbs] = Inl e \<and> Inl e \<in> set lins \<union> set rins"
    by (auto split: if_splits)
qed

lemma shuffles_tags:
  "tagged \<in> shuffles (map (Pair 0) lins) (map (Pair 1) rins) \<Longrightarrow> im \<in> set tagged \<Longrightarrow> fst im < (2::nat)"
  using set_shuffles [of tagged "map (Pair 0) lins" "map (Pair 1) rins"] by auto

lemma execute_hash_join_result:
  assumes "tagged \<in> shuffles (map (Pair 0) lins) (map (Pair 1) rins)"
  obtains r where "fst (execute_hash_join x ax tagged jt left_on right_on s m) = until_panic [r]"
    and "exhausted r \<or> r = rbind (rfold keep_message tagged [[], []]) (\<lambda>d.
      rbind (join_pure x ax (d ! 0) (d ! 1) jt left_on right_on s) (\<lambda>j. join_output x ax s (js_output j)))"
    and "qm_reserved (snd (execute_hash_join x ax tagged jt left_on right_on s m)) = qm_reserved m"
proof -
  let ?pure = "\<lambda>d. rbind (join_pure x ax (d ! 0) (d ! 1) jt left_on right_on s) (\<lambda>j. join_output x ax s (js_output j))"
  let ?join = "\<lambda>d. hash_join x ax (d ! 0) (d ! 1) jt left_on right_on s"
  let ?f = "charged_bind (loop (collect_message x) tagged) (\<lambda>_. nested ?join)"
  have bal: "keeps_balance 2 ?f"
    using shuffles_tags [OF assms]
    by (intro keeps_balance_bind keeps_balance_loop keeps_balance_nested collect_message_balance hash_join_pure(1)) simp
  have "computes ?f (\<lambda>d. rbind (effect (rfold keep_message tagged) d) (\<lambda>(_, d'). inspect ?pure d'))"
    by (intro computes_bind computes_loop computes_nested collect_message_computes hash_join_pure(2))
  note spec = with_budgets_spec [OF bal this, of "[[], []]" m]
  show thesis
    by (rule that [of "fst (with_budgets 2 [[], []] ?f m)"])
      (use spec in \<open>simp_all add: execute_hash_join_def case_prod_unfold computes_simps\<close>)
qed

lemma nested_join_mset:
  assumes "mset l = mset l'" and "mset r = mset r'"
  shows "mset (nested_join jt w l r) = mset (nested_join jt w l' r')"
proof -
  have "mset (join_row jt w r k) = mset (join_row jt w r' k)" for k
  proof -
    let ?found = "filter (\<lambda>q. CNull \<notin> set (fst k) \<and> fst q = fst k)"
    have "mset (?found r) = mset (?found r')" using assms(2) by (simp only: mset_filter)
    then have "?found r = [] \<longleftrightarrow> ?found r' = []" "mset (map (\<lambda>q. snd k @ snd q) (?found r)) = mset (map (\<lambda>q. snd k @ snd q) (?found r'))"
      by (metis mset_zero_iff, simp only: mset_map)
    then show ?thesis unfolding join_row_def Let_def by (simp only: split: if_split) blast
  qed
  then have "mset (nested_join jt w l r) = mset (nested_join jt w l r')"
    by (simp add: nested_join_def mset_concat comp_def)
  also have "\<dots> = mset (nested_join jt w l' r')"
    unfolding nested_join_def by (rule mset_concat_map [OF assms(1)])
  finally show ?thesis .
qed

lemma side_rows:
  assumes "elementwise x" and "list_all plain_type (field_types s)" and "list_all2 (typed_expr x s) on ktys"
    and "\<forall>b\<in>set bs. batch_ok s b"
  shows "side_ok x s on ktys bs" and "keyed_rows x s on bs = map (keyed x s on) (concat (map batch_rows bs))"
proof -
  have b: "\<exists>cols. rmap (evaluate x b) on = Inr cols \<and> columns_ok ktys (rb_num_rows b) cols
      \<and> cell_rows (rb_num_rows b) cols = map (\<lambda>r. map (\<lambda>e. eval_row x s e r) on) (batch_rows b)" if "b \<in> set bs" for b
    using evaluate_columns [OF assms(1,3), of b] assms(4) that by metis
  then show "side_ok x s on ktys bs" using assms(2,4) by (auto simp: side_ok_def)
  have "map (keyed_row_at x s on b) [0..<rb_num_rows b] = map (keyed x s on) (batch_rows b)" if "b \<in> set bs" for b
    using b [OF that] by (auto simp: keyed_row_at_def key_columns_def keyed_def batch_rows_def intro!: nth_equalityI)
  then show "keyed_rows x s on bs = map (keyed x s on) (concat (map batch_rows bs))"
    by (simp add: keyed_rows_def map_concat comp_def cong: map_cong)
qed

lemma carries_join:
  assumes "engine_ok x ax row" and "plan_ok x ax row cx (PHashJoin i l r jt left_on right_on s)"
    and "carries cx (physical_schema l) (plan_rows x cx l) lins" and "carries cx (physical_schema r) (plan_rows x cx r) rins"
    and "tagged \<in> shuffles (map (Pair 0) lins) (map (Pair 1) rins)"
  shows "carries cx s (plan_rows x cx (PHashJoin i l r jt left_on right_on s))
    (fst (execute_hash_join x ax tagged jt left_on right_on s m))"
proof -
  let ?ls = "physical_schema l" and ?rs = "physical_schema r"
  let ?join = "nested_join jt (length (schema_fields ?rs))"
  obtain ktys where plan: "list_all plain_type (field_types ?ls)" "list_all plain_type (field_types ?rs)" "keys_supported ax row ktys"
    "list_all2 (typed_expr x ?ls) left_on ktys" "list_all2 (typed_expr x ?rs) right_on ktys" "buildable_schema s"
    "length (schema_fields s) = length (schema_fields ?ls) + length (schema_fields ?rs)"
    "rows_fit x s (?join (map (keyed x ?ls left_on) (plan_rows x cx l)) (map (keyed x ?rs right_on) (plan_rows x cx r)))"
    using assms(2) by auto
  have ew: "elementwise x" "kernels_ok ax" using assms(1) by (auto simp: engine_ok_def)
  obtain q where q: "fst (execute_hash_join x ax tagged jt left_on right_on s m) = until_panic [q]"
    "exhausted q \<or> q = rbind (rfold keep_message tagged [[], []]) (\<lambda>d.
      rbind (join_pure x ax (d ! 0) (d ! 1) jt left_on right_on s) (\<lambda>j. join_output x ax s (js_output j)))"
    by (rule execute_hash_join_result [OF assms(5)])
  have "carries cx s (plan_rows x cx (PHashJoin i l r jt left_on right_on s)) [q]"
  proof (cases "exhausted q \<or> \<not> (list_all is_ok lins \<and> list_all is_ok rins)")
    case True
    then obtain e where "q = Inl e" "tolerated cx e"
      using keep_messages(2) [OF assms(5), of "[]" "[]"] q(2) carriesD(1) [OF assms(3)] carriesD(1) [OF assms(4)]
      by (auto simp: exhausted_def tolerated_def)
    then show ?thesis by (simp add: carries_def)
  next
    case False
    then have ok: "list_all is_ok lins" "list_all is_ok rins" by simp_all
    have bs: "\<forall>b\<in>set (oks lins). batch_ok ?ls b" "\<forall>b\<in>set (oks rins). batch_ok ?rs b"
      using carriesD(2) [OF assms(3)] carriesD(2) [OF assms(4)] by (auto simp: set_oks)
    note left = side_rows [OF ew(1) plan(1,4) bs(1)] and right = side_rows [OF ew(1) plan(2,5) bs(2)]
    let ?L = "map (keyed x ?ls left_on) (concat (map batch_rows (oks lins)))"
    let ?R = "map (keyed x ?rs right_on) (concat (map batch_rows (oks rins)))"
    obtain j where j: "join_pure x ax (oks lins) (oks rins) jt left_on right_on s = Inr j"
      "js_output j = nested_join jt (right_width (oks lins) (oks rins) s) (keyed_rows x ?ls left_on (oks lins)) (keyed_rows x ?rs right_on (oks rins))"
      using join_pure_nested [OF plan(3) left(1) right(1)] by blast
    have "js_output j = ?join (keyed_rows x ?ls left_on (oks lins)) (keyed_rows x ?rs right_on (oks rins))"
      using j(2) nested_join_width [OF bs plan(7)] by simp
    then have out: "js_output j = ?join ?L ?R" by (simp only: left(2) right(2))
    have perm: "mset (?join ?L ?R) = mset (?join (map (keyed x ?ls left_on) (plan_rows x cx l)) (map (keyed x ?rs right_on) (plan_rows x cx r)))"
      using carriesD(3) [OF assms(3) ok(1)] carriesD(3) [OF assms(4) ok(2)] by (intro nested_join_mset) (simp_all only: mset_map)
    have fit: "rows_fit x s (?join ?L ?R)" using plan(8) arg_cong [OF perm, of set_mset] by (simp add: rows_fit_def)
    have "q = Inr (batch_of_rows s (map (row_cells x s) (?join ?L ?R)))"
      using q(2) False keep_messages(1) [OF assms(5) ok, of "[]" "[]"] j(1) out join_output_rows [OF ew(2) plan(6) fit] by simp
    moreover have "\<forall>r\<in>set (map (row_cells x s) (?join ?L ?R)). row_admitted s r" using fit by (auto simp: rows_fit_def)
    note batch_of_rows_ok [OF this]
    ultimately show ?thesis using perm by (simp add: carries_def)
  qed
  then show ?thesis
    using q(1) until_panic_tolerated [of "[q]" cx "batch_ok s"] by (simp add: carries_def)
qed

lemma streams_carry:
  assumes "engine_ok x ax row"
  shows "plan_ok x ax row cx p \<Longrightarrow> streams x ax cx p ms \<Longrightarrow> carries cx (physical_schema p) (plan_rows x cx p) ms"
proof (induction p arbitrary: ms)
  case (PScan i n t projection filters s)
  from PScan.prems(2) show ?case
  proof (elim scanE)
    fix out assume 3: "execute_scan x ax cx t projection filters out" "track_operator_output cx out ms"
    show ?case using carries_tracked [OF carries_scan [OF assms PScan.prems(1) 3(1)] 3(2)] by simp
  qed (auto intro: carries_cancelled)
next
  case (PProjection i p exprs s)
  from PProjection.prems(2) show ?case
  proof (elim projectionE)
    fix ins assume 3: "streams x ax cx p ins" "track_operator_output cx (execute_projection x ax ins exprs s) ms"
    have "carries cx s (plan_rows x cx (PProjection i p exprs s)) (execute_projection x ax ins exprs s)"
      using carries_map [OF PProjection.IH [OF _ 3(1)], where s' = s and f = "\<lambda>b. project_batch x ax b exprs s"
          and h = "\<lambda>r. [map (\<lambda>e. eval_row x (physical_schema p) e r) exprs]"]
        project_batch_rows [OF assms, of "physical_schema p" exprs s] PProjection.prems(1)
      by (simp add: execute_projection_def concat_map_singleton)
    from carries_tracked [OF this 3(2)] show ?case by simp
  qed (auto intro: carries_cancelled)
next
  case (PFilter i p e s)
  from PFilter.prems(2) show ?case
  proof (elim filterE)
    fix ins assume 3: "streams x ax cx p ins" "track_operator_output cx (execute_filter x ax ins e) ms"
    have keep: "concat (map (\<lambda>r. if P r then [r] else []) rs) = filter P rs" for P and rs :: "cell list list"
      by (induction rs) auto
    have s: "s = physical_schema p" "typed_expr x s e TBoolean" "plan_ok x ax row cx p" using PFilter.prems(1) by auto
    have "carries cx s (concat (map (\<lambda>r. if row_true x s e r then [r] else []) (plan_rows x cx p)))
        (until_panic (map (\<lambda>m. rbind m (\<lambda>b. filter_batch x ax b e)) ins))"
      using filter_batch_rows [OF assms s(2)] PFilter.IH [OF s(3) 3(1)] s(1) by (intro carries_map) (simp_all add: keep)
    then have "carries cx s (plan_rows x cx (PFilter i p e s)) (execute_filter x ax ins e)"
      using s(1) by (simp add: execute_filter_def keep)
    from carries_tracked [OF this 3(2)] show ?case by simp
  qed (auto intro: carries_cancelled)
next
  case (PHashJoin i l r jt left_on right_on s)
  from PHashJoin.prems(2) show ?case
  proof (elim joinE)
    fix lins rins tagged m assume 3: "streams x ax cx l lins" "streams x ax cx r rins" "tagged \<in> shuffles (map (Pair 0) lins) (map (Pair (Suc 0)) rins)" "track_operator_output cx (fst (execute_hash_join x ax tagged jt left_on right_on s m)) ms"
    have "carries cx s (plan_rows x cx (PHashJoin i l r jt left_on right_on s)) (fst (execute_hash_join x ax tagged jt left_on right_on s m))"
      using PHashJoin.prems(1) PHashJoin.IH 3(1-3) by (intro carries_join [OF assms PHashJoin.prems(1)]) auto
    from carries_tracked [OF this 3(4)] show ?case by simp
  qed (auto intro: carries_cancelled)
qed simp_all

lemma stream_exists: "\<exists>ms. streams x ax cx p ms"
proof (induction p)
  case (PScan i n t projection filters s)
  obtain ms where "execute_scan x ax cx t projection filters ms" using scan_exists by blast
  then show ?case using streams.scan track_operator_output.all by blast
next
  case (PHashJoin i l r jt left_on right_on s)
  then obtain lins rins where ins: "streams x ax cx l lins" "streams x ax cx r rins" by blast
  have "xs @ ys \<in> shuffles xs ys" for xs ys :: "(nat \<times> message) list"
    by (induction xs) (auto simp: Cons_in_shuffles_iff)
  then show ?case using streams.join [OF ins] track_operator_output.all by blast
qed (blast intro: streams.intros track_operator_output.all)+

text \<open>Without joins nothing is collected, and some run has no error at all.\<close>

fun pipeline :: "physical_plan \<Rightarrow> bool" where
  "pipeline (PScan _ _ _ _ _ _) \<longleftrightarrow> True"
| "pipeline (PProjection _ p _ _) \<longleftrightarrow> pipeline p"
| "pipeline (PFilter _ p _ _) \<longleftrightarrow> pipeline p"
| "pipeline _ \<longleftrightarrow> False"

lemma pipeline_runs:
  assumes "engine_ok x ax row"
  shows "plan_ok x ax row cx p \<Longrightarrow> pipeline p \<Longrightarrow> \<exists>ms. streams x ax cx p ms \<and> list_all is_ok ms"
proof (induction p)
  case (PScan i n t projection filters s)
  then have ok: "\<forall>p\<in>set (scanned_partitions cx t). partition_ok x cx t projection filters s p"
    "\<forall>f\<in>set filters. typed_expr x s f TBoolean" by simp_all
  then have "\<forall>p\<in>set (scanned_partitions cx t). \<exists>b. tp_partition_may_match t p filters = Inr b" unfolding partition_ok_def by blast
  from scan_in_order [OF this] have "streams x ax cx (PScan i n t projection filters s)
      (concat (map (partition_messages x ax cx t projection filters) (scanned_partitions cx t)))"
    using streams.scan track_operator_output.all by blast
  moreover have "list_all is_ok (partition_messages x ax cx t projection filters p)" if "p \<in> set (scanned_partitions cx t)" for p
    using partition_messages_rows [OF assms ok(2), of cx t projection p] ok(1) that by (auto simp: list_all_iff)
  ultimately show ?case by (auto simp: list_all_iff intro!: exI)
next
  case (PProjection i p exprs s)
  then obtain ins where ins: "streams x ax cx p ins" "list_all is_ok ins" by auto
  have out: "streams x ax cx (PProjection i p exprs s) (execute_projection x ax ins exprs s)"
    by (rule streams.projection [OF ins(1) track_operator_output.all])
  have "is_ok (rbind m (\<lambda>b. project_batch x ax b exprs s))" if "m \<in> set ins" for m
  proof -
    have "is_ok m" using ins(2) that by (simp add: list_all_iff)
    then obtain b where b: "m = Inr b" by (auto simp: is_ok_iff)
    then have "batch_ok (physical_schema p) b"
      using carriesD(2) [OF streams_carry [OF assms _ ins(1)]] PProjection.prems(1) that by simp
    then show ?thesis using b project_batch_rows [OF assms, of "physical_schema p" exprs s b] PProjection.prems(1) by auto
  qed
  then have "list_all is_ok (execute_projection x ax ins exprs s)"
    by (auto simp: execute_projection_def until_panic_def list_all_iff dest!: set_takeWhileD)
  with out show ?case by blast
next
  case (PFilter i p e s)
  then obtain ins where ins: "streams x ax cx p ins" "list_all is_ok ins" by auto
  have out: "streams x ax cx (PFilter i p e s) (execute_filter x ax ins e)"
    by (rule streams.filter [OF ins(1) track_operator_output.all])
  have "is_ok (rbind m (\<lambda>b. filter_batch x ax b e))" if "m \<in> set ins" for m
  proof -
    have "is_ok m" using ins(2) that by (simp add: list_all_iff)
    then obtain b where b: "m = Inr b" by (auto simp: is_ok_iff)
    then have "batch_ok (physical_schema p) b"
      using carriesD(2) [OF streams_carry [OF assms _ ins(1)]] PFilter.prems(1) that by simp
    then show ?thesis using b filter_batch_rows [OF assms, of "physical_schema p" e b] PFilter.prems(1) by auto
  qed
  then have "list_all is_ok (execute_filter x ax ins e)"
    by (auto simp: execute_filter_def until_panic_def list_all_iff dest!: set_takeWhileD)
  with out show ?case by blast
qed simp_all


section \<open>An instance\<close>

abbreviation "null_flags \<equiv> PFilter 0 (PScan 1 ''t'' pair_provider None [] sample_schema) (IsNull (Column ''flag'') False) sample_schema"
abbreviation "small_context \<equiv> \<lparr>tc_batch_size = 8, tc_channel_capacity = 2, tc_partition = None, tc_cancellable = False\<rparr>"

lemma sample_elementwise: "elementwise sample_externs"
  by (auto simp: elementwise_def elementwise1_def elementwise2_def sample_externs_def cell_at_def array_of_def)

lemma sample_filter_kernel: "filter_kernel sample_ax"
  unfolding filter_kernel_def
proof (intro allI impI)
  fix s b and p :: array assume "batch_ok s b \<and> arr_type p = TBoolean \<and> length (arr_cells p) = rb_num_rows b"
  then have b: "batch_ok s b" "length (arr_cells p) = rb_num_rows b" by simp_all
  let ?rows = "map ((!) (batch_rows b)) (filter (\<lambda>i. arr_cells p ! i = CBool True) [0..<rb_num_rows b])"
  have "ax_filter sample_ax b p = Inr (batch_of_rows s ?rows)" using b(1) by (simp add: sample_ax_def batch_ok_def)
  moreover have "\<forall>r\<in>set ?rows. row_admitted s r"
    using batch_rows_admitted [OF b(1)] by (auto simp: batch_rows_def)
  note batch_of_rows_ok [OF this]
  moreover have "map fst (filter (\<lambda>(r, c). c = CBool True) (zip (batch_rows b) (arr_cells p))) = ?rows"
  proof -
    have "zip (batch_rows b) (arr_cells p) = map (\<lambda>i. (batch_rows b ! i, arr_cells p ! i)) [0..<rb_num_rows b]"
      using b(2) by (intro nth_equalityI) (auto simp: batch_rows_def)
    then show ?thesis by (simp add: filter_map comp_def)
  qed
  ultimately show "\<exists>b'. ax_filter sample_ax b p = Inr b' \<and> batch_ok s b'
      \<and> batch_rows b' = map fst (filter (\<lambda>(r, c). c = CBool True) (zip (batch_rows b) (arr_cells p)))"
    by metis
qed

lemma sample_engine: "engine_ok sample_externs sample_ax sample_row"
  by (simp add: engine_ok_def sample_elementwise sample_filter_kernel sample_kernels sample_row_format)

lemma sample_null_flag:
  assumes "batch_ok sample_schema b"
  shows "evaluate sample_externs b (IsNull (Column ''flag'') False)
    = Inr (array_of TBoolean (map (\<lambda>c. CBool (c = CNull)) (arr_cells (rb_columns b ! 1))))"
proof -
  have "columns_ok [TInt64, TBoolean] (rb_num_rows b) (rb_columns b)" "rb_schema b = sample_schema"
    using assms by (simp_all add: batch_ok_def sample_types)
  then have "length (rb_columns b) = 2" "rb_schema b = sample_schema" using columns_okD(1) by fastforce+
  then show ?thesis
    by (simp add: sample_flag_column batch_column_def) (simp add: sample_externs_def)
qed

lemma sample_null_rows:
  assumes "row_admitted sample_schema [c, d]"
  shows "row_true sample_externs sample_schema (IsNull (Column ''flag'') False) [c, d] \<longleftrightarrow> d = CNull"
  using sample_null_flag [OF batch_of_rows_ok(1) [of "[[c, d]]"]] assms
  by (simp add: row_true_def eval_row_def batch_of_rows_def columns_of_def sample_types array_of_def)


section \<open>Errors that do not surface\<close>

text \<open>
  C35: A scan can drop the error of a partition.  While the partitions are visited nothing is received
  yet; when the first partition has filled the channel, the error that the second one raises when it is
  tested against the filters is not sent, and the scan ends as if the table had one partition.
\<close>

theorem scan_error_lost:
  assumes "tc_partition cx = None" and "tc_channel_capacity cx = 1" and "tp_partition_count t = 2"
    and "tp_partition_may_match t 0 [] = Inr True" and "tp_partition_may_match t 1 [] = Inl e"
    and "tp_scan_partition t 0 None (tc_batch_size cx) = Inr [b]"
  shows "streams x ax cx (PScan i n t None [] s) [Inr b]"
proof -
  let ?step = "scan_step x ax cx t None []"
  let ?st = "\<lambda>ps qs ms. \<lparr>sc_pending = ps, sc_tasks = qs, sc_sent = ms\<rparr>"
  have task: "scan_task x ax t None [] (tc_batch_size cx) 0 = [Inr b]"
    using assms(6) by (simp add: scan_task_def until_panic_def)
  have start: "scan_start cx t = ?st [0, 1] [] []" using assms(1,3) by (simp add: scan_start_def upt_rec)
  have s1: "?step (?st [0, 1] [] []) (?st [1] [[Inr b]] [])"
    using scan_step.spawned [of "?st [0, 1] [] []" 0 "[1]" t "[]" x ax cx None] assms(4) task by simp
  have s2: "?step (?st [1] [[Inr b]] []) (?st [1] [[]] [Inr b])"
    using scan_step.sent [of 0 "?st [1] [[Inr b]] []" "Inr b" "[]" cx x ax t None "[]"] assms(2) by (simp add: channel_full_def)
  have s3: "?step (?st [1] [[]] [Inr b]) (?st [] [[]] [Inr b])"
    using scan_step.lost [of "?st [1] [[]] [Inr b]" 1 "[]" t "[]" e cx x ax None] assms(2,5) by (simp add: channel_full_def)
  have "?step\<^sup>*\<^sup>* (?st [0, 1] [] []) (?st [] [[]] [Inr b])"
    by (rule rtranclp.rtrancl_into_rtrancl [OF rtranclp.rtrancl_into_rtrancl [OF r_into_rtranclp [of ?step, OF s1] s2] s3])
  then have "execute_scan x ax cx t None [] [Inr b]"
    unfolding execute_scan_def start by (intro exI [of _ "?st [] [[]] [Inr b]"]) (auto simp: scan_done_def)
  then show ?thesis using streams.scan track_operator_output.all by blast
qed

definition unreadable_provider :: table_provider where
  "unreadable_provider = pair_provider\<lparr>tp_partition_may_match := (\<lambda>p _. if p = 0 then Inr True else Inl (EParquet ''metadata''))\<rparr>"

theorem scan_error_lost_witness:
  "tp_partition_may_match unreadable_provider 1 [] = Inl (EParquet ''metadata'')
   \<and> streams sample_externs sample_ax (small_context\<lparr>tc_channel_capacity := 1\<rparr>)
       (PScan 0 ''t'' unreadable_provider None [] sample_schema) [Inr sample_batch]"
  using scan_error_lost [of "small_context\<lparr>tc_channel_capacity := 1\<rparr>" unreadable_provider "EParquet ''metadata''" sample_batch]
  by (simp add: unreadable_provider_def)

text \<open>
  C36: A panic looks like the end of the data.  An alias of an alias makes the task of a projection panic
  at its first batch; its channel is closed with it, and the execution ends without an error and without
  a row, whatever the input holds.
\<close>

theorem panic_ends_stream:
  assumes "streams x ax cx p (Inr b # ms)"
  shows "streams x ax cx (PProjection i p [Alias (Alias e a) a'] s) []"
proof -
  have "execute_projection x ax (Inr b # ms) [Alias (Alias e a) a'] s = []"
    by (simp add: execute_projection_def until_panic_def project_batch_def)
  then show ?thesis using streams.projection [OF assms track_operator_output.all] track_operator_output.all by metis
qed

theorem panic_ends_stream_witness:
  "streams sample_externs sample_ax (small_context\<lparr>tc_partition := Some 0\<rparr>)
     (PProjection 0 (PScan 1 ''t'' pair_provider None [] sample_schema) [Alias (Alias (Column ''id'') ''a'') ''b''] sample_schema) []"
proof (rule panic_ends_stream)
  let ?cx = "small_context\<lparr>tc_partition := Some 0\<rparr>"
  have "execute_scan sample_externs sample_ax ?cx pair_provider None []
      (concat (map (partition_messages sample_externs sample_ax ?cx pair_provider None []) (scanned_partitions ?cx pair_provider)))"
    by (rule scan_in_order) auto
  then have "execute_scan sample_externs sample_ax ?cx pair_provider None [] [Inr sample_batch]"
    by (simp add: scanned_partitions_def partition_messages_def scan_task_def until_panic_def)
  then show "streams sample_externs sample_ax ?cx (PScan 1 ''t'' pair_provider None [] sample_schema) [Inr sample_batch]"
    using streams.scan track_operator_output.all by blast
qed

end
