(* ===== verification/Worker_Task.thy ===== *)
theory Worker_Task
  imports Operators_Props Data_Plane
begin

text \<open>
  \<open>src/cluster/worker.rs\<close>: one assigned task.  The blocks of the stages it depends on are downloaded into
  tables of a private catalog, the plan fragment is decoded and executed, and its output is uploaded,
  routed by the hash exchange when the stage has one.

  The data-plane servers are a map from endpoints to the state of their stores.  What is decided while
  the task runs is a record \<open>task_schedule\<close>: the stream that the execution yields, the cancellation flag
  at each of its checks, the connections at each download, the state of the store that the upload handler
  sees at its first lock, whether the work is interrupted, and which servers answer in time when blocks
  are discarded.
\<close>

section \<open>Inputs\<close>

type_synonym 's network = "string \<Rightarrow> 's option"

definition connect :: "'s network \<Rightarrow> string \<Rightarrow> unit result" where
  "connect net endpoint = require (net endpoint \<noteq> None) (ETransport ''connect to data-plane server: {error}'')"

record materialized_stage_input =
  mi_schema :: "schema option"
  mi_batches :: "batch list"

record input_state =
  in_clients :: "string list"
  in_materialized :: "(stage_id, materialized_stage_input) btree"

definition block_endpoint :: "shuffle_block \<Rightarrow> string result" where
  "block_endpoint b =
     (case sb_location b of
        FlightLocation _ endpoint _ \<Rightarrow> Inr endpoint
      | WorkerLocation _ \<Rightarrow> Inl (EUnsupported ''remote workers cannot fetch worker-local input blocks'')
      | ObjectStoreLocation _ \<Rightarrow> Inl (EUnsupported ''remote workers cannot fetch object-store input blocks yet''))"

definition upstream_error :: "sparkx_error \<Rightarrow> sparkx_error" where
  "upstream_error e = (case e of ENotFound m \<Rightarrow> ETransport ''upstream block unavailable: {message}'' | _ \<Rightarrow> e)"

definition download_block ::
  "block_externs \<Rightarrow> flight_externs \<Rightarrow> 's block_ops \<Rightarrow> 's network \<Rightarrow> string \<Rightarrow> shuffle_block
   \<Rightarrow> ('d, schema \<times> batch list) charged" where
  "download_block bx fx ops net endpoint block st =
     (case net endpoint of
        None \<Rightarrow> (Inl (ETransport ''Flight data-plane {action}: {status}''), st)
      | Some s \<Rightarrow>
          (case download_reserved bx fx ops endpoint block s (run_held st ! 0) (run_memory st) of
             (r, h, m) \<Rightarrow> (map_sum upstream_error id r, st\<lparr>run_held := (run_held st)[0 := h], run_memory := m\<rparr>)))"

definition block_source :: "'s network \<Rightarrow> shuffle_block \<Rightarrow> input_state \<Rightarrow> (string \<times> input_state) result" where
  "block_source net block d =
     rbind (require (map_of (in_materialized d) (ta_stage_id (sb_producer block)) \<noteq> None)
              (EProtocol ''worker received a block from undeclared stage {}'')) (\<lambda>_.
     rbind (block_endpoint block) (\<lambda>endpoint.
       if endpoint \<in> set (in_clients d) then Inr (endpoint, d)
       else rbind (connect net endpoint) (\<lambda>_. Inr (endpoint, d\<lparr>in_clients := endpoint # in_clients d\<rparr>))))"

definition keep_block :: "shuffle_block \<Rightarrow> schema \<times> batch list \<Rightarrow> input_state \<Rightarrow> input_state result" where
  "keep_block block downloaded d =
     (let stage = ta_stage_id (sb_producer block); (schema, batches) = downloaded in
      case map_of (in_materialized d) stage of
        None \<Rightarrow> Inl (EPanic ''undeclared stage'')
      | Some input \<Rightarrow>
          rbind (require (mi_schema input = None \<or> mi_schema input = Some schema)
                   (EProtocol ''stage {} input blocks contain different Arrow schemas'')) (\<lambda>_.
            Inr (d\<lparr>in_materialized := bt_insert stage
              \<lparr>mi_schema = Some schema, mi_batches = mi_batches input @ batches\<rparr> (in_materialized d)\<rparr>)))"

definition fetch_block ::
  "block_externs \<Rightarrow> flight_externs \<Rightarrow> 's block_ops \<Rightarrow> (nat \<Rightarrow> 's network) \<Rightarrow> nat \<times> shuffle_block
   \<Rightarrow> (input_state, unit) charged" where
  "fetch_block bx fx ops net ib =
     charged_bind (on_data (block_source (net (fst ib)) (snd ib))) (\<lambda>endpoint.
     charged_bind (download_block bx fx ops (net (fst ib)) endpoint (snd ib)) (\<lambda>downloaded.
       on_data (effect (keep_block (snd ib) downloaded))))"

fun register_inputs ::
  "externs \<Rightarrow> stage_id list \<Rightarrow> (stage_id, materialized_stage_input) btree \<Rightarrow> catalog \<Rightarrow> catalog result" where
  "register_inputs x [] inputs c = Inr c"
| "register_inputs x (stage # stages) inputs c =
     (case map_of inputs stage of
        None \<Rightarrow> Inl (EPanic ''declared input stage was initialized'')
      | Some input \<Rightarrow>
          rbind (ok_or (mi_schema input) (EProtocol ''stage {} dependency produced no input block manifest'')) (\<lambda>schema.
          rbind (memory_table_new x schema [mi_batches input]) (\<lambda>t.
            register_inputs x stages (bt_remove stage inputs)
              (catalog_register (stage_input_table_name stage) (memory_provider x t) c))))"

definition no_inputs :: "stage_id list \<Rightarrow> input_state" where
  "no_inputs stages =
     \<lparr>in_clients = [], in_materialized = fold (\<lambda>s. bt_insert s \<lparr>mi_schema = None, mi_batches = []\<rparr>) stages []\<rparr>"

definition materialize_stage_inputs ::
  "externs \<Rightarrow> block_externs \<Rightarrow> flight_externs \<Rightarrow> 's block_ops \<Rightarrow> (nat \<Rightarrow> 's network) \<Rightarrow> catalog \<Rightarrow> stage_id list
   \<Rightarrow> shuffle_block list \<Rightarrow> (input_state, catalog) charged" where
  "materialize_stage_inputs x bx fx ops net base stages blocks =
     (if stages = [] then on_data (inspect (\<lambda>_.
        if blocks \<noteq> [] then Inl (EProtocol ''task without stage dependencies received input blocks'') else Inr base))
      else charged_bind (loop (fetch_block bx fx ops net) (List.enumerate 0 blocks)) (\<lambda>_.
        on_data (inspect (\<lambda>d. register_inputs x stages (in_materialized d) base))))"

section \<open>Outputs\<close>

text \<open>The blocks that the task has uploaded so far, and the stores of the servers.\<close>

record 's task_world =
  tw_blocks :: "shuffle_block list"
  tw_net :: "'s network"

text \<open>
  The work is abandoned when the task is cancelled or its lease expires: before the first upload, or in
  the middle of upload number \<open>k\<close>, which the store may have committed nevertheless.
\<close>

datatype interruption = Uninterrupted | BeforeUploads sparkx_error | DuringUpload nat bool sparkx_error

record 's task_schedule =
  ts_run :: "task_context \<Rightarrow> physical_plan \<Rightarrow> message list"
  ts_token :: "nat \<Rightarrow> cancellation_token"
  ts_poll :: "nat \<Rightarrow> cancellation_token"
  ts_inputs :: "nat \<Rightarrow> 's network"
  ts_early :: "partition_id \<Rightarrow> 's"
  ts_interruption :: interruption
  ts_answers :: "shuffle_block \<Rightarrow> bool"

record task_assignment =
  as_stage :: stage_plan
  as_task :: task_attempt_id
  as_lease :: task_lease
  as_input_blocks :: "shuffle_block list"
  as_catalog :: catalog
  as_worker_id :: worker_id
  as_data_endpoint :: string

definition upload_output ::
  "block_externs \<Rightarrow> flight_externs \<Rightarrow> 's block_ops \<Rightarrow> 's task_schedule \<Rightarrow> task_assignment \<Rightarrow> schema
   \<Rightarrow> partition_id \<Rightarrow> batch list \<Rightarrow> 's network \<Rightarrow> shuffle_block result \<times> 's network" where
  "upload_output bx fx ops ts a schema part batches net =
     (case net (as_data_endpoint a) of
        None \<Rightarrow> (Inl (ETransport ''Flight data-plane {action}: {status}''), net)
      | Some s \<Rightarrow>
          (case upload bx fx ops (as_data_endpoint a) (as_worker_id a) (as_task a) part schema batches (ts_early ts part) s of
             (r, s') \<Rightarrow> (r, net(as_data_endpoint a := Some s'))))"

definition interrupted_at :: "'s task_schedule \<Rightarrow> nat \<Rightarrow> (bool \<times> sparkx_error) option" where
  "interrupted_at ts k =
     (case ts_interruption ts of DuringUpload n committed e \<Rightarrow> if n = k then Some (committed, e) else None | _ \<Rightarrow> None)"

text \<open>The outputs not yet uploaded hold their reservations, which are dropped when the loop is left.\<close>

fun upload_outputs ::
  "block_externs \<Rightarrow> flight_externs \<Rightarrow> 's block_ops \<Rightarrow> 's task_schedule \<Rightarrow> task_assignment \<Rightarrow> schema
   \<Rightarrow> partition_output list \<Rightarrow> 's task_world \<Rightarrow> query_memory \<Rightarrow> unit result \<times> 's task_world \<times> query_memory" where
  "upload_outputs bx fx ops ts a schema [] w m = (Inr (), w, m)"
| "upload_outputs bx fx ops ts a schema ((part, batches, held) # outs) w m =
     (case cancellation_check (ts_token ts (2 + length (tw_blocks w))) of
        Inl e \<Rightarrow> (Inl e, w, release_all (held # map (snd \<circ> snd) outs) m)
      | Inr _ \<Rightarrow>
          (case upload_output bx fx ops ts a schema part batches (tw_net w) of
             (Inl e, net) \<Rightarrow>
               (Inl (case interrupted_at ts (length (tw_blocks w)) of Some (_, e') \<Rightarrow> e' | None \<Rightarrow> e),
                w\<lparr>tw_net := net\<rparr>, release_all (held # map (snd \<circ> snd) outs) m)
           | (Inr block, net) \<Rightarrow>
               (case interrupted_at ts (length (tw_blocks w)) of
                  Some (committed, e) \<Rightarrow>
                    (Inl e, if committed then w\<lparr>tw_net := net\<rparr> else w, release_all (held # map (snd \<circ> snd) outs) m)
                | None \<Rightarrow>
                    upload_outputs bx fx ops ts a schema outs
                      \<lparr>tw_blocks = tw_blocks w @ [block], tw_net = net\<rparr> (drop_reservation held m))))"

definition task_outputs ::
  "externs \<Rightarrow> arrow_externs \<Rightarrow> (bytes \<Rightarrow> u32) \<Rightarrow> 's task_schedule \<Rightarrow> task_assignment \<Rightarrow> schema \<Rightarrow> batch list
   \<Rightarrow> query_memory \<Rightarrow> partition_output list result \<times> query_memory" where
  "task_outputs x ax crc ts a schema batches m =
     (case sp_output_exchange (as_stage a) of
        Some ex \<Rightarrow> repartition x ax crc schema batches ex m (ts_poll ts)
      | None \<Rightarrow>
          (case try_reserve 0 m of
             (Inl e, m') \<Rightarrow> (Inl e, m')
           | (Inr r, m') \<Rightarrow> (Inr [(ta_partition_id (as_task a), batches, r)], m')))"

text \<open>From the collected batches to the uploaded blocks.\<close>

definition deliver ::
  "externs \<Rightarrow> arrow_externs \<Rightarrow> (bytes \<Rightarrow> u32) \<Rightarrow> block_externs \<Rightarrow> flight_externs \<Rightarrow> 's block_ops \<Rightarrow> 's task_schedule
   \<Rightarrow> task_assignment \<Rightarrow> schema \<Rightarrow> 's network \<Rightarrow> batch list \<Rightarrow> query_memory
   \<Rightarrow> (unit result \<times> 's task_world) result \<times> query_memory" where
  "deliver x ax crc bx fx ops ts a schema net batches m =
     (case rbind (cancellation_check (ts_token ts 1)) (\<lambda>_. connect net (as_data_endpoint a)) of
        Inl e \<Rightarrow> (Inl e, m)
      | Inr _ \<Rightarrow>
          (case task_outputs x ax crc ts a schema batches m of
             (Inl e, m') \<Rightarrow> (Inl e, m')
           | (Inr outs, m') \<Rightarrow>
               (case upload_outputs bx fx ops ts a schema outs \<lparr>tw_blocks = [], tw_net = net\<rparr> m' of
                  (r, w, m'') \<Rightarrow> (Inr (r, w), m''))))"

section \<open>The task\<close>

definition task_partition :: "task_assignment \<Rightarrow> task_context \<Rightarrow> task_context" where
  "task_partition a cx =
     cx\<lparr>tc_partition := Some (if sp_input_stages (as_stage a) = [] then unat (ta_partition_id (as_task a)) else 0)\<rparr>"

definition run_fragment ::
  "externs \<Rightarrow> arrow_externs \<Rightarrow> (bytes \<Rightarrow> u32) \<Rightarrow> block_externs \<Rightarrow> flight_externs \<Rightarrow> pb_decoder \<Rightarrow> 's block_ops
   \<Rightarrow> 's task_schedule \<Rightarrow> task_context \<Rightarrow> task_assignment \<Rightarrow> 's network \<Rightarrow> catalog \<Rightarrow> query_memory
   \<Rightarrow> (unit result \<times> 's task_world) result \<times> query_memory" where
  "run_fragment x ax crc bx fx pb ops ts cx a net catalog m =
     (case decode_physical_plan x pb (as_stage a) catalog of
        Inl e \<Rightarrow> (Inl e, m)
      | Inr plan \<Rightarrow>
          with_budgets 1 [[]] (charged_bind (collect_with_memory x (ts_run ts (task_partition a cx) plan)) (\<lambda>_.
            nested (\<lambda>d. deliver x ax crc bx fx ops ts a (physical_schema plan) net (d ! 0)))) m)"

definition task_work ::
  "externs \<Rightarrow> arrow_externs \<Rightarrow> (bytes \<Rightarrow> u32) \<Rightarrow> block_externs \<Rightarrow> flight_externs \<Rightarrow> pb_decoder \<Rightarrow> 's block_ops
   \<Rightarrow> 's task_schedule \<Rightarrow> task_context \<Rightarrow> task_assignment \<Rightarrow> 's network \<Rightarrow> query_memory
   \<Rightarrow> (unit result \<times> 's task_world) result \<times> query_memory" where
  "task_work x ax crc bx fx pb ops ts cx a net m =
     (case ts_interruption ts of
        BeforeUploads e \<Rightarrow> (Inl e, m)
      | _ \<Rightarrow>
          (case cancellation_check (ts_token ts 0) of
             Inl e \<Rightarrow> (Inl e, m)
           | Inr _ \<Rightarrow>
               with_budgets 1 (no_inputs (sp_input_stages (as_stage a)))
                 (charged_bind (materialize_stage_inputs x bx fx ops (ts_inputs ts) (as_catalog a)
                     (sp_input_stages (as_stage a)) (as_input_blocks a)) (\<lambda>catalog.
                   nested (\<lambda>_. run_fragment x ax crc bx fx pb ops ts cx a net catalog))) m))"

definition discard_block :: "flight_externs \<Rightarrow> 's block_ops \<Rightarrow> (shuffle_block \<Rightarrow> bool) \<Rightarrow> shuffle_block \<Rightarrow> 's network \<Rightarrow> 's network" where
  "discard_block fx ops answers b net =
     (case sb_location b of
        FlightLocation _ endpoint _ \<Rightarrow>
          (case net endpoint of
             Some s \<Rightarrow> if answers b then net(endpoint := Some (snd (delete fx ops endpoint b s))) else net
           | None \<Rightarrow> net)
      | _ \<Rightarrow> net)"

definition discard_output_blocks ::
  "flight_externs \<Rightarrow> 's block_ops \<Rightarrow> (shuffle_block \<Rightarrow> bool) \<Rightarrow> shuffle_block list \<Rightarrow> 's network \<Rightarrow> 's network" where
  "discard_output_blocks fx ops answers blocks net = fold (discard_block fx ops answers) blocks net"

record task_output =
  to_rows :: u64
  to_bytes :: u64
  to_blocks :: "shuffle_block list"

record task_completion =
  cp_task :: task_attempt_id
  cp_lease :: task_lease
  cp_result :: "task_output result"

definition task_output_of :: "shuffle_block list \<Rightarrow> task_output" where
  "task_output_of blocks =
     \<lparr>to_rows = sum_list (map sb_rows blocks), to_bytes = sum_list (map sb_bytes blocks), to_blocks = blocks\<rparr>"

definition execute_assignment ::
  "externs \<Rightarrow> arrow_externs \<Rightarrow> (bytes \<Rightarrow> u32) \<Rightarrow> block_externs \<Rightarrow> flight_externs \<Rightarrow> pb_decoder \<Rightarrow> 's block_ops
   \<Rightarrow> 's task_schedule \<Rightarrow> task_context \<Rightarrow> task_assignment \<Rightarrow> 's network \<Rightarrow> query_memory
   \<Rightarrow> task_completion \<times> 's network \<times> query_memory" where
  "execute_assignment x ax crc bx fx pb ops ts cx a net m =
     (let (work, m') = task_work x ax crc bx fx pb ops ts cx a net m;
          (result, w) = (case work of Inl e \<Rightarrow> (Inl e, \<lparr>tw_blocks = [], tw_net = net\<rparr>) | Inr rw \<Rightarrow> rw);
          completion = \<lambda>r. \<lparr>cp_task = as_task a, cp_lease = as_lease a, cp_result = r\<rparr>
      in case result of
           Inr _ \<Rightarrow> (completion (Inr (task_output_of (tw_blocks w))), tw_net w, m')
         | Inl e \<Rightarrow> (completion (Inl e), discard_output_blocks fx ops (ts_answers ts) (tw_blocks w) (tw_net w), m'))"

end
