(* ===== verification/Remote_Join.thy ===== *)
theory Remote_Join
  imports Coordinator Codec_Props Shuffle_Join
begin

text \<open>
  \<open>src/cluster/join.rs\<close>: the three stages of a remote join.  The inputs of the join become two producer
  stages that route their output by the hash of the join keys; everything from the join upwards becomes
  the last stage, which reads the outputs of the producers partition by partition.
\<close>

section \<open>Model\<close>

fun has_join :: "physical_plan \<Rightarrow> bool" where
  "has_join (PHashJoin _ _ _ _ _ _ _) \<longleftrightarrow> True"
| "has_join (PScan _ _ _ _ _ _) \<longleftrightarrow> False"
| "has_join (PProjection _ p _ _) \<longleftrightarrow> has_join p"
| "has_join (PFilter _ p _ _) \<longleftrightarrow> has_join p"
| "has_join (PHashAggregate _ p _ _ _) \<longleftrightarrow> has_join p"
| "has_join (PSort _ p _ _) \<longleftrightarrow> has_join p"
| "has_join (PTopK _ p _ _ _) \<longleftrightarrow> has_join p"
| "has_join (PLimit _ p _ _) \<longleftrightarrow> has_join p"

fun local_partitions :: "physical_plan \<Rightarrow> u32 result" where
  "local_partitions (PScan _ _ t _ _ _) =
     (if tp_partition_count t < 2 ^ 32 \<and> 0 < tp_partition_count t then Inr (of_nat (tp_partition_count t))
      else Inl (EPlanning ''remote join scan partition count is invalid''))"
| "local_partitions (PProjection _ p _ _) = local_partitions p"
| "local_partitions (PFilter _ p _ _) = local_partitions p"
| "local_partitions _ = Inl (EUnsupported ''remote join inputs must be partition-local scans, filters, or projections'')"

definition dependency_scan :: "externs \<Rightarrow> physical_plan \<Rightarrow> stage_id \<Rightarrow> physical_plan result" where
  "dependency_scan x input stage =
     (let s = physical_schema input in
      rbind (memory_table_new x s [[]]) (\<lambda>t.
        Inr (PScan (physical_id input) (stage_input_table_name stage) (memory_provider x t) None [] s)))"

fun join_key_columns :: "schema \<Rightarrow> schema \<Rightarrow> (expr \<times> expr) list \<Rightarrow> (nat \<times> nat) list result" where
  "join_key_columns ls rs [] = Inr []"
| "join_key_columns ls rs ((left_key, right_key) # keys) =
     (case (left_key, right_key) of
        (Column left_name, Column right_name) \<Rightarrow>
          rbind (find_column ls left_name) (\<lambda>l.
          rbind (find_column rs right_name) (\<lambda>r.
          rbind (schema_field ls l) (\<lambda>lf.
          rbind (schema_field rs r) (\<lambda>rf.
          rbind (require (field_type lf = field_type rf) (EPlanning ''remote join key types must match on both inputs'')) (\<lambda>_.
          rbind (join_key_columns ls rs keys) (\<lambda>ks. Inr ((l, r) # ks)))))))
      | _ \<Rightarrow> Inl (EUnsupported ''remote join keys must be columns; key expressions are not supported''))"

definition producer_stage ::
  "pb_encoder \<Rightarrow> pb_decoder \<Rightarrow> query_id \<Rightarrow> stage_id \<Rightarrow> physical_plan \<Rightarrow> u32 \<Rightarrow> nat list \<Rightarrow> u32 \<Rightarrow> stage_plan result" where
  "producer_stage pe pb query stage input n cols partitions =
     rbind (stage_plan_from_physical_plan pe pb query stage [] n input) (\<lambda>s.
       Inr (s\<lparr>sp_output_exchange := Some \<lparr>hx_columns = cols, hx_partition_count = partitions\<rparr>\<rparr>))"

fun rewrite ::
  "externs \<Rightarrow> pb_encoder \<Rightarrow> pb_decoder \<Rightarrow> query_id \<Rightarrow> physical_plan \<Rightarrow> (physical_plan \<times> stage_plan list) result" where
  "rewrite x pe pb query (PProjection i p exprs s) =
     rbind (rewrite x pe pb query p) (\<lambda>(p', stages). Inr (PProjection i p' exprs s, stages))"
| "rewrite x pe pb query (PFilter i p predicate s) =
     rbind (rewrite x pe pb query p) (\<lambda>(p', stages). Inr (PFilter i p' predicate s, stages))"
| "rewrite x pe pb query (PHashJoin i l r jt left_on right_on s) =
     rbind (local_partitions l) (\<lambda>left_count.
     rbind (local_partitions r) (\<lambda>right_count.
     rbind (require (\<not> (left_on = [] \<or> length left_on \<noteq> length right_on))
              (EPlanning ''remote join requires matching nonempty equi-join keys'')) (\<lambda>_.
     rbind (join_key_columns (physical_schema l) (physical_schema r) (zip left_on right_on)) (\<lambda>keys.
     (let partitions = max left_count right_count in
      rbind (producer_stage pe pb query 0 l left_count (map fst keys) partitions) (\<lambda>s0.
      rbind (producer_stage pe pb query 1 r right_count (map snd keys) partitions) (\<lambda>s1.
      rbind (dependency_scan x l 0) (\<lambda>l'.
      rbind (dependency_scan x r 1) (\<lambda>r'.
        Inr (PHashJoin i l' r' jt left_on right_on s, [s0, s1]))))))))))"
| "rewrite x pe pb query _ =
     Inl (EUnsupported ''remote joins support one inner/left equi-join with scan/filter/projection inputs and optional filter/projection output; chained joins, aggregation, sorting, and limits are not supported'')"

definition plan_remote_join ::
  "externs \<Rightarrow> pb_encoder \<Rightarrow> pb_decoder \<Rightarrow> physical_plan \<Rightarrow> query_id \<Rightarrow> stage_plan list option result" where
  "plan_remote_join x pe pb plan query =
     (if \<not> has_join plan then Inr None
      else rbind (rewrite x pe pb query plan) (\<lambda>(downstream, producers).
        case producers of
          [] \<Rightarrow> Inl (EPanic ''index out of bounds'')
        | s0 # _ \<Rightarrow>
            (case sp_output_exchange s0 of
               None \<Rightarrow> Inl (EPanic ''join producer exchange'')
             | Some ex \<Rightarrow>
                 rbind (stage_plan_from_physical_plan pe pb query 2 [0, 1] (hx_partition_count ex) downstream) (\<lambda>s2.
                   Inr (Some (producers @ [s2\<lparr>sp_partitioned_input := True\<rparr>]))))))"

section \<open>The graph\<close>

text \<open>The join at the bottom of the downstream plan, and the plan around it.\<close>

fun join_core :: "physical_plan \<Rightarrow> physical_plan" where
  "join_core (PProjection _ p _ _) = join_core p"
| "join_core (PFilter _ p _ _) = join_core p"
| "join_core p = p"

fun graft :: "physical_plan \<Rightarrow> physical_plan \<Rightarrow> physical_plan" where
  "graft j (PProjection i p exprs s) = PProjection i (graft j p) exprs s"
| "graft j (PFilter i p predicate s) = PFilter i (graft j p) predicate s"
| "graft j _ = j"

definition producers_of ::
  "externs \<Rightarrow> pb_encoder \<Rightarrow> pb_decoder \<Rightarrow> query_id \<Rightarrow> physical_plan \<Rightarrow> physical_plan \<Rightarrow> stage_plan \<Rightarrow> stage_plan
   \<Rightarrow> (nat \<times> nat) list \<Rightarrow> u32 \<Rightarrow> u32 \<Rightarrow> bool" where
  "producers_of x pe pb query l r s0 s1 keys ln rn \<longleftrightarrow>
     local_partitions l = Inr ln \<and> local_partitions r = Inr rn
     \<and> producer_stage pe pb query 0 l ln (map fst keys) (max ln rn) = Inr s0
     \<and> producer_stage pe pb query 1 r rn (map snd keys) (max ln rn) = Inr s1"

lemma dependency_scan_eq:
  "dependency_scan x p st = Inr (PScan (physical_id p) (stage_input_table_name st)
     (memory_provider x \<lparr>mt_schema = physical_schema p, mt_partitions = [[]], mt_estimated_bytes = 0\<rparr>) None [] (physical_schema p))"
  by (simp add: dependency_scan_def memory_table_new_def Let_def)

lemma rewrite_Inr:
  assumes "rewrite x pe pb query p = Inr (p', stages)"
  obtains i l r jt left_on right_on s s0 s1 keys ln rn l' r'
  where "join_core p = PHashJoin i l r jt left_on right_on s" and "stages = [s0, s1]"
    and "left_on \<noteq> []" "length left_on = length right_on"
    and "join_key_columns (physical_schema l) (physical_schema r) (zip left_on right_on) = Inr keys"
    and "producers_of x pe pb query l r s0 s1 keys ln rn"
    and "dependency_scan x l 0 = Inr l'" "dependency_scan x r 1 = Inr r'"
    and "p' = graft (PHashJoin i l' r' jt left_on right_on s) p"
  using assms
proof (induction x pe pb query p arbitrary: p' stages thesis rule: rewrite.induct)
  case (1 x pe pb query i p exprs s)
  then obtain q where "rewrite x pe pb query p = Inr (q, stages)" "p' = PProjection i q exprs s" by (auto simp: rbind_eq_Inr)
  then show ?case using 1 by (metis graft.simps(1) join_core.simps(1))
next
  case (2 x pe pb query i p e s)
  then obtain q where "rewrite x pe pb query p = Inr (q, stages)" "p' = PFilter i q e s" by (auto simp: rbind_eq_Inr)
  then show ?case using 2 by (metis graft.simps(2) join_core.simps(2))
next
  case (3 x pe pb query i l r jt left_on right_on s)
  then obtain ln rn keys s0 s1 l' r' where "local_partitions l = Inr ln" "local_partitions r = Inr rn"
    "left_on \<noteq> []" "length left_on = length right_on"
    "join_key_columns (physical_schema l) (physical_schema r) (zip left_on right_on) = Inr keys"
    "producer_stage pe pb query 0 l ln (map fst keys) (max ln rn) = Inr s0"
    "producer_stage pe pb query 1 r rn (map snd keys) (max ln rn) = Inr s1"
    "dependency_scan x l 0 = Inr l'" "dependency_scan x r 1 = Inr r'"
    "p' = PHashJoin i l' r' jt left_on right_on s" "stages = [s0, s1]"
    by (auto simp: rbind_eq_Inr Let_def)
  then show ?case using 3(1) [of i l r jt left_on right_on s s0 s1 keys ln rn l' r'] by (simp add: producers_of_def)
qed simp_all

lemma local_partitions_nonzero: "local_partitions p = Inr n \<Longrightarrow> n \<noteq> 0"
proof (induction p rule: local_partitions.induct)
  case (1 i nm t pr fs s)
  then have t: "tp_partition_count t < 2 ^ 32" "0 < tp_partition_count t" "n = of_nat (tp_partition_count t)"
    by (auto split: if_splits)
  then have "unat n = tp_partition_count t" by (simp add: unat_of_nat_u32)
  then show ?case using t(2) by auto
qed simp_all

lemma join_key_columns_length: "join_key_columns ls rs ks = Inr cs \<Longrightarrow> length cs = length ks"
  by (induction ks arbitrary: cs) (auto simp: rbind_eq_Inr split: expr.splits)

lemma from_physical_plan_Inr:
  assumes "stage_plan_from_physical_plan pe pb q sid deps n p = Inr st"
  shows "codec_encode pe p = Inr (sp_plan_fragment st)"
    and "st = \<lparr>sp_query_id = q, sp_stage_id = sid, sp_input_stages = deps, sp_partition_count = n,
      sp_plan_fragment = sp_plan_fragment st, sp_output_exchange = None, sp_partitioned_input = False\<rparr>"
    and "stage_plan_validate pb st = Inr ()"
  using assms by (auto simp: stage_plan_from_physical_plan_def rbind_eq_Inr Let_def)

lemma producer_stage_Inr:
  assumes "producer_stage pe pb q sid p n cs k = Inr st" and "cs \<noteq> []" and "k \<noteq> 0"
  shows "codec_encode pe p = Inr (sp_plan_fragment st)" and "stage_plan_validate pb st = Inr ()"
    and "sp_query_id st = q" "sp_stage_id st = sid" "sp_input_stages st = []" "sp_partition_count st = n"
    and "sp_output_exchange st = Some \<lparr>hx_columns = cs, hx_partition_count = k\<rparr>" "\<not> sp_partitioned_input st"
proof -
  obtain s where s: "stage_plan_from_physical_plan pe pb q sid [] n p = Inr s"
    "st = s\<lparr>sp_output_exchange := Some \<lparr>hx_columns = cs, hx_partition_count = k\<rparr>\<rparr>"
    using assms(1) by (auto simp: producer_stage_def rbind_eq_Inr)
  note from_plan = from_physical_plan_Inr [OF s(1)]
  have eq: "sp_query_id s = q" "sp_stage_id s = sid" "sp_input_stages s = []" "sp_partition_count s = n" "\<not> sp_partitioned_input s"
    by (simp_all add: from_plan(2) [THEN arg_cong, of sp_query_id] from_plan(2) [THEN arg_cong, of sp_stage_id]
        from_plan(2) [THEN arg_cong, of sp_input_stages] from_plan(2) [THEN arg_cong, of sp_partition_count]
        from_plan(2) [THEN arg_cong, of sp_partitioned_input])
  show "codec_encode pe p = Inr (sp_plan_fragment st)" using from_plan(1) s(2) by simp
  show "stage_plan_validate pb st = Inr ()"
    using from_plan(3) s(2) assms(2,3) by (auto simp: stage_plan_validate_def rbind_eq_Inr split: option.splits)
  show "sp_query_id st = q" "sp_stage_id st = sid" "sp_input_stages st = []" "sp_partition_count st = n"
    "sp_output_exchange st = Some \<lparr>hx_columns = cs, hx_partition_count = k\<rparr>" "\<not> sp_partitioned_input st"
    using eq s(2) by simp_all
qed

text \<open>The three stages of a planned join.\<close>

definition join_graph ::
  "externs \<Rightarrow> pb_encoder \<Rightarrow> pb_decoder \<Rightarrow> query_id \<Rightarrow> physical_plan \<Rightarrow> physical_plan \<Rightarrow> physical_plan
   \<Rightarrow> (nat \<times> nat) list \<Rightarrow> u32 \<Rightarrow> u32 \<Rightarrow> stage_plan \<Rightarrow> stage_plan \<Rightarrow> stage_plan \<Rightarrow> bool" where
  "join_graph x pe pb q l r downstream keys ln rn s0 s1 s2 \<longleftrightarrow>
     (let k = max ln rn in
      s0 = \<lparr>sp_query_id = q, sp_stage_id = 0, sp_input_stages = [], sp_partition_count = ln,
            sp_plan_fragment = sp_plan_fragment s0,
            sp_output_exchange = Some \<lparr>hx_columns = map fst keys, hx_partition_count = k\<rparr>, sp_partitioned_input = False\<rparr>
      \<and> s1 = \<lparr>sp_query_id = q, sp_stage_id = 1, sp_input_stages = [], sp_partition_count = rn,
            sp_plan_fragment = sp_plan_fragment s1,
            sp_output_exchange = Some \<lparr>hx_columns = map snd keys, hx_partition_count = k\<rparr>, sp_partitioned_input = False\<rparr>
      \<and> s2 = \<lparr>sp_query_id = q, sp_stage_id = 2, sp_input_stages = [0, 1], sp_partition_count = k,
            sp_plan_fragment = sp_plan_fragment s2, sp_output_exchange = None, sp_partitioned_input = True\<rparr>
      \<and> codec_encode pe l = Inr (sp_plan_fragment s0) \<and> codec_encode pe r = Inr (sp_plan_fragment s1)
      \<and> codec_encode pe downstream = Inr (sp_plan_fragment s2)
      \<and> (\<forall>s\<in>{s0, s1, s2}. stage_plan_validate pb s = Inr ()) \<and> k \<noteq> 0)"

lemma plan_remote_join_Inr:
  assumes "plan_remote_join x pe pb plan q = Inr (Some stages)"
  obtains i l r jt left_on right_on s keys ln rn l' r' s0 s1 s2
  where "join_core plan = PHashJoin i l r jt left_on right_on s" "stages = [s0, s1, s2]"
    and "left_on \<noteq> []" "length left_on = length right_on"
    and "join_key_columns (physical_schema l) (physical_schema r) (zip left_on right_on) = Inr keys"
    and "local_partitions l = Inr ln" "local_partitions r = Inr rn"
    and "dependency_scan x l 0 = Inr l'" "dependency_scan x r 1 = Inr r'"
    and "join_graph x pe pb q l r (graft (PHashJoin i l' r' jt left_on right_on s) plan) keys ln rn s0 s1 s2"
proof -
  obtain downstream producers where rw: "rewrite x pe pb q plan = Inr (downstream, producers)"
    using assms by (auto simp: plan_remote_join_def rbind_eq_Inr split: if_splits)
  show thesis
  proof (rule rewrite_Inr [OF rw])
    fix i l r jt left_on right_on s s0 s1 keys ln rn l' r'
    assume core: "join_core plan = PHashJoin i l r jt left_on right_on s" and producers: "producers = [s0, s1]"
      and on: "left_on \<noteq> []" "length left_on = length right_on"
      and keys: "join_key_columns (physical_schema l) (physical_schema r) (zip left_on right_on) = Inr keys"
      and prod: "producers_of x pe pb q l r s0 s1 keys ln rn"
      and deps: "dependency_scan x l 0 = Inr l'" "dependency_scan x r 1 = Inr r'"
      and down: "downstream = graft (PHashJoin i l' r' jt left_on right_on s) plan"
    have parts: "local_partitions l = Inr ln" "local_partitions r = Inr rn"
      "producer_stage pe pb q 0 l ln (map fst keys) (max ln rn) = Inr s0"
      "producer_stage pe pb q 1 r rn (map snd keys) (max ln rn) = Inr s1"
      using prod by (simp_all add: producers_of_def)
    have nz: "max ln rn \<noteq> 0" using local_partitions_nonzero parts(1,2) by (simp add: max_def)
    have ne: "map fst keys \<noteq> []" "map snd keys \<noteq> []"
      using join_key_columns_length [OF keys] on by auto
    note p0 = producer_stage_Inr [OF parts(3) ne(1) nz] and p1 = producer_stage_Inr [OF parts(4) ne(2) nz]
    obtain t where t: "stage_plan_from_physical_plan pe pb q 2 [0, 1] (max ln rn) downstream = Inr t"
      "stages = [s0, s1, t\<lparr>sp_partitioned_input := True\<rparr>]"
      using assms rw producers p0(7) by (auto simp: plan_remote_join_def rbind_eq_Inr split: if_splits)
    note t' = from_physical_plan_Inr [OF t(1)]
    have "stage_plan_validate pb (t\<lparr>sp_partitioned_input := True\<rparr>) = Inr ()"
      using t'(3) t'(2) [THEN arg_cong, of sp_input_stages] by (auto simp: stage_plan_validate_def rbind_eq_Inr)
    moreover have "t\<lparr>sp_partitioned_input := True\<rparr> = \<lparr>sp_query_id = q, sp_stage_id = 2, sp_input_stages = [0, 1],
      sp_partition_count = max ln rn, sp_plan_fragment = sp_plan_fragment t, sp_output_exchange = None,
      sp_partitioned_input = True\<rparr>"
      by (subst t'(2)) simp
    ultimately have "join_graph x pe pb q l r downstream keys ln rn s0 s1 (t\<lparr>sp_partitioned_input := True\<rparr>)"
      using p0 p1 t'(1) nz by (simp add: join_graph_def Let_def stage_plan.equality)
    then show thesis using that core t(2) on keys parts(1,2) deps down by blast
  qed
qed

section \<open>Submission\<close>

lemma submit_accepted:
  assumes "submit_checks pb c s = Inr ()"
  shows "submit_stage pb s c = (Inr (), c\<lparr>co_stages := bt_insert (sp_query_id s, sp_stage_id s)
     \<lparr>st_plan = s, st_partitions = replicate (unat (sp_partition_count s)) (PtPending 0)\<rparr> (co_stages c)\<rparr>)"
  using assms by (simp add: submit_stage_def)

text \<open>A coordinator that has room for a query of \<open>k\<close> partitions per stage and does not know it yet.\<close>

definition fresh_query :: "coordinator \<Rightarrow> query_id \<Rightarrow> u32 \<Rightarrow> bool" where
  "fresh_query c q k \<longleftrightarrow> bt_ok (co_stages c) \<and> k \<le> cfg_max_stage_partitions (co_config c)
     \<and> map_of (co_cancelled c) q = None \<and> (\<forall>st. map_of (co_stages c) (q, st) = None)"

text \<open>The submission loop of \<open>execute_graph_once\<close> in \<open>src/cluster/remote.rs\<close>.\<close>

fun submit_stages :: "pb_decoder \<Rightarrow> stage_plan list \<Rightarrow> coordinator \<Rightarrow> unit co_step" where
  "submit_stages pb [] c = (Inr (), c)"
| "submit_stages pb (s # stages) c =
     (case submit_stage pb s c of (Inl e, c') \<Rightarrow> (Inl e, c') | (Inr _, c') \<Rightarrow> submit_stages pb stages c')"

lemma join_graph_submits:
  assumes "join_graph x pe pb q l r downstream keys ln rn s0 s1 s2" and "fresh_query c q (max ln rn)"
  shows "\<exists>c'. submit_stages pb [s0, s1, s2] c = (Inr (), c')
    \<and> (\<forall>k. map_of (co_stages c') k =
        (if k \<in> {(q, 0), (q, 1), (q, 2)}
         then let s = (if snd k = 0 then s0 else if snd k = 1 then s1 else s2) in
           Some \<lparr>st_plan = s, st_partitions = replicate (unat (sp_partition_count s)) (PtPending 0)\<rparr>
         else map_of (co_stages c) k))"
proof -
  define put where "put = (\<lambda>s (c :: coordinator). c\<lparr>co_stages := bt_insert (sp_query_id s, sp_stage_id s)
     \<lparr>st_plan = s, st_partitions = replicate (unat (sp_partition_count s)) (PtPending 0)\<rparr> (co_stages c)\<rparr>)"
  note g = assms(1) [unfolded join_graph_def Let_def] and f = assms(2) [unfolded fresh_query_def]
  have sel: "sp_query_id s0 = q" "sp_stage_id s0 = 0" "sp_input_stages s0 = []" "sp_partition_count s0 = ln" "\<not> sp_partitioned_input s0"
    "sp_output_exchange s0 = Some \<lparr>hx_columns = map fst keys, hx_partition_count = max ln rn\<rparr>"
    "sp_query_id s1 = q" "sp_stage_id s1 = 1" "sp_input_stages s1 = []" "sp_partition_count s1 = rn" "\<not> sp_partitioned_input s1"
    "sp_output_exchange s1 = Some \<lparr>hx_columns = map snd keys, hx_partition_count = max ln rn\<rparr>"
    "sp_query_id s2 = q" "sp_stage_id s2 = 2" "sp_input_stages s2 = [0, 1]" "sp_partition_count s2 = max ln rn"
    "sp_partitioned_input s2" "sp_output_exchange s2 = None"
    by (metis g stage_plan.select_convs)+
  have le: "\<not> cfg_max_stage_partitions (co_config c) < ln" "\<not> cfg_max_stage_partitions (co_config c) < rn"
    "\<not> cfg_max_stage_partitions (co_config c) < max ln rn" using f by (auto simp: not_less)
  have ok: "bt_ok (co_stages (put s d))" if "bt_ok (co_stages d)" for s d using that by (simp add: put_def)
  have v: "stage_plan_validate pb s0 = Inr ()" "stage_plan_validate pb s1 = Inr ()" "stage_plan_validate pb s2 = Inr ()"
    using g by simp_all
  have "submit_checks pb c s0 = Inr ()" using v(1) sel le f by (simp add: submit_checks_def)
  then have 0: "submit_stage pb s0 c = (Inr (), put s0 c)" unfolding put_def by (rule submit_accepted)
  have "submit_checks pb (put s0 c) s1 = Inr ()" using v(2) sel le f by (simp add: submit_checks_def put_def)
  then have 1: "submit_stage pb s1 (put s0 c) = (Inr (), put s1 (put s0 c))" by (subst submit_accepted) (simp_all add: put_def)
  have "submit_checks pb (put s1 (put s0 c)) s2 = Inr ()"
    using v(3) sel le f ok by (simp add: submit_checks_def check_partitioned_dependency_def put_def)
  then have 2: "submit_stage pb s2 (put s1 (put s0 c)) = (Inr (), put s2 (put s1 (put s0 c)))"
    by (subst submit_accepted) (simp_all add: put_def)
  have "submit_stages pb [s0, s1, s2] c = (Inr (), put s2 (put s1 (put s0 c)))" by (simp add: 0 1 2)
  moreover have "map_of (co_stages (put s2 (put s1 (put s0 c)))) k =
        (if k \<in> {(q, 0), (q, 1), (q, 2)}
         then let s = (if snd k = 0 then s0 else if snd k = 1 then s1 else s2) in
           Some \<lparr>st_plan = s, st_partitions = replicate (unat (sp_partition_count s)) (PtPending 0)\<rparr>
         else map_of (co_stages c) k)" for k
    using f by (cases k) (auto simp: put_def sel ok Let_def)
  ultimately show ?thesis by blast
qed


section \<open>An instance\<close>

abbreviation "self_join \<equiv> PHashJoin 0 (PScan 1 ''t'' pair_provider None [] sample_schema) (PScan 2 ''t'' pair_provider None [] sample_schema)
  LeftJoin [Column ''id''] [Column ''id''] joined_schema"

definition any_envelope :: "pb_decoder" where
  "any_envelope = (\<lambda>_. Some sample_envelope)"

lemma any_fragment: "validate_fragment any_envelope [7] = Inr ()"
  using sample_decode [of sample_externs] 
  by (auto simp: any_envelope_def codec_decode_def validate_fragment_def rbind_eq_Inr plan_dec_validates)

lemma encodes_any: "is_ok (encode_plan p 0) \<Longrightarrow> codec_encode (\<lambda>_. [7]) p = Inr [7]"
  by (auto simp: is_ok_iff codec_encode_def validate_fragment_size_def MAX_PLAN_FRAGMENT_BYTES_def)

lemma self_join_encodes:
  "d < 128 \<Longrightarrow> is_ok (encode_plan (PScan i n t None [] sample_schema) d)"
  "is_ok (encode_plan (PHashJoin 0 (PScan 1 n t None [] sample_schema) (PScan 2 n' t' None [] sample_schema) LeftJoin
     [Column ''id''] [Column ''id''] joined_schema) 0)"
  by (simp_all add: check_depth_def MAX_PLAN_DEPTH_def encode_schema_def encode_field_def joined_schema_fields)
    (simp_all add: sample_schema_def schema_new_def field_new_def encode_field_def)

lemma self_join_planned:
  "\<exists>stages. plan_remote_join sample_externs (\<lambda>_. [7]) any_envelope self_join ''q'' = Inr (Some stages)
     \<and> (\<forall>s\<in>set stages. sp_partition_count s = 2)"
proof -
  have q: "query_id_validate ''q'' = Inr ()" by (simp add: query_id_validate_def validate_text_id_def blank_letter byte_of_def)
  have f: "schema_field sample_schema 0 = Inr (field_new ''id'' TInt64 False)"
    by (simp add: schema_field_def sample_schema_def schema_new_def)
  show ?thesis
    by (simp add: plan_remote_join_def sample_id_resolves f producer_stage_def stage_plan_from_physical_plan_def
      encodes_any self_join_encodes stage_plan_validate_def any_fragment q dependency_scan_eq Let_def set_insort_insert
      del: encode_plan.simps)
qed

definition empty_coordinator :: coordinator where
  "empty_coordinator = \<lparr>co_config = default_config, co_workers = [], co_stages = [], co_cancelled = []\<rparr>"


end
