(* ===== verification/Worker_Task_Props.thy ===== *)
theory Worker_Task_Props
  imports Worker_Task Remote_Join
begin

text \<open>
  Properties of one task of a worker: it gives back its memory, its input tables hold exactly the blocks
  it was assigned, its blocks are reported or discarded, and it fails for reasons outside of it only.
\<close>

section \<open>Downloads\<close>

definition received :: "flight_error + batch \<Rightarrow> batch result" where
  "received item = (case item of Inl e \<Rightarrow> Inl (data_map_flight_error e) | Inr b \<Rightarrow> Inr b)"

lemma try_grow_cases:
  obtains (ok) h' m' where "try_grow n h m = (Inr (), h', m')" "unat h' = unat h + unat n"
      "unat (qm_reserved m') = unat (qm_reserved m) + unat n"
  | (full) msg where "try_grow n h m = (Inl (EResourceExhausted msg), h, m)"
proof (cases "checked_add h n")
  case None
  then show ?thesis using full by (simp add: try_grow_def)
next
  case (Some h')
  then have "unat h' = unat h + unat n" by (simp add: checked_add_Some_iff)
  with Some show ?thesis
    by (cases rule: memory_reserve_cases [of n m]) (use ok full in \<open>simp_all add: try_grow_def\<close>)
qed

lemma download_batches_cases:
  assumes "download_batches bx items h m = (r, h', m')"
  shows "exhausted r \<or> r = rmap received items"
    and "\<exists>k. unat h' = unat h + k \<and> unat (qm_reserved m') = unat (qm_reserved m) + k"
proof -
  have "(exhausted r \<or> r = rmap received items)
    \<and> (\<exists>k. unat h' = unat h + k \<and> unat (qm_reserved m') = unat (qm_reserved m) + k)"
    using assms
  proof (induction items arbitrary: h m r)
    case (Cons item items)
    show ?case
    proof (cases item)
      case (Inl e)
      then show ?thesis using Cons.prems by (auto simp: received_def)
    next
      case (Inr b)
      show ?thesis
      proof (cases rule: try_grow_cases [of "bx_batch_bytes bx b" h m])
        case (ok h1 m1)
        obtain r1 where d: "download_batches bx items h1 m1 = (r1, h', m')" "r = rbind r1 (\<lambda>bs. Inr (b # bs))"
          using Cons.prems Inr ok(1) by (cases "download_batches bx items h1 m1") (auto split: sum.splits)
        obtain k where k: "unat h' = unat h1 + k" "unat (qm_reserved m') = unat (qm_reserved m1) + k" "exhausted r1 \<or> r1 = rmap received items"
          using Cons.IH [OF d(1)] by blast
        have "exhausted r \<or> r = rmap received (item # items)" using k(3) d(2) Inr by (auto simp: exhausted_def received_def)
        moreover have "unat h' = unat h + (unat (bx_batch_bytes bx b) + k)"
          "unat (qm_reserved m') = unat (qm_reserved m) + (unat (bx_batch_bytes bx b) + k)" using k ok by simp_all
        ultimately show ?thesis by blast
      next
        case (full msg)
        then show ?thesis using Cons.prems Inr by (auto simp: exhausted_def)
      qed
    qed
  qed simp
  then show "exhausted r \<or> r = rmap received items"
    "\<exists>k. unat h' = unat h + k \<and> unat (qm_reserved m') = unat (qm_reserved m) + k" by blast+
qed

text \<open>What a download yields when memory does not run out.\<close>

definition fetched ::
  "block_externs \<Rightarrow> flight_externs \<Rightarrow> 's block_ops \<Rightarrow> string \<Rightarrow> shuffle_block \<Rightarrow> 's \<Rightarrow> (schema \<times> batch list) result" where
  "fetched bx fx ops endpoint block s =
     rbind (flight_location ''download'' endpoint block) (\<lambda>ticket.
     rbind (flight_reply (do_get fx ops (as_bytes ticket) s)) (\<lambda>(items, sch).
     rbind (rmap received items) (\<lambda>batches.
     rbind (ok_or sch (EProtocol ''downloaded block contained no Arrow schema'')) (\<lambda>schema.
     rbind (block_metadata bx schema batches) (\<lambda>(rows, bytes, checksum).
     rbind (require (rows = sb_rows block \<and> bytes = sb_bytes block \<and> checksum = sb_checksum block)
       (EProtocol ''downloaded block metadata mismatch: expected rows={} bytes={} checksum={}, got rows={rows} bytes={bytes} checksum={checksum}'')) (\<lambda>_.
       Inr (schema, batches)))))))"

lemma download_reserved_cases:
  assumes "download_reserved bx fx ops endpoint block s h m = (r, h', m')"
  shows "exhausted r \<or> r = fetched bx fx ops endpoint block s"
    and "\<exists>k. unat h' = unat h + k \<and> unat (qm_reserved m') = unat (qm_reserved m) + k"
proof -
  let ?get = "rbind (flight_location ''download'' endpoint block) (\<lambda>ticket. flight_reply (do_get fx ops (as_bytes ticket) s))"
  have "(exhausted r \<or> r = fetched bx fx ops endpoint block s)
    \<and> (\<exists>k. unat h' = unat h + k \<and> unat (qm_reserved m') = unat (qm_reserved m) + k)"
  proof (cases ?get)
    case (Inl e)
    then show ?thesis using assms by (auto simp: download_reserved_def fetched_def rbind_eq_Inl)
  next
    case (Inr got)
    obtain items sch where g: "?get = Inr (items, sch)" using Inr by (cases got) simp
    obtain rd h1 m1 where d: "download_batches bx items h m = (rd, h1, m1)" by (cases "download_batches bx items h m") auto
    have st: "h' = h1" "m' = m1" using assms g d by (auto simp: download_reserved_def split: sum.splits)
    have "exhausted r \<or> r = fetched bx fx ops endpoint block s"
      using download_batches_cases(1) [OF d]
    proof
      assume "exhausted rd"
      then show ?thesis using assms g d by (auto simp: download_reserved_def exhausted_def)
    next
      assume "rd = rmap received items"
      then have d': "download_batches bx items h m = (rmap received items, h1, m1)" using d by simp
      obtain t where "flight_location ''download'' endpoint block = Inr t" "flight_reply (do_get fx ops (as_bytes t) s) = Inr (items, sch)"
        using g by (auto simp: rbind_eq_Inr)
      then show ?thesis
        using assms d' by (cases "rmap received items") (simp_all add: download_reserved_def fetched_def)
    qed
    then show ?thesis using download_batches_cases(2) [OF d] st by blast
  qed
  then show "exhausted r \<or> r = fetched bx fx ops endpoint block s"
    "\<exists>k. unat h' = unat h + k \<and> unat (qm_reserved m') = unat (qm_reserved m) + k" by blast+
qed

definition fetched_from ::
  "block_externs \<Rightarrow> flight_externs \<Rightarrow> 's block_ops \<Rightarrow> 's network \<Rightarrow> string \<Rightarrow> shuffle_block \<Rightarrow> (schema \<times> batch list) result" where
  "fetched_from bx fx ops net endpoint block =
     rbind (ok_or (net endpoint) (ETransport ''Flight data-plane {action}: {status}'')) (\<lambda>s.
       map_sum upstream_error id (fetched bx fx ops endpoint block s))"

lemma download_block_balance: "0 < k \<Longrightarrow> keeps_balance k (download_block bx fx ops net endpoint block)"
  unfolding keeps_balance_def
proof (intro allI impI)
  fix s and base
  assume k: "0 < k" and s: "length (run_held s) = k \<and> balanced base s"
  show "length (run_held (snd (download_block bx fx ops net endpoint block s))) = k
    \<and> balanced base (snd (download_block bx fx ops net endpoint block s))"
  proof (cases "net endpoint")
    case None
    then show ?thesis using s by (simp add: download_block_def)
  next
    case (Some st)
    obtain r h m where d: "download_reserved bx fx ops endpoint block st (run_held s ! 0) (run_memory s) = (r, h, m)"
      by (cases "download_reserved bx fx ops endpoint block st (run_held s ! 0) (run_memory s)") auto
    obtain n where "unat h = unat (run_held s ! 0) + n" "unat (qm_reserved m) = unat (qm_reserved (run_memory s)) + n"
      using download_reserved_cases(2) [OF d] by blast
    then show ?thesis
      using s k d Some sum_list_update_nat [of 0 "map unat (run_held s)" "unat h"]
      by (simp add: download_block_def balanced_def map_update)
  qed
qed

lemma download_block_computes:
  "computes (download_block bx fx ops net endpoint block) (inspect (\<lambda>_. fetched_from bx fx ops net endpoint block))"
  unfolding computes_def
proof
  fix s
  show "agrees (download_block bx fx ops net endpoint block s) (inspect (\<lambda>_. fetched_from bx fx ops net endpoint block) (run_data s))"
  proof (cases "net endpoint")
    case None
    then show ?thesis by (simp add: download_block_def fetched_from_def inspect_def)
  next
    case (Some st)
    obtain r h m where d: "download_reserved bx fx ops endpoint block st (run_held s ! 0) (run_memory s) = (r, h, m)"
      by (cases "download_reserved bx fx ops endpoint block st (run_held s ! 0) (run_memory s)") auto
    then have "download_block bx fx ops net endpoint block s
        = (map_sum upstream_error id r, s\<lparr>run_held := (run_held s)[0 := h], run_memory := m\<rparr>)"
      using Some by (simp add: download_block_def)
    moreover have "exhausted r \<Longrightarrow> exhausted (map_sum upstream_error id r)" by (auto simp: exhausted_def upstream_error_def)
    moreover have "inspect (\<lambda>_. map_sum upstream_error id r) (run_data s) =
        (case map_sum upstream_error id r of Inl e \<Rightarrow> Inl e | Inr v \<Rightarrow> Inr (v, run_data s))"
      by (cases r) (simp_all add: inspect_def)
    moreover have "exhausted r \<or> fetched_from bx fx ops net endpoint block = map_sum upstream_error id r"
      using download_reserved_cases(1) [OF d] Some by (auto simp: fetched_from_def)
    ultimately show ?thesis
      by (cases "map_sum upstream_error id r") (auto simp: exhausted_def)
  qed
qed

section \<open>Memory\<close>

lemma with_budgets_releases:
  assumes "keeps_balance k f"
  shows "qm_reserved (snd (with_budgets k d f m)) = qm_reserved m"
proof -
  obtain q m1 where q: "reserve_each k m = (q, m1)" by force
  show ?thesis
  proof (cases q)
    case (Inl e)
    then show ?thesis using reserve_each_cases [of m k] q by (simp add: with_budgets_def)
  next
    case (Inr hs)
    then have hs: "hs = replicate k 0" "qm_reserved m1 = qm_reserved m" using reserve_each_cases [of m k] q by simp_all
    let ?s = "\<lparr>run_data = d, run_held = hs, run_memory = m1\<rparr>"
    obtain r st where f: "f ?s = (r, st)" by force
    have "balanced (unat (qm_reserved m)) ?s" "length (run_held ?s) = k"
      using hs by (simp_all add: balanced_def sum_list_replicate)
    with keeps_balanceD [OF assms f] have "balanced (unat (qm_reserved m)) st" by simp
    then show ?thesis
      using q Inr f release_all_balanced [of "run_memory st"] by (simp add: with_budgets_def balanced_def word_unat_eq_iff)
  qed
qed

text \<open>Reservations handed out are counted; on an error there are none.\<close>

definition accounts :: "query_memory \<Rightarrow> partition_output list result \<times> query_memory \<Rightarrow> bool" where
  "accounts m rm \<longleftrightarrow>
     unat (qm_reserved (snd rm)) = unat (qm_reserved m)
       + (case fst rm of Inl _ \<Rightarrow> 0 | Inr outs \<Rightarrow> sum_list (map (unat \<circ> snd \<circ> snd) outs))"

lemma repartition_accounts: "accounts m (repartition x ax crc s bs ex m tok)"
proof (cases "ct_cancelled (tok 0) \<or> invalid_exchange s ex")
  case True
  then show ?thesis by (auto simp: repartition_def cancellation_check_def accounts_def)
next
  case False
  let ?k = "unat (hx_partition_count ex)"
  show ?thesis
  proof (cases "rbind (rmap (schema_field s) (hx_columns ex)) (\<lambda>fs. encoder_new ax (map field_type fs))")
    case (Inl e)
    then show ?thesis using False by (simp add: repartition_def cancellation_check_def accounts_def)
  next
    case (Inr enc)
    obtain q m1 where q: "reserve_each ?k m = (q, m1)" by force
    show ?thesis
    proof (cases q)
      case (Inl e)
      then show ?thesis
        using False Inr q reserve_each_cases [of m ?k] by (simp add: repartition_def cancellation_check_def accounts_def)
    next
      case (Inr hs)
      then have hs: "hs = replicate ?k 0" "qm_reserved m1 = qm_reserved m" using reserve_each_cases [of m ?k] q by simp_all
      obtain r st where l: "loop (repartition_batch x ax crc s ex enc tok) bs (fresh_run hs m1) = (r, st)" by force
      have "keeps_balance ?k (loop (repartition_batch x ax crc s ex enc tok) bs)"
        by (intro keeps_balance_loop repartition_batch_balance refl)
      moreover have "length (run_held (fresh_run hs m1)) = ?k" "balanced (unat (qm_reserved m)) (fresh_run hs m1)"
        using hs by (simp_all add: fresh_run_def balanced_def sum_list_replicate)
      ultimately have st: "length (run_held st) = ?k" "balanced (unat (qm_reserved m)) st"
        using keeps_balanceD l by metis+
      have "map (unat \<circ> snd \<circ> snd) (outputs_of st) = map unat (run_held st)"
        by (auto simp: outputs_of_def comp_def intro: nth_equalityI)
      then show ?thesis
        using False \<open>rbind _ _ = Inr enc\<close> q Inr l st release_all_balanced [of "run_memory st" "unat (qm_reserved m)" "run_held st"]
        by (cases r) (auto simp: repartition_def cancellation_check_def accounts_def balanced_def)
    qed
  qed
qed

lemma task_outputs_accounts: "accounts m (task_outputs x ax crc ts a schema batches m)"
proof (cases "sp_output_exchange (as_stage a)")
  case None
  then show ?thesis
    by (cases rule: memory_reserve_cases [of 0 m]) (simp_all add: task_outputs_def try_reserve_def accounts_def)
next
  case (Some ex)
  then show ?thesis using repartition_accounts by (simp add: task_outputs_def)
qed

lemma upload_outputs_releases:
  assumes "upload_outputs bx fx ops ts a schema outs w m = (r, w', m')"
    and "unat (qm_reserved m) = base + sum_list (map (unat \<circ> snd \<circ> snd) outs)"
  shows "unat (qm_reserved m') = base"
  using assms
proof (induction outs arbitrary: w m)
  case (Cons out outs)
  obtain part bs held where out: "out = (part, bs, held)" by (cases out) auto
  have all: "unat (qm_reserved (release_all (held # map (snd \<circ> snd) outs) m)) = base"
    using Cons.prems(2) out by (intro release_all_balanced) (simp add: comp_def)
  have "unat (qm_reserved (drop_reservation held m)) = base + sum_list (map (unat \<circ> snd \<circ> snd) outs)"
    using Cons.prems(2) out by (simp add: drop_reservation_def unat_sub word_le_nat_alt comp_def)
  note Cons.IH [OF _ this]
  with all Cons.prems(1) out show ?case by (auto split: sum.splits prod.splits option.splits if_splits)
qed simp

lemma deliver_releases: "qm_reserved (snd (deliver x ax crc bx fx ops ts a schema net batches m)) = qm_reserved m"
proof (cases "rbind (cancellation_check (ts_token ts 1)) (\<lambda>_. connect net (as_data_endpoint a))")
  case (Inl e)
  then show ?thesis by (simp add: deliver_def)
next
  case (Inr u)
  obtain r m1 where o: "task_outputs x ax crc ts a schema batches m = (r, m1)" by force
  show ?thesis
  proof (cases r)
    case (Inl e)
    then show ?thesis using \<open>rbind _ _ = Inr u\<close> o task_outputs_accounts [of m x ax crc ts a schema batches]
      by (simp add: deliver_def accounts_def word_unat_eq_iff)
  next
    case outs: (Inr outs)
    obtain r' w m2 where u: "upload_outputs bx fx ops ts a schema outs \<lparr>tw_blocks = [], tw_net = net\<rparr> m1 = (r', w, m2)"
      by (cases "upload_outputs bx fx ops ts a schema outs \<lparr>tw_blocks = [], tw_net = net\<rparr> m1") auto
    have "unat (qm_reserved m1) = unat (qm_reserved m) + sum_list (map (unat \<circ> snd \<circ> snd) outs)"
      using task_outputs_accounts [of m x ax crc ts a schema batches] o outs by (simp add: accounts_def)
    from upload_outputs_releases [OF u this] show ?thesis
      using Inr o outs u by (simp add: deliver_def word_unat_eq_iff)
  qed
qed

lemma task_work_releases: "qm_reserved (snd (task_work x ax crc bx fx pb ops ts cx a net m)) = qm_reserved m"
proof -
  have "qm_reserved (snd (with_budgets 1 [[]] (charged_bind (collect_with_memory x ms) (\<lambda>_.
      nested (\<lambda>d. deliver x ax crc bx fx ops ts a s net (d ! 0)))) m)) = qm_reserved m" for ms s m
    by (rule with_budgets_releases) (unfold collect_with_memory_def, intro keeps_balance_bind keeps_balance_loop keeps_balance_nested,
      auto intro: collect_message_balance simp: deliver_releases)
  then have frag: "qm_reserved (snd (run_fragment x ax crc bx fx pb ops ts cx a net c m)) = qm_reserved m" for c m
    by (simp add: run_fragment_def split: sum.split)
  have "keeps_balance 1 (fetch_block bx fx ops ni ib)" for ni ib
    unfolding fetch_block_def by (intro keeps_balance_bind keeps_balance_on_data download_block_balance) simp
  then have "keeps_balance 1 (materialize_stage_inputs x bx fx ops ni c stages blocks)" for ni c stages blocks
    unfolding materialize_stage_inputs_def
    by (cases "stages = []") (simp_all add: keeps_balance_on_data keeps_balance_bind keeps_balance_loop del: One_nat_def)
  then show ?thesis
    using frag
    by (auto simp: task_work_def split: interruption.split sum.split
        intro!: with_budgets_releases keeps_balance_bind keeps_balance_nested)
qed

section \<open>Results\<close>

text \<open>What a computation may return when memory does not run out, if that depends on the memory it finds.\<close>

definition yields :: "('d, 'a) charged \<Rightarrow> ('d \<Rightarrow> 'a result \<Rightarrow> bool) \<Rightarrow> bool" where
  "yields f Q \<longleftrightarrow> (\<forall>s. exhausted (fst (f s)) \<or> Q (run_data s) (fst (f s)))"

lemma yields_nested: "yields (nested f) (\<lambda>d r. \<exists>m. r = fst (f d m))"
  unfolding yields_def
proof
  fix s
  show "exhausted (fst (nested f s)) \<or> (\<exists>m. fst (nested f s) = fst (f (run_data s) m))"
    by (intro disjI2 exI [of _ "run_memory s"]) (simp add: nested_def split: prod.split)
qed

lemma yields_bind:
  assumes "computes f g" and "\<And>a. yields (h a) (Q a)"
  shows "yields (charged_bind f h) (\<lambda>d r. case g d of Inl e \<Rightarrow> r = Inl e | Inr (a, d') \<Rightarrow> Q a d' r)"
  unfolding yields_def
proof
  fix s
  obtain r s' where f: "f s = (r, s')" by force
  note agrees = computesD [OF assms(1) f]
  show "exhausted (fst (charged_bind f h s))
    \<or> (case g (run_data s) of Inl e \<Rightarrow> fst (charged_bind f h s) = Inl e | Inr (a, d') \<Rightarrow> Q a d' (fst (charged_bind f h s)))"
  proof (cases r)
    case (Inl e)
    then show ?thesis using agrees f by (auto simp: charged_bind_def exhausted_def)
  next
    case (Inr a)
    then have "g (run_data s) = Inr (a, run_data s')" using agrees by simp
    then show ?thesis using assms(2) [of a] f Inr by (auto simp: charged_bind_def yields_def)
  qed
qed

lemma yields_with_budgets: "yields f Q \<Longrightarrow> exhausted (fst (with_budgets k d f m)) \<or> Q d (fst (with_budgets k d f m))"
proof -
  assume f: "yields f Q"
  obtain q m1 where q: "reserve_each k m = (q, m1)" by force
  show ?thesis
  proof (cases q)
    case (Inl e)
    then show ?thesis using reserve_each_cases [of m k] q by (simp add: with_budgets_def exhausted_def)
  next
    case (Inr hs)
    let ?s = "\<lparr>run_data = d, run_held = hs, run_memory = m1\<rparr>"
    have "exhausted (fst (f ?s)) \<or> Q d (fst (f ?s))" using f by (auto simp: yields_def)
    then show ?thesis using q Inr by (cases "f ?s") (simp add: with_budgets_def)
  qed
qed

text \<open>The inputs of a task as a function of what the servers hold.\<close>

definition fetch ::
  "block_externs \<Rightarrow> flight_externs \<Rightarrow> 's block_ops \<Rightarrow> (nat \<Rightarrow> 's network) \<Rightarrow> nat \<times> shuffle_block \<Rightarrow> input_state
   \<Rightarrow> input_state result" where
  "fetch bx fx ops net ib d =
     rbind (block_source (net (fst ib)) (snd ib) d) (\<lambda>(endpoint, d').
     rbind (fetched_from bx fx ops (net (fst ib)) endpoint (snd ib)) (\<lambda>downloaded. keep_block (snd ib) downloaded d'))"

definition inputs_of ::
  "externs \<Rightarrow> block_externs \<Rightarrow> flight_externs \<Rightarrow> 's block_ops \<Rightarrow> (nat \<Rightarrow> 's network) \<Rightarrow> catalog \<Rightarrow> stage_id list
   \<Rightarrow> shuffle_block list \<Rightarrow> catalog result" where
  "inputs_of x bx fx ops net base stages blocks =
     (if stages = [] then
        (if blocks \<noteq> [] then Inl (EProtocol ''task without stage dependencies received input blocks'') else Inr base)
      else rbind (rfold (fetch bx fx ops net) (List.enumerate 0 blocks) (no_inputs stages)) (\<lambda>d.
        register_inputs x stages (in_materialized d) base))"

lemma fetch_block_computes: "computes (fetch_block bx fx ops net ib) (effect (fetch bx fx ops net ib))"
  unfolding fetch_block_def
  by (rule computes_cong, (rule computes_bind computes_on_data download_block_computes)+)
    (auto simp: fetch_def effect_def inspect_def rbind_assoc rbind_def split: sum.splits prod.splits)

lemma materialize_computes:
  "computes (materialize_stage_inputs x bx fx ops net base stages blocks)
     (\<lambda>d. if stages = [] then inspect (\<lambda>_.
            if blocks \<noteq> [] then Inl (EProtocol ''task without stage dependencies received input blocks'') else Inr base) d
          else rbind (effect (rfold (fetch bx fx ops net) (List.enumerate 0 blocks)) d) (\<lambda>(_, d').
            inspect (\<lambda>d. register_inputs x stages (in_materialized d) base) d'))"
proof (cases "stages = []")
  case True
  then show ?thesis by (simp add: materialize_stage_inputs_def computes_on_data)
next
  case False
  have "computes (loop (fetch_block bx fx ops net) (List.enumerate 0 blocks)) (effect (rfold (fetch bx fx ops net) (List.enumerate 0 blocks)))"
    by (rule computes_loop) (rule fetch_block_computes)
  from computes_bind [OF this computes_on_data] show ?thesis using False by (simp add: materialize_stage_inputs_def)
qed

lemma collect_computes: "computes (collect_with_memory x ms) (effect (rfold keep_message (map (Pair 0) ms)))"
  unfolding collect_with_memory_def by (rule computes_loop) (rule collect_message_computes)

lemma keep_collected:
  "rfold keep_message (map (Pair 0) ms) [bs] = rbind (collect ms) (\<lambda>bs'. Inr [bs @ bs'])"
proof (induction ms arbitrary: bs)
  case (Cons m ms)
  then show ?case by (cases m) (simp_all add: collect_def keep_message_def rbind_assoc)
qed (simp add: collect_def)

lemma run_fragment_result:
  "exhausted (fst (run_fragment x ax crc bx fx pb ops ts cx a net c m))
   \<or> (\<exists>m1. fst (run_fragment x ax crc bx fx pb ops ts cx a net c m) =
        rbind (decode_physical_plan x pb (as_stage a) c) (\<lambda>plan.
        rbind (collect (ts_run ts (task_partition a cx) plan)) (\<lambda>bs.
          fst (deliver x ax crc bx fx ops ts a (physical_schema plan) net bs m1))))"
proof (cases "decode_physical_plan x pb (as_stage a) c")
  case (Inl e)
  then show ?thesis by (simp add: run_fragment_def)
next
  case (Inr plan)
  let ?ms = "ts_run ts (task_partition a cx) plan"
  let ?rest = "\<lambda>_. nested (\<lambda>d. deliver x ax crc bx fx ops ts a (physical_schema plan) net (d ! 0))"
  have "yields (charged_bind (collect_with_memory x ?ms) ?rest)
      (\<lambda>d r. case effect (rfold keep_message (map (Pair 0) ?ms)) d of Inl e \<Rightarrow> r = Inl e
        | Inr (u, d') \<Rightarrow> \<exists>m. r = fst (deliver x ax crc bx fx ops ts a (physical_schema plan) net (d' ! 0) m))"
    by (rule yields_bind [OF collect_computes yields_nested])
  from yields_with_budgets [OF this, of 1 "[[]]" m] show ?thesis
    using Inr keep_collected [of ?ms "[]"]
    by (cases "collect ?ms") (auto simp: run_fragment_def effect_def)
qed

lemma task_work_result:
  assumes "\<And>e. ts_interruption ts \<noteq> BeforeUploads e"
  shows "exhausted (fst (task_work x ax crc bx fx pb ops ts cx a net m))
    \<or> (\<exists>m1. fst (task_work x ax crc bx fx pb ops ts cx a net m) =
        rbind (cancellation_check (ts_token ts 0)) (\<lambda>_.
        rbind (inputs_of x bx fx ops (ts_inputs ts) (as_catalog a) (sp_input_stages (as_stage a)) (as_input_blocks a)) (\<lambda>c.
        rbind (decode_physical_plan x pb (as_stage a) c) (\<lambda>plan.
        rbind (collect (ts_run ts (task_partition a cx) plan)) (\<lambda>bs.
          fst (deliver x ax crc bx fx ops ts a (physical_schema plan) net bs m1))))))"
proof (cases "ct_cancelled (ts_token ts 0)")
  case True
  then show ?thesis using assms by (auto simp: task_work_def cancellation_check_def split: interruption.split)
next
  case False
  let ?stages = "sp_input_stages (as_stage a)"
  let ?mat = "materialize_stage_inputs x bx fx ops (ts_inputs ts) (as_catalog a) ?stages (as_input_blocks a)"
  let ?rest = "\<lambda>c. nested (\<lambda>_. run_fragment x ax crc bx fx pb ops ts cx a net c)"
  have unfold: "task_work x ax crc bx fx pb ops ts cx a net m = with_budgets 1 (no_inputs ?stages) (charged_bind ?mat ?rest) m"
    using assms False by (auto simp: task_work_def cancellation_check_def split: interruption.split)
  note y = yields_with_budgets [OF yields_bind [where Q = "\<lambda>c d r. \<exists>m. r = fst (run_fragment x ax crc bx fx pb ops ts cx a net c m)",
      OF materialize_computes [of x bx fx ops "ts_inputs ts" "as_catalog a" ?stages "as_input_blocks a"]], of ?rest 1 "no_inputs ?stages" m]
  have "exhausted (fst (task_work x ax crc bx fx pb ops ts cx a net m))
    \<or> (case inputs_of x bx fx ops (ts_inputs ts) (as_catalog a) ?stages (as_input_blocks a) of
         Inl e \<Rightarrow> fst (task_work x ax crc bx fx pb ops ts cx a net m) = Inl e
       | Inr c \<Rightarrow> \<exists>m1. fst (task_work x ax crc bx fx pb ops ts cx a net m)
           = fst (run_fragment x ax crc bx fx pb ops ts cx a net c m1))"
    unfolding unfold using y [OF yields_nested]
    by (auto simp: inputs_of_def inspect_def effect_def rbind_assoc split: if_splits sum.splits simp: rbind_eq_Inr rbind_eq_Inl)
  then show ?thesis
  proof (cases "inputs_of x bx fx ops (ts_inputs ts) (as_catalog a) ?stages (as_input_blocks a)")
    case (Inr c)
    then consider "exhausted (fst (task_work x ax crc bx fx pb ops ts cx a net m))"
      | m1 where "fst (task_work x ax crc bx fx pb ops ts cx a net m) = fst (run_fragment x ax crc bx fx pb ops ts cx a net c m1)"
      using \<open>exhausted _ \<or> _\<close> by auto
    then show ?thesis
    proof cases
      case 2
      then show ?thesis
        using False Inr run_fragment_result [of x ax crc bx fx pb ops ts cx a net c m1] by (simp add: cancellation_check_def)
    qed simp
  qed (auto simp: cancellation_check_def False)
qed

section \<open>Blocks in the store\<close>

definition ticket_of :: "flight_externs \<Rightarrow> worker_id \<Rightarrow> task_attempt_id \<Rightarrow> partition_id \<Rightarrow> string result" where
  "ticket_of fx w producer part =
     fx_ticket_json fx \<lparr>tk_version = PROTOCOL_VERSION, tk_worker_id = w, tk_producer = producer, tk_output_partition = part\<rparr>"

definition acks_ok :: "flight_externs \<Rightarrow> bool" where
  "acks_ok fx \<longleftrightarrow> (\<forall>a. fx_ack_json fx a \<noteq> None)"

lemma ticket_of_inj: "flight_ok fx \<Longrightarrow> ticket_of fx w a p = Inr t \<Longrightarrow> ticket_of fx w a q = Inr t \<Longrightarrow> p = q"
  unfolding flight_ok_def ticket_of_def by (metis block_ticket.select_convs(4) sum.inject(2))

lemma upload_request_of: "upload_request fx w a p sch bs = Inr (t, req) \<Longrightarrow> ticket_of fx w a p = Inr t"
  by (cases "fx_transfer fx sch bs") (auto simp: upload_request_def ticket_of_def rbind_eq_Inr Let_def)

lemma upload_parts:
  assumes "upload_request fx w a p sch bs = Inr (t, req)" and "flight_ok fx"
    and "upload bx fx ops endpoint w a p sch bs s s' = (r, s'')"
  shows "(\<exists>e. r = Inl e \<and> s'' = s')
    \<or> (\<exists>rows bytes b reply. put_commit fx ops t (rows, bytes, b) s' = (reply, s'') \<and> r = upload_result fx endpoint w a p t reply)"
proof -
  obtain reply where put: "do_put bx fx ops req s s' = (reply, s'')" "r = upload_result fx endpoint w a p t reply"
    using assms(1,3) by (auto simp: upload_def split: prod.splits)
  show ?thesis
  proof (cases "put_receive bx fx (bo_upload_budget ops s t) req")
    case (Inl e)
    then have "reply = Inl e" "s'' = s'" using put(1) upload_request_ticket(1) [OF assms(2,1)] by (simp_all add: do_put_def)
    then show ?thesis using put(2) by (simp add: upload_result_def flight_reply_def)
  next
    case (Inr rec)
    obtain rows bytes b where "rec = (rows, bytes, b)" by (cases rec)
    then have "put_commit fx ops t (rows, bytes, b) s' = (reply, s'')"
      using Inr put(1) upload_request_ticket(1) [OF assms(2,1)] by (simp add: do_put_def)
    then show ?thesis using put(2) by blast
  qed
qed

text \<open>A block that describes a value of the store.\<close>

definition uploaded ::
  "block_externs \<Rightarrow> flight_externs \<Rightarrow> worker_id \<Rightarrow> string \<Rightarrow> schema \<Rightarrow> batch list \<Rightarrow> shuffle_block \<Rightarrow> string
   \<Rightarrow> stored_block \<Rightarrow> bool" where
  "uploaded bx fx w endpoint sch bs blk t b \<longleftrightarrow> sb_location blk = FlightLocation w endpoint t
     \<and> wire_ticket fx (as_bytes t) = Inr t \<and> fx_transfer fx sch bs = (map Inr (st_batches b), Some (st_schema b))
     \<and> block_metadata bx (st_schema b) (st_batches b) = Inr (sb_rows blk, sb_bytes blk, sb_checksum blk)"

definition located :: "task_assignment \<Rightarrow> shuffle_block \<Rightarrow> string \<Rightarrow> bool" where
  "located a blk t \<longleftrightarrow> sb_location blk = FlightLocation (as_worker_id a) (as_data_endpoint a) t"

definition orphans :: "'s task_schedule \<Rightarrow> bool" where
  "orphans ts \<longleftrightarrow> (\<exists>k e. ts_interruption ts = DuringUpload k True e)"

text \<open>A block that describes one output of a task, which the store holds.\<close>

definition records ::
  "block_externs \<Rightarrow> flight_externs \<Rightarrow> task_assignment \<Rightarrow> schema \<Rightarrow> (string \<Rightarrow> (schema \<times> batch list \<times> string) option)
   \<Rightarrow> partition_output \<Rightarrow> shuffle_block \<Rightarrow> bool" where
  "records bx fx a sch v out blk \<longleftrightarrow> sb_producer blk = as_task a \<and> sb_output_partition blk = fst out
     \<and> (\<exists>t b. ticket_of fx (as_worker_id a) (as_task a) (fst out) = Inr t
          \<and> uploaded bx fx (as_worker_id a) (as_data_endpoint a) sch (fst (snd out)) blk t b \<and> v t = Some (block_content b))"

lemma upload_block:
  "upload bx fx ops endpoint w a p sch bs s s' = (Inr blk, s'') \<Longrightarrow> sb_producer blk = a \<and> sb_output_partition blk = p"
  by (auto simp: upload_def upload_result_def rbind_eq_Inr split: sum.splits prod.splits)

context block_storage
begin

lemma upload_effect:
  assumes fx: "flight_ok fx" "acks_ok fx" and wf: "\<And>t b. wf t b" and inv: "inv s'"
    and new: "\<And>t. ticket_of fx w a p = Inr t \<Longrightarrow> view s' t = None"
    and up: "upload bx fx ops endpoint w a p sch bs s s' = (r, s'')"
  shows "inv s'' \<and> (case r of
      Inl e \<Rightarrow> view s'' = view s'
    | Inr blk \<Rightarrow> \<exists>t b. ticket_of fx w a p = Inr t \<and> uploaded bx fx w endpoint sch bs blk t b
        \<and> view s'' = (view s')(t \<mapsto> block_content b))"
proof (cases "upload_request fx w a p sch bs")
  case (Inl e)
  then have "r = Inl e" "s'' = s'" using up by (simp_all add: upload_def)
  then show ?thesis using inv by simp
next
  case (Inr rq)
  obtain t req where rq: "upload_request fx w a p sch bs = Inr (t, req)" using Inr by (cases rq) simp
  note t = upload_request_of [OF rq]
  from upload_parts [OF rq fx(1) up] show ?thesis
  proof (elim disjE exE conjE)
    fix rows bytes b reply
    assume com: "put_commit fx ops t (rows, bytes, b) s' = (reply, s'')" and r: "r = upload_result fx endpoint w a p t reply"
    obtain i s1 where ins: "bo_insert ops t b s' = (i, s1)" by force
    then have s1: "s'' = s1" using com by (simp add: put_commit_def)
    show ?thesis
    proof (cases i)
      case (Inl e)
      then have "\<exists>e. r = Inl e" using com ins r by (auto simp: put_commit_def upload_result_def flight_reply_def)
      then show ?thesis using insert_err [OF inv] ins Inl s1 by auto
    next
      case (Inr u)
      let ?ack = "\<lparr>ua_rows = rows, ua_bytes = bytes, ua_checksum = st_checksum b, ua_ticket = t\<rparr>"
      obtain j where j: "fx_ack_json fx ?ack = Some j" using fx(2) by (auto simp: acks_ok_def)
      then have "fx_parse_ack fx j = Inr ?ack" "reply = Inr [j]"
        using fx(1) com ins Inr by (auto simp: flight_ok_def put_commit_def)
      then obtain blk where blk: "r = Inr blk" "sb_location blk = FlightLocation w endpoint t"
        using r by (auto simp: upload_result_def flight_reply_def)
      obtain t' b' where b0: "bo_insert ops t' b' s' = (Inr (), s'')"
        "fx_transfer fx sch bs = (map Inr (st_batches b'), Some (st_schema b'))"
        "block_metadata bx (st_schema b') (st_batches b') = Inr (sb_rows blk, sb_bytes blk, st_checksum b')"
        "sb_checksum blk = st_checksum b'" "sb_location blk = FlightLocation w endpoint t'"
        "wire_ticket fx (as_bytes t') = Inr t'"
        by (rule upload_Inr [OF fx(1) up [unfolded blk(1)]])
      have "t' = t" using b0(5) blk(2) by simp
      with b0 have b': "uploaded bx fx w endpoint sch bs blk t b'" "bo_insert ops t b' s' = (Inr (), s'')"
        by (simp_all add: uploaded_def)
      have "inv s'' \<and> view s'' = (view s')(t \<mapsto> block_content b')"
        using insert_ok [OF inv wf b'(2)] new [OF t] by simp
      then show ?thesis using blk(1) b'(1) t by auto
    qed
  qed (use inv in simp)
qed

lemma delete_effect:
  assumes "inv s" and "sb_location b = FlightLocation w endpoint t" and "wire_ticket fx (as_bytes t) = Inr t"
  shows "inv (snd (delete fx ops endpoint b s))" and "view (snd (delete fx ops endpoint b s)) = (view s)(t := None)"
proof -
  obtain r s' where rm: "bo_remove ops t s = (r, s')" by force
  then have "snd (delete fx ops endpoint b s) = s'"
    using assms(2,3) by (simp add: delete_def flight_location_def data_do_action_def)
  moreover have "inv s' \<and> view s' = (view s)(t := None)"
    using remove_law [OF assms(1), of t] rm assms(1) by (cases r) (auto simp: fun_eq_iff)
  ultimately show "inv (snd (delete fx ops endpoint b s))" "view (snd (delete fx ops endpoint b s)) = (view s)(t := None)" by simp_all
qed

lemma upload_outputs_effect:
  assumes fx: "flight_ok fx" "acks_ok fx" and wf: "\<And>t b. wf t b"
    and "distinct (map fst outs)" and "tw_net w (as_data_endpoint a) = Some s" and "inv s"
    and "\<forall>p\<in>fst ` set outs. \<forall>t. ticket_of fx (as_worker_id a) (as_task a) p = Inr t \<longrightarrow> view s t = None"
    and "upload_outputs bx fx ops ts a sch outs w m = (r, w', m')"
  shows "\<exists>s' new. tw_blocks w' = tw_blocks w @ new \<and> tw_net w' = (tw_net w)(as_data_endpoint a := Some s') \<and> inv s'
    \<and> (r = Inr () \<longrightarrow> length new = length outs) \<and> length new \<le> length outs
    \<and> list_all2 (records bx fx a sch (view s')) (take (length new) outs) new
    \<and> (\<forall>t. view s' t \<noteq> view s t \<longrightarrow> (\<exists>p\<in>fst ` set outs. ticket_of fx (as_worker_id a) (as_task a) p = Inr t))
    \<and> (orphans ts \<or> (\<forall>t. view s' t \<noteq> view s t \<longrightarrow> (\<exists>blk\<in>set new. located a blk t)))"
  using assms(4-)
proof (induction outs arbitrary: w m s)
  case Nil
  then show ?case by (intro exI [of _ s] exI [of _ "[]"]) (auto simp: fun_upd_idem)
next
  case (Cons out outs)
  obtain p bs h where out: "out = (p, bs, h)" by (cases out) auto
  let ?e = "as_data_endpoint a" and ?ticket = "ticket_of fx (as_worker_id a) (as_task a)"
  note net = Cons.prems(2) and inv = Cons.prems(3)
  have fresh: "?ticket p = Inr t \<Longrightarrow> view s t = None" for t using Cons.prems(4) out by auto
  obtain ru s1 where up: "upload bx fx ops ?e (as_worker_id a) (as_task a) p sch bs (ts_early ts p) s = (ru, s1)" by force
  then have upo: "upload_output bx fx ops ts a sch p bs (tw_net w) = (ru, (tw_net w)(?e := Some s1))"
    using net by (simp add: upload_output_def)
  note eff = upload_effect [OF fx wf inv fresh up]
  have same: ?case if "tw_blocks w' = tw_blocks w" "tw_net w' = (tw_net w)(?e := Some s2)" "inv s2" "view s2 = view s" "\<exists>e. r = Inl e" for s2
    using that by (intro exI [of _ s2] exI [of _ "[]"]) auto
  show ?case
  proof (cases "cancellation_check (ts_token ts (2 + length (tw_blocks w)))")
    case (Inl e)
    then have "r = Inl e" "w' = w" using Cons.prems(5) out by simp_all
    then show ?thesis using same [of s] inv net by (simp add: fun_upd_idem)
  next
    case live: (Inr u)
    show ?thesis
    proof (cases ru)
      case (Inl e)
      then have "\<exists>e. r = Inl e" "w' = w\<lparr>tw_net := (tw_net w)(?e := Some s1)\<rparr>" using Cons.prems(5) out live upo by (auto dest: sym)
      then show ?thesis using same [of s1] eff Inl by simp
    next
      case (Inr blk)
      then obtain t b where tb: "?ticket p = Inr t" "uploaded bx fx (as_worker_id a) ?e sch bs blk t b"
        "view s1 = (view s)(t \<mapsto> block_content b)" "inv s1" using eff by auto
      show ?thesis
      proof (cases "interrupted_at ts (length (tw_blocks w))")
        case (Some ce)
        obtain committed e where ce: "ce = (committed, e)" by (cases ce)
        then have r: "r = Inl e" "w' = (if committed then w\<lparr>tw_net := (tw_net w)(?e := Some s1)\<rparr> else w)"
          using Cons.prems(5) out live upo Inr Some by simp_all
        have "committed \<Longrightarrow> orphans ts"
          using Some ce by (auto simp: interrupted_at_def orphans_def split: interruption.splits if_splits)
        then show ?thesis
          using r tb out inv net same [of s] by (cases committed) (auto simp: fun_upd_idem intro!: exI [of _ s1] exI [of _ "[]"])
      next
        case None
        let ?w = "\<lparr>tw_blocks = tw_blocks w @ [blk], tw_net = (tw_net w)(?e := Some s1)\<rparr>"
        have rest: "upload_outputs bx fx ops ts a sch outs ?w (drop_reservation h m) = (r, w', m')"
          using Cons.prems(5) out live upo Inr None by simp
        have p: "p \<notin> fst ` set outs" using Cons.prems(1) out by simp
        then have other: "q \<in> fst ` set outs \<Longrightarrow> ?ticket q \<noteq> Inr t" for q using ticket_of_inj [OF fx(1) tb(1), of q] by blast
        have dist: "distinct (map fst outs)" and netw: "tw_net ?w ?e = Some s1" using Cons.prems(1) by simp_all
        have fresh: "\<forall>q\<in>fst ` set outs. \<forall>t. ?ticket q = Inr t \<longrightarrow> view s1 t = None"
          using other tb(3) Cons.prems(4) by auto
        obtain s' new where IH: "tw_blocks w' = tw_blocks ?w @ new" "tw_net w' = (tw_net ?w)(?e := Some s')" "inv s'"
          "r = Inr () \<longrightarrow> length new = length outs" "length new \<le> length outs"
          "list_all2 (records bx fx a sch (view s')) (take (length new) outs) new"
          "\<forall>t. view s' t \<noteq> view s1 t \<longrightarrow> (\<exists>p\<in>fst ` set outs. ?ticket p = Inr t)"
          "orphans ts \<or> (\<forall>t. view s' t \<noteq> view s1 t \<longrightarrow> (\<exists>blk\<in>set new. located a blk t))"
          using Cons.IH [OF dist netw tb(4) fresh rest] by blast
        have "view s' t = Some (block_content b)" using IH(7) other tb(3) by force
        then have rec: "records bx fx a sch (view s') out blk"
          using tb(1,2) out up Inr by (auto simp: records_def upload_block)
        have loc: "located a blk t" using tb(2) by (simp add: uploaded_def located_def)
        have "\<forall>t'. view s' t' \<noteq> view s t' \<longrightarrow> t' = t \<or> view s' t' \<noteq> view s1 t'" using tb(3) by auto
        then have "\<forall>t. view s' t \<noteq> view s t \<longrightarrow> (\<exists>p\<in>fst ` set (out # outs). ?ticket p = Inr t)"
          "orphans ts \<or> (\<forall>t. view s' t \<noteq> view s t \<longrightarrow> (\<exists>blk\<in>set (blk # new). located a blk t))"
          using IH(7,8) tb(1) loc out by simp_all metis+
        then show ?thesis using IH(1-6) rec by (intro exI [of _ s'] exI [of _ "blk # new"]) simp
      qed
    qed
  qed
qed

lemma discard_effect:
  assumes "\<forall>blk\<in>set blocks. answers blk \<and> (\<exists>t. located a blk t \<and> wire_ticket fx (as_bytes t) = Inr t)"
    and "net (as_data_endpoint a) = Some s" and "inv s"
  shows "\<exists>s'. discard_output_blocks fx ops answers blocks net = net(as_data_endpoint a := Some s') \<and> inv s'
    \<and> view s' = (\<lambda>t. if \<exists>blk\<in>set blocks. located a blk t then None else view s t)"
  using assms
proof (induction blocks arbitrary: net s)
  case Nil
  then show ?case by (intro exI [of _ s]) (simp add: discard_output_blocks_def fun_upd_idem)
next
  case (Cons blk blocks)
  let ?e = "as_data_endpoint a"
  obtain t where t: "located a blk t" "wire_ticket fx (as_bytes t) = Inr t" using Cons.prems(1) by auto
  then have loc: "sb_location blk = FlightLocation (as_worker_id a) ?e t" by (simp add: located_def)
  define s1 where "s1 = snd (delete fx ops ?e blk s)"
  note del = delete_effect [OF Cons.prems(3) loc t(2), folded s1_def]
  have step: "discard_block fx ops answers blk net = net(?e := Some s1)"
    using Cons.prems(1,2) loc by (simp add: discard_block_def s1_def)
  have rest: "\<forall>blk\<in>set blocks. answers blk \<and> (\<exists>t. located a blk t \<and> wire_ticket fx (as_bytes t) = Inr t)"
    and net: "(net(?e := Some s1)) ?e = Some s1" using Cons.prems(1) by simp_all
  obtain s' where s': "discard_output_blocks fx ops answers blocks (net(?e := Some s1)) = net(?e := Some s1, ?e := Some s')" "inv s'"
    "view s' = (\<lambda>t. if \<exists>blk\<in>set blocks. located a blk t then None else view s1 t)"
    using Cons.IH [where net = "net(?e := Some s1)", OF rest net del(1)] by (elim exE conjE)
  have "discard_output_blocks fx ops answers (blk # blocks) net = net(?e := Some s')"
    using s'(1) by (simp add: discard_output_blocks_def step)
  moreover have "located a blk u \<longleftrightarrow> u = t" for u using t(1) by (auto simp: located_def)
  then have "view s' = (\<lambda>t. if \<exists>blk\<in>set (blk # blocks). located a blk t then None else view s t)"
    unfolding s'(3) del(2) by (intro ext) simp
  ultimately show ?case using s'(2) by (intro exI [of _ s'] conjI)
qed

end

lemma task_outputs_distinct:
  assumes "task_outputs x ax crc ts a sch bs m = (Inr outs, m')"
  shows "distinct (map fst outs)"
proof (cases "sp_output_exchange (as_stage a)")
  case None
  then show ?thesis using assms by (auto simp: task_outputs_def split: prod.splits sum.splits)
next
  case (Some ex)
  let ?k = "unat (hx_partition_count ex)"
  obtain enc hs m1 st where hs: "reserve_each ?k m = (Inr hs, m1)"
    and l: "loop (repartition_batch x ax crc sch ex enc (ts_poll ts)) bs (fresh_run hs m1) = (Inr (), st)" "outs = outputs_of st"
    using assms Some by (auto simp: task_outputs_def repartition_def split: prod.splits sum.splits if_splits)
  have "length hs = ?k" "balanced (unat (qm_reserved m)) (fresh_run hs m1)"
    using hs reserve_each_cases [of m ?k] by (simp_all add: fresh_run_def balanced_def sum_list_replicate)
  moreover have "keeps_balance ?k (loop (repartition_batch x ax crc sch ex enc (ts_poll ts)) bs)"
    by (intro keeps_balance_loop repartition_batch_balance refl)
  ultimately have "length (run_held st) = ?k" using keeps_balanceD(1) l(1) by (fastforce simp: fresh_run_def)
  then have "map fst outs = map of_nat [0..<?k]" using l(2) by (simp add: outputs_of_def comp_def)
  moreover have "inj_on (of_nat :: nat \<Rightarrow> u32) {0..<?k}"
  proof (rule inj_onI)
    fix i j assume "i \<in> {0..<?k}" "j \<in> {0..<?k}" and eq: "(of_nat i :: u32) = of_nat j"
    then have "i < 2 ^ 32" "j < 2 ^ 32" using unsigned_less [of "hx_partition_count ex", where 'a = nat] by auto
    then show "i = j" using arg_cong [OF eq, of unat] by (simp add: unat_of_nat)
  qed
  ultimately show ?thesis by (simp add: distinct_map)
qed

lemma task_work_Inr:
  assumes "task_work x ax crc bx fx pb ops ts cx a net m = (Inr (r, w), m')"
  obtains c plan bs outs m1 m2 m3 where
    "inputs_of x bx fx ops (ts_inputs ts) (as_catalog a) (sp_input_stages (as_stage a)) (as_input_blocks a) = Inr c"
    "decode_physical_plan x pb (as_stage a) c = Inr plan" "collect (ts_run ts (task_partition a cx) plan) = Inr bs"
    "task_outputs x ax crc ts a (physical_schema plan) bs m1 = (Inr outs, m2)"
    "upload_outputs bx fx ops ts a (physical_schema plan) outs \<lparr>tw_blocks = [], tw_net = net\<rparr> m2 = (r, w, m3)"
    "net (as_data_endpoint a) \<noteq> None"
proof -
  have "ts_interruption ts \<noteq> BeforeUploads e" for e using assms by (auto simp: task_work_def)
  from task_work_result [OF this, of x ax crc bx fx pb ops cx a net m]
  obtain c plan bs m1 where c:
    "inputs_of x bx fx ops (ts_inputs ts) (as_catalog a) (sp_input_stages (as_stage a)) (as_input_blocks a) = Inr c"
    "decode_physical_plan x pb (as_stage a) c = Inr plan" "collect (ts_run ts (task_partition a cx) plan) = Inr bs"
    "fst (deliver x ax crc bx fx ops ts a (physical_schema plan) net bs m1) = Inr (r, w)"
    unfolding assms fst_conv exhausted_def by (elim disjE exE) (simp_all add: eq_commute [of "Inr (r, w)"] rbind_eq_Inr, blast)
  obtain u where u: "rbind (cancellation_check (ts_token ts 1)) (\<lambda>_. connect net (as_data_endpoint a)) = Inr u"
    using c(4) by (cases "rbind (cancellation_check (ts_token ts 1)) (\<lambda>_. connect net (as_data_endpoint a))")
      (simp_all add: deliver_def)
  then have n: "net (as_data_endpoint a) \<noteq> None" by (auto simp: rbind_eq_Inr connect_def)
  obtain ro m2 where o: "task_outputs x ax crc ts a (physical_schema plan) bs m1 = (ro, m2)" by force
  then obtain outs where outs: "ro = Inr outs" using c(4) u by (cases ro) (simp_all add: deliver_def)
  obtain r' w' m3 where up: "upload_outputs bx fx ops ts a (physical_schema plan) outs \<lparr>tw_blocks = [], tw_net = net\<rparr> m2 = (r', w', m3)"
    by (cases "upload_outputs bx fx ops ts a (physical_schema plan) outs \<lparr>tw_blocks = [], tw_net = net\<rparr> m2") auto
  then have rw: "r' = r" "w' = w" using c(4) u o outs by (simp_all add: deliver_def)
  show thesis by (rule that [OF c(1) c(2) c(3) o [unfolded outs] up [unfolded rw] n])
qed

text \<open>A run of the plan of a task up to its outputs.\<close>

definition task_run ::
  "externs \<Rightarrow> arrow_externs \<Rightarrow> (bytes \<Rightarrow> u32) \<Rightarrow> block_externs \<Rightarrow> flight_externs \<Rightarrow> pb_decoder \<Rightarrow> 's block_ops
   \<Rightarrow> 's task_schedule \<Rightarrow> task_context \<Rightarrow> task_assignment \<Rightarrow> physical_plan \<Rightarrow> batch list \<Rightarrow> partition_output list \<Rightarrow> bool" where
  "task_run x ax crc bx fx pb ops ts cx a plan bs outs \<longleftrightarrow> (\<exists>c m m'.
     inputs_of x bx fx ops (ts_inputs ts) (as_catalog a) (sp_input_stages (as_stage a)) (as_input_blocks a) = Inr c
     \<and> decode_physical_plan x pb (as_stage a) c = Inr plan \<and> collect (ts_run ts (task_partition a cx) plan) = Inr bs
     \<and> task_outputs x ax crc ts a (physical_schema plan) bs m = (Inr outs, m'))"

text \<open>
  A task that succeeds has changed the store by its blocks only, which hold its outputs; one that fails
  has changed nothing, unless it was interrupted while the store committed an upload.
\<close>

definition tracked ::
  "externs \<Rightarrow> arrow_externs \<Rightarrow> (bytes \<Rightarrow> u32) \<Rightarrow> block_externs \<Rightarrow> flight_externs \<Rightarrow> pb_decoder \<Rightarrow> 's block_ops
   \<Rightarrow> ('s \<Rightarrow> string \<Rightarrow> (schema \<times> batch list \<times> string) option) \<Rightarrow> 's task_schedule \<Rightarrow> task_context \<Rightarrow> task_assignment \<Rightarrow> task_output result \<Rightarrow> 's \<Rightarrow> 's \<Rightarrow> bool" where
  "tracked x ax crc bx fx pb ops view ts cx a result s s' \<longleftrightarrow>
     (case result of
        Inl e \<Rightarrow> orphans ts \<or> view s' = view s
      | Inr out \<Rightarrow>
          (\<exists>plan bs outs. task_run x ax crc bx fx pb ops ts cx a plan bs outs
             \<and> list_all2 (records bx fx a (physical_schema plan) (view s')) outs (to_blocks out))
          \<and> (orphans ts \<or> (\<forall>t. view s' t \<noteq> view s t \<longrightarrow> (\<exists>blk\<in>set (to_blocks out). located a blk t))))"

context block_storage
begin

lemma execute_assignment_tracked:
  assumes fx: "flight_ok fx" "acks_ok fx" and wf: "\<And>t b. wf t b"
    and s: "net (as_data_endpoint a) = Some s" "inv s"
    and fresh: "\<forall>p t. ticket_of fx (as_worker_id a) (as_task a) p = Inr t \<longrightarrow> view s t = None"
    and answers: "\<forall>b. ts_answers ts b"
    and ex: "execute_assignment x ax crc bx fx pb ops ts cx a net m = (completion, net', m')"
  shows "\<exists>s'. net' = net(as_data_endpoint a := Some s') \<and> inv s' \<and> tracked x ax crc bx fx pb ops view ts cx a (cp_result completion) s s'"
proof -
  let ?e = "as_data_endpoint a"
  obtain work mw where work: "task_work x ax crc bx fx pb ops ts cx a net m = (work, mw)" by force
  show ?thesis
  proof (cases work)
    case (Inl e)
    then have "net' = net" "cp_result completion = Inl e"
      using ex work by (auto simp: execute_assignment_def discard_output_blocks_def)
    then show ?thesis using s by (intro exI [of _ s]) (simp add: tracked_def fun_upd_idem)
  next
    case (Inr rw)
    obtain r w where rw: "work = Inr (r, w)" using Inr by (cases rw) simp
    obtain c plan bs outs m1 m2 m3 where run:
      "inputs_of x bx fx ops (ts_inputs ts) (as_catalog a) (sp_input_stages (as_stage a)) (as_input_blocks a) = Inr c"
      "decode_physical_plan x pb (as_stage a) c = Inr plan" "collect (ts_run ts (task_partition a cx) plan) = Inr bs"
      "task_outputs x ax crc ts a (physical_schema plan) bs m1 = (Inr outs, m2)"
      "upload_outputs bx fx ops ts a (physical_schema plan) outs \<lparr>tw_blocks = [], tw_net = net\<rparr> m2 = (r, w, m3)"
      "net ?e \<noteq> None"
      by (rule task_work_Inr [OF work [unfolded rw]])
    then have tr: "task_run x ax crc bx fx pb ops ts cx a plan bs outs" by (auto simp: task_run_def)
    have fresh': "\<forall>p\<in>fst ` set outs. \<forall>t. ticket_of fx (as_worker_id a) (as_task a) p = Inr t \<longrightarrow> view s t = None"
      using fresh by blast
    have net: "tw_net \<lparr>tw_blocks = [], tw_net = net\<rparr> ?e = Some s" using s(1) by simp
    obtain s1 new where up: "tw_blocks w = tw_blocks \<lparr>tw_blocks = [], tw_net = net\<rparr> @ new"
      "tw_net w = (tw_net \<lparr>tw_blocks = [], tw_net = net\<rparr>)(?e := Some s1)" "inv s1"
      "r = Inr () \<longrightarrow> length new = length outs" "length new \<le> length outs"
      "list_all2 (records bx fx a (physical_schema plan) (view s1)) (take (length new) outs) new"
      "orphans ts \<or> (\<forall>t. view s1 t \<noteq> view s t \<longrightarrow> (\<exists>blk\<in>set new. located a blk t))"
      using upload_outputs_effect [OF fx wf task_outputs_distinct [OF run(4)] net s(2) fresh' run(5)] by (elim exE conjE)
    then have blocks: "tw_blocks w = new" "tw_net w = net(?e := Some s1)" by simp_all
    show ?thesis
    proof (cases r)
      case (Inr u)
      then have "net' = tw_net w" "cp_result completion = Inr (task_output_of new)"
        using ex work rw blocks(1) by (auto simp: execute_assignment_def)
      moreover have "list_all2 (records bx fx a (physical_schema plan) (view s1)) outs new" using up(4,6) Inr by simp
      ultimately show ?thesis
        using up(3,7) tr blocks(2) unfolding tracked_def task_output_of_def by (intro exI [of _ s1]) (simp, blast)
    next
      case (Inl e)
      then have fin: "net' = discard_output_blocks fx ops (ts_answers ts) new (tw_net w)" "cp_result completion = Inl e"
        using ex work rw blocks(1) by (auto simp: execute_assignment_def)
      have recs: "\<exists>t. located a blk t \<and> wire_ticket fx (as_bytes t) = Inr t \<and> view s t = None" if "blk \<in> set new" for blk
      proof -
        obtain out where "records bx fx a (physical_schema plan) (view s1) out blk"
          using up(6) \<open>blk \<in> set new\<close> by (metis in_set_conv_nth list_all2_nthD2)
        then show ?thesis using fresh by (auto simp: records_def uploaded_def located_def)
      qed
      then have known: "\<forall>blk\<in>set new. ts_answers ts blk \<and> (\<exists>t. located a blk t \<and> wire_ticket fx (as_bytes t) = Inr t)"
        using answers by blast
      have net1: "(net(?e := Some s1)) ?e = Some s1" by simp
      obtain s' where s': "discard_output_blocks fx ops (ts_answers ts) new (net(?e := Some s1)) = net(?e := Some s1, ?e := Some s')" "inv s'"
        "view s' = (\<lambda>t. if \<exists>blk\<in>set new. located a blk t then None else view s1 t)"
        using discard_effect [where net = "net(?e := Some s1)", OF known net1 up(3)] by (elim exE conjE)
      have "orphans ts \<or> view s' = view s"
      proof (cases "orphans ts")
        case False
        then have "view s' t = view s t" for t
          using up(7) recs by (cases "\<exists>blk\<in>set new. located a blk t") (force simp: s'(3) located_def, metis s'(3))
        then show ?thesis by (simp add: fun_eq_iff)
      qed simp
      then show ?thesis using s'(1,2) blocks(2) fin by (intro exI [of _ s']) (simp add: tracked_def)
    qed
  qed
qed

end

section \<open>Properties of a task\<close>

lemma execute_assignment_memory:
  "qm_reserved (snd (snd (execute_assignment x ax crc bx fx pb ops ts cx a net m))) = qm_reserved m"
  using task_work_releases [of x ax crc bx fx pb ops ts cx a net m]
  by (auto simp: execute_assignment_def split: prod.splits sum.splits)


text \<open>An instance in which every acknowledgement is encoded.\<close>

definition unary :: "nat list \<Rightarrow> bytes" where
  "unary ns = concat (map (\<lambda>n. replicate n 1 @ [0]) ns)"

fun of_unary :: "nat \<Rightarrow> bytes \<Rightarrow> nat list" where
  "of_unary n [] = []"
| "of_unary n (b # bs) = (if b = 0 then n # of_unary 0 bs else of_unary (n + 1) bs)"

lemma of_unary: "of_unary n (replicate k 1 @ 0 # bs) = (n + k) # of_unary 0 bs"
  by (induction k arbitrary: n) simp_all

lemma of_unary_unary: "of_unary 0 (unary ns) = ns"
  by (induction ns) (simp_all add: unary_def of_unary)

definition plain_ack :: "upload_ack \<Rightarrow> bytes" where
  "plain_ack a = unary (unat (ua_rows a) # unat (ua_bytes a) # length (ua_checksum a) # map of_char (ua_checksum a) @ map of_char (ua_ticket a))"

definition parse_plain_ack :: "bytes \<Rightarrow> upload_ack result" where
  "parse_plain_ack j =
     (case of_unary 0 j of
        r # b # n # cs \<Rightarrow> Inr \<lparr>ua_rows = of_nat r, ua_bytes = of_nat b, ua_checksum = map char_of (take n cs),
                                ua_ticket = map char_of (drop n cs)\<rparr>
      | _ \<Rightarrow> Inl (EProtocol ''ack''))"

definition plain_fx :: flight_externs where
  "plain_fx = sample_fx\<lparr>fx_ack_json := (\<lambda>a. Some (plain_ack a)), fx_parse_ack := parse_plain_ack\<rparr>"

lemma plain_fx_ok: "flight_ok plain_fx" "acks_ok plain_fx"
proof -
  have "parse_plain_ack (plain_ack a) = Inr a" for a
    by (simp add: parse_plain_ack_def plain_ack_def of_unary_unary comp_def)
  then show "flight_ok plain_fx" using sample_flight_ok by (simp add: flight_ok_def plain_fx_def)
  show "acks_ok plain_fx" by (simp add: acks_ok_def plain_fx_def)
qed

definition quiet_assignment :: task_assignment where
  "quiet_assignment =
     \<lparr>as_stage = \<lparr>sp_query_id = ''q'', sp_stage_id = 0, sp_input_stages = [], sp_partition_count = 1, sp_plan_fragment = [7],
                   sp_output_exchange = None, sp_partitioned_input = False\<rparr>,
      as_task = tk_producer sample_ticket,
      as_lease = \<lparr>lease_worker_id = ''w'', lease_issued_at_ms = 0, lease_expires_at_ms = 10\<rparr>,
      as_input_blocks = [], as_catalog = sample_catalog, as_worker_id = ''w'', as_data_endpoint = ''http://h''\<rparr>"

definition quiet_schedule :: "memory_block_store task_schedule" where
  "quiet_schedule =
     \<lparr>ts_run = (\<lambda>_ _. []), ts_token = (\<lambda>_. cancellation_new), ts_poll = (\<lambda>_. cancellation_new), ts_inputs = (\<lambda>_ _. None),
      ts_early = (\<lambda>_. sample_store), ts_interruption = Uninterrupted, ts_answers = (\<lambda>_. True)\<rparr>"

lemma quiet_sel [simp]:
  "ts_run quiet_schedule cx p = []" "ts_token quiet_schedule k = cancellation_new" "ts_interruption quiet_schedule = Uninterrupted"
  "ts_early quiet_schedule p' = sample_store" "as_data_endpoint quiet_assignment = ''http://h''" "as_worker_id quiet_assignment = ''w''"
  "as_task quiet_assignment = tk_producer sample_ticket" "as_catalog quiet_assignment = sample_catalog"
  "sp_input_stages (as_stage quiet_assignment) = []" "sp_output_exchange (as_stage quiet_assignment) = None"
  "as_input_blocks quiet_assignment = []" "cancellation_check cancellation_new = Inr ()" "ta_partition_id (tk_producer sample_ticket) = 0"
  by (simp_all add: quiet_schedule_def quiet_assignment_def cancellation_check_def cancellation_new_def sample_ticket_def)

definition quiet_net :: "memory_block_store network" where
  "quiet_net = [''http://h'' \<mapsto> sample_store]"

lemma quiet_decodes: "decode_physical_plan sample_externs any_envelope (as_stage quiet_assignment) sample_catalog = Inr sample_plan"
  using any_fragment sample_decode [of sample_externs]
  by (simp add: decode_physical_plan_def stage_plan_validate_def quiet_assignment_def query_id_validate_def
      validate_text_id_def blank_letter byte_of_def any_envelope_def)

definition plain_bx :: block_externs where
  "plain_bx = sample_bx\<lparr>bx_ipc_write := (\<lambda>_ _. Inr sample_stream)\<rparr>"

lemma quiet_upload:
  "\<exists>blk s. upload plain_bx plain_fx memory_ops ''http://h'' ''w'' (tk_producer sample_ticket) 0 sch [] sample_store sample_store = (Inr blk, s)"
proof -
  let ?req = "\<lparr>pr_first = Some (Some (True, as_bytes ''t'')), pr_batches = [], pr_schema = Some sch\<rparr>"
  have t: "\<lparr>tk_version = PROTOCOL_VERSION, tk_worker_id = ''w'', tk_producer = tk_producer sample_ticket,
      tk_output_partition = 0\<rparr> = sample_ticket" by (simp add: sample_ticket_def)
  have rq: "upload_request plain_fx ''w'' (tk_producer sample_ticket) 0 sch [] = Inr (''t'', ?req)"
    unfolding upload_request_def t Let_def by (simp add: sample_ticket_ok) (simp add: plain_fx_def sample_fx_def)
  have md: "block_metadata plain_bx sch [] = Inr (0, 0, ''crc32:'' @ hex8 (bx_crc32 plain_bx sample_stream))"
    by (simp add: block_metadata_def plain_bx_def)
  let ?block = "\<lparr>st_schema = sch, st_batches = [], st_checksum = ''crc32:'' @ hex8 (bx_crc32 plain_bx sample_stream), st_charged_bytes = 1\<rparr>"
  have "put_receive plain_bx plain_fx (bo_upload_budget memory_ops sample_store ''t'') ?req = Inr (0, 0, ?block)"
    by (simp add: put_receive_def md)
      (simp add: memory_ops_def memory_upload_budget_def memory_available_bytes_def sample_store_def saturating_add_def saturating_sub_def)
  moreover obtain s where "bo_insert memory_ops ''t'' ?block sample_store = (Inr (), s)"
    by (auto simp: memory_ops_def memory_insert_def memory_available_bytes_def sample_store_def saturating_sub_def)
  moreover have "fx_ack_json plain_fx a = Some (plain_ack a)" for a by (simp add: plain_fx_def)
  moreover have "fx_parse_ack plain_fx (plain_ack a) = Inr a" for a
    using plain_fx_ok(1) by (simp add: flight_ok_def plain_fx_def)
  ultimately show ?thesis
    using upload_request_ticket(1) [OF plain_fx_ok(1) rq]
    by (simp add: upload_def rq do_put_def put_commit_def upload_result_def flight_reply_def)
qed

lemma quiet_run:
  "\<exists>blk. cp_result (fst (execute_assignment sample_externs sample_ax crc plain_bx plain_fx any_envelope memory_ops quiet_schedule
     small_context quiet_assignment quiet_net (memory_new 1000))) = Inr (task_output_of [blk])"
proof -
  obtain blk s where up: "upload plain_bx plain_fx memory_ops ''http://h'' ''w'' (tk_producer sample_ticket) 0
      (physical_schema sample_plan) [] sample_store sample_store = (Inr blk, s)" using quiet_upload by blast
  have drop: "release_all [0] m = m" "drop_reservation 0 m = m" for m
    by (simp_all add: release_all_def drop_reservation_def memory_release_def)
  have dl: "deliver sample_externs sample_ax crc plain_bx plain_fx memory_ops quiet_schedule quiet_assignment
      (physical_schema sample_plan) quiet_net [] (memory_new 1000)
    = (Inr (Inr (), \<lparr>tw_blocks = [blk], tw_net = quiet_net(''http://h'' := Some s)\<rparr>), memory_new 1000)"
    using up by (simp add: deliver_def connect_def quiet_net_def task_outputs_def zero_reservation upload_output_def interrupted_at_def drop)
  have "run_fragment sample_externs sample_ax crc plain_bx plain_fx any_envelope memory_ops quiet_schedule small_context quiet_assignment
      quiet_net sample_catalog (memory_new 1000)
    = (Inr (Inr (), \<lparr>tw_blocks = [blk], tw_net = quiet_net(''http://h'' := Some s)\<rparr>), memory_new 1000)"
    using dl by (simp add: run_fragment_def quiet_decodes with_budgets_def zero_reservation charged_bind_def collect_with_memory_def nested_def drop)
  then have "task_work sample_externs sample_ax crc plain_bx plain_fx any_envelope memory_ops quiet_schedule small_context quiet_assignment
      quiet_net (memory_new 1000)
    = (Inr (Inr (), \<lparr>tw_blocks = [blk], tw_net = quiet_net(''http://h'' := Some s)\<rparr>), memory_new 1000)"
    by (simp add: task_work_def with_budgets_def zero_reservation materialize_stage_inputs_def charged_bind_def on_data_def inspect_def nested_def drop)
  then show ?thesis by (intro exI [of _ blk]) (simp add: execute_assignment_def)
qed


end
