(* ===== verification/Worker.thy ===== *)
theory Worker
  imports Worker_Task Control_Plane
begin

text \<open>
  \<open>src/cluster/worker.rs\<close>: the loop of a worker.  Its state is what the loop keeps between two turns; each
  branch of the \<open>select\<close> is a function of that state and of the replies of the coordinator, which
  \<open>Control_Plane\<close> models.  An error of a branch ends the worker.
\<close>

section \<open>Configuration\<close>

text \<open>The address and the directory of the data plane only reach its sockets and files, so the record leaves them out.\<close>

record worker_config =
  wc_coordinator_endpoint :: string
  wc_worker_id :: worker_id
  wc_slots :: u32
  wc_memory_bytes :: u64
  wc_batch_size :: nat
  wc_channel_capacity :: nat
  wc_heartbeat_interval_ms :: nat
  wc_poll_interval_ms :: nat
  wc_data_storage_bytes :: u64
  wc_max_terminal_tasks :: "u64 option"

definition worker_config_validate :: "worker_config \<Rightarrow> unit result" where
  "worker_config_validate cfg =
     rbind (require (\<not> blank (wc_coordinator_endpoint cfg)) (EPlanning ''worker coordinator endpoint must not be empty'')) (\<lambda>_.
     rbind (require (wc_slots cfg \<noteq> 0) (EPlanning ''worker must have at least one execution slot'')) (\<lambda>_.
     rbind (require (wc_memory_bytes cfg \<noteq> 0) (EPlanning ''worker memory limit must be greater than zero'')) (\<lambda>_.
     rbind (require (\<not> (wc_batch_size cfg = 0 \<or> wc_channel_capacity cfg = 0))
              (EPlanning ''worker batch size and channel capacity must be greater than zero'')) (\<lambda>_.
     rbind (require (\<not> (wc_heartbeat_interval_ms cfg = 0 \<or> wc_poll_interval_ms cfg = 0))
              (EPlanning ''worker heartbeat and poll intervals must be greater than zero'')) (\<lambda>_.
     rbind (require (wc_data_storage_bytes cfg \<noteq> 0) (EPlanning ''worker data-plane storage must be greater than zero'')) (\<lambda>_.
       require (wc_max_terminal_tasks cfg \<noteq> Some 0) (EPlanning ''worker maximum terminal tasks must be greater than zero'')))))))"

section \<open>State\<close>

text \<open>Task attempts are ordered by their fields.\<close>

type_synonym task_key = "query_id \<times> stage_id \<times> partition_id \<times> u32"

definition task_key :: "task_attempt_id \<Rightarrow> task_key" where
  "task_key t = (ta_query_id t, ta_stage_id t, ta_partition_id t, ta_attempt t)"

record worker_summary =
  su_completed_tasks :: u64
  su_failed_tasks :: u64
  su_cancelled_tasks :: u64
  su_output_rows :: u64
  su_output_bytes :: u64

definition terminal_tasks :: "worker_summary \<Rightarrow> u64" where
  "terminal_tasks s = saturating_add (saturating_add (su_completed_tasks s) (su_failed_tasks s)) (su_cancelled_tasks s)"

text \<open>\<open>tasks\<close>, the set of spawned tasks, is the list of their attempts and leases.\<close>

record worker_state =
  wk_active :: "(task_key, cancellation_token) btree"
  wk_tasks :: "(task_attempt_id \<times> task_lease) list"
  wk_cancelled_queries :: "(query_id, string) btree"
  wk_summary :: worker_summary
  wk_stopping :: bool

definition worker_start :: worker_state where
  "worker_start = \<lparr>wk_active = [], wk_tasks = [], wk_cancelled_queries = [],
     wk_summary = \<lparr>su_completed_tasks = 0, su_failed_tasks = 0, su_cancelled_tasks = 0, su_output_rows = 0, su_output_bytes = 0\<rparr>,
     wk_stopping = False\<rparr>"

section \<open>The branches of the loop\<close>

definition cancel_all :: "('k, cancellation_token) btree \<Rightarrow> ('k, cancellation_token) btree" where
  "cancel_all active = map (\<lambda>(k, t). (k, cancel t)) active"

definition on_shutdown :: "worker_state \<Rightarrow> worker_state" where
  "on_shutdown st = st\<lparr>wk_stopping := True, wk_active := cancel_all (wk_active st)\<rparr>"

definition heartbeat_of :: "worker_config \<Rightarrow> u64 \<Rightarrow> query_memory \<Rightarrow> worker_state \<Rightarrow> worker_heartbeat" where
  "heartbeat_of cfg now m st =
     \<lparr>hb_worker_id = wc_worker_id cfg, hb_observed_at_ms = now,
      hb_available_slots = saturating_sub (wc_slots cfg) (of_nat (length (wk_active st))),
      hb_available_memory_bytes = saturating_sub (qm_limit m) (qm_reserved m)\<rparr>"

definition accepts_tasks :: "worker_config \<Rightarrow> worker_state \<Rightarrow> bool" where
  "accepts_tasks cfg st \<longleftrightarrow> length (wk_active st) < unat (wc_slots cfg)"

definition started_update :: "worker_config \<Rightarrow> task_attempt_id \<Rightarrow> task_lease \<Rightarrow> worker_message" where
  "started_update cfg task lease = TaskUpdate PROTOCOL_VERSION (wc_worker_id cfg) task (Running (lease_issued_at_ms lease))"

text \<open>\<open>started\<close> is the reply to the message that reports the start.\<close>

definition on_assignment ::
  "worker_config \<Rightarrow> task_attempt_id \<Rightarrow> task_lease \<Rightarrow> unit result \<Rightarrow> worker_state \<Rightarrow> worker_state result" where
  "on_assignment cfg task lease started st =
     rbind (require (lease_worker_id lease = wc_worker_id cfg) (EProtocol ''worker {} received a lease owned by {}'')) (\<lambda>_.
     rbind (require (length (wk_active st) < unat (wc_slots cfg))
              (EProtocol ''worker {} received more assignments than its {} slots'')) (\<lambda>_.
       case started of
         Inl e \<Rightarrow> if e = ETaskSuperseded then Inr st else Inl e
       | Inr _ \<Rightarrow> Inr (st\<lparr>wk_active := bt_insert (task_key task) cancellation_new (wk_active st),
                         wk_tasks := wk_tasks st @ [(task, lease)]\<rparr>)))"

definition on_cancel_query :: "query_id \<Rightarrow> string \<Rightarrow> worker_state \<Rightarrow> worker_state" where
  "on_cancel_query q reason st =
     st\<lparr>wk_cancelled_queries := bt_insert q reason (wk_cancelled_queries st),
        wk_active := map (\<lambda>(k, t). (k, if fst k = q then cancel t else t)) (wk_active st)\<rparr>"

definition on_poll ::
  "worker_config \<Rightarrow> coordinator_message option result \<Rightarrow> unit result \<Rightarrow> worker_state \<Rightarrow> worker_state result" where
  "on_poll cfg reply started st =
     rbind reply (\<lambda>message.
       case message of
         None \<Rightarrow> Inr st
       | Some (AssignTask _ _ task lease _) \<Rightarrow> on_assignment cfg task lease started st
       | Some (CancelQuery _ q reason) \<Rightarrow> Inr (on_cancel_query q reason st))"

definition is_retryable :: "sparkx_error \<Rightarrow> bool" where
  "is_retryable e \<longleftrightarrow> (case e of EIo _ \<Rightarrow> True | EParquet _ \<Rightarrow> True | ETransport _ \<Rightarrow> True | _ \<Rightarrow> False)"

text \<open>
  The state that is reported for a finished task, the summary, and the blocks that are discarded before
  the report.
\<close>

definition finished_state ::
  "(sparkx_error \<Rightarrow> string) \<Rightarrow> task_completion \<Rightarrow> worker_state \<Rightarrow> task_state \<times> worker_summary \<times> shuffle_block list" where
  "finished_state shown c st =
     (let su = wk_summary st; at = lease_issued_at_ms (cp_lease c) in
      case map_of (wk_cancelled_queries st) (ta_query_id (cp_task c)) of
        Some reason \<Rightarrow>
          (Cancelled at reason, su\<lparr>su_cancelled_tasks := su_cancelled_tasks su + 1\<rparr>,
           case cp_result c of Inr out \<Rightarrow> to_blocks out | Inl _ \<Rightarrow> [])
      | None \<Rightarrow>
          (case cp_result c of
             Inr out \<Rightarrow>
               (Succeeded at (to_blocks out),
                su\<lparr>su_completed_tasks := su_completed_tasks su + 1,
                   su_output_rows := saturating_add (su_output_rows su) (to_rows out),
                   su_output_bytes := saturating_add (su_output_bytes su) (to_bytes out)\<rparr>, [])
           | Inl e \<Rightarrow>
               if e = ECancelled \<and> wk_stopping st
               then (Failed at ''worker shut down before the task completed'' True,
                     su\<lparr>su_failed_tasks := su_failed_tasks su + 1\<rparr>, [])
               else if e = ECancelled
               then (Cancelled at ''task execution was cancelled'', su\<lparr>su_cancelled_tasks := su_cancelled_tasks su + 1\<rparr>, [])
               else (Failed at (shown e) (is_retryable e), su\<lparr>su_failed_tasks := su_failed_tasks su + 1\<rparr>, [])))"

definition uncommitted_blocks :: "task_state \<Rightarrow> shuffle_block list" where
  "uncommitted_blocks s = (case s of Succeeded _ blocks \<Rightarrow> blocks | _ \<Rightarrow> [])"

text \<open>A report that was refused because another attempt took over undoes the success.\<close>

definition superseded_summary :: "shuffle_block list \<Rightarrow> worker_summary \<Rightarrow> worker_summary" where
  "superseded_summary blocks su =
     su\<lparr>su_completed_tasks := su_completed_tasks su - 1,
        su_output_rows := saturating_sub (su_output_rows su) (sum_list (map sb_rows blocks)),
        su_output_bytes := saturating_sub (su_output_bytes su) (sum_list (map sb_bytes blocks)),
        su_failed_tasks := su_failed_tasks su + 1\<rparr>"

definition stop_at_maximum :: "worker_config \<Rightarrow> worker_state \<Rightarrow> worker_state" where
  "stop_at_maximum cfg st =
     (case wc_max_terminal_tasks cfg of
        Some maximum \<Rightarrow> if maximum \<le> terminal_tasks (wk_summary st) then on_shutdown st else st
      | None \<Rightarrow> st)"

definition finished_update :: "worker_config \<Rightarrow> (sparkx_error \<Rightarrow> string) \<Rightarrow> task_completion \<Rightarrow> worker_state \<Rightarrow> worker_message" where
  "finished_update cfg shown c st = TaskUpdate PROTOCOL_VERSION (wc_worker_id cfg) (cp_task c) (fst (finished_state shown c st))"

text \<open>\<open>reply\<close> is the reply to \<open>finished_update\<close>; the second component lists the blocks that were discarded.\<close>

definition on_finished ::
  "worker_config \<Rightarrow> (sparkx_error \<Rightarrow> string) \<Rightarrow> task_completion \<Rightarrow> unit result \<Rightarrow> worker_state
   \<Rightarrow> worker_state result \<times> shuffle_block list" where
  "on_finished cfg shown c reply st =
     (let st1 = st\<lparr>wk_active := bt_remove (task_key (cp_task c)) (wk_active st),
                   wk_tasks := remove1 (cp_task c, cp_lease c) (wk_tasks st)\<rparr>;
          (state, su, discarded) = finished_state shown c st1;
          blocks = uncommitted_blocks state
      in case reply of
           Inr _ \<Rightarrow> (Inr (stop_at_maximum cfg (st1\<lparr>wk_summary := su\<rparr>)), discarded)
         | Inl e \<Rightarrow>
             if e \<noteq> ETaskSuperseded then (Inl e, discarded @ blocks)
             else (Inr (stop_at_maximum cfg (st1\<lparr>wk_summary :=
                     (case state of Succeeded _ _ \<Rightarrow> superseded_summary blocks su | _ \<Rightarrow> su)\<rparr>)), discarded @ blocks))"

definition on_joined ::
  "worker_config \<Rightarrow> (sparkx_error \<Rightarrow> string) \<Rightarrow> string + task_completion \<Rightarrow> unit result \<Rightarrow> worker_state
   \<Rightarrow> worker_state result \<times> shuffle_block list" where
  "on_joined cfg shown joined reply st =
     (case joined of
        Inl _ \<Rightarrow> (Inl (EExecution ''worker task join failed: {error}''), [])
      | Inr c \<Rightarrow> on_finished cfg shown c reply st)"

section \<open>Runs\<close>

definition worker_ends :: "worker_state \<Rightarrow> bool" where
  "worker_ends st \<longleftrightarrow> wk_stopping st \<and> wk_tasks st = []"

text \<open>
  A turn of the loop.  The coordinator never assigns an attempt twice, and a task reports cancellation
  only after its token was cancelled.
\<close>

definition fresh_reply :: "coordinator_message option result \<Rightarrow> worker_state \<Rightarrow> bool" where
  "fresh_reply reply st \<longleftrightarrow>
     (case reply of Inr (Some (AssignTask _ _ task _ _)) \<Rightarrow> map_of (wk_active st) (task_key task) = None | _ \<Rightarrow> True)"

definition honest_completion :: "task_completion \<Rightarrow> worker_state \<Rightarrow> bool" where
  "honest_completion c st \<longleftrightarrow> (cp_task c, cp_lease c) \<in> set (wk_tasks st)
     \<and> (cp_result c = Inl ECancelled \<longrightarrow>
          (\<exists>tok. map_of (wk_active st) (task_key (cp_task c)) = Some tok \<and> ct_cancelled tok))"

inductive worker_step :: "worker_config \<Rightarrow> (sparkx_error \<Rightarrow> string) \<Rightarrow> worker_state \<Rightarrow> worker_state \<Rightarrow> bool"
  for cfg shown where
  shutdown: "\<not> worker_ends st \<Longrightarrow> \<not> wk_stopping st \<Longrightarrow> worker_step cfg shown st (on_shutdown st)"
| heartbeat: "\<not> worker_ends st \<Longrightarrow> worker_step cfg shown st st"
| poll: "\<not> worker_ends st \<Longrightarrow> \<not> wk_stopping st \<Longrightarrow> fresh_reply reply st \<Longrightarrow> on_poll cfg reply started st = Inr st'
    \<Longrightarrow> worker_step cfg shown st st'"
| joined: "\<not> worker_ends st \<Longrightarrow> honest_completion c st \<Longrightarrow> on_joined cfg shown (Inr c) reply st = (Inr st', discarded)
    \<Longrightarrow> worker_step cfg shown st st'"

inductive_cases worker_stepE: "worker_step cfg shown st st'"

end
