(* ===== verification/Worker_Props.thy ===== *)
theory Worker_Props
  imports Worker
begin

text \<open>
  The invariant of the worker loop, what it reports, and that it ends after a shutdown.
\<close>

section \<open>Invariant\<close>

lemma bt_length: "bt_ok m \<Longrightarrow> length m = card (dom (map_of m))"
  using bt_ok_distinct [of m] by (simp add: dom_map_of_conv_image_fst distinct_card flip: set_map)

definition keys_of :: "(task_attempt_id \<times> task_lease) list \<Rightarrow> task_key list" where
  "keys_of tasks = map (task_key \<circ> fst) tasks"

definition worker_inv :: "worker_config \<Rightarrow> worker_state \<Rightarrow> bool" where
  "worker_inv cfg st \<longleftrightarrow> bt_ok (wk_active st) \<and> distinct (keys_of (wk_tasks st))
     \<and> dom (map_of (wk_active st)) = set (keys_of (wk_tasks st)) \<and> length (wk_active st) \<le> unat (wc_slots cfg)
     \<and> (\<forall>k tok. map_of (wk_active st) k = Some tok \<longrightarrow>
          (wk_stopping st \<longrightarrow> ct_cancelled tok)
          \<and> (ct_cancelled tok \<longrightarrow> wk_stopping st \<or> map_of (wk_cancelled_queries st) (fst k) \<noteq> None))"

lemma map_of_tokens: "map_of (map (\<lambda>(k, t). (k, f k t)) m) k = map_option (f k) (map_of m k)"
  by (induction m) auto

lemma cancel_all_simps [simp]:
  "bt_ok (cancel_all m) = bt_ok m" "map_of (cancel_all m) k = map_option cancel (map_of m k)" "length (cancel_all m) = length m"
  by (simp_all add: cancel_all_def map_of_tokens)

lemma on_shutdown_inv: "worker_inv cfg st \<Longrightarrow> worker_inv cfg (on_shutdown st)"
  by (auto simp: worker_inv_def on_shutdown_def dom_def cancel_def)

lemma on_cancel_inv: "worker_inv cfg st \<Longrightarrow> worker_inv cfg (on_cancel_query q reason st)"
  by (auto simp: worker_inv_def on_cancel_query_def map_of_tokens dom_def cancel_def)

lemma on_assignment_inv:
  assumes "worker_inv cfg st" and "\<not> wk_stopping st" and "map_of (wk_active st) (task_key task) = None"
    and "on_assignment cfg task lease started st = Inr st'"
  shows "worker_inv cfg st'"
proof (cases started)
  case (Inl e)
  then show ?thesis using assms(1,4) by (auto simp: on_assignment_def rbind_eq_Inr split: if_splits)
next
  case (Inr u)
  let ?active = "bt_insert (task_key task) cancellation_new (wk_active st)"
  have st': "st' = st\<lparr>wk_active := ?active, wk_tasks := wk_tasks st @ [(task, lease)]\<rparr>"
    and room: "length (wk_active st) < unat (wc_slots cfg)"
    using assms(4) Inr by (auto simp: on_assignment_def rbind_eq_Inr)
  have ok: "bt_ok (wk_active st)" "bt_ok ?active" "task_key task \<notin> set (keys_of (wk_tasks st))"
    "dom (map_of (wk_active st)) = set (keys_of (wk_tasks st))"
    using assms(1,3) by (auto simp: worker_inv_def)
  then have "length ?active = Suc (length (wk_active st))"
    using assms(3) by (simp add: bt_length dom_fun_upd card_insert_if)
  then show ?thesis
    using assms(1,2) room ok by (auto simp: worker_inv_def st' keys_of_def cancellation_new_def)
qed

lemma on_poll_inv:
  assumes "worker_inv cfg st" and "\<not> wk_stopping st" and "fresh_reply reply st" and "on_poll cfg reply started st = Inr st'"
  shows "worker_inv cfg st'"
  using assms on_assignment_inv on_cancel_inv
  by (auto simp: on_poll_def rbind_eq_Inr fresh_reply_def split: option.splits coordinator_message.splits)

lemma remove_task:
  assumes "worker_inv cfg st" and "(task, lease) \<in> set (wk_tasks st)"
  shows "worker_inv cfg (st\<lparr>wk_active := bt_remove (task_key task) (wk_active st), wk_tasks := remove1 (task, lease) (wk_tasks st)\<rparr>)"
proof -
  let ?tasks = "remove1 (task, lease) (wk_tasks st)"
  have dist: "distinct (keys_of (wk_tasks st))" using assms(1) by (simp add: worker_inv_def)
  obtain xs ys where split: "wk_tasks st = xs @ (task, lease) # ys" "(task, lease) \<notin> set xs"
    using split_list_first [OF assms(2)] by blast
  then have rm: "?tasks = xs @ ys" by (simp add: remove1_append)
  have "set (keys_of (xs @ ys)) = set (keys_of (wk_tasks st)) - {task_key task}" "distinct (keys_of (xs @ ys))"
    using dist split(1) by (auto simp: keys_of_def)
  moreover have "length (bt_remove (task_key task) (wk_active st)) \<le> unat (wc_slots cfg)"
    using assms(1) by (auto simp: bt_remove_def worker_inv_def intro: le_trans [OF length_filter_le])
  ultimately show ?thesis
    using assms(1) unfolding rm by (auto simp: worker_inv_def dom_def)
qed

lemma stop_at_maximum_inv: "worker_inv cfg st \<Longrightarrow> worker_inv cfg (stop_at_maximum cfg st)"
  by (simp add: stop_at_maximum_def on_shutdown_inv split: option.split)

lemma worker_inv_summary [simp]: "worker_inv cfg (st\<lparr>wk_summary := su\<rparr>) = worker_inv cfg st"
  by (simp add: worker_inv_def)

lemma on_finished_inv:
  assumes "worker_inv cfg st" and "(cp_task c, cp_lease c) \<in> set (wk_tasks st)" and "on_finished cfg shown c reply st = (Inr st', discarded)"
  shows "worker_inv cfg st'"
  using assms(3) remove_task [OF assms(1,2)]
  by (auto simp: on_finished_def Let_def stop_at_maximum_inv split: sum.splits if_splits prod.splits)

lemma worker_step_inv: "worker_inv cfg st \<Longrightarrow> worker_step cfg shown st st' \<Longrightarrow> worker_inv cfg st'"
  by (erule worker_stepE)
    (auto simp: on_joined_def honest_completion_def intro: on_shutdown_inv on_poll_inv on_finished_inv)

interpretation wk: transition_system "\<lambda>st. st = worker_start" "worker_step cfg shown" "worker_inv cfg" for cfg shown
  by unfold_locales (simp add: worker_inv_def worker_start_def keys_of_def, rule worker_step_inv)

lemma reachable_worker_inv: "(worker_step cfg shown)\<^sup>*\<^sup>* worker_start st \<Longrightarrow> worker_inv cfg st"
  by (rule wk.reachable_inv [OF refl])

section \<open>Reports\<close>

lemma finished_state_cong:
  "wk_summary st = wk_summary st' \<Longrightarrow> wk_cancelled_queries st = wk_cancelled_queries st' \<Longrightarrow> wk_stopping st = wk_stopping st'
   \<Longrightarrow> finished_state shown c st = finished_state shown c st'"
  unfolding finished_state_def by (simp only:)

text \<open>What is reported of a finished task, and which of its blocks survive.\<close>

definition accounted :: "task_completion \<Rightarrow> unit result \<Rightarrow> worker_state \<Rightarrow> task_state \<Rightarrow> shuffle_block list \<Rightarrow> bool" where
  "accounted c reply st state discarded \<longleftrightarrow>
     ((\<exists>at reason. state = Cancelled at reason) \<longrightarrow> map_of (wk_cancelled_queries st) (ta_query_id (cp_task c)) \<noteq> None)
     \<and> (case cp_result c of
          Inl e \<Rightarrow> discarded = [] \<and> (\<forall>at blocks. state \<noteq> Succeeded at blocks)
        | Inr out \<Rightarrow> discarded = to_blocks out
            \<or> discarded = [] \<and> reply = Inr () \<and> state = Succeeded (lease_issued_at_ms (cp_lease c)) (to_blocks out))"

lemma on_joined_accounted:
  assumes "worker_inv cfg st" and "honest_completion c st" and "on_joined cfg shown (Inr c) reply st = (r, discarded)"
  shows "accounted c reply st (fst (finished_state shown c st)) discarded"
proof -
  let ?st = "st\<lparr>wk_active := bt_remove (task_key (cp_task c)) (wk_active st), wk_tasks := remove1 (cp_task c, cp_lease c) (wk_tasks st)\<rparr>"
  obtain state su kept where fs: "finished_state shown c st = (state, su, kept)" by (cases "finished_state shown c st")
  have "finished_state shown c ?st = finished_state shown c st" by (rule finished_state_cong) simp_all
  then have disc: "discarded = kept @ (case reply of Inr _ \<Rightarrow> [] | Inl _ \<Rightarrow> uncommitted_blocks state)"
    using assms(3) fs by (auto simp: on_joined_def on_finished_def Let_def split: sum.splits if_splits)
  have token: "wk_stopping st \<or> map_of (wk_cancelled_queries st) (ta_query_id (cp_task c)) \<noteq> None" if "cp_result c = Inl ECancelled"
    using assms(1,2) that by (fastforce simp: worker_inv_def honest_completion_def task_key_def)
  show ?thesis
    using fs disc token
    by (auto simp: accounted_def finished_state_def uncommitted_blocks_def Let_def split: option.splits sum.splits if_splits)
qed

section \<open>Shutting down\<close>

lemma stop_at_maximum_simps [simp]:
  "wk_tasks (stop_at_maximum cfg st) = wk_tasks st" "wk_stopping st \<Longrightarrow> wk_stopping (stop_at_maximum cfg st)"
  by (simp_all add: stop_at_maximum_def on_shutdown_def split: option.split)

lemma stopping_step:
  assumes "wk_stopping st" and "worker_step cfg shown st st'"
  shows "wk_stopping st' \<and> (st' = st \<or> Suc (length (wk_tasks st')) = length (wk_tasks st))"
  using assms(2)
proof cases
  case (joined c reply discarded)
  let ?tasks = "remove1 (cp_task c, cp_lease c) (wk_tasks st)"
  have "wk_tasks st' = ?tasks \<and> wk_stopping st'"
    using joined(3) assms(1) by (auto simp: on_joined_def on_finished_def Let_def split: sum.splits if_splits prod.splits)
  moreover have "Suc (length ?tasks) = length (wk_tasks st)"
    using joined(2) by (auto simp: honest_completion_def length_remove1 Suc_leI dest: length_pos_if_in_set)
  ultimately show ?thesis by simp
qed (use assms(1) in simp_all)


definition small_worker :: worker_config where
  "small_worker = \<lparr>wc_coordinator_endpoint = ''http://c'', wc_worker_id = ''w'', wc_slots = 1, wc_memory_bytes = 100, wc_batch_size = 8,
     wc_channel_capacity = 2, wc_heartbeat_interval_ms = 5000, wc_poll_interval_ms = 100, wc_data_storage_bytes = 100,
     wc_max_terminal_tasks = Some 1\<rparr>"

definition small_task :: task_attempt_id where
  "small_task = \<lparr>ta_query_id = ''q'', ta_stage_id = 0, ta_partition_id = 0, ta_attempt = 0\<rparr>"

definition small_lease :: task_lease where
  "small_lease = \<lparr>lease_worker_id = ''w'', lease_issued_at_ms = 5, lease_expires_at_ms = 10\<rparr>"

definition small_stage :: stage_plan where
  "small_stage = \<lparr>sp_query_id = ''q'', sp_stage_id = 0, sp_input_stages = [], sp_partition_count = 1, sp_plan_fragment = [7],
     sp_output_exchange = None, sp_partitioned_input = False\<rparr>"

definition busy_worker :: worker_state where
  "busy_worker = worker_start\<lparr>wk_active := [(task_key small_task, cancellation_new)], wk_tasks := [(small_task, small_lease)]\<rparr>"


end
