(* ===== verification/Spec2Isabelle.thy ===== *)
theory Spec2Isabelle
  imports Pruning Pushdown_Props Codec_Props Distributed_Props Data_Plane Control_Plane Worker_Task_Props Worker_Props
begin

text \<open>
  SparkX is a distributed query engine: SQL text becomes a logical plan, is optimised, lowered
  to a physical plan, cut into stages, and executed by workers that a coordinator drives.

  Plan of the development, one theory per component:

  \<^item> \<open>Sparkx_Prelude\<close>, \<open>Btree_Map\<close>: machine integers, strings, errors, results, ordered maps,
    state machines.
  \<^item> \<open>Memory\<close>: the query memory budget (\<open>src/runtime/memory.rs\<close>).
  \<^item> \<open>Expr\<close>, \<open>Logical\<close>, \<open>Optimizer\<close>, \<open>Planner\<close>: expressions and plans (\<open>src/query\<close>).
  \<^item> \<open>Plan_Codec\<close>: the wire form of plans (\<open>src/cluster/plan_codec.rs\<close>).
  \<^item> \<open>Protocol\<close>, \<open>Coordinator\<close>, \<open>Control_Plane\<close>: the control protocol and the scheduler.
  \<^item> \<open>Block_Store\<close>: shuffle block storage.
\<close>

end
